(* ===== verification/Prelude.thy ===== *)
theory Prelude
  imports Complex_Main "HOL-Library.AList" "HOL-Library.Sublist" "HOL-Library.Char_ord"
    "HOL-Library.List_Lexorder"
begin

text \<open>
  Shared vocabulary of the development: the Python values, strings, dictionaries and clock
  readings that every component uses, with the generic lemmas about them.

  \<^item> A Python \<^verbatim>\<open>str\<close> is a \<^typ>\<open>string\<close>: the list of its code points, which are below 256 here.
  \<^item> A Python \<^verbatim>\<open>dict\<close> is an association list in insertion order. \<open>AList.update\<close> overwrites an
    existing key in place and appends a new one, as assignment to a subscript does;
    \<open>AList.delete\<close> is \<^verbatim>\<open>pop\<close> with a default.
  \<^item> A clock reading (\<^verbatim>\<open>time.time()\<close>) is a \<^typ>\<open>real\<close>. Rounding of floats is not modelled.
  \<^item> A directory of files is an association list from names to contents; \<open>listdir\<close> is
    \<^verbatim>\<open>sorted(os.listdir(d))\<close>.
\<close>

named_theorems dict_simps \<open>reading dictionaries and directories after an update\<close>
named_theorems str_defs \<open>definitions of the string operations, for evaluation\<close>

type_synonym time = real
type_synonym ('k, 'v) dict = "('k \<times> 'v) list"

abbreviation dget :: "('k, 'v) dict \<Rightarrow> 'k \<Rightarrow> 'v option" where
  "dget d k \<equiv> map_of d k"

abbreviation dset :: "'k \<Rightarrow> 'v \<Rightarrow> ('k, 'v) dict \<Rightarrow> ('k, 'v) dict" where
  "dset k v d \<equiv> AList.update k v d"

abbreviation dpop :: "'k \<Rightarrow> ('k, 'v) dict \<Rightarrow> ('k, 'v) dict" where
  "dpop k d \<equiv> AList.delete k d"

lemma dget_dset [simp, dict_simps]: "dget (dset k v d) j = (if j = k then Some v else dget d j)"
  by (simp add: update_conv)

lemma dget_dpop [simp, dict_simps]: "dget (dpop k d) j = (if j = k then None else dget d j)"
  by (simp add: AList.delete_conv restrict_map_def)

lemma map_of_Some_keys: "dget d k = Some v \<Longrightarrow> k \<in> set (map fst d)"
  by (metis domI dom_map_of_conv_image_fst set_map)

lemma keys_iff_dget: "k \<in> set (map fst d) \<longleftrightarrow> dget d k \<noteq> None"
  by (metis map_of_eq_None_iff set_map)

text \<open>\<open>dict.get(k, default)\<close>\<close>

definition get_or :: "'v \<Rightarrow> ('k, 'v) dict \<Rightarrow> 'k \<Rightarrow> 'v" where
  "get_or v d k = (case dget d k of None \<Rightarrow> v | Some x \<Rightarrow> x)"

text \<open>An optional value as a list of at most one element.\<close>

fun opt_list :: "'a option \<Rightarrow> 'a list" where
  "opt_list None = []"
| "opt_list (Some x) = [x]"

lemma set_opt_list [simp]: "set (opt_list x) = set_option x"
  by (cases x) auto

subsection \<open>Strings\<close>

definition starts_with :: "string \<Rightarrow> string \<Rightarrow> bool" where
  [str_defs]: "starts_with p s \<longleftrightarrow> take (length p) s = p"

definition ends_with :: "string \<Rightarrow> string \<Rightarrow> bool" where
  [str_defs]: "ends_with p s \<longleftrightarrow> starts_with (rev p) (rev s)"

fun contains :: "string \<Rightarrow> string \<Rightarrow> bool" where
  "contains p [] = (p = [])"
| "contains p (c # s) = (starts_with p (c # s) \<or> contains p s)"

text \<open>\<open>str.lower()\<close> on code points below 256.\<close>

definition lower_char :: "char \<Rightarrow> char" where
  [str_defs]: "lower_char c =
     (let n = of_char c :: nat
      in if 65 \<le> n \<and> n \<le> 90 \<or> 192 \<le> n \<and> n \<le> 214 \<or> 216 \<le> n \<and> n \<le> 222
         then char_of (n + 32) else c)"

definition lower :: "string \<Rightarrow> string" where
  [str_defs]: "lower s = map lower_char s"

text \<open>\<open>str.isspace()\<close> on code points below 256, which is what \<open>str.strip()\<close> removes.\<close>

definition is_space :: "char \<Rightarrow> bool" where
  [str_defs]: "is_space c \<longleftrightarrow>
     (let n = of_char c :: nat in 9 \<le> n \<and> n \<le> 13 \<or> 28 \<le> n \<and> n \<le> 32 \<or> n = 133 \<or> n = 160)"

definition lstrip :: "string \<Rightarrow> string" where
  [str_defs]: "lstrip s = dropWhile is_space s"

definition strip :: "string \<Rightarrow> string" where
  [str_defs]: "strip s = rev (dropWhile is_space (rev (dropWhile is_space s)))"

text \<open>\<open>\w\<close> of \<^verbatim>\<open>re\<close> on code points below 256.\<close>

definition is_word :: "char \<Rightarrow> bool" where
  "is_word c = (let n = of_char c :: nat in
     48 \<le> n \<and> n \<le> 57 \<or> 65 \<le> n \<and> n \<le> 90 \<or> n = 95 \<or> 97 \<le> n \<and> n \<le> 122 \<or> n = 170 \<or> n = 178 \<or> n = 179
     \<or> n = 181 \<or> n = 185 \<or> n = 186 \<or> 188 \<le> n \<and> n \<le> 190 \<or> 192 \<le> n \<and> n \<le> 214 \<or> 216 \<le> n \<and> n \<le> 246 \<or> 248 \<le> n)"

lemma starts_with_iff_prefix: "starts_with p s \<longleftrightarrow> prefix p s"
  by (metis append_take_drop_id starts_with_def prefix_def append_eq_conv_conj)

lemma ends_with_iff_suffix: "ends_with p s \<longleftrightarrow> suffix p s"
  by (simp add: ends_with_def starts_with_iff_prefix suffix_to_prefix)

lemma contains_iff_sublist: "contains p s \<longleftrightarrow> sublist p s"
  by (induction s) (auto simp: starts_with_iff_prefix sublist_Cons_right)

lemma ends_with_append [simp]: "ends_with p (s @ p)"
  by (simp add: ends_with_def starts_with_def)

lemma starts_with_append [simp]: "starts_with p (p @ s)"
  by (simp add: starts_with_def)

lemma ends_with_Nil_False: "p \<noteq> [] \<Longrightarrow> \<not> ends_with p []"
  by (simp add: ends_with_def starts_with_def)

lemma ends_with_same_length:
  "length p = length q \<Longrightarrow> ends_with p s \<Longrightarrow> ends_with q s \<Longrightarrow> p = q"
  by (metis ends_with_def starts_with_def length_rev rev_swap)

lemma lower_append: "lower (s @ t) = lower s @ lower t"
  by (simp add: lower_def)

lemma length_lower [simp]: "length (lower s) = length s"
  by (simp add: lower_def)

subsection \<open>Sorting\<close>

text \<open>
  \<open>sorted(xs, key=f)\<close> is a stable sort: \<^const>\<open>insort_key\<close> from the right puts an element
  before the equal ones that follow it.
\<close>

lemma set_sort_names: "set (sort (remdups xs)) = set xs"
  by simp

subsection \<open>Directories of files\<close>

type_synonym 'f dir = "(string, 'f) dict"

definition listdir :: "'f dir \<Rightarrow> string list" where
  "listdir d = sort (remdups (map fst d))"

text \<open>\<open>os.rename(src, dst)\<close>: replaces \<open>dst\<close>; the caller sees FileNotFoundError as \<^const>\<open>None\<close>.\<close>

definition rename :: "string \<Rightarrow> string \<Rightarrow> 'f dir \<Rightarrow> 'f dir option" where
  "rename src dst d = (case dget d src of None \<Rightarrow> None | Some f \<Rightarrow> Some (dset dst f (dpop src d)))"

lemma set_listdir: "set (listdir d) = {n. dget d n \<noteq> None}"
  by (auto simp: listdir_def map_of_eq_None_iff)

lemma distinct_listdir: "distinct (listdir d)"
  by (simp add: listdir_def)

lemma sorted_listdir: "sorted (listdir d)"
  by (simp add: listdir_def)

text \<open>
  The interface that the file-backed components are written against: what a read returns
  after an atomic write or a removal, and that a listing names exactly the files present.
\<close>

locale durable_dir =
  fixes fget :: "'d \<Rightarrow> string \<Rightarrow> 'f option"
    and fput :: "string \<Rightarrow> 'f \<Rightarrow> 'd \<Rightarrow> 'd"
    and fdel :: "string \<Rightarrow> 'd \<Rightarrow> 'd"
    and fnames :: "'d \<Rightarrow> string list"
  assumes fget_fput: "fget (fput n f d) m = (if m = n then Some f else fget d m)"
    and fget_fdel: "fget (fdel n d) m = (if m = n then None else fget d m)"
    and fnames_set: "set (fnames d) = {n. fget d n \<noteq> None}"
    and fnames_distinct: "distinct (fnames d)"
    and fnames_sorted: "sorted (fnames d)"
begin

lemma fnames_fput: "set (fnames (fput n f d)) = insert n (set (fnames d))"
  by (auto simp: fnames_set fget_fput)

lemma fnames_fdel: "set (fnames (fdel n d)) = set (fnames d) - {n}"
  by (auto simp: fnames_set fget_fdel)

lemma fnames_fput_length:
  "length (fnames (fput n f d)) = (if fget d n = None then Suc (length (fnames d)) else length (fnames d))"
proof -
  have card: "length (fnames x) = card (set (fnames x))" for x
    by (simp add: distinct_card fnames_distinct)
  have "n \<in> set (fnames d) \<longleftrightarrow> fget d n \<noteq> None"
    by (simp add: fnames_set)
  then show ?thesis
    unfolding card fnames_fput by (simp add: card_insert_if)
qed

lemma sorted_names_eq:
  assumes "\<And>n. (fget d n = None) = (fget e n = None)"
  shows "fnames d = fnames e"
  using assms by (intro sorted_distinct_set_unique)
    (auto simp: fnames_sorted fnames_distinct fnames_set)

end

interpretation fs: durable_dir "map_of :: 'f dir \<Rightarrow> string \<Rightarrow> 'f option"
  "AList.update" "AList.delete" listdir
  by unfold_locales (auto simp: set_listdir distinct_listdir sorted_listdir)

lemma fold_invariant: "(\<And>x s. x \<in> set xs \<Longrightarrow> I s \<Longrightarrow> I (f x s)) \<Longrightarrow> I s \<Longrightarrow> I (fold f xs s)"
  by (induction xs arbitrary: s) auto

subsection \<open>Passes over a listing\<close>

text \<open>
  The shape of the sweeps over a directory: the keys are fixed when the sweep starts, each is
  handled in turn, and an exception (an outcome that satisfies \<open>stop\<close>) ends the sweep.
\<close>

fun pass :: "('k \<Rightarrow> 's \<Rightarrow> 'a \<times> 's) \<Rightarrow> ('a \<Rightarrow> bool) \<Rightarrow> 'k list \<Rightarrow> 's \<Rightarrow> ('k \<times> 'a) list \<times> 's" where
  "pass step stop [] s = ([], s)"
| "pass step stop (k # ks) s =
     (case step k s of (a, s') \<Rightarrow>
        (if stop a then ([(k, a)], s')
         else case pass step stop ks s' of (acts, s'') \<Rightarrow> ((k, a) # acts, s'')))"

lemma pass_Cons_cases:
  assumes "pass step stop (k # ks) s = (acts, s')"
  obtains a s1 where "step k s = (a, s1)" "stop a" "acts = [(k, a)]" "s' = s1"
    | a s1 acts' where "step k s = (a, s1)" "\<not> stop a" "pass step stop ks s1 = (acts', s')"
        "acts = (k, a) # acts'"
  using assms by (auto split: prod.splits if_splits)

lemma pass_keys: "pass step stop ks s = (acts, s') \<Longrightarrow> prefix (map fst acts) ks"
  by (induction ks arbitrary: s acts) (auto elim!: pass_Cons_cases simp del: pass.simps(2))

lemma pass_all_keys:
  "pass step stop ks s = (acts, s') \<Longrightarrow> \<forall>(k, a) \<in> set acts. \<not> stop a \<Longrightarrow> map fst acts = ks"
  by (induction ks arbitrary: s acts) (auto elim!: pass_Cons_cases simp del: pass.simps(2))

lemma pass_invariant:
  assumes "\<And>k s a s'. step k s = (a, s') \<Longrightarrow> I s \<Longrightarrow> I s'"
    and "pass step stop ks s = (acts, s')" and "I s"
  shows "I s'"
  using assms(2,3)
  by (induction ks arbitrary: s acts)
    (auto elim!: pass_Cons_cases simp del: pass.simps(2) dest: assms(1))

lemma pass_no_stop:
  assumes "\<And>k s a s'. step k s = (a, s') \<Longrightarrow> I s \<Longrightarrow> I s' \<and> \<not> stop a"
    and "pass step stop ks s = (acts, s')" and "I s"
  shows "map fst acts = ks \<and> I s'"
  using assms(2,3)
  by (induction ks arbitrary: s acts)
    (auto elim!: pass_Cons_cases simp del: pass.simps(2) dest: assms(1))

text \<open>
  The contract between a sweep and what it sweeps: handling a key leaves what the state holds
  under every other key as it was.
\<close>

locale keyed_pass =
  fixes step :: "'k \<Rightarrow> 's \<Rightarrow> 'a \<times> 's"
    and stop :: "'a \<Rightarrow> bool"
    and look :: "'s \<Rightarrow> 'k \<Rightarrow> 'v"
  assumes step_frame: "step k s = (a, s') \<Longrightarrow> j \<noteq> k \<Longrightarrow> look s' j = look s j"
begin

lemma pass_frame: "pass step stop ks s = (acts, s') \<Longrightarrow> j \<notin> set ks \<Longrightarrow> look s' j = look s j"
  by (induction ks arbitrary: s acts)
    (auto elim!: pass_Cons_cases simp del: pass.simps(2) simp: step_frame)

lemma pass_skipped:
  "pass step stop ks s = (acts, s') \<Longrightarrow> j \<notin> fst ` set acts \<Longrightarrow> look s' j = look s j"
  by (induction ks arbitrary: s acts)
    (auto elim!: pass_Cons_cases simp del: pass.simps(2) simp: step_frame)

lemma pass_visited:
  assumes "pass step stop ks s = (acts, s')" and "distinct ks" and "(j, a) \<in> set acts"
  shows "\<exists>s1 s2. step j s1 = (a, s2) \<and> look s1 j = look s j \<and> look s' j = look s2 j"
  using assms
proof (induction ks arbitrary: s acts)
  case Nil
  then show ?case by simp
next
  case (Cons k ks)
  from Cons.prems(1) show ?case
  proof (cases rule: pass_Cons_cases)
    case (1 b s1)
    with Cons.prems(3) show ?thesis by auto
  next
    case (2 b s1 acts')
    show ?thesis
    proof (cases "j = k")
      case True
      have "set (map fst acts') \<subseteq> set ks"
        using pass_keys[OF 2(3)] by (metis set_mono_prefix)
      with True Cons.prems(2,3) 2(4) have "a = b" by force
      moreover have "look s' k = look s1 k"
        using 2(3) Cons.prems(2) by (auto intro: pass_frame)
      ultimately show ?thesis using True 2(1) by blast
    next
      case False
      then have "(j, a) \<in> set acts'" using Cons.prems(3) 2(4) by simp
      then show ?thesis
        using Cons.IH[OF 2(3)] Cons.prems(2) step_frame[OF 2(1)] False by auto
    qed
  qed
qed

lemma pass_stops_before:
  assumes "pass step stop (ks @ k # ls) s = (acts, s')"
    and "\<And>s1 a s2. look s1 k = look s k \<Longrightarrow> step k s1 = (a, s2) \<Longrightarrow> stop a"
    and "k \<notin> set ks"
  shows "fst ` set acts \<subseteq> insert k (set ks)"
  using assms
proof (induction ks arbitrary: s acts)
  case Nil
  then show ?case by (auto elim!: pass_Cons_cases simp del: pass.simps(2))
next
  case (Cons j ks)
  from Cons.prems(1) have "pass step stop (j # (ks @ k # ls)) s = (acts, s')" by simp
  then show ?case
  proof (cases rule: pass_Cons_cases)
    case 1
    then show ?thesis by simp
  next
    case (2 b s1 acts')
    then have "look s1 k = look s k" using step_frame Cons.prems(3) by (metis list.set_intros(1))
    then have "fst ` set acts' \<subseteq> insert k (set ks)"
      using Cons.IH[OF 2(3)] Cons.prems(2,3) by auto
    then show ?thesis using 2(4) by auto
  qed
qed

end

end
