(* ===== verification/PushQueue.thy ===== *)
theory PushQueue
  imports Prelude
begin

text \<open>
  The durable push queue (\<^verbatim>\<open>src/src/data_olympus/push_queue.py\<close>): one JSON file per commit that
  awaits \<^verbatim>\<open>git push\<close>, and the drain pass that publishes, retries, demotes, defers or freezes
  each of them.

  The queue directory is a directory of \<open>qfile\<close>s. The optional keys of an entry
  (\<open>attempts\<close>, \<open>non_ff_attempts\<close>, \<open>frozen\<close>, \<open>recovered\<close>) hold the default the
  code reads when they are absent. \<open>push_fn\<close> and \<open>on_rebase_conflict\<close> are callbacks the
  caller supplies; they act on a world \<open>'w\<close> that is not the queue directory, and their
  exceptions are values. A write to the directory succeeds (a full disk is not modelled).
\<close>

record 'm qentry =
  q_sha :: string
  q_worktree_path :: string
  q_meta :: 'm
  q_enqueued_at :: time
  q_attempts :: int
  q_last_error :: string
  q_last_error_at :: "time option"
  q_non_ff_attempts :: int
  q_frozen :: bool
  q_recovered :: bool

datatype 'm qfile = QCorrupt | QEntry "'m qentry"

record 'm push_queue =
  q_root :: "'m qfile dir"
  q_frozen_skip_logged :: "string list"

datatype push_outcome =
    PushOk
  | RebaseConflictError string
  | NonFastForwardError string
  | ClaimEvidenceAtRiskError
  | PushError string

record ('w, 'm) drain_env =
  push_fn :: "'w \<Rightarrow> string \<Rightarrow> push_outcome \<times> 'w"
  on_rebase_conflict :: "('w \<Rightarrow> 'm qentry \<Rightarrow> bool \<times> 'w) option"
  clock :: "'w \<Rightarrow> time"
  max_attempts :: int

definition json_ext :: string where "json_ext = ''.json''"

definition entry_name :: "string \<Rightarrow> string" where
  "entry_name sha = sha @ ''.json''"

subsection \<open>Operations\<close>

definition new_entry :: "string \<Rightarrow> string \<Rightarrow> 'm \<Rightarrow> time \<Rightarrow> bool \<Rightarrow> 'm qentry" where
  "new_entry sha wt m now rec =
     \<lparr>q_sha = sha, q_worktree_path = wt, q_meta = m, q_enqueued_at = now, q_attempts = 0,
      q_last_error = '''', q_last_error_at = None, q_non_ff_attempts = 0, q_frozen = False,
      q_recovered = rec\<rparr>"

definition enqueue :: "string \<Rightarrow> string \<Rightarrow> 'm \<Rightarrow> time \<Rightarrow> 'm push_queue \<Rightarrow> 'm push_queue" where
  "enqueue sha wt m now q =
     q\<lparr>q_root := dset (entry_name sha) (QEntry (new_entry sha wt m now False)) (q_root q)\<rparr>"

definition size_q :: "'m push_queue \<Rightarrow> nat" where
  "size_q q = length (filter (ends_with json_ext) (listdir (q_root q)))"

fun is_frozen_file :: "'m qfile option \<Rightarrow> bool" where
  "is_frozen_file (Some (QEntry e)) = q_frozen e"
| "is_frozen_file _ = False"

definition frozen_count :: "'m push_queue \<Rightarrow> nat" where
  "frozen_count q =
     length (filter (\<lambda>n. ends_with json_ext n \<and> is_frozen_file (dget (q_root q) n)) (listdir (q_root q)))"

definition record_retry ::
  "'m qentry \<Rightarrow> string \<Rightarrow> time \<Rightarrow> int option \<Rightarrow> bool \<Rightarrow> 'm qentry" where
  "record_retry e err now max_att reset_non_ff =
     (let e1 = e\<lparr>q_attempts := q_attempts e + 1, q_last_error := err, q_last_error_at := Some now\<rparr>;
          e2 = (if reset_non_ff \<and> q_non_ff_attempts e1 \<noteq> 0 then e1\<lparr>q_non_ff_attempts := 0\<rparr> else e1)
      in case max_att of
           Some m \<Rightarrow> (if m \<le> q_attempts e2 then e2\<lparr>q_frozen := True\<rparr> else e2)
         | None \<Rightarrow> e2)"

text \<open>\<open>_demote\<close>: \<^const>\<open>True\<close> when the callback took the entry over (the file is then removed).\<close>

fun demote :: "('w \<Rightarrow> 'm qentry \<Rightarrow> bool \<times> 'w) option \<Rightarrow> 'w \<Rightarrow> 'm qentry \<Rightarrow> bool \<times> 'w" where
  "demote None w e = (False, w)"
| "demote (Some cb) w e = cb w e"

definition non_ff_demote_after :: int where "non_ff_demote_after = 5"

text \<open>
  What one iteration of the drain loop did with a name. \<open>Raised\<close> is the exception that
  \<^verbatim>\<open>json.load\<close> throws on a damaged file: it is not caught and leaves \<open>drain\<close>.
\<close>

datatype action =
    NotJson | Vanished | Raised | SkippedFrozen | Published
  | Demoted string | Retried | Deferred

definition put_entry :: "string \<Rightarrow> 'm qentry \<Rightarrow> 'm push_queue \<Rightarrow> 'm push_queue" where
  "put_entry name e q = q\<lparr>q_root := dset name (QEntry e) (q_root q)\<rparr>"

definition drop_entry :: "string \<Rightarrow> 'm push_queue \<Rightarrow> 'm push_queue" where
  "drop_entry name q = q\<lparr>q_root := dpop name (q_root q)\<rparr>"

definition announce_frozen :: "string \<Rightarrow> 'm push_queue \<Rightarrow> 'm push_queue" where
  "announce_frozen sha q =
     (if sha \<in> set (q_frozen_skip_logged q) then q
      else q\<lparr>q_frozen_skip_logged := q_frozen_skip_logged q @ [sha]\<rparr>)"

definition on_conflict ::
  "('w, 'm) drain_env \<Rightarrow> string \<Rightarrow> 'm qentry \<Rightarrow> string \<Rightarrow> 'w \<Rightarrow> 'm push_queue
   \<Rightarrow> action \<times> 'w \<times> 'm push_queue" where
  "on_conflict env name e detail w q =
     (case demote (on_rebase_conflict env) w e of
        (True, w') \<Rightarrow> (Demoted (''rebase_conflict: '' @ detail), w', drop_entry name q)
      | (False, w') \<Rightarrow>
          (Retried, w', put_entry name
             (record_retry e (''rebase_conflict: '' @ detail) (clock env w') None True) q))"

definition on_non_ff ::
  "('w, 'm) drain_env \<Rightarrow> string \<Rightarrow> 'm qentry \<Rightarrow> string \<Rightarrow> 'w \<Rightarrow> 'm push_queue
   \<Rightarrow> action \<times> 'w \<times> 'm push_queue" where
  "on_non_ff env name e detail w q =
     (let n = q_non_ff_attempts e + 1;
          e' = e\<lparr>q_non_ff_attempts := n\<rparr>;
          (demoted, w') = (if non_ff_demote_after \<le> n
                           then demote (on_rebase_conflict env) w e' else (False, w))
      in if demoted then (Demoted (''non_fast_forward_contention: '' @ detail), w', drop_entry name q)
         else (Retried, w', put_entry name
                (record_retry e' (''non_fast_forward: '' @ detail) (clock env w')
                   (Some (max_attempts env)) False) q))"

definition push_entry ::
  "('w, 'm) drain_env \<Rightarrow> string \<Rightarrow> 'm qentry \<Rightarrow> 'w \<Rightarrow> 'm push_queue
   \<Rightarrow> action \<times> 'w \<times> 'm push_queue" where
  "push_entry env name e w q =
     (case push_fn env w (q_worktree_path e) of
        (PushOk, w') \<Rightarrow> (Published, w', drop_entry name q)
      | (RebaseConflictError d, w') \<Rightarrow> on_conflict env name e d w' q
      | (NonFastForwardError d, w') \<Rightarrow> on_non_ff env name e d w' q
      | (ClaimEvidenceAtRiskError, w') \<Rightarrow> (Deferred, w', q)
      | (PushError err, w') \<Rightarrow>
          (Retried, w', put_entry name
             (record_retry e err (clock env w') (Some (max_attempts env)) True) q))"

definition drain_name ::
  "('w, 'm) drain_env \<Rightarrow> string \<Rightarrow> 'w \<Rightarrow> 'm push_queue \<Rightarrow> action \<times> 'w \<times> 'm push_queue" where
  "drain_name env name w q =
     (if \<not> ends_with json_ext name then (NotJson, w, q)
      else case dget (q_root q) name of
             None \<Rightarrow> (Vanished, w, q)
           | Some QCorrupt \<Rightarrow> (Raised, w, q)
           | Some (QEntry e) \<Rightarrow>
               (if q_frozen e then (SkippedFrozen, w, announce_frozen (q_sha e) q)
                else push_entry env name e w q))"

text \<open>The loop over the listing taken when the pass starts. An exception ends it.\<close>

definition drain_step ::
  "('w, 'm) drain_env \<Rightarrow> string \<Rightarrow> 'w \<times> 'm push_queue \<Rightarrow> action \<times> 'w \<times> 'm push_queue" where
  "drain_step env name s = (case s of (w, q) \<Rightarrow> drain_name env name w q)"

definition drain ::
  "('w, 'm) drain_env \<Rightarrow> 'w \<Rightarrow> 'm push_queue \<Rightarrow> (string \<times> action) list \<times> 'w \<times> 'm push_queue" where
  "drain env w q = pass (drain_step env) (\<lambda>a. a = Raised) (listdir (q_root q)) (w, q)"

text \<open>
  \<open>init_recovery\<close>: the worktrees are the directories found under the worktree root, each with
  the shas that \<open>list_unpushed_shas\<close> reports for it; the empty \<open>meta\<close> is a parameter.
\<close>

definition recover_sha :: "'m \<Rightarrow> time \<Rightarrow> string \<Rightarrow> string \<Rightarrow> 'm push_queue \<Rightarrow> 'm push_queue" where
  "recover_sha m0 now wt sha q =
     (if dget (q_root q) (entry_name sha) \<noteq> None then q
      else put_entry (entry_name sha) (new_entry sha wt m0 now True) q)"

definition init_recovery ::
  "'m \<Rightarrow> time \<Rightarrow> (string \<Rightarrow> string list) \<Rightarrow> (string \<times> string) list \<Rightarrow> 'm push_queue \<Rightarrow> 'm push_queue" where
  "init_recovery m0 now list_unpushed wts q =
     fold (\<lambda>(nm, wt) q.
             if ends_with ''.meta.json'' nm then q
             else fold (recover_sha m0 now wt) (list_unpushed wt) q) wts q"

subsection \<open>One iteration of the drain loop\<close>

named_theorems drain_defs \<open>the branches of one drain iteration\<close>

lemmas [drain_defs] = drain_name_def push_entry_def on_conflict_def on_non_ff_def
  put_entry_def drop_entry_def announce_frozen_def

text \<open>The commit an entry stands for: what no retry may change.\<close>

definition same_commit :: "'m qentry \<Rightarrow> 'm qentry \<Rightarrow> bool" where
  "same_commit a b \<longleftrightarrow> q_sha a = q_sha b \<and> q_worktree_path a = q_worktree_path b
     \<and> q_meta a = q_meta b \<and> q_enqueued_at a = q_enqueued_at b \<and> q_recovered a = q_recovered b"

lemma same_commit_refl [simp]: "same_commit e e"
  by (simp add: same_commit_def)

lemma same_commit_trans: "same_commit a b \<Longrightarrow> same_commit b c \<Longrightarrow> same_commit a c"
  by (simp add: same_commit_def)

lemma same_commit_retry [simp]:
  "same_commit e (record_retry e err now m r)"
  "same_commit e (record_retry (e\<lparr>q_non_ff_attempts := n\<rparr>) err now m r)"
  by (auto simp: same_commit_def record_retry_def Let_def split: option.splits)

lemma attempts_retry [simp]: "q_attempts (record_retry e err now m r) = q_attempts e + 1"
  by (auto simp: record_retry_def Let_def split: option.splits)

lemma frozen_retry:
  "q_frozen (record_retry e err now m r)
     \<longleftrightarrow> q_frozen e \<or> (\<exists>k. m = Some k \<and> k \<le> q_attempts e + 1)"
  by (auto simp: record_retry_def Let_def split: option.splits)

lemma non_ff_retry_keep [simp]:
  "q_non_ff_attempts (record_retry e err now m False) = q_non_ff_attempts e"
  by (auto simp: record_retry_def Let_def split: option.splits)

lemma non_ff_retry_reset [simp]:
  "q_non_ff_attempts (record_retry e err now m True) = 0"
  by (auto simp: record_retry_def Let_def split: option.splits)

lemma drain_name_frame:
  "drain_name env n w q = (a, w', q') \<Longrightarrow> m \<noteq> n \<Longrightarrow> dget (q_root q') m = dget (q_root q) m"
  by (auto simp: drain_defs Let_def split: if_splits option.splits qfile.splits prod.splits
      push_outcome.splits bool.splits)

lemma drain_name_absent:
  "drain_name env n w q = (a, w', q') \<Longrightarrow> dget (q_root q) n = None \<Longrightarrow> dget (q_root q') n = None"
  by (auto simp: drain_defs split: if_splits)



lemma drain_name_frozen:
  "dget (q_root q) n = Some (QEntry e) \<Longrightarrow> q_frozen e \<Longrightarrow> ends_with json_ext n \<Longrightarrow>
   drain_name env n w q = (SkippedFrozen, w, announce_frozen (q_sha e) q)"
  by (simp add: drain_name_def)

lemma announce_root [simp]: "q_root (announce_frozen s q) = q_root q"
  by (simp add: announce_frozen_def)

lemma drain_name_logged:
  "drain_name env n w q = (a, w', q') \<Longrightarrow>
   \<exists>new. q_frozen_skip_logged q' = q_frozen_skip_logged q @ new"
  by (auto simp: drain_defs Let_def split: if_splits option.splits qfile.splits prod.splits
      push_outcome.splits bool.splits)

lemma drain_name_logged_distinct:
  "drain_name env n w q = (a, w', q') \<Longrightarrow> distinct (q_frozen_skip_logged q) \<Longrightarrow>
   distinct (q_frozen_skip_logged q')"
  by (auto simp: drain_defs Let_def split: if_splits option.splits qfile.splits prod.splits
      push_outcome.splits bool.splits)

subsection \<open>The whole pass\<close>

interpretation dp: keyed_pass "drain_step env" "\<lambda>a. a = Raised"
  "\<lambda>s :: 'w \<times> 'm push_queue. dget (q_root (snd s))" for env :: "('w, 'm) drain_env"
  by unfold_locales (auto simp: drain_step_def intro: drain_name_frame split: prod.splits)

lemma drain_visited:
  assumes "drain env w q = (acts, w', q')" and "(n, a) \<in> set acts"
  shows "\<exists>w1 q1 w2 q2. drain_name env n w1 q1 = (a, w2, q2)
    \<and> dget (q_root q1) n = dget (q_root q) n \<and> dget (q_root q') n = dget (q_root q2) n"
  using dp.pass_visited[OF assms(1)[unfolded drain_def] distinct_listdir assms(2)]
  by (force simp: drain_step_def split: prod.splits)

lemma drain_skipped:
  "drain env w q = (acts, w', q') \<Longrightarrow> n \<notin> fst ` set acts \<Longrightarrow> dget (q_root q') n = dget (q_root q) n"
  using dp.pass_skipped[of env "listdir (q_root q)" "(w, q)"] by (auto simp: drain_def)

lemma drain_invariant:
  assumes "\<And>n w q a w' q'. drain_name env n w q = (a, w', q') \<Longrightarrow> I q \<Longrightarrow> I q'"
    and "drain env w q = (acts, w', q')" and "I q"
  shows "I q'"
  using pass_invariant[of "drain_step env" "\<lambda>s. I (snd s)", OF _ assms(2)[unfolded drain_def]] assms(1,3)
  by (fastforce simp: drain_step_def split: prod.splits)


text \<open>A concrete environment for the witnesses: the world counts pushes and is also the clock.\<close>

definition ex_env :: "(string \<Rightarrow> push_outcome) \<Rightarrow> bool \<Rightarrow> int \<Rightarrow> (nat, unit) drain_env" where
  "ex_env out cb m = \<lparr>push_fn = (\<lambda>w wt. (out wt, Suc w)),
     on_rebase_conflict = (if cb then Some (\<lambda>w e. (True, w)) else None),
     clock = real, max_attempts = m\<rparr>"

definition ex_entry :: "int \<Rightarrow> int \<Rightarrow> bool \<Rightarrow> unit qentry" where
  "ex_entry att nff frz = (new_entry ''a1'' ''/wt'' () 0 False)
     \<lparr>q_attempts := att, q_non_ff_attempts := nff, q_frozen := frz\<rparr>"

definition ex_queue :: "unit qfile \<Rightarrow> unit push_queue" where
  "ex_queue f = \<lparr>q_root = [(''a1.json'', f)], q_frozen_skip_logged = []\<rparr>"

lemmas ex_defs = ex_env_def ex_entry_def ex_queue_def new_entry_def

lemma listdir_single [simp]: "listdir [(n, f)] = [n]"
  by (simp add: listdir_def)

lemma json_ext_a1 [simp]: "ends_with json_ext ''a1.json''"
  by (simp add: json_ext_def ends_with_def starts_with_def)


text \<open>A frozen entry is never pushed again: whatever the remote would answer, a pass leaves the
  entry as it is on disk, and the only thing it does with it is to skip it.\<close>

theorem drain_skips_frozen:
  assumes "drain env w q = (acts, w', q')" and "dget (q_root q) n = Some (QEntry e)"
    and "q_frozen e" and "ends_with json_ext n"
  shows "dget (q_root q') n = Some (QEntry e) \<and> (\<forall>a. (n, a) \<in> set acts \<longrightarrow> a = SkippedFrozen)"
proof (cases "n \<in> fst ` set acts")
  case True
  have "dget (q_root q') n = Some (QEntry e) \<and> a = SkippedFrozen" if "(n, a) \<in> set acts" for a
    using drain_visited[OF assms(1) that] assms(2-4) by (auto simp: drain_name_frozen)
  with True show ?thesis by force
next
  case False
  then show ?thesis using drain_skipped[OF assms(1) False] assms(2) by force
qed

theorem drain_skips_frozen_witness:
  "dget (q_root (snd (snd (drain (ex_env (\<lambda>_. PushOk) False 3) 0 (ex_queue (QEntry (ex_entry 3 0 True))))))) ''a1.json''
     = Some (QEntry (ex_entry 3 0 True))"
proof -
  have d: "drain (ex_env (\<lambda>_. PushOk) False 3) 0 (ex_queue (QEntry (ex_entry 3 0 True)))
    = ([(''a1.json'', SkippedFrozen)], 0, (ex_queue (QEntry (ex_entry 3 0 True)))\<lparr>q_frozen_skip_logged := [''a1'']\<rparr>)"
    by (simp add: drain_def drain_step_def drain_defs ex_defs)
  show ?thesis
    using drain_skips_frozen[OF d, of "''a1.json''" "ex_entry 3 0 True"] unfolding d
    by (simp add: ex_defs)
qed

text \<open>A damaged queue file starves the entries behind it: the pass ends with an exception at the
  latest when it reaches the file, so no entry whose name sorts after it is looked at, however
  often the pass is run.\<close>

theorem drain_corrupt_starves:
  assumes "drain env w q = (acts, w', q')" and "dget (q_root q) c = Some QCorrupt"
    and "ends_with json_ext c" and "c < n"
  shows "n \<notin> fst ` set acts \<and> dget (q_root q') n = dget (q_root q) n
    \<and> dget (q_root q') c = Some QCorrupt"
proof -
  have "c \<in> set (listdir (q_root q))" using assms(2) by (simp add: set_listdir)
  then obtain ks ls where l: "listdir (q_root q) = ks @ c # ls" by (meson split_list)
  have ks: "c \<notin> set ks" "n \<notin> set ks"
    using distinct_listdir[of "q_root q"] sorted_listdir[of "q_root q"] assms(4)
    by (auto simp: l sorted_append)
  have "fst ` set acts \<subseteq> insert c (set ks)"
    using assms(1) ks(1) assms(2,3) unfolding drain_def l
    by (rule_tac dp.pass_stops_before) (auto simp: drain_step_def drain_name_def split: prod.splits)
  with ks assms(4) have n: "n \<notin> fst ` set acts" by auto
  have "dget (q_root q') c = Some QCorrupt"
  proof (cases "c \<in> fst ` set acts")
    case True
    then obtain a where "(c, a) \<in> set acts" by force
    from drain_visited[OF assms(1) this] assms(2,3) show ?thesis
      by (auto simp: drain_name_def)
  next
    case False
    then show ?thesis using drain_skipped[OF assms(1)] assms(2) by simp
  qed
  with n drain_skipped[OF assms(1) n] show ?thesis by simp
qed

theorem drain_corrupt_starves_witness:
  "dget (q_root (snd (snd (drain (ex_env (\<lambda>_. PushOk) False 3) 0
      \<lparr>q_root = [(''a0.json'', QCorrupt), (''a1.json'', QEntry (ex_entry 0 0 False))], q_frozen_skip_logged = []\<rparr>)))) ''a1.json''
     = Some (QEntry (ex_entry 0 0 False))"
proof -
  let ?q = "\<lparr>q_root = [(''a0.json'', QCorrupt), (''a1.json'', QEntry (ex_entry 0 0 False))], q_frozen_skip_logged = []\<rparr>"
  have "listdir (q_root ?q) = [''a0.json'', ''a1.json'']" by (simp add: listdir_def)
  then have d: "drain (ex_env (\<lambda>_. PushOk) False 3) 0 ?q = ([(''a0.json'', Raised)], 0, ?q)"
    by (simp add: drain_def drain_step_def drain_name_def json_ext_def ends_with_def starts_with_def)
  show ?thesis
    using drain_corrupt_starves[OF d, of "''a0.json''" "''a1.json''"] unfolding d
    by (simp add: json_ext_def ends_with_def starts_with_def)
qed

subsection \<open>Repeated passes\<close>

fun drains :: "nat \<Rightarrow> ('w, 'm) drain_env \<Rightarrow> 'w \<Rightarrow> 'm push_queue \<Rightarrow> 'w \<times> 'm push_queue" where
  "drains 0 env w q = (w, q)"
| "drains (Suc k) env w q = (case drain env w q of (acts, w', q') \<Rightarrow> drains k env w' q')"

definition readable :: "'m push_queue \<Rightarrow> bool" where
  "readable q \<longleftrightarrow> (\<forall>n. dget (q_root q) n \<noteq> Some QCorrupt)"

lemma drain_name_readable:
  "drain_name env n w q = (a, w', q') \<Longrightarrow> readable q \<Longrightarrow> readable q' \<and> a \<noteq> Raised"
  by (auto simp: drain_defs readable_def Let_def split: if_splits option.splits qfile.splits prod.splits
      push_outcome.splits bool.splits)

lemma drain_complete:
  assumes "drain env w q = (acts, w', q')" and "readable q"
  shows "map fst acts = listdir (q_root q) \<and> readable q'"
proof -
  have "\<And>k s a s'. drain_step env k s = (a, s') \<Longrightarrow> readable (snd s) \<Longrightarrow> readable (snd s') \<and> a \<noteq> Raised"
    by (auto simp: drain_step_def dest: drain_name_readable split: prod.splits)
  from pass_no_stop[of _ "\<lambda>s. readable (snd s)", OF this assms(1)[unfolded drain_def]] assms(2)
  show ?thesis by simp
qed

text \<open>A pass over a readable queue acts on an entry exactly as one iteration of the loop does.\<close>

lemma drain_acts_once:
  assumes "drain env w q = (acts, w', q')" and "readable q" and "dget (q_root q) n = Some f"
  obtains a w1 q1 w2 q2 where "(n, a) \<in> set acts" "drain_name env n w1 q1 = (a, w2, q2)"
    "dget (q_root q1) n = Some f" "dget (q_root q') n = dget (q_root q2) n"
proof -
  have "n \<in> fst ` set acts"
    using drain_complete[OF assms(1,2)] assms(3) set_listdir[of "q_root q"]
    by (metis (mono_tags, lifting) list.set_map mem_Collect_eq option.distinct(1))
  then obtain a where "(n, a) \<in> set acts" by force
  from this drain_visited[OF assms(1) this] assms(3) that show thesis by metis
qed

lemma drain_absent:
  assumes "drain env w q = (acts, w', q')" and "dget (q_root q) n = None"
  shows "dget (q_root q') n = None"
proof (rule drain_invariant[where I = "\<lambda>q. dget (q_root q) n = None", OF _ assms])
  show "dget (q_root q2) n = None"
    if "drain_name env m w q = (a, w2, q2)" "dget (q_root q) n = None" for m w a w2 and q q2 :: "'b push_queue"
    using that by (cases "m = n") (auto dest: drain_name_frame drain_name_absent)
qed

lemma drains_absent: "dget (q_root q) n = None \<Longrightarrow> dget (q_root (snd (drains k env w q))) n = None"
  by (induction k arbitrary: w q) (auto split: prod.splits dest: drain_absent)

definition contended :: "('w, 'm) drain_env \<Rightarrow> string \<Rightarrow> bool" where
  "contended env wt \<longleftrightarrow> (\<forall>w. \<exists>d w'. push_fn env w wt = (NonFastForwardError d, w'))"

definition accepts_demotion :: "('w, 'm) drain_env \<Rightarrow> bool" where
  "accepts_demotion env \<longleftrightarrow> (\<exists>cb. on_rebase_conflict env = Some cb \<and> (\<forall>w e. fst (cb w e)))"

lemma contended_drain_name:
  assumes "contended env (q_worktree_path e)" and "accepts_demotion env"
    and "dget (q_root q) n = Some (QEntry e)" and "\<not> q_frozen e" and "ends_with json_ext n"
    and "drain_name env n w q = (a, w', q')"
  shows "if 4 \<le> q_non_ff_attempts e then dget (q_root q') n = None
    else \<exists>e'. dget (q_root q') n = Some (QEntry e') \<and> same_commit e e'
      \<and> q_non_ff_attempts e' = q_non_ff_attempts e + 1 \<and> q_attempts e' = q_attempts e + 1
      \<and> (q_frozen e' \<longleftrightarrow> max_attempts env \<le> q_attempts e + 1)"
proof -
  obtain d w1 where "push_fn env w (q_worktree_path e) = (NonFastForwardError d, w1)"
    using assms(1) unfolding contended_def by blast
  moreover obtain cb where "on_rebase_conflict env = Some cb" "\<And>w e. fst (cb w e)"
    using assms(2) unfolding accepts_demotion_def by blast
  ultimately show ?thesis using assms(3-6)
    by (auto simp: drain_defs non_ff_demote_after_def Let_def frozen_retry split: if_splits prod.splits bool.splits)
      (metis fst_conv)+
qed

text \<open>Contention is bounded: an entry whose push always loses the race, with a working demotion
  callback, has left the queue after as many passes as are missing to five consecutive losses,
  provided its retry budget is larger than that.\<close>

theorem contention_demotes:
  assumes "contended env (q_worktree_path e)" and "accepts_demotion env" and "readable q"
    and "dget (q_root q) n = Some (QEntry e)" and "\<not> q_frozen e" and "ends_with json_ext n"
    and "q_attempts e + (4 - q_non_ff_attempts e) < max_attempts env"
    and "k = nat (max 1 (5 - q_non_ff_attempts e))"
  shows "dget (q_root (snd (drains k env w q))) n = None"
  using assms
proof (induction k arbitrary: e w q)
  case 0
  then show ?case by auto
next
  case (Suc k)
  obtain acts w1 q1 where d: "drain env w q = (acts, w1, q1)" by (metis prod_cases3)
  have r1: "readable q1" using drain_complete[OF d Suc.prems(3)] by simp
  obtain a w2 q2 w3 q3 where a: "drain_name env n w2 q2 = (a, w3, q3)"
    "dget (q_root q2) n = Some (QEntry e)" "dget (q_root q1) n = dget (q_root q3) n"
    using drain_acts_once[OF d Suc.prems(3,4)] by metis
  have step: "drains (Suc k) env w q = drains k env w1 q1" using d by simp
  note c = contended_drain_name[OF Suc.prems(1,2) a(2) Suc.prems(5,6) a(1), folded a(3)]
  show ?case
  proof (cases "4 \<le> q_non_ff_attempts e")
    case True
    with c have "dget (q_root q1) n = None" by simp
    then show ?thesis unfolding step by (rule drains_absent)
  next
    case False
    with c obtain e' where e': "dget (q_root q1) n = Some (QEntry e')" "same_commit e e'"
      "q_non_ff_attempts e' = q_non_ff_attempts e + 1" "q_attempts e' = q_attempts e + 1"
      "q_frozen e' \<longleftrightarrow> max_attempts env \<le> q_attempts e + 1" by auto
    have "q_worktree_path e' = q_worktree_path e" using e'(2) by (simp add: same_commit_def)
    with Suc.prems(1) have "contended env (q_worktree_path e')" by simp
    then show ?thesis unfolding step
      using False e' Suc.prems(7,8) by (intro Suc.IH[of e']) (simp_all add: r1 Suc.prems(2,6))
  qed
qed

theorem contention_demotes_witness:
  "dget (q_root (snd (drains 5 (ex_env (\<lambda>_. NonFastForwardError ''lost'') True 30) 0
      (ex_queue (QEntry (ex_entry 0 0 False)))))) ''a1.json'' = None"
  by (rule contention_demotes[of _ "ex_entry 0 0 False"])
    (simp_all add: contended_def accepts_demotion_def readable_def ex_defs)

text \<open>The retry budget comes first: an entry that has spent its budget on other failures is frozen
  by a lost race although it has lost fewer than five in a row, so contention can end in a frozen
  entry instead of a demotion.\<close>

theorem contention_can_freeze:
  assumes "contended env (q_worktree_path e)" and "accepts_demotion env"
    and "readable q" and "dget (q_root q) n = Some (QEntry e)" and "\<not> q_frozen e"
    and "ends_with json_ext n" and "q_non_ff_attempts e < 4" and "max_attempts env \<le> q_attempts e + 1"
    and "drain env w q = (acts, w', q')"
  shows "\<exists>e'. dget (q_root q') n = Some (QEntry e') \<and> q_frozen e' \<and> q_non_ff_attempts e' < 5"
proof -
  obtain a w2 q2 w3 q3 where a: "drain_name env n w2 q2 = (a, w3, q3)"
    "dget (q_root q2) n = Some (QEntry e)" "dget (q_root q') n = dget (q_root q3) n"
    using drain_acts_once[OF assms(9,3,4)] by metis
  show ?thesis
    using contended_drain_name[OF assms(1,2) a(2) assms(5,6) a(1), folded a(3)] assms(7,8) by auto
qed

theorem contention_can_freeze_witness:
  "\<exists>e'. dget (q_root (snd (snd (drain (ex_env (\<lambda>_. NonFastForwardError ''lost'') True 30) 0
      (ex_queue (QEntry (ex_entry 29 0 False))))))) ''a1.json'' = Some (QEntry e')
    \<and> q_frozen e' \<and> q_non_ff_attempts e' < 5"
  by (rule contention_can_freeze[where e = "ex_entry 29 0 False" and w = 0
        and env = "ex_env (\<lambda>_. NonFastForwardError ''lost'') True 30" and q = "ex_queue (QEntry (ex_entry 29 0 False))"
        and acts = "fst (drain (ex_env (\<lambda>_. NonFastForwardError ''lost'') True 30) 0 (ex_queue (QEntry (ex_entry 29 0 False))))"
        and w' = "fst (snd (drain (ex_env (\<lambda>_. NonFastForwardError ''lost'') True 30) 0 (ex_queue (QEntry (ex_entry 29 0 False)))))"])
    (simp_all add: contended_def accepts_demotion_def readable_def ex_defs)

subsection \<open>The life of a queue\<close>

text \<open>
  What holds of every file of the queue: it is named after its commit, a frozen entry has spent
  the retry budget, and the counters are not negative.
\<close>

definition entry_ok :: "int \<Rightarrow> string \<Rightarrow> 'm qentry \<Rightarrow> bool" where
  "entry_ok m n e \<longleftrightarrow> n = entry_name (q_sha e) \<and> 0 \<le> q_non_ff_attempts e
     \<and> q_non_ff_attempts e \<le> q_attempts e \<and> (q_frozen e \<longrightarrow> m \<le> q_attempts e)"

definition queue_inv :: "int \<Rightarrow> 'm push_queue \<Rightarrow> bool" where
  "queue_inv m q \<longleftrightarrow> (\<forall>n f. dget (q_root q) n = Some f \<longrightarrow> (\<exists>e. f = QEntry e \<and> entry_ok m n e))
     \<and> distinct (q_frozen_skip_logged q)"

definition empty_queue :: "'m push_queue" where
  "empty_queue = \<lparr>q_root = [], q_frozen_skip_logged = []\<rparr>"

inductive queue_step :: "('w, 'm) drain_env \<Rightarrow> 'm \<Rightarrow> 'm push_queue \<Rightarrow> 'm push_queue \<Rightarrow> bool" for env m0 where
  step_enqueue: "queue_step env m0 q (enqueue sha wt meta now q)"
| step_drain: "drain env w q = (acts, w', q') \<Longrightarrow> queue_step env m0 q q'"
| step_restart: "queue_step env m0 q
    (init_recovery m0 now unpushed wts (q\<lparr>q_frozen_skip_logged := []\<rparr>))"

inductive queue_reachable :: "('w, 'm) drain_env \<Rightarrow> 'm \<Rightarrow> 'm push_queue \<Rightarrow> bool" for env m0 where
  reach_empty: "queue_reachable env m0 empty_queue"
| reach_step: "queue_reachable env m0 q \<Longrightarrow> queue_step env m0 q q' \<Longrightarrow> queue_reachable env m0 q'"

inductive_cases queue_stepE: "queue_step env m0 q q'"

lemma entry_ok_new [simp]: "entry_ok m (entry_name sha) (new_entry sha wt x now r)"
  by (simp add: entry_ok_def new_entry_def)

lemma entry_ok_retry:
  "entry_ok m n e \<Longrightarrow> k = None \<or> k = Some m \<Longrightarrow> entry_ok m n (record_retry e err now k r)"
  by (auto simp: entry_ok_def record_retry_def Let_def split: option.splits)

lemma entry_ok_retry_non_ff:
  "entry_ok m n e \<Longrightarrow>
   entry_ok m n (record_retry (e\<lparr>q_non_ff_attempts := q_non_ff_attempts e + 1\<rparr>) err now (Some m) False)"
  by (auto simp: entry_ok_def record_retry_def Let_def)

lemma queue_inv_put: "queue_inv m q \<Longrightarrow> entry_ok m n e \<Longrightarrow> queue_inv m (put_entry n e q)"
  by (auto simp: queue_inv_def put_entry_def)

lemma queue_inv_drop: "queue_inv m q \<Longrightarrow> queue_inv m (drop_entry n q)"
  by (auto simp: queue_inv_def drop_entry_def)

lemma queue_inv_announce: "queue_inv m q \<Longrightarrow> queue_inv m (announce_frozen s q)"
  by (auto simp: queue_inv_def announce_frozen_def)

lemma queue_inv_entry: "queue_inv m q \<Longrightarrow> dget (q_root q) n = Some (QEntry e) \<Longrightarrow> entry_ok m n e"
  by (auto simp: queue_inv_def)

lemma queue_inv_on_conflict:
  "on_conflict env n e d w q = (a, w', q') \<Longrightarrow> queue_inv m q \<Longrightarrow> entry_ok m n e \<Longrightarrow> queue_inv m q'"
  by (auto simp: on_conflict_def queue_inv_put queue_inv_drop entry_ok_retry split: prod.splits bool.splits)

lemma queue_inv_on_non_ff:
  "on_non_ff env n e d w q = (a, w', q') \<Longrightarrow> max_attempts env = m \<Longrightarrow> queue_inv m q \<Longrightarrow> entry_ok m n e \<Longrightarrow>
   queue_inv m q'"
  by (auto simp: on_non_ff_def Let_def queue_inv_put queue_inv_drop entry_ok_retry_non_ff
      split: prod.splits if_splits)

lemma queue_inv_push_entry:
  "push_entry env n e w q = (a, w', q') \<Longrightarrow> max_attempts env = m \<Longrightarrow> queue_inv m q \<Longrightarrow> entry_ok m n e \<Longrightarrow>
   queue_inv m q'"
  by (auto simp: push_entry_def queue_inv_put queue_inv_drop entry_ok_retry
      dest: queue_inv_on_conflict queue_inv_on_non_ff split: prod.splits push_outcome.splits)

lemma queue_inv_drain_name:
  assumes "drain_name env n w q = (a, w', q')" and "queue_inv (max_attempts env) q"
  shows "queue_inv (max_attempts env) q'"
proof (cases "\<exists>e. dget (q_root q) n = Some (QEntry e) \<and> ends_with json_ext n \<and> \<not> q_frozen e")
  case True
  then obtain e where e: "dget (q_root q) n = Some (QEntry e)" "ends_with json_ext n" "\<not> q_frozen e" by blast
  with assms(1) have "push_entry env n e w q = (a, w', q')" by (simp add: drain_name_def)
  then show ?thesis
    by (rule queue_inv_push_entry[OF _ refl assms(2) queue_inv_entry[OF assms(2) e(1)]])
next
  case False
  with assms show ?thesis
    by (auto simp: drain_name_def queue_inv_announce split: if_splits option.splits qfile.splits)
qed

lemma queue_inv_recover_sha: "queue_inv m q \<Longrightarrow> queue_inv m (recover_sha m0 now wt sha q)"
  by (simp add: recover_sha_def queue_inv_put)

lemma queue_inv_recovery: "queue_inv m q \<Longrightarrow> queue_inv m (init_recovery m0 now un wts q)"
  unfolding init_recovery_def
  by (rule fold_invariant[where I = "queue_inv m"])
    (auto intro!: fold_invariant[where I = "queue_inv m"] queue_inv_recover_sha)

text \<open>The invariant of the queue directory: however the queue has been used since it was created
  (enqueues, drain passes with the retry budget of the environment, restarts with recovery), every file is an entry
  named after its sha, an entry is frozen only after as many failed attempts as the budget allows, its run of lost
  races is not longer than its failures, and no sha is announced as frozen twice by a process.\<close>

theorem queue_reachable_inv: "queue_reachable env m0 q \<Longrightarrow> queue_inv (max_attempts env) q"
proof (induction rule: queue_reachable.induct)
  case reach_empty
  show ?case by (simp add: queue_inv_def empty_queue_def)
next
  case (reach_step q q')
  from reach_step.hyps(2) show ?case
  proof (cases rule: queue_step.cases)
    case (step_enqueue sha wt meta now)
    with reach_step.IH queue_inv_put[OF reach_step.IH] show ?thesis
      by (simp add: enqueue_def put_entry_def)
  next
    case (step_drain w acts w')
    then show ?thesis
      by (rule_tac drain_invariant[where I = "queue_inv (max_attempts env)", OF _ step_drain(1) reach_step.IH])
        (rule queue_inv_drain_name)
  next
    case (step_restart now unpushed wts)
    moreover have "queue_inv (max_attempts env) (q\<lparr>q_frozen_skip_logged := []\<rparr>)"
      using reach_step.IH by (simp add: queue_inv_def)
    ultimately show ?thesis by (simp add: queue_inv_recovery)
  qed
qed

theorem queue_reachable_inv_witness:
  "queue_inv 1 (enqueue ''a1'' ''/wt'' () 0 (empty_queue :: unit push_queue))"
proof -
  have "queue_reachable (ex_env (\<lambda>_. PushOk) False 1) () (enqueue ''a1'' ''/wt'' () 0 empty_queue)"
    by (rule reach_step[OF reach_empty step_enqueue])
  from queue_reachable_inv[OF this] show ?thesis by (simp add: ex_env_def)
qed

lemma recover_sha_get:
  "dget (q_root (recover_sha m0 now wt sha q)) n =
     (if n = entry_name sha \<and> dget (q_root q) n = None then Some (QEntry (new_entry sha wt m0 now True))
      else dget (q_root q) n)"
  by (auto simp: recover_sha_def put_entry_def)

lemma recover_shas_get:
  "dget (q_root q) n = Some f \<Longrightarrow> dget (q_root (fold (recover_sha m0 now wt) shas q)) n = Some f"
  by (induction shas arbitrary: q) (simp_all add: recover_sha_get)

lemma recover_shas_new:
  "sha \<in> set shas \<Longrightarrow> dget (q_root (fold (recover_sha m0 now wt) shas q)) (entry_name sha) \<noteq> None"
proof (induction shas arbitrary: q)
  case (Cons s shas)
  show ?case
  proof (cases "s = sha")
    case True
    have "dget (q_root (recover_sha m0 now wt s q)) (entry_name sha) \<noteq> None"
      unfolding recover_sha_get True by (cases "dget (q_root q) (entry_name sha)") auto
    with recover_shas_get show ?thesis by fastforce
  next
    case False
    with Cons show ?thesis by simp
  qed
qed simp

lemma init_recovery_get:
  "dget (q_root q) n = Some f \<Longrightarrow> dget (q_root (init_recovery m0 now un wts q)) n = Some f"
  unfolding init_recovery_def
  by (rule fold_invariant[where I = "\<lambda>q. dget (q_root q) n = Some f"])
    (auto intro: recover_shas_get split: prod.splits)

text \<open>Startup recovery is complete and does not disturb the queue: afterwards every unpushed
  commit of every worktree has an entry, and the entries that were there are as they were.\<close>

theorem init_recovery_complete:
  "((nm, wt) \<in> set wts \<and> \<not> ends_with ''.meta.json'' nm \<and> sha \<in> set (un wt) \<longrightarrow>
     dget (q_root (init_recovery m0 now un wts q)) (entry_name sha) \<noteq> None)
   \<and> (dget (q_root q) n = Some f \<longrightarrow> dget (q_root (init_recovery m0 now un wts q)) n = Some f)"
proof (intro conjI impI)
  show "dget (q_root (init_recovery m0 now un wts q)) n = Some f" if "dget (q_root q) n = Some f"
    using that by (rule init_recovery_get)
  assume a: "(nm, wt) \<in> set wts \<and> \<not> ends_with ''.meta.json'' nm \<and> sha \<in> set (un wt)"
  then obtain us vs where wts: "wts = us @ (nm, wt) # vs" by (meson split_list)
  have "init_recovery m0 now un wts q = init_recovery m0 now un vs
    (fold (recover_sha m0 now wt) (un wt) (init_recovery m0 now un us q))"
    using a by (simp add: init_recovery_def wts)
  with recover_shas_new[of sha "un wt"] a init_recovery_get
  show "dget (q_root (init_recovery m0 now un wts q)) (entry_name sha) \<noteq> None"
    by fastforce
qed

theorem init_recovery_complete_witness:
  "dget (q_root (init_recovery () 5 (\<lambda>_. [''b2'']) [(''s1'', ''/wt/s1'')]
      (ex_queue (QEntry (ex_entry 2 0 False))))) ''a1.json'' = Some (QEntry (ex_entry 2 0 False))
   \<and> dget (q_root (init_recovery () 5 (\<lambda>_. [''b2'']) [(''s1'', ''/wt/s1'')]
      (ex_queue (QEntry (ex_entry 2 0 False))))) (entry_name ''b2'') \<noteq> None"
  using init_recovery_complete[of "''s1''" "''/wt/s1''" "[(''s1'', ''/wt/s1'')]" "''b2''" "\<lambda>_. [''b2'']" "()" 5
      "ex_queue (QEntry (ex_entry 2 0 False))" "''a1.json''" "QEntry (ex_entry 2 0 False)"]
  by (simp add: ex_queue_def ends_with_def starts_with_def)

end
