(* ===== verification/RateLimit.thy ===== *)
theory RateLimit
  imports Prelude
begin

text \<open>
  The sliding-window limiter (\<^verbatim>\<open>src/src/data_olympus/rate_limit.py\<close>): per (address, agent) and,
  optionally, per address buckets of the times of the admitted requests of the last hour.
  Every call runs under the limiter's lock, so a history of calls is a sequence of \<open>allow\<close>s.
\<close>

record limiter =
  l_max :: int
  l_max_ip :: int
  l_buckets :: "(string \<times> string, time list) dict"
  l_ip_buckets :: "(string, time list) dict"

definition new_limiter :: "int \<Rightarrow> int \<Rightarrow> limiter" where
  "new_limiter m mip = \<lparr>l_max = m, l_max_ip = mip, l_buckets = [], l_ip_buckets = []\<rparr>"

text \<open>\<open>_store\<close>: an empty list removes the key.\<close>

definition store :: "('k, time list) dict \<Rightarrow> 'k \<Rightarrow> time list \<Rightarrow> ('k, time list) dict" where
  "store buckets key values = (if values \<noteq> [] then dset key values buckets else dpop key buckets)"

definition pruned :: "('k, time list) dict \<Rightarrow> 'k \<Rightarrow> time \<Rightarrow> time list" where
  "pruned buckets key cutoff = filter (\<lambda>t. t > cutoff) (get_or [] buckets key)"

definition allow :: "time \<Rightarrow> string \<Rightarrow> string \<Rightarrow> limiter \<Rightarrow> bool \<times> limiter" where
  "allow now addr agent l =
     (let cutoff = now - 3600;
          key = (addr, agent);
          p = pruned (l_buckets l) key cutoff;
          ip = pruned (l_ip_buckets l) addr cutoff
      in if l_max_ip l > 0 \<and> int (length ip) \<ge> l_max_ip l then
           (False, l\<lparr>l_buckets := store (l_buckets l) key p,
                     l_ip_buckets := store (l_ip_buckets l) addr ip\<rparr>)
         else if int (length p) \<ge> l_max l then
           (False, let l' = l\<lparr>l_buckets := store (l_buckets l) key p\<rparr>
                   in if l_max_ip l > 0 then l'\<lparr>l_ip_buckets := store (l_ip_buckets l) addr ip\<rparr> else l')
         else
           (True, let l' = l\<lparr>l_buckets := store (l_buckets l) key (p @ [now])\<rparr>
                  in if l_max_ip l > 0 then l'\<lparr>l_ip_buckets := store (l_ip_buckets l) addr (ip @ [now])\<rparr>
                     else l'))"

definition bucket_count :: "limiter \<Rightarrow> nat" where
  "bucket_count l = length (l_buckets l) + length (l_ip_buckets l)"

type_synonym request = "time \<times> string \<times> string"

text \<open>A history of calls, with the requests it admitted, oldest first.\<close>

fun serve :: "request list \<Rightarrow> limiter \<Rightarrow> request list \<times> limiter" where
  "serve [] l = ([], l)"
| "serve ((now, addr, agent) # rs) l =
     (case allow now addr agent l of (ok, l') \<Rightarrow>
        (case serve rs l' of (adm, l'') \<Rightarrow> ((if ok then (now, addr, agent) # adm else adm), l'')))"

subsection \<open>The abstract limiter: counting in the history\<close>

definition recent :: "(request \<Rightarrow> bool) \<Rightarrow> time \<Rightarrow> request list \<Rightarrow> request list" where
  "recent P cutoff h = filter (\<lambda>r. fst r > cutoff \<and> P r) h"

definition of_key :: "string \<times> string \<Rightarrow> request \<Rightarrow> bool" where "of_key k r \<longleftrightarrow> snd r = k"
definition of_addr :: "string \<Rightarrow> request \<Rightarrow> bool" where "of_addr a r \<longleftrightarrow> fst (snd r) = a"

definition spec_allow :: "int \<Rightarrow> int \<Rightarrow> request list \<Rightarrow> request \<Rightarrow> bool" where
  "spec_allow m mip h r \<longleftrightarrow>
     int (length (recent (of_key (snd r)) (fst r - 3600) h)) < m
     \<and> (mip > 0 \<longrightarrow> int (length (recent (of_addr (fst (snd r))) (fst r - 3600) h)) < mip)"

fun spec_serve :: "int \<Rightarrow> int \<Rightarrow> request list \<Rightarrow> request list \<Rightarrow> request list" where
  "spec_serve m mip h [] = []"
| "spec_serve m mip h (r # rs) =
     (if spec_allow m mip h r then r # spec_serve m mip (h @ [r]) rs else spec_serve m mip h rs)"

text \<open>
  The simulation relation: from the cut-off of the last call on, a bucket holds the times of
  the admitted requests of its key.
\<close>

definition sim :: "time \<Rightarrow> limiter \<Rightarrow> request list \<Rightarrow> bool" where
  "sim t l h \<longleftrightarrow>
     (\<forall>c \<ge> t - 3600. (\<forall>k. pruned (l_buckets l) k c = map fst (recent (of_key k) c h))
        \<and> (l_max_ip l > 0 \<longrightarrow> (\<forall>a. pruned (l_ip_buckets l) a c = map fst (recent (of_addr a) c h))))"

lemma pruned_store:
  "pruned (store b k vs) j c = (if j = k then filter (\<lambda>t. t > c) vs else pruned b j c)"
  by (auto simp: pruned_def store_def get_or_def)

lemma pruned_pruned: "c \<le> d \<Longrightarrow> filter (\<lambda>t. t > d) (pruned b k c) = pruned b k d"
  unfolding pruned_def by (auto intro: filter_cong)

lemma recent_snoc: "recent P c (h @ [r]) = recent P c h @ (if fst r > c \<and> P r then [r] else [])"
  by (simp add: recent_def)

lemma allow_config: "allow now a g l = (ok, l') \<Longrightarrow> l_max l' = l_max l \<and> l_max_ip l' = l_max_ip l"
  by (auto simp: allow_def Let_def split: if_splits)

text \<open>How one call changes what a later cut-off sees: only an admission adds a time.\<close>

lemma allow_buckets:
  assumes "allow now a g l = (ok, l')" and "c \<ge> now - 3600"
  shows "pruned (l_buckets l') k c =
      pruned (l_buckets l) k c @ (if ok \<and> k = (a, g) then filter (\<lambda>t. t > c) [now] else [])"
    and "l_max_ip l > 0 \<Longrightarrow> pruned (l_ip_buckets l') b c =
      pruned (l_ip_buckets l) b c @ (if ok \<and> b = a then filter (\<lambda>t. t > c) [now] else [])"
  using assms
  by (auto simp: allow_def Let_def pruned_store pruned_pruned split: if_splits)

lemma sim_mono: "sim t l h \<Longrightarrow> t \<le> t' \<Longrightarrow> sim t' l h"
  by (auto simp: sim_def)

lemma sim_verdict:
  assumes "sim t l h" and "t \<le> now"
  shows "fst (allow now a g l) = spec_allow (l_max l) (l_max_ip l) h (now, a, g)"
proof -
  have "now - 3600 \<ge> t - 3600" using assms(2) by simp
  then have "pruned (l_buckets l) (a, g) (now - 3600) = map fst (recent (of_key (a, g)) (now - 3600) h)"
    and "l_max_ip l > 0 \<Longrightarrow>
      pruned (l_ip_buckets l) a (now - 3600) = map fst (recent (of_addr a) (now - 3600) h)"
    using assms(1) unfolding sim_def by blast+
  then show ?thesis by (auto simp: allow_def spec_allow_def Let_def not_le)
qed

lemma sim_step:
  assumes "sim t l h" and "t \<le> now" and "allow now a g l = (ok, l')"
  shows "sim now l' (if ok then h @ [(now, a, g)] else h)"
  using sim_mono[OF assms(1,2)] allow_config[OF assms(3)]
  by (auto simp: sim_def allow_buckets[OF assms(3)] recent_snoc of_key_def of_addr_def)

lemma serve_refines_gen:
  assumes "sim t l h" and "sorted (map fst rs)" and "\<forall>r \<in> set rs. t \<le> fst r"
  shows "fst (serve rs l) = spec_serve (l_max l) (l_max_ip l) h rs"
  using assms
proof (induction rs arbitrary: t l h)
  case Nil
  then show ?case by simp
next
  case (Cons r rs)
  obtain now a g where r: "r = (now, a, g)" by (metis prod_cases3)
  obtain ok l' where al: "allow now a g l = (ok, l')" by fastforce
  have "t \<le> now" using Cons.prems(3) r by simp
  note step = sim_step[OF Cons.prems(1) this al] and verdict = sim_verdict[OF Cons.prems(1) this, of a g]
  have "fst (serve rs l') = spec_serve (l_max l) (l_max_ip l) (if ok then h @ [r] else h) rs"
    using Cons.IH[OF step] Cons.prems(2) allow_config[OF al] by (simp add: r)
  with verdict al show ?case by (auto simp: r split: prod.splits)
qed

text \<open>The limiter refines the counting specification: on a history of requests with
  non-decreasing clock readings it admits exactly those for which fewer than the cap were admitted
  in the hour before, per (address, agent) and, when enabled, per address.\<close>

theorem serve_refines_counting:
  assumes "sorted (map fst rs)"
  shows "fst (serve rs (new_limiter m mip)) = spec_serve m mip [] rs"
proof (cases rs)
  case (Cons r rs')
  have "sim (fst r) (new_limiter m mip) []"
    by (simp add: sim_def new_limiter_def pruned_def recent_def get_or_def)
  from serve_refines_gen[OF this assms] assms show ?thesis
    by (simp add: Cons new_limiter_def)
qed simp

definition ex_requests :: "request list" where
  "ex_requests = [(0, ''ip'', ''a''), (10, ''ip'', ''a''), (20, ''ip'', ''a''), (3605, ''ip'', ''a'')]"

lemma ex_requests_sorted: "sorted (map fst ex_requests)"
  by (simp add: ex_requests_def)

theorem serve_refines_counting_witness:
  "fst (serve ex_requests (new_limiter 2 0)) = [(0, ''ip'', ''a''), (10, ''ip'', ''a''), (3605, ''ip'', ''a'')]"
  unfolding serve_refines_counting[OF ex_requests_sorted]
  by (simp add: ex_requests_def spec_allow_def recent_def of_key_def)

lemma spec_serve_bound:
  assumes "sorted (map fst (h @ rs))"
    and "\<And>c k. length (recent (of_key k) c (takeWhile (\<lambda>r. fst r \<le> c + 3600) h)) \<le> nat m"
  shows "length (recent (of_key k) c (takeWhile (\<lambda>r. fst r \<le> c + 3600) (h @ spec_serve m mip h rs))) \<le> nat m"
  using assms
proof (induction rs arbitrary: h)
  case Nil
  then show ?case by simp
next
  case (Cons r rs)
  show ?case
  proof (cases "spec_allow m mip h r")
    case False
    then show ?thesis using Cons.IH[of h] Cons.prems by (simp add: sorted_append)
  next
    case True
    have le: "\<forall>x \<in> set h. fst x \<le> fst r" using Cons.prems(1) by (simp add: sorted_append)
    have tw: "takeWhile (\<lambda>r. fst r \<le> d + 3600) (h @ [r])
      = (if fst r \<le> d + 3600 then h @ [r] else takeWhile (\<lambda>r. fst r \<le> d + 3600) h)" for d
    proof (cases "fst r \<le> d + 3600")
      case True
      with le show ?thesis by (subst takeWhile_append2) auto
    next
      case False
      then show ?thesis by (induction h) auto
    qed
    have "length (recent (of_key j) d (takeWhile (\<lambda>r. fst r \<le> d + 3600) (h @ [r]))) \<le> nat m" for j d
    proof (cases "fst r \<le> d + 3600")
      case False
      then show ?thesis using Cons.prems(2) tw by simp
    next
      case c: True
      have all: "takeWhile (\<lambda>r. fst r \<le> d + 3600) h = h" using le c by (subst takeWhile_eq_all_conv) force
      show ?thesis
      proof (cases "of_key j r")
        case False
        then show ?thesis using Cons.prems(2)[of j d] all c by (simp add: tw recent_snoc)
      next
        case k: True
        have "length (recent (of_key j) d h) \<le> length (recent (of_key j) (fst r - 3600) h)"
          using c unfolding recent_def by (induction h) auto
        with \<open>spec_allow m mip h r\<close> k show ?thesis
          using c by (simp add: tw recent_snoc spec_allow_def of_key_def) linarith
      qed
    qed
    then show ?thesis using Cons.IH[of "h @ [r]"] Cons.prems(1) True by simp
  qed
qed

lemma serve_sorted:
  "sorted (map fst (h @ rs)) \<Longrightarrow> sorted (map fst (h @ spec_serve m mip h rs))"
proof (induction rs arbitrary: h)
  case (Cons r rs)
  then show ?case using Cons.IH[of "h @ [r]"] Cons.IH[of h] by (auto simp: sorted_append)
qed simp

lemma window_filter:
  "sorted (map fst xs) \<Longrightarrow> filter (\<lambda>r. c < fst r \<and> fst r \<le> c + 3600 \<and> snd r = k) xs
    = recent (of_key k) c (takeWhile (\<lambda>r. fst r \<le> c + 3600) xs)"
proof (induction xs)
  case (Cons x xs)
  show ?case
  proof (cases "fst x \<le> c + 3600")
    case True
    with Cons show ?thesis by (simp add: recent_def of_key_def)
  next
    case False
    with Cons.prems have "\<forall>r \<in> set (x # xs). \<not> fst r \<le> c + 3600" by force
    then have "filter (\<lambda>r. c < fst r \<and> fst r \<le> c + 3600 \<and> snd r = k) (x # xs) = []"
      by (simp only: filter_empty_conv) blast
    with False show ?thesis by (simp add: recent_def)
  qed
qed (simp add: recent_def)

text \<open>The cap is a bound on every window: whatever the requests, no window of one hour contains
  more admitted requests of one (address, agent) pair than the cap.\<close>

theorem window_bound:
  assumes "sorted (map fst rs)"
  shows "length (filter (\<lambda>r. c < fst r \<and> fst r \<le> c + 3600 \<and> snd r = k) (fst (serve rs (new_limiter m mip))))
    \<le> nat m"
proof -
  let ?adm = "spec_serve m mip [] rs"
  have "sorted (map fst ?adm)" using serve_sorted[of "[]"] assms by simp
  then have "filter (\<lambda>r. c < fst r \<and> fst r \<le> c + 3600 \<and> snd r = k) ?adm
    = recent (of_key k) c (takeWhile (\<lambda>r. fst r \<le> c + 3600) ?adm)"
    by (rule window_filter)
  with spec_serve_bound[where h = "[]" and rs = rs and k = k and c = c and m = m and mip = mip] assms show ?thesis
    by (simp add: serve_refines_counting recent_def)
qed

theorem window_bound_witness:
  "length (filter (\<lambda>r. 5 < fst r \<and> fst r \<le> 5 + 3600 \<and> snd r = (''ip'', ''a''))
     (fst (serve ex_requests (new_limiter 2 0)))) \<le> nat 2"
  by (rule window_bound[OF ex_requests_sorted])

subsection \<open>Memory\<close>

definition buckets_ok :: "int \<Rightarrow> ('k, time list) dict \<Rightarrow> bool" where
  "buckets_ok m b \<longleftrightarrow> (\<forall>k v. dget b k = Some v \<longrightarrow> v \<noteq> [] \<and> int (length v) \<le> m)"

definition limiter_inv :: "limiter \<Rightarrow> bool" where
  "limiter_inv l \<longleftrightarrow> buckets_ok (l_max l) (l_buckets l) \<and> buckets_ok (l_max_ip l) (l_ip_buckets l)"

lemma buckets_ok_store: "buckets_ok m b \<Longrightarrow> vs = [] \<or> int (length vs) \<le> m \<Longrightarrow> buckets_ok m (store b k vs)"
  by (auto simp: buckets_ok_def store_def)

lemma buckets_ok_pruned: "buckets_ok m b \<Longrightarrow> pruned b k c = [] \<or> int (length (pruned b k c)) \<le> m"
proof (cases "dget b k")
  case (Some v)
  assume "buckets_ok m b"
  with Some have "int (length v) \<le> m" by (auto simp: buckets_ok_def)
  moreover have "length (pruned b k c) \<le> length v" using Some by (simp add: pruned_def get_or_def)
  ultimately show ?thesis by linarith
qed (simp add: pruned_def get_or_def)

lemma allow_limiter_inv: "limiter_inv l \<Longrightarrow> allow now a g l = (ok, l') \<Longrightarrow> limiter_inv l'"
  using buckets_ok_pruned[of "l_max l" "l_buckets l" "(a, g)" "now - 3600"]
    buckets_ok_pruned[of "l_max_ip l" "l_ip_buckets l" a "now - 3600"]
  by (auto simp: allow_def limiter_inv_def Let_def split: if_splits intro!: buckets_ok_store)

lemma serve_limiter_inv: "limiter_inv l \<Longrightarrow> limiter_inv (snd (serve rs l))"
proof (induction rs arbitrary: l)
  case (Cons r rs)
  obtain now a g ok l' where r: "r = (now, a, g)" and al: "allow now a g l = (ok, l')"
    by (metis prod_cases3 surj_pair)
  have "limiter_inv (snd (serve rs l'))" by (rule Cons.IH[OF allow_limiter_inv[OF Cons.prems al]])
  then show ?case by (auto simp: r al split: prod.splits)
qed simp

text \<open>Memory is bounded per caller: after any history the limiter keeps no empty bucket, and no
  bucket holds more times than its cap.\<close>

theorem buckets_bounded: "limiter_inv (snd (serve rs (new_limiter m mip)))"
  by (rule serve_limiter_inv) (simp add: limiter_inv_def new_limiter_def buckets_ok_def)

end
