(* ===== verification/PyDate.thy ===== *)
theory PyDate
  imports Prelude
begin

text \<open>
  The part of Python's \<^verbatim>\<open>datetime\<close> module that the validity windows rest on: proleptic Gregorian
  dates, their ordinals, \<^verbatim>\<open>isoformat\<close>, and the two parsers \<^verbatim>\<open>date.fromisoformat\<close> and
  \<^verbatim>\<open>datetime.fromisoformat\<close> (Python 3.13), the latter as far as its date is concerned. The code
  compares ISO dates as strings; the lemmas here justify that.
\<close>

datatype date = Date (d_year: nat) (d_month: nat) (d_day: nat)

definition is_leap :: "nat \<Rightarrow> bool" where
  "is_leap y \<longleftrightarrow> y mod 4 = 0 \<and> (y mod 100 \<noteq> 0 \<or> y mod 400 = 0)"

definition days_in_month :: "nat \<Rightarrow> nat \<Rightarrow> nat" where
  "days_in_month y m =
     (if m = 2 then (if is_leap y then 29 else 28) else if m \<in> {4, 6, 9, 11} then 30 else 31)"

definition valid_date :: "date \<Rightarrow> bool" where
  "valid_date d \<longleftrightarrow> 1 \<le> d_year d \<and> d_year d \<le> 9999 \<and> 1 \<le> d_month d \<and> d_month d \<le> 12
     \<and> 1 \<le> d_day d \<and> d_day d \<le> days_in_month (d_year d) (d_month d)"

fun days_before_month :: "nat \<Rightarrow> nat \<Rightarrow> nat" where
  "days_before_month y 0 = 0"
| "days_before_month y (Suc 0) = 0"
| "days_before_month y (Suc (Suc m)) = days_before_month y (Suc m) + days_in_month y (Suc m)"

definition days_before_year :: "nat \<Rightarrow> int" where
  "days_before_year y = (let p = int y - 1 in p * 365 + p div 4 - p div 100 + p div 400)"

definition ordinal :: "date \<Rightarrow> int" where
  "ordinal d = days_before_year (d_year d) + int (days_before_month (d_year d) (d_month d)) + int (d_day d)"

subsection \<open>Formatting\<close>

definition digit :: "nat \<Rightarrow> char" where "digit n = char_of (48 + n mod 10)"

definition pad2 :: "nat \<Rightarrow> string" where "pad2 n = [digit (n div 10), digit n]"

definition pad4 :: "nat \<Rightarrow> string" where
  "pad4 n = pad2 (n div 100) @ pad2 (n mod 100)"

definition isoformat :: "date \<Rightarrow> string" where
  "isoformat d = pad4 (d_year d) @ ''-'' @ pad2 (d_month d) @ ''-'' @ pad2 (d_day d)"

subsection \<open>Parsing\<close>

definition is_digit :: "char \<Rightarrow> bool" where
  "is_digit c \<longleftrightarrow> 48 \<le> (of_char c :: nat) \<and> (of_char c :: nat) \<le> 57"

definition digit_val :: "char \<Rightarrow> nat" where "digit_val c = of_char c - 48"

text \<open>\<open>parse_digits n s\<close>: exactly n ASCII digits at the start of s, and the rest.\<close>

definition parse_digits :: "nat \<Rightarrow> string \<Rightarrow> (nat \<times> string) option" where
  "parse_digits n s =
     (let p = take n s
      in if length p = n \<and> list_all is_digit p
         then Some (foldl (\<lambda>a c. a * 10 + digit_val c) 0 p, drop n s) else None)"

definition week1_monday :: "nat \<Rightarrow> int" where
  "week1_monday y =
     (let first = ordinal (Date y 1 1); wd = (first + 6) mod 7; mon = first - wd
      in if wd > 3 then mon + 7 else mon)"

fun month_day :: "nat \<Rightarrow> nat \<Rightarrow> nat \<Rightarrow> nat \<Rightarrow> nat \<times> nat" where
  "month_day 0 y m n = (m, n)"
| "month_day (Suc k) y m n =
     (if n \<le> days_in_month y m then (m, n) else month_day k y (Suc m) (n - days_in_month y m))"

text \<open>ISO week dates: week 53 only in long years; the day may fall in a neighbouring year.\<close>

definition week_date :: "nat \<Rightarrow> nat \<Rightarrow> nat \<Rightarrow> date option" where
  "week_date y w wd =
     (let first_wd = ordinal (Date y 1 1) mod 7;
          long_year = first_wd = 4 \<or> first_wd = 3 \<and> is_leap y
      in if y < 1 \<or> w < 1 \<or> w > 53 \<or> w = 53 \<and> \<not> long_year \<or> wd < 1 \<or> wd > 7 then None
         else let ord = week1_monday y + 7 * (int w - 1) + (int wd - 1);
                  y' = (if ord \<le> days_before_year y then y - 1
                        else if ord > days_before_year (y + 1) then y + 1 else y);
                  (m, d) = month_day 11 y' 1 (nat (ord - days_before_year y'))
              in if valid_date (Date y' m d) then Some (Date y' m d) else None)"

text \<open>
  The shared date parser: \<open>YYYY-MM-DD\<close>, \<open>YYYYMMDD\<close>, \<open>YYYY-Www[-D]\<close> and \<open>YYYYWww[D]\<close>, the
  whole string.
\<close>

definition parse_ymd_date :: "bool \<Rightarrow> nat \<Rightarrow> string \<Rightarrow> date option" where
  "parse_ymd_date sep y s =
     (case parse_digits 2 s of None \<Rightarrow> None
      | Some (m, s1) \<Rightarrow>
         (if sep \<and> take 1 s1 \<noteq> ''-'' then None
          else case parse_digits 2 (if sep then drop 1 s1 else s1) of
                 Some (d, []) \<Rightarrow> if valid_date (Date y m d) then Some (Date y m d) else None
               | _ \<Rightarrow> None))"

definition parse_week_date :: "bool \<Rightarrow> nat \<Rightarrow> string \<Rightarrow> date option" where
  "parse_week_date sep y s =
     (case parse_digits 2 s of None \<Rightarrow> None
      | Some (w, []) \<Rightarrow> week_date y w 1
      | Some (w, s1) \<Rightarrow>
         (if sep \<and> take 1 s1 \<noteq> ''-'' then None
          else case parse_digits 1 (if sep then drop 1 s1 else s1) of
                 Some (d, []) \<Rightarrow> week_date y w d
               | _ \<Rightarrow> None))"

definition parse_iso_date :: "string \<Rightarrow> date option" where
  "parse_iso_date s =
     (case parse_digits 4 s of None \<Rightarrow> None
      | Some (y, s1) \<Rightarrow>
         (let sep = take 1 s1 = ''-''; s2 = (if sep then drop 1 s1 else s1)
          in if take 1 s2 = ''W'' then parse_week_date sep y (drop 1 s2)
             else parse_ymd_date sep y s2))"

definition date_fromisoformat :: "string \<Rightarrow> date option" where
  "date_fromisoformat s = (if length s \<in> {7, 8, 10} then parse_iso_date s else None)"

text \<open>Where \<^verbatim>\<open>datetime.fromisoformat\<close> splits the date from the separator character.\<close>

definition char_at :: "string \<Rightarrow> nat \<Rightarrow> char option" where
  "char_at s i = (if i < length s then Some (s ! i) else None)"

definition separator_pos :: "string \<Rightarrow> nat option" where
  "separator_pos s =
     (if length s = 7 then Some 7
      else if char_at s 4 = Some CHR ''-'' then
        (if char_at s 5 = Some CHR ''W'' then
           (if length s > 8 \<and> char_at s 8 = Some CHR ''-'' then
              (if length s = 9 then None
               else if length s > 10 \<and> is_digit (s ! 10) then Some 8 else Some 10)
            else Some 8)
         else Some 10)
      else if char_at s 4 = Some CHR ''W'' then
        (let idx = 7 + length (takeWhile is_digit (drop 7 s))
         in if idx < 9 then Some idx else if even idx then Some 7 else Some 8)
      else Some 8)"

text \<open>\<open>HH[:MM[:SS[.ffffff]]]\<close>, with or without colons: hours, minutes, seconds, microseconds.\<close>

definition parse_fraction :: "string \<Rightarrow> nat option" where
  "parse_fraction s =
     (if s = [] then Some 0
      else if hd s \<notin> {CHR ''.'', CHR '',''} then None
      else let f = tl s; k = min 6 (length f)
           in if f \<noteq> [] \<and> list_all is_digit f
              then map_option (\<lambda>(n, _). n * 10 ^ (6 - k)) (parse_digits k f) else None)"

definition parse_hms :: "string \<Rightarrow> (nat \<times> nat \<times> nat \<times> nat) option" where
  "parse_hms s =
     (case parse_digits 2 s of None \<Rightarrow> None
      | Some (h, []) \<Rightarrow> Some (h, 0, 0, 0)
      | Some (h, s1) \<Rightarrow>
         (let sep = hd s1 = CHR '':''
          in case parse_digits 2 (if sep then tl s1 else s1) of None \<Rightarrow> None
             | Some (mi, []) \<Rightarrow> Some (h, mi, 0, 0)
             | Some (mi, s2) \<Rightarrow>
                (if sep \<and> hd s2 \<noteq> CHR '':'' then None
                 else case parse_digits 2 (if sep then tl s2 else s2) of None \<Rightarrow> None
                      | Some (se, s3) \<Rightarrow> map_option (\<lambda>f. (h, mi, se, f)) (parse_fraction s3))))"

definition find_char :: "char \<Rightarrow> string \<Rightarrow> nat option" where
  "find_char c s = (let i = length (takeWhile (\<lambda>x. x \<noteq> c) s) in if i < length s then Some i else None)"

definition tz_pos :: "string \<Rightarrow> nat option" where
  "tz_pos s = (case find_char CHR ''-'' s of Some i \<Rightarrow> Some i
     | None \<Rightarrow> (case find_char CHR ''+'' s of Some i \<Rightarrow> Some i | None \<Rightarrow> find_char CHR ''Z'' s))"

definition valid_offset :: "string \<Rightarrow> bool" where
  "valid_offset z \<longleftrightarrow> length z \<notin> {0, 1, 3}
     \<and> (case parse_hms z of None \<Rightarrow> False
        | Some (h, m, s, _) \<Rightarrow> (int h * 60 + int m) * 60 + int s < 24 * 60 * 60)"

definition valid_time :: "string \<Rightarrow> bool" where
  "valid_time s \<longleftrightarrow> length s \<ge> 2 \<and>
     (let (t, zone_ok) =
        (case tz_pos s of None \<Rightarrow> (s, True)
         | Some i \<Rightarrow> (take i s,
             if s ! i = CHR ''Z'' then Suc i = length s else valid_offset (drop (Suc i) s)))
      in zone_ok \<and> (case parse_hms t of None \<Rightarrow> False
                    | Some (h, m, se, _) \<Rightarrow> h < 24 \<and> m < 60 \<and> se < 60))"

text \<open>\<^verbatim>\<open>datetime.fromisoformat(s).date()\<close>\<close>

definition datetime_fromisoformat_date :: "string \<Rightarrow> date option" where
  "datetime_fromisoformat_date s =
     (if length s < 7 then None
      else case separator_pos s of None \<Rightarrow> None
           | Some p \<Rightarrow>
              (case parse_iso_date (take p s) of None \<Rightarrow> None
               | Some d \<Rightarrow> if length s \<le> p \<or> valid_time (drop (Suc p) s) then Some d else None))"

lemmas pydate_defs = is_leap_def days_in_month_def valid_date_def digit_def pad2_def pad4_def
  isoformat_def is_digit_def digit_val_def parse_digits_def parse_ymd_date_def parse_week_date_def
  parse_iso_date_def date_fromisoformat_def char_at_def separator_pos_def parse_fraction_def
  parse_hms_def find_char_def tz_pos_def valid_offset_def valid_time_def datetime_fromisoformat_date_def

subsection \<open>Dates compare as their ISO strings do\<close>

lemma digit_less [simp]: "digit a < digit b \<longleftrightarrow> a mod 10 < b mod 10"
  by (simp add: digit_def less_char_def)

lemma digit_eq [simp]: "digit a = digit b \<longleftrightarrow> a mod 10 = b mod 10"
proof
  assume "digit a = digit b"
  then have "(of_char (digit a) :: nat) = of_char (digit b)" by simp
  then show "a mod 10 = b mod 10" by (simp add: digit_def)
qed (simp add: digit_def)

lemma lex_less:
  fixes u v x y :: nat
  assumes "u < k" and "v < k"
  shows "k * x + u < k * y + v \<longleftrightarrow> x < y \<or> x = y \<and> u < v"
proof -
  have lt: "k * i + u' < k * j + v'" if "i < j" "u' < k" for i j u' v' :: nat
  proof -
    have "k * i + k \<le> k * j" using that(1) by (metis Suc_leI mult_Suc_right mult_le_mono2 add.commute)
    with that(2) show ?thesis by linarith
  qed
  show ?thesis
  proof (cases x y rule: linorder_cases)
    case less
    then show ?thesis using lt[of x y u v] assms by simp
  next
    case equal
    then show ?thesis by simp
  next
    case greater
    then show ?thesis using lt[of y x v u] assms by simp
  qed
qed

lemma div_mod_less:
  fixes a b :: nat
  assumes "0 < k"
  shows "a div k < b div k \<or> a div k = b div k \<and> a mod k < b mod k \<longleftrightarrow> a < b"
  using lex_less[of "a mod k" k "b mod k" "a div k" "b div k"] assms by simp

lemma div_mod_eq: "a div k = b div k \<and> a mod k = b mod k \<longleftrightarrow> a = b" for a b :: nat
  by (metis div_mult_mod_eq)

lemma pad2_less:
  assumes "a < 100" and "b < 100"
  shows "pad2 a < pad2 b \<longleftrightarrow> a < b" and "pad2 a = pad2 b \<longleftrightarrow> a = b"
proof -
  have "a div 10 < 10" "b div 10 < 10" using assms by auto
  then have m: "a div 10 mod 10 = a div 10" "b div 10 mod 10 = b div 10" by simp_all
  have "pad2 a < pad2 b \<longleftrightarrow> a div 10 < b div 10 \<or> a div 10 = b div 10 \<and> a mod 10 < b mod 10"
    by (simp add: pad2_def m)
  then show "pad2 a < pad2 b \<longleftrightarrow> a < b" by (simp add: div_mod_less)
  have "pad2 a = pad2 b \<longleftrightarrow> a div 10 = b div 10 \<and> a mod 10 = b mod 10"
    by (simp add: pad2_def m)
  then show "pad2 a = pad2 b \<longleftrightarrow> a = b" by (simp only: div_mod_eq)
qed

lemma length_pad2 [simp]: "length (pad2 n) = 2" by (simp add: pad2_def)

lemma length_pad4 [simp]: "length (pad4 n) = 4" by (simp add: pad4_def pad2_def)

lemma append_less_iff:
  "length xs = length ys \<Longrightarrow> xs @ us < ys @ vs \<longleftrightarrow> xs < ys \<or> xs = ys \<and> us < vs" for xs ys :: string
  by (induction xs ys rule: list_induct2) auto

lemma pad4_less:
  assumes "a < 10000" and "b < 10000"
  shows "pad4 a < pad4 b \<longleftrightarrow> a < b" and "pad4 a = pad4 b \<longleftrightarrow> a = b"
proof -
  have q: "a div 100 < 100" "b div 100 < 100" "a mod 100 < 100" "b mod 100 < 100" using assms by auto
  have "pad4 a < pad4 b \<longleftrightarrow> a div 100 < b div 100 \<or> a div 100 = b div 100 \<and> a mod 100 < b mod 100"
    by (simp only: pad4_def append_less_iff length_pad2 pad2_less q)
  then show "pad4 a < pad4 b \<longleftrightarrow> a < b" by (simp add: div_mod_less)
  have "pad4 a = pad4 b \<longleftrightarrow> a div 100 = b div 100 \<and> a mod 100 = b mod 100"
    by (simp add: pad4_def pad2_less q)
  then show "pad4 a = pad4 b \<longleftrightarrow> a = b" by (simp only: div_mod_eq)
qed

lemma valid_date_bounds:
  "valid_date d \<Longrightarrow> d_year d < 10000 \<and> d_month d < 100 \<and> d_day d < 100"
  by (auto simp: valid_date_def days_in_month_def split: if_splits)

lemma isoformat_less:
  assumes "valid_date a" and "valid_date b"
  shows "isoformat a < isoformat b \<longleftrightarrow> d_year a < d_year b \<or> d_year a = d_year b
    \<and> (d_month a < d_month b \<or> d_month a = d_month b \<and> d_day a < d_day b)"
  using valid_date_bounds[OF assms(1)] valid_date_bounds[OF assms(2)]
  by (simp add: isoformat_def append_less_iff pad4_less pad2_less)

lemma days_before_month_mono:
  "1 \<le> m \<Longrightarrow> m < m' \<Longrightarrow> days_before_month y m + days_in_month y m \<le> days_before_month y m'"
proof (induction m')
  case (Suc k)
  obtain j where k: "k = Suc j" using Suc.prems by (cases k) auto
  show ?case
  proof (cases "m = k")
    case True
    then show ?thesis by (simp add: k)
  next
    case False
    with Suc have "days_before_month y m + days_in_month y m \<le> days_before_month y k" by simp
    then show ?thesis by (simp add: k)
  qed
qed simp

lemma days_before_month_12: "days_before_month y 12 + 31 = (if is_leap y then 366 else 365)"
  by (simp add: eval_nat_numeral days_in_month_def)

lemma days_before_year_nat: "days_before_year (Suc p) = int (p * 365 + p div 4) - int (p div 100) + int (p div 400)"
  by (simp add: days_before_year_def Let_def of_nat_div)

lemma days_before_year_Suc:
  assumes "1 \<le> y"
  shows "days_before_year (Suc y) = days_before_year y + (if is_leap y then 366 else 365)"
proof -
  obtain p where p: "y = Suc p" using assms by (cases y) auto
  have d: "4 dvd k" if "100 dvd k" for k :: nat using that by (rule dvd_trans[rotated]) simp
  have e: "100 dvd k" if "400 dvd k" for k :: nat using that by (rule dvd_trans[rotated]) simp
  have "y mod 400 = 0 \<Longrightarrow> y mod 100 = 0" "y mod 100 = 0 \<Longrightarrow> y mod 4 = 0"
    using d[of y] e[of y] by (simp_all add: mod_eq_0_iff_dvd)
  then show ?thesis
    unfolding p days_before_year_nat is_leap_def by (auto simp: div_Suc)
qed

lemma days_before_year_mono: "1 \<le> y \<Longrightarrow> y \<le> y' \<Longrightarrow> days_before_year y \<le> days_before_year y'"
proof (induction y')
  case (Suc k)
  then show ?case
    using days_before_year_Suc[of k] by (cases "y = Suc k") (auto split: if_splits)
qed simp

definition day_of_year :: "date \<Rightarrow> nat" where
  "day_of_year d = days_before_month (d_year d) (d_month d) + d_day d"

lemma day_of_year_bound:
  assumes "valid_date d"
  shows "1 \<le> day_of_year d \<and> day_of_year d \<le> (if is_leap (d_year d) then 366 else 365)"
proof -
  let ?y = "d_year d" and ?m = "d_month d"
  have v: "1 \<le> d_day d" "d_day d \<le> days_in_month ?y ?m" "1 \<le> ?m" "?m \<le> 12"
    using assms by (auto simp: valid_date_def)
  have "days_before_month ?y ?m + days_in_month ?y ?m \<le> (if is_leap ?y then 366 else 365)"
  proof (cases "?m = 12")
    case True
    then show ?thesis using days_before_month_12[of ?y] by (simp add: days_in_month_def)
  next
    case False
    then show ?thesis using days_before_month_mono[of ?m 12 ?y] days_before_month_12[of ?y] v by simp
  qed
  with v show ?thesis by (simp add: day_of_year_def)
qed

lemma ordinal_less_year:
  assumes "valid_date a" and "valid_date b" and "d_year a < d_year b"
  shows "ordinal a < ordinal b"
proof -
  have y: "1 \<le> d_year a" using assms(1) by (simp add: valid_date_def)
  have "days_before_year (Suc (d_year a)) \<le> days_before_year (d_year b)"
    using assms(3) by (intro days_before_year_mono) auto
  with day_of_year_bound[OF assms(1)] day_of_year_bound[OF assms(2)] days_before_year_Suc[OF y]
  show ?thesis by (auto simp: ordinal_def day_of_year_def split: if_splits)
qed

lemma ordinal_less_month:
  assumes "valid_date a" and "valid_date b" and "d_year a = d_year b" and "d_month a < d_month b"
  shows "ordinal a < ordinal b"
proof -
  have "days_before_month (d_year a) (d_month a) + days_in_month (d_year a) (d_month a)
      \<le> days_before_month (d_year a) (d_month b)"
    using assms by (intro days_before_month_mono) (auto simp: valid_date_def)
  with assms show ?thesis by (simp add: ordinal_def valid_date_def)
qed

lemma isoformat_less_ordinal: "valid_date a \<Longrightarrow> valid_date b \<Longrightarrow> isoformat a < isoformat b \<Longrightarrow> ordinal a < ordinal b"
  by (auto simp: isoformat_less ordinal_less_year ordinal_less_month) (simp add: ordinal_def)

lemma isoformat_inj: "valid_date a \<Longrightarrow> valid_date b \<Longrightarrow> isoformat a = isoformat b \<Longrightarrow> a = b"
  using valid_date_bounds[of a] valid_date_bounds[of b]
  by (simp add: isoformat_def pad4_less pad2_less date.expand)

lemma isoformat_order:
  assumes "valid_date a" and "valid_date b"
  shows "isoformat a < isoformat b \<longleftrightarrow> ordinal a < ordinal b"
  using isoformat_less_ordinal[OF assms] isoformat_less_ordinal[OF assms(2,1)] isoformat_inj[OF assms]
  by (metis linorder_neqE order_less_asym less_irrefl)

subsection \<open>Parsing inverts formatting\<close>

lemma is_digit_digit [simp]: "is_digit (digit n)"
  by (simp add: is_digit_def digit_def)

lemma digit_val_digit [simp]: "digit_val (digit n) = n mod 10"
  by (simp add: digit_val_def digit_def)

lemma pad2_value: "n < 100 \<Longrightarrow> n div 10 mod 10 * 10 + n mod 10 = n" for n :: nat
proof -
  assume "n < 100"
  then have "n div 10 mod 10 = n div 10" by simp
  then show ?thesis by simp
qed

lemma parse_pad2: "n < 100 \<Longrightarrow> parse_digits 2 (pad2 n @ s) = Some (n, s)"
  using pad2_value[of n] by (simp add: parse_digits_def pad2_def)

lemma parse_pad2_pad2:
  assumes "q < 100" and "r < 100"
  shows "parse_digits 4 (pad2 q @ pad2 r @ s) = Some (q * 100 + r, s)"
proof -
  have "((q div 10 mod 10 * 10 + q mod 10) * 10 + r div 10 mod 10) * 10 + r mod 10
      = (q div 10 mod 10 * 10 + q mod 10) * 100 + (r div 10 mod 10 * 10 + r mod 10)"
    by simp
  also have "\<dots> = q * 100 + r" by (simp only: pad2_value assms)
  finally show ?thesis using pad2_value[OF assms(1)] pad2_value[OF assms(2)]
    by (simp add: parse_digits_def pad2_def)
qed

lemma parse_pad4: "n < 10000 \<Longrightarrow> parse_digits 4 (pad4 n @ s) = Some (n, s)"
  using parse_pad2_pad2[of "n div 100" "n mod 100" s] by (simp add: pad4_def)

lemma pad2_hd: "take 1 (pad2 n @ s) \<noteq> ''W''" "take 1 (pad2 n @ s) \<noteq> ''-''"
proof -
  have "is_digit (hd (pad2 n @ s))" by (simp add: pad2_def)
  then show "take 1 (pad2 n @ s) \<noteq> ''W''" "take 1 (pad2 n @ s) \<noteq> ''-''"
    by (auto simp: pad2_def is_digit_def)
qed

lemma length_isoformat: "length (isoformat d) = 10"
  by (simp add: isoformat_def)

lemma date_fromisoformat_isoformat:
  assumes "valid_date d"
  shows "date_fromisoformat (isoformat d) = Some d"
proof -
  note b = valid_date_bounds[OF assms]
  have "parse_digits 2 (pad2 (d_day d)) = Some (d_day d, [])"
    using parse_pad2[of "d_day d" "[]"] b by simp
  then have "parse_ymd_date True (d_year d) (pad2 (d_month d) @ ''-'' @ pad2 (d_day d)) = Some d"
    using b assms by (simp add: parse_ymd_date_def parse_pad2)
  then have "parse_iso_date (pad4 (d_year d) @ ''-'' @ pad2 (d_month d) @ ''-'' @ pad2 (d_day d)) = Some d"
    using b pad2_hd(1)[of "d_month d" "''-'' @ pad2 (d_day d)"] by (simp add: parse_iso_date_def parse_pad4)
  then show ?thesis by (simp add: date_fromisoformat_def length_isoformat isoformat_def)
qed

lemma week_date_valid: "week_date y w k = Some d \<Longrightarrow> valid_date d"
  by (auto simp: week_date_def Let_def split: if_splits prod.splits)

lemma parse_iso_date_valid: "parse_iso_date s = Some d \<Longrightarrow> valid_date d"
  by (auto simp: parse_iso_date_def parse_ymd_date_def parse_week_date_def Let_def
      split: option.splits if_splits prod.splits list.splits dest: week_date_valid)

lemma date_fromisoformat_valid: "date_fromisoformat s = Some d \<Longrightarrow> valid_date d"
  by (auto simp: date_fromisoformat_def parse_iso_date_valid split: if_splits)

lemma datetime_fromisoformat_valid: "datetime_fromisoformat_date s = Some d \<Longrightarrow> valid_date d"
  by (auto simp: datetime_fromisoformat_date_def parse_iso_date_valid split: if_splits option.splits)

end
