(* ===== verification/PyValue.thy ===== *)
theory PyValue
  imports PyDate
begin

text \<open>
  The Python values that \<^verbatim>\<open>yaml.safe_load\<close> and \<^verbatim>\<open>json.load\<close> build, as far as the code
  distinguishes them, with the generic operations the code applies to an untrusted value:
  subscripting a mapping with a string key, truth, and membership in a frozenset of strings
  (which raises for an unhashable value).
\<close>

datatype pyfloat = FNum rat | FInf bool | FNaN \<comment> \<open>an infinity, with whether it is positive\<close>

datatype pyval =
    PyNone
  | PyBool bool
  | PyInt int
  | PyFloat pyfloat
  | PyStr string
  | PyBytes string
  | PyDate date
  | PyDateTime date int "int option" \<comment> \<open>date, microseconds of the day, UTC offset in microseconds\<close>
  | PyList "pyval list"
  | PyTuple "pyval list"
  | PySet "pyval list"
  | PyDict "(pyval \<times> pyval) list"

datatype py_error = TypeError | ValueError string

type_synonym 'a result = "py_error + 'a"
type_synonym frontmatter = "(pyval \<times> pyval) list"

text \<open>\<open>fm.get(key)\<close>: \<^verbatim>\<open>None\<close> for an absent key.\<close>

definition fm_get :: "frontmatter \<Rightarrow> string \<Rightarrow> pyval" where
  "fm_get fm k = get_or PyNone fm (PyStr k)"

definition has_key :: "frontmatter \<Rightarrow> string \<Rightarrow> bool" where
  "has_key fm k \<longleftrightarrow> dget fm (PyStr k) \<noteq> None"

fun truthy :: "pyval \<Rightarrow> bool" where
  "truthy PyNone = False"
| "truthy (PyBool b) = b"
| "truthy (PyInt i) = (i \<noteq> 0)"
| "truthy (PyFloat f) = (f \<noteq> FNum 0)"
| "truthy (PyStr s) = (s \<noteq> [])"
| "truthy (PyBytes s) = (s \<noteq> [])"
| "truthy (PyDate d) = True"
| "truthy (PyDateTime d t z) = True"
| "truthy (PyList xs) = (xs \<noteq> [])"
| "truthy (PyTuple xs) = (xs \<noteq> [])"
| "truthy (PySet xs) = (xs \<noteq> [])"
| "truthy (PyDict xs) = (xs \<noteq> [])"

fun is_str :: "pyval \<Rightarrow> bool" where "is_str (PyStr s) = True" | "is_str _ = False"
fun is_list :: "pyval \<Rightarrow> bool" where "is_list (PyList s) = True" | "is_list _ = False"

fun str_val :: "pyval \<Rightarrow> string option" where "str_val (PyStr s) = Some s" | "str_val _ = None"

text \<open>The strings of a list, and whether it holds anything else.\<close>

definition strs_of :: "pyval list \<Rightarrow> string list" where
  "strs_of xs = List.map_filter str_val xs"

definition all_strs :: "pyval list \<Rightarrow> bool" where
  "all_strs xs \<longleftrightarrow> list_all is_str xs"

text \<open>
  \<open>v in S\<close> for a frozenset \<open>S\<close> of strings: hashing a list or a mapping (also inside a tuple)
  raises TypeError; a set is looked up as a frozenset.
\<close>

fun hashable :: "pyval \<Rightarrow> bool" where
  "hashable (PyList _) = False"
| "hashable (PyDict _) = False"
| "hashable (PyTuple xs) = list_all hashable xs"
| "hashable _ = True"

definition in_frozenset :: "pyval \<Rightarrow> string list \<Rightarrow> bool result" where
  "in_frozenset v S =
     (if \<not> hashable v then Inl TypeError
      else Inr (case v of PyStr s \<Rightarrow> s \<in> set S | _ \<Rightarrow> False))"

lemma str_val_Some [simp]: "str_val v = Some s \<longleftrightarrow> v = PyStr s"
  by (cases v) auto

lemma is_str_iff: "is_str v \<longleftrightarrow> (\<exists>s. v = PyStr s)"
  by (cases v) auto

lemma strs_of_map [simp]: "strs_of (map PyStr ss) = ss"
  by (induction ss) (auto simp: strs_of_def)

lemma set_strs_of: "set (strs_of xs) = {s. PyStr s \<in> set xs}"
  by (induction xs) (auto simp: strs_of_def split: option.splits)

lemma in_frozenset_str [simp]: "in_frozenset (PyStr s) S = Inr (s \<in> set S)"
  by (simp add: in_frozenset_def)

end
