(* ===== verification/Validate.thy ===== *)
theory Validate
  imports PyValue
begin

text \<open>
  The governance schema (\<^verbatim>\<open>format/validate.py\<close>, \<^verbatim>\<open>format/provenance.py\<close> and the validity part of
  \<^verbatim>\<open>markdown_parse.py\<close>): the status classes, the validity window, the in-force and retired
  predicates with their SQL counterparts, freshness, and the document schema check.

  A date argument of type \<open>string option\<close> is a normalized ISO date; \<^verbatim>\<open>None\<close> and the empty
  string both mean that there is none. \<open>inbox_env\<close> is the value of
  \<^verbatim>\<open>KB_MEMORY_INBOX_PREFIX\<close>. The text of a finding is a constructor with the values that the
  message interpolates.
\<close>

definition TYPES :: "string list" where
  "TYPES = [''standard'', ''decision'', ''workflow'', ''project'', ''memory'', ''reference'']"

definition STATUSES :: "string list" where
  "STATUSES = [''draft'', ''active'', ''deprecated'', ''superseded'', ''proposed'', ''accepted'', ''rejected'']"

definition IN_FORCE_STATUSES :: "string list" where
  "IN_FORCE_STATUSES = [''active'', ''accepted'', ''approved'']"

definition RETIRED_STATUSES :: "string list" where
  "RETIRED_STATUSES = [''deprecated'', ''superseded'', ''rejected'']"

definition TIERS :: "string list" where "TIERS = [''T1'', ''T2'', ''T3'', ''T4'', ''meta'']"

definition RESERVED :: "string list" where "RESERVED = [''index.md'', ''log.md'', ''template.md'']"

definition REQUIRED :: "string list" where "REQUIRED = [''id'', ''type'', ''status'', ''tier'']"

definition RECOMMENDED :: "string list" where
  "RECOMMENDED = [''title'', ''description'', ''tags'', ''timestamp'']"

definition VALIDITY_DATE_FIELDS :: "string list" where
  "VALIDITY_DATE_FIELDS = [''valid_from'', ''valid_until'', ''last_verified'', ''recheck_by'']"

subsection \<open>Normalizing dates\<close>

definition parse_date_string :: "string \<Rightarrow> string \<times> bool" where
  "parse_date_string raw =
     (let s = strip raw
      in if s = [] then ('''', False)
         else case date_fromisoformat s of
                Some d \<Rightarrow> (isoformat d, False)
              | None \<Rightarrow>
                 (let s2 = (if ends_with ''Z'' s \<or> ends_with ''z'' s then butlast s @ ''+00:00'' else s)
                  in case datetime_fromisoformat_date s2 of
                       Some d \<Rightarrow> (isoformat d, False)
                     | None \<Rightarrow> ('''', True)))"

fun normalize_validity_date :: "pyval \<Rightarrow> string \<times> bool" where
  "normalize_validity_date PyNone = ('''', False)"
| "normalize_validity_date (PyDateTime d t z) = (isoformat d, False)"
| "normalize_validity_date (PyDate d) = (isoformat d, False)"
| "normalize_validity_date (PyStr s) = parse_date_string s"
| "normalize_validity_date _ = ('''', True)"

subsection \<open>Expiry, force, retirement\<close>

definition is_expired :: "string option \<Rightarrow> string \<Rightarrow> bool" where
  "is_expired valid_until today \<longleftrightarrow> (case valid_until of None \<Rightarrow> False | Some v \<Rightarrow> v \<noteq> '''' \<and> v < today)"

definition is_upcoming :: "string option \<Rightarrow> string \<Rightarrow> bool" where
  "is_upcoming valid_from today \<longleftrightarrow> (case valid_from of None \<Rightarrow> False | Some v \<Rightarrow> v \<noteq> '''' \<and> v > today)"

definition is_in_force :: "string \<Rightarrow> string option \<Rightarrow> string option \<Rightarrow> string \<Rightarrow> bool \<Rightarrow> bool" where
  "is_in_force status valid_from valid_until today is_inbox \<longleftrightarrow>
     (if is_inbox then False
      else if status \<notin> set IN_FORCE_STATUSES then False
      else \<not> is_expired valid_until today \<and> \<not> is_upcoming valid_from today)"

definition is_retired :: "string \<Rightarrow> string option \<Rightarrow> string \<Rightarrow> bool \<Rightarrow> bool" where
  "is_retired status valid_until today graph_excluded \<longleftrightarrow>
     (if graph_excluded \<or> status \<in> set RETIRED_STATUSES then True else is_expired valid_until today)"

definition memory_inbox_prefix :: "string option \<Rightarrow> string" where
  "memory_inbox_prefix inbox_env =
     (let prefix = strip (case inbox_env of None \<Rightarrow> ''memory/inbox/'' | Some v \<Rightarrow> v)
      in if ends_with ''/'' prefix then prefix else prefix @ ''/'')"

definition norm_slashes :: "string \<Rightarrow> string" where
  "norm_slashes s = map (\<lambda>c. if c = CHR 0x5C then CHR ''/'' else c) s"

definition is_inbox_path :: "string option \<Rightarrow> string \<Rightarrow> bool" where
  "is_inbox_path inbox_env rel = starts_with (memory_inbox_prefix inbox_env) (norm_slashes rel)"

subsection \<open>Freshness\<close>

definition days_since :: "string \<Rightarrow> string \<Rightarrow> int option" where
  "days_since date_str today =
     (case (date_fromisoformat today, date_fromisoformat date_str) of
        (Some t, Some d) \<Rightarrow> Some (ordinal t - ordinal d) | _ \<Rightarrow> None)"

datatype freshness = Expired string string | Upcoming string string
  | StaleRecheck string string | StaleUnverified | StaleAge string int int

definition given :: "string option \<Rightarrow> bool" where
  "given d \<longleftrightarrow> (case d of None \<Rightarrow> False | Some v \<Rightarrow> v \<noteq> '''')"

definition compute_freshness ::
  "string option \<Rightarrow> string option \<Rightarrow> string option \<Rightarrow> string option \<Rightarrow> string \<Rightarrow> int option
   \<Rightarrow> freshness option" where
  "compute_freshness valid_from valid_until recheck_by last_verified today review_due_after_days =
     (if is_expired valid_until today then Some (Expired (the valid_until) today)
      else if is_upcoming valid_from today then Some (Upcoming (the valid_from) today)
      else if given recheck_by then
        (if the recheck_by < today then Some (StaleRecheck (the recheck_by) today) else None)
      else case review_due_after_days of None \<Rightarrow> None
           | Some days \<Rightarrow>
              (if days > 0 then
                 (if \<not> given last_verified then Some StaleUnverified
                  else case days_since (the last_verified) today of None \<Rightarrow> None
                       | Some age \<Rightarrow> (if age > days then Some (StaleAge (the last_verified) age days) else None))
               else None))"

subsection \<open>The SQL fragments, as predicates on rows\<close>

text \<open>
  A row of \<^verbatim>\<open>docs\<close> and of \<^verbatim>\<open>edges\<close> as far as the fragments read them; \<^const>\<open>None\<close> is NULL.
  \<open>x IS NULL OR x \<le> ?\<close> is true on NULL.
\<close>

record doc_row =
  r_id :: string
  r_status :: string
  r_valid_from :: "string option"
  r_valid_until :: "string option"
  r_recheck_by :: "string option"
  r_is_inbox :: bool

record edge_row =
  e_source :: string
  e_rel :: string
  e_target :: string

definition null_or :: "('a \<Rightarrow> bool) \<Rightarrow> 'a option \<Rightarrow> bool" where
  "null_or P x \<longleftrightarrow> (case x of None \<Rightarrow> True | Some v \<Rightarrow> P v)"

definition not_expired_sql :: "string \<Rightarrow> doc_row \<Rightarrow> bool" where
  "not_expired_sql today r \<longleftrightarrow> null_or (\<lambda>v. v \<ge> today) (r_valid_until r)"

definition in_force_sql :: "string \<Rightarrow> doc_row \<Rightarrow> bool" where
  "in_force_sql today r \<longleftrightarrow>
     null_or (\<lambda>v. v \<le> today) (r_valid_from r) \<and> null_or (\<lambda>v. v \<ge> today) (r_valid_until r)"

definition not_inbox_sql :: "doc_row \<Rightarrow> bool" where
  "not_inbox_sql r \<longleftrightarrow> \<not> r_is_inbox r"

definition graph_excluded_ids_sql :: "doc_row list \<Rightarrow> edge_row list \<Rightarrow> string \<Rightarrow> string list" where
  "graph_excluded_ids_sql docs edges today =
     [e_target e. e \<leftarrow> edges, src \<leftarrow> docs, r_id src = e_source e, tgt \<leftarrow> docs, r_id tgt = e_target e,
        e_rel e = ''supersedes'', r_status src \<in> set IN_FORCE_STATUSES, \<not> r_is_inbox src,
        null_or (\<lambda>v. v \<le> today) (r_valid_from src), null_or (\<lambda>v. v \<ge> today) (r_valid_until src)]"

subsection \<open>Content-change provenance\<close>

datatype generated_problem = GeneratedNotMapping | GeneratedByMissing | GeneratedAtInvalid

fun is_valid_generated_at :: "pyval \<Rightarrow> bool" where
  "is_valid_generated_at (PyStr s) = (strip s \<noteq> [])"
| "is_valid_generated_at (PyDateTime d t z) = (z \<noteq> None)"
| "is_valid_generated_at _ = False"

fun generated_problems :: "pyval \<Rightarrow> generated_problem list" where
  "generated_problems (PyDict m) =
     (case fm_get m ''by'' of PyStr s \<Rightarrow> (if strip s = [] then [GeneratedByMissing] else [])
      | _ \<Rightarrow> [GeneratedByMissing])
     @ (if has_key m ''at'' \<and> \<not> is_valid_generated_at (fm_get m ''at'') then [GeneratedAtInvalid] else [])"
| "generated_problems _ = [GeneratedNotMapping]"

definition has_content_change_time :: "frontmatter \<Rightarrow> bool" where
  "has_content_change_time fm \<longleftrightarrow>
     (case fm_get fm ''generated'' of
        PyDict m \<Rightarrow> has_key m ''at'' \<and> is_valid_generated_at (fm_get m ''at'')
      | _ \<Rightarrow> False)
     \<or> truthy (fm_get fm ''timestamp'')"

subsection \<open>The document schema\<close>

datatype severity = Error | Warning

datatype message =
    MissingRequired
  | InvalidEnum pyval
  | MissingRecommended
  | MissingChangeTime
  | Generated generated_problem
  | TagsNotList
  | ValidityNotMapping
  | ValidityMalformed "string list"
  | RecheckPast string
  | ExpiredButInForce string string

datatype finding = Finding (f_severity: severity) (f_field: string) (f_message: message)

definition enum_values :: "string \<Rightarrow> string list" where
  "enum_values key = (if key = ''type'' then TYPES else if key = ''status'' then STATUSES else TIERS)"

text \<open>\<open>value not in allowed\<close> raises on an unhashable value; the loop then ends with TypeError.\<close>

definition enum_finding :: "frontmatter \<Rightarrow> string \<Rightarrow> finding list result" where
  "enum_finding fm key =
     (let v = fm_get fm key
      in if v = PyNone then Inr []
         else case in_frozenset v (enum_values key) of
                Inl e \<Rightarrow> Inl e
              | Inr True \<Rightarrow> Inr []
              | Inr False \<Rightarrow> Inr [Finding Error key (InvalidEnum v)])"

fun enum_findings :: "frontmatter \<Rightarrow> string list \<Rightarrow> finding list result" where
  "enum_findings fm [] = Inr []"
| "enum_findings fm (k # ks) =
     (case enum_finding fm k of Inl e \<Rightarrow> Inl e
      | Inr fs \<Rightarrow> (case enum_findings fm ks of Inl e \<Rightarrow> Inl e | Inr gs \<Rightarrow> Inr (fs @ gs)))"

definition recommended_finding :: "frontmatter \<Rightarrow> string \<Rightarrow> finding list" where
  "recommended_finding fm key =
     (if key = ''timestamp'' then
        (if has_content_change_time fm then [] else [Finding Warning ''timestamp'' MissingChangeTime])
      else if \<not> truthy (fm_get fm key) then [Finding Warning key MissingRecommended] else [])"

definition validity_field :: "frontmatter \<Rightarrow> string \<Rightarrow> string \<times> bool" where
  "validity_field v key = normalize_validity_date (fm_get v key)"

definition validity_findings :: "frontmatter \<Rightarrow> string \<Rightarrow> finding list result" where
  "validity_findings fm today =
     (case fm_get fm ''validity'' of
        PyNone \<Rightarrow> Inr []
      | PyDict v \<Rightarrow>
         (let malformed = filter (\<lambda>k. snd (validity_field v k)) VALIDITY_DATE_FIELDS
          in if malformed \<noteq> [] then Inr [Finding Warning ''validity'' (ValidityMalformed malformed)]
             else
               let recheck_by = fst (validity_field v ''recheck_by'');
                   valid_until = fst (validity_field v ''valid_until'');
                   status = fm_get fm ''status'';
                   fs = (if recheck_by \<noteq> '''' \<and> recheck_by < today
                         then [Finding Warning ''validity'' (RecheckPast recheck_by)] else [])
               in if valid_until \<noteq> '''' \<and> valid_until < today then
                    (case in_frozenset status IN_FORCE_STATUSES of
                       Inl e \<Rightarrow> Inl e
                     | Inr b \<Rightarrow> Inr (fs @ (if b then [Finding Warning ''validity''
                                 (ExpiredButInForce valid_until (case status of PyStr s \<Rightarrow> s | _ \<Rightarrow> ''''))] else [])))
                  else Inr fs)
      | _ \<Rightarrow> Inr [Finding Warning ''validity'' ValidityNotMapping])"

text \<open>\<open>name\<close> is the file name of the document.\<close>

definition validate_document :: "string \<Rightarrow> frontmatter \<Rightarrow> string \<Rightarrow> finding list result" where
  "validate_document name fm today =
     (if name \<in> set RESERVED then Inr []
      else case enum_findings fm [''type'', ''status'', ''tier''] of
             Inl e \<Rightarrow> Inl e
           | Inr enums \<Rightarrow>
              (case validity_findings fm today of
                 Inl e \<Rightarrow> Inl e
               | Inr vals \<Rightarrow> Inr (
                   [Finding Error k MissingRequired. k \<leftarrow> REQUIRED, fm_get fm k = PyNone]
                   @ enums
                   @ concat (map (recommended_finding fm) RECOMMENDED)
                   @ (if has_key fm ''generated''
                      then map (\<lambda>p. Finding Warning ''generated'' (Generated p))
                             (generated_problems (fm_get fm ''generated'')) else [])
                   @ (let tags = fm_get fm ''tags''
                      in if tags \<noteq> PyNone \<and> \<not> is_list tags then [Finding Warning ''tags'' TagsNotList] else [])
                   @ vals)))"

subsection \<open>The validity block as the index reads it\<close>

text \<open>
  \<open>_parse_validity\<close> of \<^verbatim>\<open>markdown_parse.py\<close>, its date fields and malformed flag: one malformed
  date anywhere empties the whole block.
\<close>

record validity_window =
  v_from :: string
  v_until :: string
  v_last_verified :: string
  v_recheck_by :: string
  v_malformed :: bool

definition empty_window :: "bool \<Rightarrow> validity_window" where
  "empty_window bad = \<lparr>v_from = '''', v_until = '''', v_last_verified = '''', v_recheck_by = '''', v_malformed = bad\<rparr>"

definition parse_validity :: "pyval \<Rightarrow> validity_window" where
  "parse_validity validity =
     (case validity of
        PyNone \<Rightarrow> empty_window False
      | PyDict v \<Rightarrow>
         (if list_ex (\<lambda>k. snd (validity_field v k)) VALIDITY_DATE_FIELDS then empty_window True
          else \<lparr>v_from = fst (validity_field v ''valid_from''),
                v_until = fst (validity_field v ''valid_until''),
                v_last_verified = fst (validity_field v ''last_verified''),
                v_recheck_by = fst (validity_field v ''recheck_by''), v_malformed = False\<rparr>)
      | _ \<Rightarrow> empty_window True)"

named_theorems status_defs \<open>the status vocabularies, for evaluation\<close>
lemmas [status_defs] = TYPES_def STATUSES_def IN_FORCE_STATUSES_def RETIRED_STATUSES_def TIERS_def
  RESERVED_def REQUIRED_def RECOMMENDED_def VALIDITY_DATE_FIELDS_def enum_values_def

subsection \<open>Normalized dates\<close>

fun dates_valid :: "pyval \<Rightarrow> bool" where
  "dates_valid (PyDate d) = valid_date d"
| "dates_valid (PyDateTime d t z) = valid_date d"
| "dates_valid _ = True"

definition is_iso :: "string \<Rightarrow> bool" where
  "is_iso s \<longleftrightarrow> (\<exists>d. valid_date d \<and> s = isoformat d)"

lemma isoformat_not_Nil [simp]: "isoformat d \<noteq> []"
  using length_isoformat[of d] by auto

lemma digit_not_space [simp]: "\<not> is_space (digit n)"
proof -
  have "n mod 10 < 10" by simp
  then have "48 + n mod 10 \<noteq> 133" "48 + n mod 10 \<noteq> 160" "\<not> 48 + n mod 10 \<le> 32" "(48 + n mod 10) mod 256 = 48 + n mod 10"
    by linarith+ simp
  then show ?thesis by (simp add: is_space_def digit_def)
qed

lemma strip_isoformat [simp]: "strip (isoformat d) = isoformat d"
  by (simp add: strip_def isoformat_def pad4_def pad2_def)

lemma parse_date_string_iso: "fst (parse_date_string s) = '''' \<or> is_iso (fst (parse_date_string s))"
  by (auto simp: parse_date_string_def is_iso_def Let_def split: option.splits
      dest: date_fromisoformat_valid datetime_fromisoformat_valid)

lemma normalize_iso: "dates_valid v \<Longrightarrow> fst (normalize_validity_date v) = '''' \<or> is_iso (fst (normalize_validity_date v))"
  using parse_date_string_iso by (cases v) (auto simp: is_iso_def)

lemma parse_date_string_malformed: "snd (parse_date_string s) \<Longrightarrow> fst (parse_date_string s) = ''''"
  by (auto simp: parse_date_string_def Let_def split: option.splits if_splits)

lemma normalize_malformed: "snd (normalize_validity_date v) \<Longrightarrow> fst (normalize_validity_date v) = ''''"
  using parse_date_string_malformed by (cases v) auto

text \<open>Normalization is sound and idempotent: the result is empty or the ISO form of a valid
  date, empty when malformed, and normalizing a result again gives it back unchanged.\<close>

theorem normalize_sound_idempotent:
  assumes "dates_valid v" and "normalize_validity_date v = (s, bad)"
  shows "(s = '''' \<or> is_iso s) \<and> (bad \<longrightarrow> s = '''') \<and> normalize_validity_date (PyStr s) = (s, False)"
proof -
  have iso: "s = '''' \<or> is_iso s" using normalize_iso[OF assms(1)] assms(2) by simp
  have "normalize_validity_date (PyStr s) = (s, False)"
  proof (cases "s = ''''")
    case True
    then show ?thesis by (simp add: parse_date_string_def strip_def)
  next
    case False
    with iso show ?thesis
      by (auto simp: is_iso_def parse_date_string_def date_fromisoformat_isoformat)
  qed
  with iso normalize_malformed[of v] assms(2) show ?thesis by simp
qed

theorem normalize_sound_idempotent_witness:
  "normalize_validity_date (PyStr ''2026-06-01'') = (''2026-06-01'', False)"
proof -
  have n: "normalize_validity_date (PyDate (Date 2026 6 1)) = (''2026-06-01'', False)"
    by code_simp
  have "dates_valid (PyDate (Date 2026 6 1))" by (simp add: valid_date_def days_in_month_def)
  from normalize_sound_idempotent[OF this n] show ?thesis by simp
qed

lemma is_expired_iso:
  "valid_date d \<Longrightarrow> valid_date t \<Longrightarrow> is_expired (Some (isoformat d)) (isoformat t) \<longleftrightarrow> ordinal d < ordinal t"
  by (simp add: is_expired_def isoformat_order)

lemma is_upcoming_iso:
  "valid_date d \<Longrightarrow> valid_date t \<Longrightarrow> is_upcoming (Some (isoformat d)) (isoformat t) \<longleftrightarrow> ordinal t < ordinal d"
  by (simp add: is_upcoming_def isoformat_order)

text \<open>The string comparisons mean the calendar: with both ends of the window given as valid
  dates, a document outside the inbox is in force on a day exactly when its status is in the
  in-force class and the day lies between the two dates, both included.\<close>

theorem in_force_calendar:
  assumes "valid_date a" and "valid_date b" and "valid_date t"
  shows "is_in_force status (Some (isoformat a)) (Some (isoformat b)) (isoformat t) False
    \<longleftrightarrow> status \<in> set IN_FORCE_STATUSES \<and> ordinal a \<le> ordinal t \<and> ordinal t \<le> ordinal b"
  using assms by (auto simp: is_in_force_def is_expired_iso is_upcoming_iso)

theorem in_force_calendar_witness:
  "is_in_force ''active'' (Some (isoformat (Date 2026 1 1))) (Some (isoformat (Date 2026 1 30)))
     (isoformat (Date 2026 1 30)) False
   \<and> \<not> is_in_force ''active'' (Some (isoformat (Date 2026 1 1))) (Some (isoformat (Date 2026 1 30)))
     (isoformat (Date 2026 1 31)) False"
proof -
  have v: "valid_date (Date 2026 1 1)" "valid_date (Date 2026 1 30)" "valid_date (Date 2026 1 31)"
    by (simp_all add: valid_date_def days_in_month_def)
  show ?thesis
    unfolding in_force_calendar[OF v(1,2,2)] in_force_calendar[OF v(1,2,3)]
    by (simp add: IN_FORCE_STATUSES_def ordinal_def)
qed

subsection \<open>One predicate, three surfaces\<close>

text \<open>
  The contract of an in-force surface: it decides by status class, window and inbox floor alone,
  as the composed predicate does.
\<close>

locale in_force_surface =
  fixes status_of :: "'r \<Rightarrow> string" and from_of until_of :: "'r \<Rightarrow> string option"
    and inbox_of :: "'r \<Rightarrow> bool" and admits :: "string \<Rightarrow> 'r \<Rightarrow> bool" and wf :: "'r \<Rightarrow> bool"
  assumes admits_iff: "wf r \<Longrightarrow> admits today r \<longleftrightarrow>
    is_in_force (status_of r) (from_of r) (until_of r) today (inbox_of r)"
begin

lemma inbox_never: "wf r \<Longrightarrow> inbox_of r \<Longrightarrow> \<not> admits today r"
  by (simp add: admits_iff is_in_force_def)

lemma admits_status: "wf r \<Longrightarrow> admits today r \<Longrightarrow> status_of r \<in> set IN_FORCE_STATUSES"
  by (auto simp: admits_iff is_in_force_def split: if_splits)

lemma not_retired: "wf r \<Longrightarrow> admits today r \<Longrightarrow> \<not> is_retired (status_of r) (until_of r) today False"
  by (auto simp: admits_iff is_in_force_def is_retired_def status_defs split: if_splits)

lemma expiry_is_final:
  assumes "wf r" and "admits today r" and "\<not> admits later r" and "today \<le> later"
  shows "later' \<ge> later \<Longrightarrow> \<not> admits later' r"
proof -
  assume "later' \<ge> later"
  have "is_expired (until_of r) later"
    using assms by (auto simp: admits_iff is_in_force_def is_upcoming_def split: if_splits option.splits)
  then have "is_expired (until_of r) later'"
    using \<open>later' \<ge> later\<close> by (auto simp: is_expired_def split: option.splits)
  then show ?thesis using assms(1) by (simp add: admits_iff is_in_force_def)
qed

end

text \<open>A row as the index build stores it: an empty date column is NULL.\<close>

definition row_ok :: "doc_row \<Rightarrow> bool" where
  "row_ok r \<longleftrightarrow> r_valid_from r \<noteq> Some '''' \<and> r_valid_until r \<noteq> Some ''''"

definition sql_admits :: "string \<Rightarrow> doc_row \<Rightarrow> bool" where
  "sql_admits today r \<longleftrightarrow> r_status r \<in> set IN_FORCE_STATUSES \<and> in_force_sql today r \<and> not_inbox_sql r"

lemma sql_window: "row_ok r \<Longrightarrow> in_force_sql today r \<longleftrightarrow>
    \<not> is_expired (r_valid_until r) today \<and> \<not> is_upcoming (r_valid_from r) today"
  by (auto simp: row_ok_def in_force_sql_def null_or_def is_expired_def is_upcoming_def not_less
      split: option.splits)

interpretation sql: in_force_surface r_status r_valid_from r_valid_until r_is_inbox sql_admits row_ok
  by unfold_locales (auto simp: sql_admits_def is_in_force_def sql_window not_inbox_sql_def)

text \<open>The SQL filter and the Python predicate are one: on a row whose empty dates are stored as
  NULL, status class AND window fragment AND inbox fragment select it exactly when
  \<open>is_in_force\<close> holds of its columns.\<close>

theorem sql_filter_is_in_force:
  assumes "row_ok r"
  shows "r_status r \<in> set IN_FORCE_STATUSES \<and> in_force_sql today r \<and> not_inbox_sql r
    \<longleftrightarrow> is_in_force (r_status r) (r_valid_from r) (r_valid_until r) today (r_is_inbox r)"
  using sql.admits_iff[OF assms] by (simp add: sql_admits_def)

theorem sql_filter_is_in_force_witness:
  "\<not> is_in_force ''active'' None (Some ''2026-01-01'') ''2026-06-01'' False"
  using sql_filter_is_in_force[of "\<lparr>r_id = ''d'', r_status = ''active'', r_valid_from = None,
      r_valid_until = Some ''2026-01-01'', r_recheck_by = None, r_is_inbox = False\<rparr>" "''2026-06-01''"]
  by (simp add: row_ok_def in_force_sql_def null_or_def)

lemma set_graph_excluded:
  "set (graph_excluded_ids_sql docs edges today) = {t. \<exists>e \<in> set edges. \<exists>src \<in> set docs. e_target e = t
     \<and> e_rel e = ''supersedes'' \<and> r_id src = e_source e \<and> sql_admits today src
     \<and> (\<exists>tgt \<in> set docs. r_id tgt = t)}"
  by (auto simp: graph_excluded_ids_sql_def sql_admits_def in_force_sql_def not_inbox_sql_def)

lemma bex_source: "(\<exists>e\<in>E. \<exists>s\<in>D. f e = t \<and> R e \<and> i s = g e \<and> F s \<and> (\<exists>x\<in>D. i x = t))
    = (\<exists>e\<in>E. R e \<and> f e = t \<and> t \<in> i ` D \<and> (\<exists>s\<in>D. i s = g e \<and> F s))"
  unfolding image_iff by (intro iffI; elim bexE conjE; intro bexI conjI; (assumption | simp))

text \<open>Only a governing document retires another by an edge: a document is graph-excluded exactly
  when some supersedes edge leads to it from an existing document that is itself in force, and the
  document exists; a draft, expired, upcoming, retired or inbox source excludes nothing.\<close>

theorem graph_exclusion_needs_in_force_source:
  assumes "\<forall>r \<in> set docs. row_ok r"
  shows "t \<in> set (graph_excluded_ids_sql docs edges today) \<longleftrightarrow>
    (\<exists>e \<in> set edges. e_rel e = ''supersedes'' \<and> e_target e = t \<and> t \<in> r_id ` set docs
      \<and> (\<exists>src \<in> set docs. r_id src = e_source e
          \<and> is_in_force (r_status src) (r_valid_from src) (r_valid_until src) today (r_is_inbox src)))"
proof -
  have "sql_admits today src \<longleftrightarrow> is_in_force (r_status src) (r_valid_from src) (r_valid_until src) today (r_is_inbox src)"
    if "src \<in> set docs" for src using that assms sql.admits_iff by blast
  then have "(t \<in> set (graph_excluded_ids_sql docs edges today)) = (\<exists>e \<in> set edges. \<exists>src \<in> set docs. e_target e = t
     \<and> e_rel e = ''supersedes'' \<and> r_id src = e_source e
     \<and> is_in_force (r_status src) (r_valid_from src) (r_valid_until src) today (r_is_inbox src)
     \<and> (\<exists>tgt \<in> set docs. r_id tgt = t))" unfolding set_graph_excluded by blast
  also have "\<dots> = (\<exists>e \<in> set edges. e_rel e = ''supersedes'' \<and> e_target e = t \<and> t \<in> r_id ` set docs
      \<and> (\<exists>src \<in> set docs. r_id src = e_source e
          \<and> is_in_force (r_status src) (r_valid_from src) (r_valid_until src) today (r_is_inbox src)))"
    by (rule bex_source)
  finally show ?thesis .
qed

definition ex_row :: "string \<Rightarrow> string \<Rightarrow> string option \<Rightarrow> doc_row" where
  "ex_row i st until = \<lparr>r_id = i, r_status = st, r_valid_from = None, r_valid_until = until,
     r_recheck_by = None, r_is_inbox = False\<rparr>"

theorem graph_exclusion_needs_in_force_source_witness:
  "''old'' \<in> set (graph_excluded_ids_sql [ex_row ''new'' ''active'' None, ex_row ''old'' ''active'' None]
      [\<lparr>e_source = ''new'', e_rel = ''supersedes'', e_target = ''old''\<rparr>] ''2026-06-01'')
   \<and> ''old'' \<notin> set (graph_excluded_ids_sql [ex_row ''new'' ''draft'' None, ex_row ''old'' ''active'' None]
      [\<lparr>e_source = ''new'', e_rel = ''supersedes'', e_target = ''old''\<rparr>] ''2026-06-01'')"
proof -
  have ok: "\<forall>r \<in> set [ex_row ''new'' st None, ex_row ''old'' ''active'' None]. row_ok r" for st
    by (simp add: row_ok_def ex_row_def)
  show ?thesis
    unfolding graph_exclusion_needs_in_force_source[OF ok]
    by (simp add: ex_row_def is_in_force_def is_expired_def is_upcoming_def IN_FORCE_STATUSES_def)
qed

subsection \<open>The schema check\<close>

lemma in_frozenset_cases: "in_frozenset v S = Inl TypeError \<and> \<not> hashable v \<or> hashable v \<and> (\<exists>b. in_frozenset v S = Inr b)"
  by (simp add: in_frozenset_def)

lemma enum_finding_Inl: "enum_finding fm k = Inl e \<longleftrightarrow> e = TypeError \<and> \<not> hashable (fm_get fm k)"
  by (auto simp: enum_finding_def in_frozenset_def Let_def split: bool.splits)

lemma enum_finding_raises:
  "enum_finding fm k = Inl TypeError \<and> \<not> hashable (fm_get fm k) \<or>
   hashable (fm_get fm k) \<and> (\<exists>fs. enum_finding fm k = Inr fs)"
  by (auto simp: enum_finding_def in_frozenset_def Let_def split: bool.splits)

lemma enum_findings_raises:
  "enum_findings fm ks = Inl TypeError \<and> (\<exists>k \<in> set ks. \<not> hashable (fm_get fm k)) \<or>
   (\<forall>k \<in> set ks. hashable (fm_get fm k)) \<and> (\<exists>fs. enum_findings fm ks = Inr fs)"
proof (induction ks)
  case (Cons k ks)
  then show ?case using enum_finding_raises[of fm k] by auto
qed simp

lemma enum_findings_Inl: "enum_findings fm ks = Inl e \<longleftrightarrow> e = TypeError \<and> (\<exists>k \<in> set ks. \<not> hashable (fm_get fm k))"
  using enum_findings_raises[of fm ks] by auto

lemma validity_findings_Inl: "validity_findings fm today = Inl e \<Longrightarrow> e = TypeError \<and> \<not> hashable (fm_get fm ''status'')"
  by (auto simp: validity_findings_def in_frozenset_def Let_def split: pyval.splits if_splits sum.splits)

text \<open>The schema check is not total on untrusted frontmatter: outside the reserved file names
  it raises TypeError exactly when one of the three enum fields holds an unhashable value
  (a YAML list or mapping), and it raises nothing else.\<close>

theorem validate_raises_iff_unhashable:
  "(validate_document name fm today = Inl e) \<longleftrightarrow>
   (e = TypeError \<and> name \<notin> set RESERVED \<and> (\<exists>k \<in> {''type'', ''status'', ''tier''}. \<not> hashable (fm_get fm k)))"
proof (cases "enum_findings fm [''type'', ''status'', ''tier'']")
  case (Inl x)
  then show ?thesis
    using enum_findings_Inl[of fm "[''type'', ''status'', ''tier'']" x]
    by (auto simp: validate_document_def simp del: enum_findings.simps)
next
  case (Inr fs)
  then have h: "\<forall>k \<in> {''type'', ''status'', ''tier''}. hashable (fm_get fm k)"
    using enum_findings_Inl[of fm "[''type'', ''status'', ''tier'']" TypeError]
    by (auto simp del: enum_findings.simps)
  then have "\<exists>gs. validity_findings fm today = Inr gs"
    using validity_findings_Inl[of fm today] by (cases "validity_findings fm today") auto
  with Inr h show ?thesis
    by (auto simp: validate_document_def simp del: enum_findings.simps)
qed

definition errors_of :: "finding list \<Rightarrow> (string \<times> message) set" where
  "errors_of fs = {(f_field f, f_message f) |f. f \<in> set fs \<and> f_severity f = Error}"

lemma errors_of_append [simp]: "errors_of (fs @ gs) = errors_of fs \<union> errors_of gs"
  by (auto simp: errors_of_def)

lemma errors_of_listed: "errors_of [Finding Error k m. k \<leftarrow> ks, Q k] = {(k, m) |k. k \<in> set ks \<and> Q k}"
proof (induction ks)
  case Nil
  then show ?case by (simp add: errors_of_def)
next
  case (Cons a ks)
  have "errors_of [Finding Error a m] = {(a, m)}" "errors_of [] = {}" by (auto simp: errors_of_def)
  then show ?case using Cons by (simp only: list.map concat.simps errors_of_append split: if_split) auto
qed

lemma errors_of_warnings: "list_all (\<lambda>f. f_severity f = Warning) fs \<Longrightarrow> errors_of fs = {}"
  by (auto simp: errors_of_def list_all_iff)

lemma validity_warnings: "validity_findings fm today = Inr fs \<Longrightarrow> list_all (\<lambda>f. f_severity f = Warning) fs"
  by (auto simp: validity_findings_def Let_def split: pyval.splits if_splits sum.splits)

lemma recommended_warnings: "list_all (\<lambda>f. f_severity f = Warning) (concat (map (recommended_finding fm) ks))"
  by (auto simp: recommended_finding_def list_all_iff)

lemma enum_findings_errors:
  "enum_findings fm ks = Inr fs \<Longrightarrow> errors_of fs =
     {(k, InvalidEnum (fm_get fm k)) |k. k \<in> set ks \<and> fm_get fm k \<noteq> PyNone
        \<and> \<not> (\<exists>s \<in> set (enum_values k). fm_get fm k = PyStr s)}"
proof (induction ks arbitrary: fs)
  case Nil
  then show ?case by (simp add: errors_of_def)
next
  case (Cons k ks)
  then obtain f1 f2 where f: "enum_finding fm k = Inr f1" "enum_findings fm ks = Inr f2" "fs = f1 @ f2"
    by (auto split: sum.splits)
  have "errors_of f1 = {(k, InvalidEnum (fm_get fm k)) |i. i = k \<and> fm_get fm k \<noteq> PyNone
        \<and> \<not> (\<exists>s \<in> set (enum_values k). fm_get fm k = PyStr s)}"
    using f(1) by (auto simp: enum_finding_def errors_of_def in_frozenset_def Let_def
        split: if_splits bool.splits pyval.splits)
  with Cons.IH[OF f(2)] f(3) show ?case by auto
qed

text \<open>The errors of the schema check are exactly the missing required fields and the enum fields
  whose value is outside its vocabulary; the date it is run on, the validity block, provenance
  and tags only ever add warnings.\<close>

theorem validate_errors_exact:
  assumes "validate_document name fm today = Inr fs" and "name \<notin> set RESERVED"
  shows "errors_of fs =
     {(k, MissingRequired) |k. k \<in> set REQUIRED \<and> fm_get fm k = PyNone}
     \<union> {(k, InvalidEnum (fm_get fm k)) |k. k \<in> {''type'', ''status'', ''tier''} \<and> fm_get fm k \<noteq> PyNone
          \<and> \<not> (\<exists>s \<in> set (enum_values k). fm_get fm k = PyStr s)}"
proof -
  from assms obtain enums vals where e: "enum_findings fm [''type'', ''status'', ''tier''] = Inr enums"
    and v: "validity_findings fm today = Inr vals"
    by (auto simp: validate_document_def simp del: enum_findings.simps split: sum.splits)
  have fs: "errors_of fs = errors_of [Finding Error k MissingRequired. k \<leftarrow> REQUIRED, fm_get fm k = PyNone]
      \<union> (errors_of enums \<union> (errors_of (concat (map (recommended_finding fm) RECOMMENDED))
      \<union> (errors_of (if has_key fm ''generated'' then map (\<lambda>p. Finding Warning ''generated'' (Generated p))
           (generated_problems (fm_get fm ''generated'')) else [])
      \<union> (errors_of (let tags = fm_get fm ''tags''
           in if tags \<noteq> PyNone \<and> \<not> is_list tags then [Finding Warning ''tags'' TagsNotList] else [])
      \<union> errors_of vals))))"
    using assms e v by (simp only: validate_document_def if_False sum.case sum.inject errors_of_append [symmetric])
  have w: "errors_of vals = {}" "errors_of (concat (map (recommended_finding fm) RECOMMENDED)) = {}"
    using errors_of_warnings validity_warnings[OF v] recommended_warnings by blast+
  have g: "errors_of (if has_key fm ''generated'' then map (\<lambda>p. Finding Warning ''generated'' (Generated p))
           (generated_problems (fm_get fm ''generated'')) else []) = {}"
    "errors_of (let tags = fm_get fm ''tags''
           in if tags \<noteq> PyNone \<and> \<not> is_list tags then [Finding Warning ''tags'' TagsNotList] else []) = {}"
    by (auto intro!: errors_of_warnings simp: list_all_iff Let_def)
  have m: "errors_of [Finding Error k MissingRequired. k \<leftarrow> REQUIRED, fm_get fm k = PyNone]
    = {(k, MissingRequired) |k. k \<in> set REQUIRED \<and> fm_get fm k = PyNone}"
    by (rule errors_of_listed)
  show ?thesis
    unfolding fs w g m enum_findings_errors[OF e] by simp
qed

definition ex_doc :: frontmatter where
  "ex_doc = [(PyStr ''id'', PyStr ''D''), (PyStr ''type'', PyStr ''standard''), (PyStr ''status'', PyStr ''live''),
     (PyStr ''validity'', PyStr ''none'')]"

theorem validate_errors_exact_witness:
  "\<exists>fs. validate_document ''d.md'' ex_doc [] = Inr fs \<and> (''tier'', MissingRequired) \<in> errors_of fs
     \<and> (''status'', InvalidEnum (PyStr ''live'')) \<in> errors_of fs \<and> (''type'', MissingRequired) \<notin> errors_of fs"
proof -
  have "(case validate_document ''d.md'' ex_doc [] of Inr fs \<Rightarrow> True | Inl e \<Rightarrow> False)" by code_simp
  then obtain fs where fs: "validate_document ''d.md'' ex_doc [] = Inr fs" by (auto split: sum.splits)
  have n: "''d.md'' \<notin> set RESERVED" by (simp add: RESERVED_def)
  have "fm_get ex_doc ''tier'' = PyNone" "fm_get ex_doc ''status'' = PyStr ''live''"
    "fm_get ex_doc ''type'' = PyStr ''standard''" "''tier'' \<in> set REQUIRED" "''live'' \<notin> set (enum_values ''status'')"
    by code_simp+
  then have "(''tier'', MissingRequired) \<in> errors_of fs \<and> (''status'', InvalidEnum (PyStr ''live'')) \<in> errors_of fs
     \<and> (''type'', MissingRequired) \<notin> errors_of fs"
    unfolding validate_errors_exact[OF fs n] by auto
  with fs show ?thesis by blast
qed

text \<open>Freshness agrees with force: for a document whose status is in force and which is not in
  the inbox, freshness reports Expired or Upcoming exactly when the document is not in force.\<close>

theorem freshness_agrees_with_force:
  assumes "status \<in> set IN_FORCE_STATUSES"
  shows "is_in_force status vf vu today False \<longleftrightarrow>
    \<not> (\<exists>a b. compute_freshness vf vu rb lv today days \<in> {Some (Expired a b), Some (Upcoming a b)})"
  using assms by (auto simp: is_in_force_def compute_freshness_def split: option.splits)

theorem freshness_agrees_with_force_witness:
  "\<not> is_in_force ''accepted'' None (Some ''2026-01-01'') ''2026-02-01'' False"
proof -
  have s: "''accepted'' \<in> set IN_FORCE_STATUSES" by (simp add: IN_FORCE_STATUSES_def)
  have "compute_freshness None (Some ''2026-01-01'') None None ''2026-02-01'' None
      = Some (Expired ''2026-01-01'' ''2026-02-01'')"
    by (simp add: compute_freshness_def is_expired_def)
  then show ?thesis
    unfolding freshness_agrees_with_force[OF s, where rb = None and lv = None and days = None] by blast
qed

end
