(* ===== verification/Taxonomy.thy ===== *)
theory Taxonomy
  imports Prelude
begin

text \<open>
  Paths inside a bundle (\<^verbatim>\<open>index.py\<close>): the path taxonomy that gives a document its tier and
  category, the directory exclusions, and the id that a document without one gets. A relative
  path is a string with \<open>/\<close>; a \<^verbatim>\<open>pathlib\<close> path is the list of its parts.
\<close>

definition split_on :: "char \<Rightarrow> string \<Rightarrow> string list" where
  "split_on c s = foldr (\<lambda>x acc. if x = c then [] # acc else (x # hd acc) # tl acc) s [[]]"

fun join_with :: "string \<Rightarrow> string list \<Rightarrow> string" where
  "join_with sep [] = []"
| "join_with sep [x] = x"
| "join_with sep (x # y # xs) = x @ sep @ join_with sep (y # xs)"

definition removesuffix :: "string \<Rightarrow> string \<Rightarrow> string" where
  "removesuffix suf s = (if suf \<noteq> [] \<and> ends_with suf s then take (length s - length suf) s else s)"

lemma split_on_Nil [simp]: "split_on c [] = [[]]"
  by (simp add: split_on_def)

lemma split_on_not_Nil [simp]: "split_on c s \<noteq> []"
  by (induction s) (auto simp: split_on_def)

lemma split_on_Cons: "split_on c (x # s) = (if x = c then [] # split_on c s else (x # hd (split_on c s)) # tl (split_on c s))"
  by (simp add: split_on_def)

lemma split_on_free: "p \<in> set (split_on c s) \<Longrightarrow> c \<notin> set p"
proof (induction s arbitrary: p)
  case (Cons x s)
  then show ?case
    by (cases "split_on c s") (auto simp: split_on_Cons split: if_splits)
qed (simp add: split_on_def)

lemma join_split: "join_with [c] (split_on c s) = s"
proof (induction s)
  case (Cons x s)
  obtain p ps where p: "split_on c s = p # ps" by (cases "split_on c s") auto
  then show ?case using Cons by (cases ps) (auto simp: split_on_Cons)
qed simp

lemma split_append_sep: "c \<notin> set p \<Longrightarrow> split_on c (p @ c # s) = p # split_on c s"
  by (induction p) (auto simp: split_on_Cons)

lemma split_free: "c \<notin> set p \<Longrightarrow> split_on c p = [p]"
  by (induction p) (auto simp: split_on_Cons)

lemma split_join: "ps \<noteq> [] \<Longrightarrow> \<forall>p \<in> set ps. c \<notin> set p \<Longrightarrow> split_on c (join_with [c] ps) = ps"
  by (induction "[c]" ps rule: join_with.induct) (auto simp: split_free split_append_sep)

lemma length_removesuffix: "length (removesuffix suf s) \<le> length s"
  by (simp add: removesuffix_def)

subsection \<open>The taxonomy\<close>

type_synonym path_rule = "string \<times> string \<times> string"

definition DEFAULT_PATH_RULES :: "path_rule list" where
  "DEFAULT_PATH_RULES = [
     (''universal/foundation/'', ''T1'', ''foundation''),
     (''universal/quality/'', ''T1'', ''quality''),
     (''universal/security/'', ''T1'', ''security''),
     (''universal/infrastructure/'', ''T1'', ''infrastructure''),
     (''universal/database/'', ''T1'', ''database''),
     (''universal/api/'', ''T1'', ''api''),
     (''universal/services/'', ''T1'', ''services''),
     (''universal/'', ''T1'', ''universal''),
     (''tech-stacks/'', ''T2'', ''stack''),
     (''decisions/'', ''decisions'', ''decisions''),
     (''workflows/'', ''workflows'', ''workflows''),
     (''memory/inbox/'', ''memory'', ''memory-inbox''),
     (''memory/accepted/'', ''memory'', ''memory-accepted''),
     (''memory/'', ''memory'', ''memory''),
     (''tooling/'', ''tooling'', ''tooling''),
     (''templates/'', ''templates'', ''templates''),
     (''projects/'', ''T3'', ''project'')]"

definition to_slashes :: "string \<Rightarrow> string" where
  "to_slashes s = map (\<lambda>c. if c = CHR 0x5C then CHR ''/'' else c) s"

fun classify_norm :: "string \<Rightarrow> path_rule list \<Rightarrow> string \<times> string" where
  "classify_norm pth [] = (''meta'', ''meta'')"
| "classify_norm pth ((pre, tier, category) # rules) =
     (if starts_with pre pth then
        let parts = split_on CHR ''/'' pth in
        if pre = ''projects/'' \<and> length parts \<ge> 5 \<and> parts ! 2 = ''components'' then
          (''T4'', ''component:'' @ parts ! 1 @ ''/'' @ parts ! 3)
        else if pre = ''projects/'' \<and> length parts \<ge> 2 then
          (''T3'', ''project:'' @ removesuffix ''.md'' (parts ! 1))
        else if pre = ''tech-stacks/'' \<and> length parts \<ge> 2 \<and> parts ! 1 \<noteq> '''' then
          (tier, category @ '':'' @ removesuffix ''.md'' (parts ! 1))
        else (tier, category)
      else classify_norm pth rules)"

definition classify_by_path :: "string \<Rightarrow> path_rule list \<Rightarrow> string \<times> string" where
  "classify_by_path rel_path rules = classify_norm (to_slashes rel_path) rules"

definition EXCLUDED_DIR_NAMES :: "string list" where
  "EXCLUDED_DIR_NAMES = [''.git'', ''.pytest_cache'', ''.mypy_cache'', ''.ruff_cache'', ''.venv'',
     ''__pycache__'', ''node_modules'', ''.worktrees'', ''to-delete'', ''archive'', ''_archive'',
     ''data-olympus-mcp'', ''test-fixtures'', ''cli-fixtures'']"

definition is_excluded :: "string list \<Rightarrow> bool" where
  "is_excluded parts \<longleftrightarrow> list_ex (\<lambda>p. p \<in> set EXCLUDED_DIR_NAMES) parts"

subsection \<open>Ids from paths\<close>

text \<open>\<open>with_suffix('')\<close> on the last part: the text after its last dot goes, unless the dot is the
  first or the last character of the name.\<close>

definition stem :: "string \<Rightarrow> string" where
  "stem name =
     (let ext = takeWhile (\<lambda>c. c \<noteq> CHR ''.'') (rev name);
          base = drop (length ext) (rev name)
      in if base = [] \<or> tl base = [] \<or> ext = [] then name else rev (tl base))"

definition derive_id_from_path :: "string list \<Rightarrow> string" where
  "derive_id_from_path parts = join_with ''-'' (butlast parts @ [stem (last parts)])"

subsection \<open>What the classification guarantees\<close>

lemma to_slashes_id [simp]: "CHR 0x5C \<notin> set s \<Longrightarrow> to_slashes s = s"
  by (induction s) (auto simp: to_slashes_def)

lemma to_slashes_idem: "to_slashes (to_slashes s) = to_slashes s"
  by (simp add: to_slashes_def)

lemma classify_tier:
  "fst (classify_norm pth rules) \<in> {''meta'', ''T3'', ''T4''} \<union> (fst \<circ> snd) ` set rules"
  by (induction pth rules rule: classify_norm.induct) (auto simp: Let_def)

lemma classify_no_match:
  "\<forall>(p, t, c) \<in> set rules. \<not> starts_with p pth \<Longrightarrow> classify_norm pth rules = (''meta'', ''meta'')"
  by (induction pth rules rule: classify_norm.induct) auto

lemma classify_skip:
  "\<forall>(p, t, c) \<in> set pre. \<not> starts_with p pth \<Longrightarrow> classify_norm pth (pre @ rules) = classify_norm pth rules"
  by (induction pth pre rule: classify_norm.induct) auto

lemma classify_projects_hit:
  assumes "starts_with ''projects/'' pth"
  shows "fst (classify_norm pth ((''projects/'', t, c) # rules)) \<in> {''T3'', ''T4''}"
proof -
  from assms obtain s where "pth = ''projects'' @ CHR ''/'' # s"
    by (auto simp: starts_with_iff_prefix prefix_def)
  then have "length (split_on CHR ''/'' pth) \<ge> 2"
    using split_append_sep[of "CHR ''/''" "''projects''" s] by (cases "split_on CHR ''/'' s") auto
  then show ?thesis using assms by (simp add: Let_def)
qed

lemma starts_with_hd: "starts_with (c # p) s \<Longrightarrow> s \<noteq> [] \<and> hd s = c"
  by (cases s) (auto simp: starts_with_def)

lemma starts_with_first: "starts_with p s \<Longrightarrow> p \<noteq> [] \<Longrightarrow> hd s = hd p"
  using starts_with_hd[of "hd p" "tl p" s] by simp

lemma default_projects_only:
  assumes "starts_with ''projects/'' pth"
  shows "classify_norm pth DEFAULT_PATH_RULES = classify_norm pth [(''projects/'', ''T3'', ''project'')]"
proof -
  have "DEFAULT_PATH_RULES = butlast DEFAULT_PATH_RULES @ [(''projects/'', ''T3'', ''project'')]"
    by (simp add: DEFAULT_PATH_RULES_def)
  moreover have "list_all (\<lambda>(p, t, c). p \<noteq> [] \<and> hd p \<noteq> CHR ''p'') (butlast DEFAULT_PATH_RULES)"
    by code_simp
  then have "\<forall>(p, t, c) \<in> set (butlast DEFAULT_PATH_RULES). \<not> starts_with p pth"
    using starts_with_hd[OF assms] starts_with_first by (fastforce simp: list_all_iff)
  ultimately show ?thesis
    using classify_skip[of "butlast DEFAULT_PATH_RULES" pth "[(''projects/'', ''T3'', ''project'')]"]
    by argo
qed

text \<open>Every path in the project tree is T3 or T4 under the default taxonomy, T4 exactly when the third
  segment is \<open>components\<close> and a component directory follows; then its category names
  the project and the component.\<close>

theorem projects_classified:
  assumes "starts_with ''projects/'' (to_slashes rel)"
  shows "let parts = split_on CHR ''/'' (to_slashes rel) in
    classify_by_path rel DEFAULT_PATH_RULES =
      (if length parts \<ge> 5 \<and> parts ! 2 = ''components''
       then (''T4'', ''component:'' @ parts ! 1 @ ''/'' @ parts ! 3)
       else (''T3'', ''project:'' @ removesuffix ''.md'' (parts ! 1)))"
  using classify_projects_hit[OF assms, of "''none''" "''''" "[]"] assms
  by (auto simp: classify_by_path_def default_projects_only Let_def split: if_splits)

theorem projects_classified_witness:
  "classify_by_path ''projects/acme/components/db/x.md'' DEFAULT_PATH_RULES = (''T4'', ''component:acme/db'')"
proof -
  have s: "starts_with ''projects/'' (to_slashes ''projects/acme/components/db/x.md'')"
    by (simp add: starts_with_def)
  have "split_on CHR ''/'' (to_slashes ''projects/acme/components/db/x.md'')
      = [''projects'', ''acme'', ''components'', ''db'', ''x.md'']"
    by code_simp
  then show ?thesis using projects_classified[OF s] by (simp add: Let_def)
qed

text \<open>The id derived from a path is not unique to it: a dash in a file name and a directory
  separator give the same id, so two documents without an id of their own can collide.\<close>

lemma derived_ids_collide:
  "derive_id_from_path [''a'', ''b.md''] = derive_id_from_path [''a-b.md''] \<and>
   \<not> is_excluded [''a'', ''b.md''] \<and> \<not> is_excluded [''a-b.md'']"
  by (simp add: derive_id_from_path_def stem_def is_excluded_def EXCLUDED_DIR_NAMES_def Let_def)

end
