(* ===== verification/Cycles.thy ===== *)
theory Cycles
  imports Prelude
begin

text \<open>
  The cycle finder of the linter (\<open>_find_cycles\<close> in \<^verbatim>\<open>format/lint.py\<close>): a depth-first search
  with white, grey and black nodes. A graph is the list of its edges; the code's
  \<open>dict\<close> of sets has an entry for every source of an edge. The search function handles the
  rest of a neighbour list, so that \<open>visit\<close> is its inlined body. Python bounds the depth of nested calls and raises
  \<^verbatim>\<open>RecursionError\<close> beyond it, which here would need a chain of several hundred documents; the model has no such bound.
\<close>

type_synonym graph = "(string \<times> string) list"

definition succs :: "graph \<Rightarrow> string \<Rightarrow> string list" where
  "succs g n = sort (remdups (map snd (filter (\<lambda>e. fst e = n) g)))"

definition graph_keys :: "graph \<Rightarrow> string list" where
  "graph_keys g = sort (remdups (map fst g))"

definition graph_nodes :: "graph \<Rightarrow> string set" where
  "graph_nodes g = fst ` set g \<union> snd ` set g"

datatype color = White | Gray | Black

record dfs =
  color :: "(string, color) dict"
  stack :: "string list" \<comment> \<open>the top of the stack is the last element\<close>
  cycles :: "string list list"

definition color_of :: "dfs \<Rightarrow> string \<Rightarrow> color" where
  "color_of s n = get_or White (color s) n"

definition enter :: "string \<Rightarrow> dfs \<Rightarrow> dfs" where
  "enter n s = s\<lparr>color := dset n Gray (color s), stack := stack s @ [n]\<rparr>"

definition leave :: "string \<Rightarrow> dfs \<Rightarrow> dfs" where
  "leave n s = s\<lparr>stack := butlast (stack s), color := dset n Black (color s)\<rparr>"

definition record_cycle :: "string \<Rightarrow> dfs \<Rightarrow> dfs" where
  "record_cycle m s = s\<lparr>cycles := cycles s @ [dropWhile (\<lambda>x. x \<noteq> m) (stack s) @ [m]]\<rparr>"

definition whites :: "graph \<Rightarrow> dfs \<Rightarrow> string set" where
  "whites g s = {n \<in> graph_nodes g. color_of s n = White}"

lemma finite_whites [simp]: "finite (whites g s)"
  by (simp add: whites_def graph_nodes_def)

lemma color_enter [simp]: "color_of (enter n s) m = (if m = n then Gray else color_of s m)"
  by (simp add: enter_def color_of_def get_or_def)

lemma color_leave [simp]: "color_of (leave n s) m = (if m = n then Black else color_of s m)"
  by (simp add: leave_def color_of_def get_or_def)

lemma color_record [simp]: "color_of (record_cycle n s) m = color_of s m"
  by (simp add: record_cycle_def color_of_def)

lemma set_succs: "set (succs g n) = {m. (n, m) \<in> set g}"
  by (force simp: succs_def)

lemma succs_outside: "n \<notin> graph_nodes g \<Longrightarrow> succs g n = []"
  using set_succs[of g n] by (force simp: graph_nodes_def simp flip: set_empty)

lemma whites_leave: "whites g (leave n s) \<subseteq> whites g s"
  by (auto simp: whites_def)

lemma whites_enter: "whites g (enter n s) = whites g s - {n}"
  by (auto simp: whites_def)

function visits :: "graph \<Rightarrow> string list \<Rightarrow> dfs \<Rightarrow> dfs" where
  "visits g [] s = s"
| "visits g (n # ns) s =
     (if color_of s n = White then visits g ns (leave n (visits g (succs g n) (enter n s)))
      else if color_of s n = Gray then visits g ns (record_cycle n s)
      else visits g ns s)"
  by pat_completeness auto

termination
proof (relation "inv_image (less_than <*lex*> less_than) (\<lambda>(g, ns, s). (card (whites g s), length ns))", goal_cases)
  case 1
  then show ?case by (intro wf_inv_image wf_lex_prod wf_less_than)
next
  case (2 g n ns s)
  show ?case
  proof (cases "n \<in> graph_nodes g")
    case True
    then have "whites g (enter n s) \<subset> whites g s" using 2 by (auto simp: whites_def)
    then show ?thesis by (simp add: psubset_card_mono)
  next
    case False
    then have "whites g (enter n s) = whites g s" by (auto simp: whites_def)
    then show ?thesis using succs_outside[OF False] by simp
  qed
next
  case (3 g n ns s)
  have colored: "visits_dom (g, ns, s) \<Longrightarrow> color_of s m \<noteq> White \<Longrightarrow> color_of (visits g ns s) m \<noteq> White" for g ns s m
    by (induction g ns s rule: visits.pinduct) (simp_all add: visits.psimps)
  have "whites g (visits g (succs g n) (enter n s)) \<subseteq> whites g (enter n s)"
    using colored[OF 3(2)] by (fastforce simp: whites_def)
  then have "whites g (leave n (visits g (succs g n) (enter n s))) \<subseteq> whites g s"
    using whites_leave whites_enter by blast
  then have "card (whites g (leave n (visits g (succs g n) (enter n s)))) \<le> card (whites g s)"
    by (simp add: card_mono)
  then show ?case by auto
next
  case (4 g n ns s)
  have "whites g (record_cycle n s) = whites g s" by (simp add: whites_def)
  then show ?case by simp
next
  case 5
  then show ?case by simp
qed

definition visit :: "graph \<Rightarrow> string \<Rightarrow> dfs \<Rightarrow> dfs" where
  "visit g n s = leave n (visits g (succs g n) (enter n s))"

fun visit_roots :: "graph \<Rightarrow> string list \<Rightarrow> dfs \<Rightarrow> dfs" where
  "visit_roots g [] s = s"
| "visit_roots g (n # ns) s = visit_roots g ns (if color_of s n = White then visit g n s else s)"

definition find_cycles :: "graph \<Rightarrow> string list list" where
  "find_cycles g = cycles (visit_roots g (graph_keys g) \<lparr>color = [], stack = [], cycles = []\<rparr>)"

subsection \<open>Soundness\<close>

abbreviation walk :: "graph \<Rightarrow> string list \<Rightarrow> bool" where
  "walk g xs \<equiv> successively (\<lambda>a b. (a, b) \<in> set g) xs"

definition closed_walk :: "graph \<Rightarrow> string list \<Rightarrow> bool" where
  "closed_walk g c \<longleftrightarrow> length c \<ge> 2 \<and> hd c = last c \<and> distinct (tl c) \<and> walk g c"

definition dfs_ok :: "graph \<Rightarrow> dfs \<Rightarrow> bool" where
  "dfs_ok g s \<longleftrightarrow> distinct (stack s) \<and> walk g (stack s)
     \<and> (\<forall>m. color_of s m = Gray \<longleftrightarrow> m \<in> set (stack s)) \<and> (\<forall>c \<in> set (cycles s). closed_walk g c)"

definition from_top :: "graph \<Rightarrow> string list \<Rightarrow> dfs \<Rightarrow> bool" where
  "from_top g ns s \<longleftrightarrow> stack s \<noteq> [] \<and> (\<forall>n \<in> set ns. (last (stack s), n) \<in> set g)"

lemma stack_simps [simp]:
  "stack (enter n s) = stack s @ [n]" "stack (leave n s) = butlast (stack s)" "stack (record_cycle n s) = stack s"
  "cycles (enter n s) = cycles s" "cycles (leave n s) = cycles s"
  by (simp_all add: enter_def leave_def record_cycle_def)

lemma dfs_ok_enter:
  assumes "dfs_ok g s" and "color_of s n = White" and "stack s \<noteq> [] \<Longrightarrow> (last (stack s), n) \<in> set g"
  shows "dfs_ok g (enter n s)"
proof -
  have "n \<notin> set (stack s)" using assms(1,2) by (metis color.distinct(1) dfs_ok_def)
  with assms show ?thesis
    by (cases "stack s = []") (auto simp: dfs_ok_def successively_append_iff)
qed

lemma dfs_ok_leave:
  assumes "dfs_ok g s" and "stack s = st @ [n]"
  shows "dfs_ok g (leave n s)"
  using assms by (auto simp: dfs_ok_def successively_append_iff)

lemma dfs_ok_record:
  assumes "dfs_ok g s" and "color_of s n = Gray" and "(last (stack s), n) \<in> set g"
  shows "dfs_ok g (record_cycle n s)"
proof -
  have n: "n \<in> set (stack s)" using assms(1,2) by (simp add: dfs_ok_def)
  then obtain xs ys where st: "stack s = xs @ n # ys" "n \<notin> set xs" by (meson split_list_first)
  then have d: "dropWhile (\<lambda>x. x \<noteq> n) (stack s) = n # ys"
    by (induction xs arbitrary: s) (auto simp: dropWhile_append)
  have "walk g (n # ys)" "distinct (n # ys)" "last (n # ys) = last (stack s)"
    using assms(1) st by (auto simp: dfs_ok_def successively_append_iff)
  moreover from this have "walk g ((n # ys) @ [n])"
    using assms(3) by (subst successively_append_iff) auto
  ultimately have "closed_walk g ((n # ys) @ [n])"
    by (simp add: closed_walk_def)
  then show ?thesis
    using assms(1) d by (auto simp: dfs_ok_def record_cycle_def color_of_def)
qed

lemma visits_ok:
  "dfs_ok g s \<Longrightarrow> from_top g ns s \<Longrightarrow> dfs_ok g (visits g ns s) \<and> stack (visits g ns s) = stack s"
proof (induction g ns s rule: visits.induct)
  case (1 g s)
  then show ?case by simp
next
  case (2 g n ns s)
  have top: "from_top g ns s" "(last (stack s), n) \<in> set g" using 2(6) by (auto simp: from_top_def)
  consider (w) "color_of s n = White" | (g) "color_of s n = Gray" | (b) "color_of s n = Black"
    by (cases "color_of s n") auto
  then show ?case
  proof cases
    case w
    let ?s1 = "visits g (succs g n) (enter n s)"
    have e: "dfs_ok g (enter n s)" using dfs_ok_enter[OF 2(5) w] top by simp
    have t: "from_top g (succs g n) (enter n s)" by (simp add: from_top_def set_succs)
    have s1: "dfs_ok g ?s1" "stack ?s1 = stack s @ [n]" using 2(1)[OF w e t] by auto
    then have l: "dfs_ok g (leave n ?s1)" "stack (leave n ?s1) = stack s"
      using dfs_ok_leave by auto
    then have "from_top g ns (leave n ?s1)" using top by (simp add: from_top_def)
    then show ?thesis using 2(2)[OF w l(1)] l(2) w by simp
  next
    case g
    have r: "dfs_ok g (record_cycle n s)" using dfs_ok_record[OF 2(5) g top(2)] .
    moreover have "from_top g ns (record_cycle n s)" using top by (simp add: from_top_def)
    ultimately show ?thesis using 2(3) g by simp
  next
    case b
    then show ?thesis using 2(4) 2(5) top by simp
  qed
qed

lemma visit_ok:
  assumes "dfs_ok g s" and "stack s = []" and "color_of s n = White"
  shows "dfs_ok g (visit g n s) \<and> stack (visit g n s) = []"
proof -
  have "dfs_ok g (enter n s)" using dfs_ok_enter assms by simp
  moreover have "from_top g (succs g n) (enter n s)" by (simp add: from_top_def set_succs)
  ultimately have "dfs_ok g (visits g (succs g n) (enter n s))" "stack (visits g (succs g n) (enter n s)) = [n]"
    using visits_ok assms(2) by fastforce+
  then show ?thesis using dfs_ok_leave[of g _ "[]" n] by (simp add: visit_def)
qed

lemma visit_roots_ok: "dfs_ok g s \<Longrightarrow> stack s = [] \<Longrightarrow> dfs_ok g (visit_roots g ns s) \<and> stack (visit_roots g ns s) = []"
  by (induction ns arbitrary: s) (auto simp: visit_ok)

lemma dfs_ok_start: "dfs_ok g \<lparr>color = [], stack = [], cycles = []\<rparr>"
  by (simp add: dfs_ok_def color_of_def get_or_def)

lemma find_cycles_sound: "c \<in> set (find_cycles g) \<Longrightarrow> closed_walk g c"
  using visit_roots_ok[OF dfs_ok_start] by (simp add: find_cycles_def dfs_ok_def)

subsection \<open>Completeness\<close>

definition blacks :: "dfs \<Rightarrow> string set" where
  "blacks s = {m. color_of s m = Black}"

definition settled :: "graph \<Rightarrow> string set \<Rightarrow> bool" where
  "settled g B \<longleftrightarrow> (\<forall>b \<in> B. \<forall>m. (b, m) \<in> set g \<longrightarrow> m \<in> B) \<and> (\<forall>b \<in> B. (b, b) \<notin> (set g)\<^sup>+)"

lemma settled_reach: "settled g B \<Longrightarrow> b \<in> B \<Longrightarrow> (b, m) \<in> (set g)\<^sup>* \<Longrightarrow> m \<in> B"
  by (rotate_tac 2, induction rule: rtrancl_induct) (auto simp: settled_def)

lemma settled_insert:
  assumes "settled g B" and "\<forall>m. (n, m) \<in> set g \<longrightarrow> m \<in> B" and "n \<notin> B"
  shows "settled g (insert n B)"
proof -
  have "(n, n) \<notin> (set g)\<^sup>+"
    using assms settled_reach by (metis tranclD)
  then show ?thesis using assms by (auto simp: settled_def)
qed

lemma blacks_simps [simp]:
  "color_of s n \<noteq> Black \<Longrightarrow> blacks (enter n s) = blacks s" "blacks (leave n s) = insert n (blacks s)"
  "blacks (record_cycle n s) = blacks s"
  by (auto simp: blacks_def)

lemma visits_cycles: "prefix (cycles s) (cycles (visits g ns s))"
proof (induction g ns s rule: visits.induct)
  case (2 g n ns s)
  then show ?case
    by (cases "color_of s n") (auto simp: record_cycle_def intro: prefix_order.trans append_prefixD)
qed simp

lemma visits_settles:
  "dfs_ok g s \<Longrightarrow> from_top g ns s \<Longrightarrow> settled g (blacks s) \<Longrightarrow> cycles (visits g ns s) = [] \<Longrightarrow>
   settled g (blacks (visits g ns s)) \<and> blacks s \<union> set ns \<subseteq> blacks (visits g ns s)"
proof (induction g ns s rule: visits.induct)
  case (1 g s)
  then show ?case by simp
next
  case (2 g n ns s)
  have top: "from_top g ns s" "(last (stack s), n) \<in> set g" using 2(6) by (auto simp: from_top_def)
  consider (w) "color_of s n = White" | (g) "color_of s n = Gray" | (b) "color_of s n = Black"
    by (cases "color_of s n") auto
  then show ?case
  proof cases
    case w
    let ?s1 = "visits g (succs g n) (enter n s)"
    have e: "dfs_ok g (enter n s)" using dfs_ok_enter[OF 2(5) w] top by simp
    have t: "from_top g (succs g n) (enter n s)" by (simp add: from_top_def set_succs)
    have s1: "dfs_ok g ?s1" "stack ?s1 = stack s @ [n]" using visits_ok[OF e t] by auto
    then have l: "dfs_ok g (leave n ?s1)" "stack (leave n ?s1) = stack s"
      using dfs_ok_leave by auto
    then have t2: "from_top g ns (leave n ?s1)" using top by (simp add: from_top_def)
    have res: "visits g (n # ns) s = visits g ns (leave n ?s1)" using w by simp
    then have c1: "cycles ?s1 = []"
      using visits_cycles[of "leave n ?s1" g ns] 2(8) by simp
    have b1: "settled g (blacks ?s1)" "blacks s \<union> set (succs g n) \<subseteq> blacks ?s1"
      using 2(1)[OF w e t _ c1] 2(7) w by auto
    have "color_of ?s1 n = Gray" using s1 by (auto simp: dfs_ok_def)
    then have "settled g (insert n (blacks ?s1))"
      using b1 by (intro settled_insert) (auto simp: set_succs blacks_def)
    then show ?thesis
      using 2(2)[OF w l(1) t2] 2(8) res b1(2) by auto
  next
    case g
    then have "prefix (cycles (record_cycle n s)) []"
      using visits_cycles[of "record_cycle n s" g ns] 2(8) by simp
    then show ?thesis by (simp add: record_cycle_def)
  next
    case b
    then show ?thesis using 2(4) 2(5,7,8) top by (auto simp: blacks_def)
  qed
qed

lemma visit_settles:
  assumes "dfs_ok g s" and "stack s = []" and "color_of s n = White"
    and "settled g (blacks s)" and "cycles (visit g n s) = []"
  shows "settled g (blacks (visit g n s)) \<and> insert n (blacks s) \<subseteq> blacks (visit g n s)"
proof -
  let ?s1 = "visits g (succs g n) (enter n s)"
  have e: "dfs_ok g (enter n s)" using dfs_ok_enter assms by simp
  have t: "from_top g (succs g n) (enter n s)" by (simp add: from_top_def set_succs)
  have b1: "settled g (blacks ?s1)" "blacks s \<union> set (succs g n) \<subseteq> blacks ?s1"
    using visits_settles[OF e t] assms by (auto simp: visit_def)
  have "color_of ?s1 n = Gray" using visits_ok[OF e t] by (auto simp: dfs_ok_def)
  then have "settled g (insert n (blacks ?s1))"
    using b1 by (intro settled_insert) (auto simp: set_succs blacks_def)
  then show ?thesis using b1 by (auto simp: visit_def)
qed

lemma visit_roots_cycles: "prefix (cycles s) (cycles (visit_roots g ns s))"
proof (induction ns arbitrary: s)
  case (Cons n ns)
  have "prefix (cycles s) (cycles (visit g n s))"
    using visits_cycles[of "enter n s" g "succs g n"] by (simp add: visit_def)
  then show ?case using Cons by (auto intro: prefix_order.trans)
qed simp

lemma visit_roots_settles:
  "dfs_ok g s \<Longrightarrow> stack s = [] \<Longrightarrow> settled g (blacks s) \<Longrightarrow> cycles (visit_roots g ns s) = [] \<Longrightarrow>
   settled g (blacks (visit_roots g ns s)) \<and> blacks s \<union> set ns \<subseteq> blacks (visit_roots g ns s)"
proof (induction ns arbitrary: s)
  case (Cons n ns)
  show ?case
  proof (cases "color_of s n = White")
    case True
    then have v: "dfs_ok g (visit g n s)" "stack (visit g n s) = []" using visit_ok Cons.prems by auto
    have "cycles (visit g n s) = []"
      using visit_roots_cycles[of "visit g n s" g ns] Cons.prems(4) True by simp
    with visit_settles[OF Cons.prems(1,2) True Cons.prems(3)] Cons.IH[OF v] Cons.prems(4) True
    show ?thesis by auto
  next
    case False
    then have "color_of s n = Black" using Cons.prems(1,2) by (cases "color_of s n") (auto simp: dfs_ok_def)
    then show ?thesis using Cons.IH[OF Cons.prems(1-3)] Cons.prems(4) False by (auto simp: blacks_def)
  qed
qed simp

lemma find_cycles_complete:
  assumes "find_cycles g = []" shows "acyclic (set g)"
proof -
  let ?start = "\<lparr>color = [], stack = [], cycles = []\<rparr>"
  let ?s = "visit_roots g (graph_keys g) ?start"
  have b0: "blacks ?start = {}" by (simp add: blacks_def color_of_def get_or_def)
  have "settled g (blacks ?start)" unfolding b0 by (simp add: settled_def)
  then have "settled g (blacks ?s)" "set (graph_keys g) \<subseteq> blacks ?s"
    using visit_roots_settles[OF dfs_ok_start, where ns = "graph_keys g"] assms unfolding find_cycles_def by auto
  moreover have "x \<in> set (graph_keys g)" if "(x, x) \<in> (set g)\<^sup>+" for x
    using tranclD[OF that] by (force simp: graph_keys_def)
  ultimately show ?thesis unfolding acyclic_def settled_def by blast
qed

lemma closed_walk_trancl:
  assumes "closed_walk g c" shows "(hd c, hd c) \<in> (set g)\<^sup>+"
proof -
  have "walk g (x # xs) \<Longrightarrow> xs \<noteq> [] \<Longrightarrow> (x, last xs) \<in> (set g)\<^sup>+" for x xs
  proof (induction xs arbitrary: x)
    case (Cons y xs)
    then show ?case by (cases xs) (auto intro: trancl_into_trancl2)
  qed simp
  moreover obtain x xs where "c = x # xs" "xs \<noteq> []"
    using assms by (cases c; cases "tl c") (auto simp: closed_walk_def)
  ultimately show ?thesis using assms by (auto simp: closed_walk_def)
qed

text \<open>C31. The cycle finder is sound and complete: every list it reports is a closed walk of the graph
  that repeats only its first node, and it reports nothing exactly when the graph is acyclic.\<close>

theorem find_cycles_correct:
  "(\<forall>c \<in> set (find_cycles g). length c \<ge> 2 \<and> hd c = last c \<and> distinct (tl c) \<and> walk g c)
   \<and> (find_cycles g = [] \<longleftrightarrow> acyclic (set g))"
proof (intro conjI iffI ballI)
  fix c assume c: "c \<in> set (find_cycles g)"
  from find_cycles_sound[OF c] show "length c \<ge> 2" "hd c = last c" "distinct (tl c)" "walk g c"
    by (auto simp: closed_walk_def)
next
  assume "acyclic (set g)"
  then show "find_cycles g = []"
    using find_cycles_sound closed_walk_trancl by (metis acyclic_def last_in_set)
qed (rule find_cycles_complete)

theorem find_cycles_correct_witness:
  "find_cycles [(''a'', ''b''), (''b'', ''c''), (''c'', ''a'')] \<noteq> [] \<and> acyclic (set [(''a'', ''b''), (''a'', ''c'')])"
proof -
  let ?g = "[(''a'', ''b''), (''b'', ''c''), (''c'', ''a'')]"
  have "(''a'', ''a'') \<in> (set ?g)\<^sup>+"
    by (rule trancl_into_trancl2[of _ "''b''"], simp, rule trancl_into_trancl2[of _ "''c''"], simp, rule r_into_trancl, simp)
  then have "\<not> acyclic (set ?g)" by (auto simp: acyclic_def)
  moreover have "find_cycles [(''a'', ''b''), (''a'', ''c'')] = []" by code_simp
  ultimately show ?thesis using find_cycles_correct[of ?g] find_cycles_correct[of "[(''a'', ''b''), (''a'', ''c'')]"] by blast
qed

end
