(* ===== verification/Lint.thy ===== *)
theory Lint
  imports Validate Taxonomy Cycles
begin

text \<open>
  The bundle linter (\<^verbatim>\<open>format/lint.py\<close>): which files are linted, the schema check of each, the
  cross-file checks of the lifecycle relations, and the taxonomy check.

  A path is the list of its parts, a document its frontmatter. Findings are a log of
  (path, finding) pairs in the order in which the code appends them; \<open>by_path\<close> is the
  dictionary of lists that the code builds. \<open>py_str\<close> is \<open>str()\<close> of a value that is not a
  string, which only reaches the text of a status.
\<close>

type_synonym path = "string list"
type_synonym doc = "path \<times> frontmatter"

definition SKIP_DIRS :: "string list" where
  "SKIP_DIRS = [''.git'', ''__pycache__'', ''.venv'', ''.pytest_cache'', ''.mypy_cache'',
     ''.ruff_cache'', ''node_modules'', ''.github'', ''.worktrees'', ''archive'', ''_archive'',
     ''to-delete'', ''test-fixtures'', ''cli-fixtures'']"

definition ROOT_META_FILES :: "string list" where
  "ROOT_META_FILES = [''README.md'', ''CONTRIBUTING.md'', ''CODE_OF_CONDUCT.md'', ''SECURITY.md'',
     ''CHANGELOG.md'', ''NOTICE.md'', ''LICENSE.md'', ''AGENTS.md'', ''CLAUDE.md'', ''GEMINI.md'']"

definition relative_to :: "path \<Rightarrow> path \<Rightarrow> path option" where
  "relative_to base p = (if take (length base) p = base then Some (drop (length base) p) else None)"

text \<open>\<open>found\<close> is \<^verbatim>\<open>sorted(root.rglob('*.md'))\<close>, every path of it below \<open>base\<close>.\<close>

definition is_linted :: "path \<Rightarrow> path \<Rightarrow> bool" where
  "is_linted base md \<longleftrightarrow>
     (let rel = drop (length base) md
      in if list_ex (\<lambda>part. part \<in> set SKIP_DIRS) rel then False
         else if butlast md = base \<and> last md \<in> set ROOT_META_FILES then False
         else last md \<notin> set RESERVED)"

definition discover_bundle_files :: "path \<Rightarrow> path list \<Rightarrow> path list" where
  "discover_bundle_files base found = filter (is_linted base) found"

subsection \<open>Findings\<close>

datatype retirement = RetiredStatus string | SupersededInForce string | ExpiredOn string string

datatype lint_message =
    Schema message
  | TierDisagrees string string
  | CategoryDisagrees string string
  | MalformedRef
  | PathShaped string
  | UnknownId string bool \<comment> \<open>the target, and whether it has the shape of a path\<close>
  | SelfSupersede string
  | SelfSupersededBy string
  | SupersessionCycle "string list"
  | Asymmetric string string
  | AsymmetricBy string string
  | SupersededYetInForce string string
  | SupersededWithoutBy string
  | Contradicts string string
  | ContradictedBy string string
  | DerivesItself string
  | DerivationCycle "string list"
  | DerivesSuperseded string string
  | DerivesRetired string string retirement
  | RetiredWithDependents string retirement "string list"

datatype lint_finding = LFinding (l_severity: severity) (l_field: string) (l_message: lint_message)

type_synonym log = "(path \<times> lint_finding) list"

definition append_finding :: "path \<times> lint_finding \<Rightarrow> (path, lint_finding list) dict \<Rightarrow> (path, lint_finding list) dict" where
  "append_finding pf d = dset (fst pf) (get_or [] d (fst pf) @ [snd pf]) d"

definition by_path :: "log \<Rightarrow> (path, lint_finding list) dict" where
  "by_path l = fold append_finding l []"

subsection \<open>Normalizing the relation fields\<close>

definition path_shaped :: "string \<Rightarrow> bool" where
  "path_shaped target \<longleftrightarrow> CHR ''/'' \<in> set target \<or> ends_with ''.md'' target"

fun normalize_multi_ref :: "pyval \<Rightarrow> string list \<times> bool" where
  "normalize_multi_ref PyNone = ([], False)"
| "normalize_multi_ref (PyStr s) = (if strip s \<noteq> [] then ([s], False) else ([], False))"
| "normalize_multi_ref (PyList vs) = (if all_strs vs then (strs_of vs, False) else (strs_of vs, True))"
| "normalize_multi_ref _ = ([], True)"

fun normalize_single_ref :: "pyval \<Rightarrow> string option \<times> bool" where
  "normalize_single_ref PyNone = (None, False)"
| "normalize_single_ref (PyStr s) = (if strip s \<noteq> [] then (Some s, False) else (None, False))"
| "normalize_single_ref _ = (None, True)"

text \<open>\<open>str.casefold()\<close> below code point 256; the micro sign, whose fold is above 255, stays.\<close>

definition casefold :: "string \<Rightarrow> string" where
  "casefold s = concat (map (\<lambda>c. if c = CHR 0xDF then ''ss'' else [lower_char c]) s)"

definition usable_id :: "frontmatter \<Rightarrow> string option" where
  "usable_id fm = (case fm_get fm ''id'' of PyStr s \<Rightarrow> (if s \<noteq> [] then Some s else None) | _ \<Rightarrow> None)"

definition status_text :: "(pyval \<Rightarrow> string) \<Rightarrow> pyval \<Rightarrow> string" where
  "status_text py_str v =
     strip (if \<not> truthy v then [] else case v of PyStr s \<Rightarrow> s | _ \<Rightarrow> py_str v)"

definition lint_window :: "pyval \<Rightarrow> string \<times> string" where
  "lint_window validity =
     (case validity of
        PyDict v \<Rightarrow>
          (case (validity_field v ''valid_from'', validity_field v ''valid_until'') of
             ((valid_from, bad_from), (valid_until, bad_until)) \<Rightarrow>
               (if bad_from \<or> bad_until then ('''', '''') else (valid_from, valid_until)))
      | _ \<Rightarrow> ('''', ''''))"

definition under_inbox :: "string option \<Rightarrow> path \<Rightarrow> path \<Rightarrow> bool" where
  "under_inbox inbox_env p base =
     (case relative_to base p of None \<Rightarrow> False
      | Some rel \<Rightarrow> is_inbox_path inbox_env (join_with ''/'' rel))"

definition lint_in_force :: "string \<Rightarrow> string \<Rightarrow> string \<Rightarrow> string \<Rightarrow> bool \<Rightarrow> bool" where
  "lint_in_force status valid_from valid_until today inbox \<longleftrightarrow>
     (if inbox \<or> casefold status \<notin> set IN_FORCE_STATUSES then False
      else \<not> is_expired (Some valid_until) today \<and> \<not> is_upcoming (Some valid_from) today)"

subsection \<open>The relations of a bundle\<close>

record relations =
  id_to_path :: "(string, path) dict"
  supersedes_of :: "(string, string list) dict"
  superseded_by_of :: "(string, string) dict"
  contradicts_of :: "(string, string list) dict"
  derived_from_of :: "(string, string list) dict"
  status_of :: "(string, string) dict"
  in_force_of :: "(string, bool) dict"
  valid_until_of :: "(string, string) dict"

record lint_opts =
  resolve_ids :: "string list"
  unresolved_severity :: string
  root_of :: "path option"
  today_of :: string
  inbox_env_of :: "string option"
  py_str_of :: "pyval \<Rightarrow> string"

definition path_of :: "relations \<Rightarrow> string \<Rightarrow> path" where
  "path_of b i = the (dget (id_to_path b) i)"

definition known :: "relations \<Rightarrow> string \<Rightarrow> bool" where
  "known b i \<longleftrightarrow> dget (id_to_path b) i \<noteq> None"

definition add_id :: "doc \<Rightarrow> (string, path) dict \<Rightarrow> (string, path) dict" where
  "add_id d m = (case usable_id (snd d) of None \<Rightarrow> m
     | Some i \<Rightarrow> (if dget m i = None then dset i (fst d) m else m))"

definition ids_of :: "doc list \<Rightarrow> (string, path) dict" where
  "ids_of docs = fold add_id docs []"

definition add_relations :: "lint_opts \<Rightarrow> doc \<Rightarrow> relations \<Rightarrow> relations" where
  "add_relations opt d b =
     (case usable_id (snd d) of None \<Rightarrow> b
      | Some i \<Rightarrow>
         (let fm = snd d;
              status = status_text (py_str_of opt) (fm_get fm ''status'');
              (valid_from, valid_until) = lint_window (fm_get fm ''validity'');
              inbox = (case root_of opt of None \<Rightarrow> False | Some r \<Rightarrow> under_inbox (inbox_env_of opt) (fst d) r)
          in b\<lparr>supersedes_of := dset i (fst (normalize_multi_ref (fm_get fm ''supersedes''))) (supersedes_of b),
               superseded_by_of := (case fst (normalize_single_ref (fm_get fm ''superseded_by'')) of
                   None \<Rightarrow> superseded_by_of b | Some t \<Rightarrow> dset i t (superseded_by_of b)),
               contradicts_of := dset i (fst (normalize_multi_ref (fm_get fm ''contradicts''))) (contradicts_of b),
               derived_from_of := dset i (fst (normalize_multi_ref (fm_get fm ''derived_from''))) (derived_from_of b),
               status_of := dset i status (status_of b),
               in_force_of := dset i (lint_in_force status valid_from valid_until (today_of opt) inbox) (in_force_of b),
               valid_until_of := dset i valid_until (valid_until_of b)\<rparr>))"

definition bundle_of :: "lint_opts \<Rightarrow> doc list \<Rightarrow> relations" where
  "bundle_of opt docs = fold (add_relations opt) docs
     \<lparr>id_to_path = ids_of docs, supersedes_of = [], superseded_by_of = [], contradicts_of = [],
      derived_from_of = [], status_of = [], in_force_of = [], valid_until_of = []\<rparr>"

subsection \<open>Checks of one document's references\<close>

definition target_finding :: "lint_opts \<Rightarrow> relations \<Rightarrow> string \<Rightarrow> string \<Rightarrow> lint_finding list" where
  "target_finding opt b field target =
     (let resolves = known b target \<or> (field \<noteq> ''contradicts'' \<and> target \<in> set (resolve_ids opt));
          shaped = path_shaped target
      in if resolves then (if shaped then [LFinding Warning field (PathShaped target)] else [])
         else if field = ''contradicts'' then
           [LFinding Warning field (if shaped then PathShaped target else UnknownId target False)]
         else [LFinding (if unresolved_severity opt = ''warn'' then Warning else Error) field
                 (UnknownId target shaped)])"

definition multi_ref_bad :: "frontmatter \<Rightarrow> string \<Rightarrow> lint_finding list" where
  "multi_ref_bad fm field =
     (if snd (normalize_multi_ref (fm_get fm field)) then [LFinding Error field MalformedRef] else [])"

definition reference_findings :: "lint_opts \<Rightarrow> relations \<Rightarrow> doc \<Rightarrow> log" where
  "reference_findings opt b d =
     (let fm = snd d;
          multi = (\<lambda>field. fst (normalize_multi_ref (fm_get fm field)));
          single = normalize_single_ref (fm_get fm ''superseded_by'');
          targets = [(''supersedes'', multi ''supersedes''),
            (''superseded_by'', case fst single of None \<Rightarrow> [] | Some t \<Rightarrow> [t]),
            (''contradicts'', multi ''contradicts''), (''derived_from'', multi ''derived_from'')]
      in map (Pair (fst d))
          (multi_ref_bad fm ''supersedes''
           @ (if snd single then [LFinding Error ''superseded_by'' MalformedRef] else [])
           @ multi_ref_bad fm ''contradicts'' @ multi_ref_bad fm ''derived_from''
           @ concat (map (\<lambda>(field, ts). concat (map (target_finding opt b field) ts)) targets)))"

subsection \<open>Supersession\<close>

definition self_supersession :: "relations \<Rightarrow> log" where
  "self_supersession b =
     [(path_of b i, LFinding Error ''supersedes'' (SelfSupersede i)). (i, ts) \<leftarrow> supersedes_of b, i \<in> set ts]
     @ [(path_of b i, LFinding Error ''superseded_by'' (SelfSupersededBy i)). (i, t) \<leftarrow> superseded_by_of b, t = i]"

definition supersession_graph :: "relations \<Rightarrow> graph" where
  "supersession_graph b =
     [(i, t). (i, ts) \<leftarrow> supersedes_of b, t \<leftarrow> ts, t \<noteq> i \<and> known b t]
     @ [(t, i). (i, t) \<leftarrow> superseded_by_of b, t \<noteq> i \<and> known b t]"

definition cycle_findings :: "relations \<Rightarrow> string \<Rightarrow> (string list \<Rightarrow> lint_message) \<Rightarrow> graph \<Rightarrow> log" where
  "cycle_findings b field msg g =
     concat (map (\<lambda>cycle. map (\<lambda>m. (path_of b m, LFinding Error field (msg cycle))) (butlast cycle)) (find_cycles g))"

definition asymmetric_pairs :: "relations \<Rightarrow> log" where
  "asymmetric_pairs b =
     [(path_of b i, LFinding Warning ''supersedes'' (Asymmetric i t)). (i, ts) \<leftarrow> supersedes_of b, t \<leftarrow> ts,
        \<not> (t = i \<or> \<not> known b t), dget (superseded_by_of b) t \<noteq> Some i]
     @ [(path_of b i, LFinding Warning ''superseded_by'' (AsymmetricBy i t)). (i, t) \<leftarrow> superseded_by_of b,
        \<not> (t = i \<or> \<not> known b t), i \<notin> set (get_or [] (supersedes_of b) t)]"

definition status_consistency :: "relations \<Rightarrow> log" where
  "status_consistency b =
     [(path_of b i, LFinding Warning ''superseded_by'' (SupersededYetInForce i (get_or '''' (status_of b) i))).
        (i, t) \<leftarrow> superseded_by_of b, casefold (get_or '''' (status_of b) i) \<in> set IN_FORCE_STATUSES]
     @ [(path_of b i, LFinding Warning ''status'' (SupersededWithoutBy i)). (i, st) \<leftarrow> status_of b,
        casefold st = ''superseded'' \<and> dget (superseded_by_of b) i = None]"

subsection \<open>Contradictions\<close>

text \<open>The set of reported pairs is threaded through both loops as a list of ordered pairs.\<close>

definition status_in_force :: "relations \<Rightarrow> string \<Rightarrow> bool" where
  "status_in_force b i \<longleftrightarrow> casefold (get_or '''' (status_of b) i) \<in> set IN_FORCE_STATUSES"

fun contradiction_targets ::
  "relations \<Rightarrow> string \<Rightarrow> string list \<Rightarrow> (string \<times> string) list \<Rightarrow> log \<times> (string \<times> string) list" where
  "contradiction_targets b i [] seen = ([], seen)"
| "contradiction_targets b i (t # ts) seen =
     (if t = i \<or> \<not> known b t then contradiction_targets b i ts seen
      else if \<not> status_in_force b t then contradiction_targets b i ts seen
      else if (i, t) \<in> set seen \<or> (t, i) \<in> set seen then contradiction_targets b i ts seen
      else case contradiction_targets b i ts (seen @ [(i, t)]) of
        (l, seen') \<Rightarrow>
          ([(path_of b i, LFinding Warning ''contradicts'' (Contradicts i t))]
           @ (if path_of b t \<noteq> path_of b i
              then [(path_of b t, LFinding Warning ''contradicts'' (ContradictedBy t i))] else []) @ l, seen'))"

fun contradiction_pairs ::
  "relations \<Rightarrow> (string \<times> string list) list \<Rightarrow> (string \<times> string) list \<Rightarrow> log" where
  "contradiction_pairs b [] seen = []"
| "contradiction_pairs b ((i, ts) # rest) seen =
     (if \<not> status_in_force b i then contradiction_pairs b rest seen
      else case contradiction_targets b i ts seen of
        (l, seen') \<Rightarrow> l @ contradiction_pairs b rest seen')"

subsection \<open>Derivations\<close>

definition derives_itself :: "relations \<Rightarrow> log" where
  "derives_itself b =
     [(path_of b i, LFinding Error ''derived_from'' (DerivesItself i)). (i, ts) \<leftarrow> derived_from_of b, i \<in> set ts]"

definition derivation_graph :: "relations \<Rightarrow> graph" where
  "derivation_graph b = [(i, t). (i, ts) \<leftarrow> derived_from_of b, t \<leftarrow> ts, t \<noteq> i \<and> known b t]"

definition mixed_pairs :: "relations \<Rightarrow> (string \<times> string) list" where
  "mixed_pairs b = [(i, t). (i, ts) \<leftarrow> derived_from_of b, t \<leftarrow> sort (remdups ts), t \<noteq> i,
     t \<in> set (get_or [] (supersedes_of b) i) \<or> dget (superseded_by_of b) t = Some i]"

definition in_force_superseders :: "relations \<Rightarrow> string \<Rightarrow> string list" where
  "in_force_superseders b target =
     [i. (i, ts) \<leftarrow> supersedes_of b, get_or False (in_force_of b) i, t \<leftarrow> ts, t \<noteq> i \<and> known b t, t = target]"

definition retirement_reason :: "lint_opts \<Rightarrow> relations \<Rightarrow> string \<Rightarrow> retirement option" where
  "retirement_reason opt b source =
     (let raw_status = get_or '''' (status_of b) source;
          status = casefold raw_status;
          superseders = sort (in_force_superseders b source);
          valid_until = get_or '''' (valid_until_of b) source
      in if \<not> is_retired status (Some valid_until) (today_of opt) (superseders \<noteq> []) then None
         else if status \<in> set RETIRED_STATUSES then Some (RetiredStatus raw_status)
         else if superseders \<noteq> [] then Some (SupersededInForce (hd superseders))
         else Some (ExpiredOn valid_until (today_of opt)))"

text \<open>The pairs (dependent, source, reason) that are reported, in the order of the loop.\<close>

definition retired_dependencies :: "lint_opts \<Rightarrow> relations \<Rightarrow> (string \<times> string \<times> retirement) list" where
  "retired_dependencies opt b =
     [(i, src, reason). (i, ts) \<leftarrow> sort_key fst (derived_from_of b),
        get_or False (in_force_of b) i \<and> in_force_superseders b i = [],
        src \<leftarrow> sort (remdups ts), \<not> (src = i \<or> \<not> known b src \<or> (i, src) \<in> set (mixed_pairs b)),
        reason \<leftarrow> (case retirement_reason opt b src of None \<Rightarrow> [] | Some r \<Rightarrow> [r])]"

definition derived_from_findings :: "lint_opts \<Rightarrow> relations \<Rightarrow> log" where
  "derived_from_findings opt b =
     (let deps = retired_dependencies opt b;
          sources = sort (remdups (map (\<lambda>(i, src, r). src) deps))
      in derives_itself b
         @ cycle_findings b ''derived_from'' DerivationCycle (derivation_graph b)
         @ [(path_of b i, LFinding Error ''derived_from'' (DerivesSuperseded i t)). (i, t) \<leftarrow> mixed_pairs b]
         @ [(path_of b i, LFinding Warning ''derived_from'' (DerivesRetired i src r)). (i, src, r) \<leftarrow> deps]
         @ [(path_of b src, LFinding Warning ''derived_from''
               (RetiredWithDependents src (the (retirement_reason opt b src))
                  (sort (remdups [i. (i, s, r) \<leftarrow> deps, s = src])))). src \<leftarrow> sources])"

subsection \<open>The whole run\<close>

definition cross_file_findings :: "lint_opts \<Rightarrow> doc list \<Rightarrow> log" where
  "cross_file_findings opt docs =
     (let b = bundle_of opt docs
      in concat (map (reference_findings opt b) docs)
         @ self_supersession b
         @ cycle_findings b ''supersedes'' SupersessionCycle (supersession_graph b)
         @ asymmetric_pairs b
         @ status_consistency b
         @ contradiction_pairs b (contradicts_of b) []
         @ derived_from_findings opt b)"

definition taxonomy_findings :: "path \<Rightarrow> path_rule list \<Rightarrow> doc \<Rightarrow> log" where
  "taxonomy_findings base rules d =
     (case relative_to base (fst d) of None \<Rightarrow> []
      | Some rel \<Rightarrow>
         (case classify_by_path (join_with ''/'' rel) rules of (path_tier, path_category) \<Rightarrow>
           map (Pair (fst d))
             ((case fm_get (snd d) ''tier'' of
                 PyStr tier \<Rightarrow>
                   (if tier \<in> set TIERS \<and> tier \<noteq> (if path_tier \<in> set TIERS then path_tier else ''meta'')
                    then [LFinding Warning ''tier'' (TierDisagrees tier path_tier)] else [])
               | _ \<Rightarrow> [])
              @ (case fm_get (snd d) ''category'' of
                   PyStr category \<Rightarrow>
                     (if category \<noteq> [] \<and> category \<noteq> path_category
                      then [LFinding Warning ''category'' (CategoryDisagrees category path_category)] else [])
                 | _ \<Rightarrow> []))))"

definition schema_finding :: "finding \<Rightarrow> lint_finding" where
  "schema_finding f = LFinding (f_severity f) (f_field f) (Schema (f_message f))"

fun schema_findings :: "string \<Rightarrow> doc list \<Rightarrow> log result" where
  "schema_findings today [] = Inr []"
| "schema_findings today (d # docs) =
     (case validate_document (last (fst d)) (snd d) today of
        Inl e \<Rightarrow> Inl e
      | Inr fs \<Rightarrow> (case schema_findings today docs of Inl e \<Rightarrow> Inl e
          | Inr l \<Rightarrow> Inr (map (\<lambda>f. (fst d, schema_finding f)) fs @ l)))"

definition lint_files :: "lint_opts \<Rightarrow> path_rule list \<Rightarrow> doc list \<Rightarrow> (path, lint_finding list) dict result" where
  "lint_files opt rules docs =
     (case schema_findings (today_of opt) docs of Inl e \<Rightarrow> Inl e
      | Inr l \<Rightarrow> Inr (by_path (l @ cross_file_findings opt docs
          @ (case root_of opt of None \<Rightarrow> [] | Some r \<Rightarrow> concat (map (taxonomy_findings r rules) docs)))))"

definition lint_bundle :: "lint_opts \<Rightarrow> path_rule list \<Rightarrow> path \<Rightarrow> path list \<Rightarrow> (path \<Rightarrow> frontmatter)
    \<Rightarrow> (path, lint_finding list) dict result" where
  "lint_bundle opt rules base found load =
     lint_files (opt\<lparr>root_of := Some base\<rparr>) rules
       (map (\<lambda>p. (p, load p)) (discover_bundle_files base found))"

text \<open>\<open>load\<close> is \<^const>\<open>None\<close> for a file that cannot be read or parsed.\<close>

definition collect_ids :: "path \<Rightarrow> path list \<Rightarrow> (path \<Rightarrow> frontmatter option) \<Rightarrow> string set" where
  "collect_ids base found load = set (List.map_filter
     (\<lambda>p. case load p of None \<Rightarrow> None | Some fm \<Rightarrow> usable_id fm) (discover_bundle_files base found))"

subsection \<open>The log and the dictionary\<close>

lemma get_or_append_finding: "get_or [] (append_finding pf d) p = get_or [] d p @ (if fst pf = p then [snd pf] else [])"
  by (auto simp: append_finding_def get_or_def)

lemma get_or_by_path: "get_or [] (by_path l) p = map snd (filter (\<lambda>pf. fst pf = p) l)"
proof -
  have "get_or [] (fold append_finding l d) p = get_or [] d p @ map snd (filter (\<lambda>pf. fst pf = p) l)" for d
    by (induction l arbitrary: d) (simp_all add: get_or_append_finding)
  then show ?thesis by (simp add: by_path_def get_or_def)
qed

subsection \<open>Every id that is looked up is known\<close>

lemma keys_dset: "fst ` set (dset k v d) = insert k (fst ` set d)"
  by (simp add: AList.dom_update)

lemma ids_dom: "dget (ids_of docs) i \<noteq> None \<longleftrightarrow> (\<exists>d \<in> set docs. usable_id (snd d) = Some i)"
proof -
  have "dget (fold add_id docs m) i \<noteq> None \<longleftrightarrow> dget m i \<noteq> None \<or> (\<exists>d \<in> set docs. usable_id (snd d) = Some i)" for m
    by (induction docs arbitrary: m) (auto simp: add_id_def split: option.splits)
  then show ?thesis by (simp add: ids_of_def)
qed

lemma ids_ran: "dget (ids_of docs) i = Some p \<Longrightarrow> p \<in> fst ` set docs"
proof -
  have "\<forall>i p. dget (fold add_id docs []) i = Some p \<longrightarrow> p \<in> fst ` set docs"
    by (rule fold_invariant[where I = "\<lambda>m. \<forall>i p. dget m i = Some p \<longrightarrow> p \<in> fst ` set docs"])
      (auto simp: add_id_def split: option.splits if_splits)
  then show "dget (ids_of docs) i = Some p \<Longrightarrow> p \<in> fst ` set docs" by (auto simp: ids_of_def)
qed

definition rel_keys :: "relations \<Rightarrow> string set" where
  "rel_keys b = fst ` set (supersedes_of b) \<union> fst ` set (superseded_by_of b) \<union> fst ` set (contradicts_of b)
     \<union> fst ` set (derived_from_of b) \<union> fst ` set (status_of b)"

lemma add_relations_ids [simp]: "id_to_path (add_relations opt d b) = id_to_path b"
  by (simp add: add_relations_def Let_def split: option.splits prod.splits)

lemma rel_keys_add: "rel_keys (add_relations opt d b) \<subseteq> rel_keys b \<union> {i. usable_id (snd d) = Some i}"
  by (cases "fst (normalize_single_ref (fm_get (snd d) ''superseded_by''))")
    (auto simp: add_relations_def rel_keys_def keys_dset Let_def split: option.splits prod.splits)

lemma bundle_ids [simp]: "id_to_path (bundle_of opt docs) = ids_of docs"
  unfolding bundle_of_def
  by (rule fold_invariant[where I = "\<lambda>b. id_to_path b = ids_of docs"]) auto

lemma rel_keys_known: "i \<in> rel_keys (bundle_of opt docs) \<Longrightarrow> known (bundle_of opt docs) i"
proof -
  let ?K = "{i. \<exists>d \<in> set docs. usable_id (snd d) = Some i}"
  have "rel_keys (bundle_of opt docs) \<subseteq> ?K"
    unfolding bundle_of_def
  proof (rule fold_invariant[where I = "\<lambda>b. rel_keys b \<subseteq> ?K"])
    fix d b assume "d \<in> set docs" "rel_keys b \<subseteq> ?K"
    then show "rel_keys (add_relations opt d b) \<subseteq> ?K" using rel_keys_add[of opt d b] by blast
  qed (simp add: rel_keys_def)
  then show "i \<in> rel_keys (bundle_of opt docs) \<Longrightarrow> known (bundle_of opt docs) i"
    using ids_dom[of docs i] by (auto simp: known_def)
qed

lemma key_mem: "(i, x) \<in> set d \<Longrightarrow> i \<in> fst ` set d"
  by force

lemma rel_keysI:
  "(i, ts) \<in> set (supersedes_of b) \<Longrightarrow> i \<in> rel_keys b" "(i, t) \<in> set (superseded_by_of b) \<Longrightarrow> i \<in> rel_keys b"
  "(i, ts) \<in> set (contradicts_of b) \<Longrightarrow> i \<in> rel_keys b" "(i, ts) \<in> set (derived_from_of b) \<Longrightarrow> i \<in> rel_keys b"
  "(i, t) \<in> set (status_of b) \<Longrightarrow> i \<in> rel_keys b"
  unfolding rel_keys_def by (blast dest: key_mem)+

lemma known_path: "known (bundle_of opt docs) i \<Longrightarrow> path_of (bundle_of opt docs) i \<in> fst ` set docs"
  by (auto simp: known_def path_of_def intro: ids_ran)

lemmas key_known = rel_keys_known[OF rel_keysI(1)] rel_keys_known[OF rel_keysI(2)] rel_keys_known[OF rel_keysI(3)]
  rel_keys_known[OF rel_keysI(4)] rel_keys_known[OF rel_keysI(5)]
lemmas key_path = key_known[THEN known_path]

definition graph_known :: "relations \<Rightarrow> graph \<Rightarrow> bool" where
  "graph_known b g \<longleftrightarrow> (\<forall>e \<in> set g. known b (fst e) \<and> known b (snd e))"

lemma supersession_graph_known: "graph_known (bundle_of opt docs) (supersession_graph (bundle_of opt docs))"
  by (auto simp: graph_known_def supersession_graph_def intro: key_known)

lemma derivation_graph_known: "graph_known (bundle_of opt docs) (derivation_graph (bundle_of opt docs))"
  by (auto simp: graph_known_def derivation_graph_def intro: key_known)

lemma walk_known:
  assumes "graph_known b g" and "walk g c" and "length c \<ge> 2" and "m \<in> set (butlast c)"
  shows "known b m"
  using assms(2-)
proof (induction c rule: induct_list012)
  case (3 x y zs)
  then show ?case
    using assms(1) by (cases zs) (auto simp: graph_known_def split: if_splits)
qed auto

lemma cycle_findings_paths:
  assumes "graph_known (bundle_of opt docs) g"
  shows "fst ` set (cycle_findings (bundle_of opt docs) field msg g) \<subseteq> fst ` set docs"
proof
  fix p assume "p \<in> fst ` set (cycle_findings (bundle_of opt docs) field msg g)"
  then obtain c m where c: "c \<in> set (find_cycles g)" "m \<in> set (butlast c)" "p = path_of (bundle_of opt docs) m"
    by (auto simp: cycle_findings_def)
  then have "known (bundle_of opt docs) m"
    using walk_known[OF assms] find_cycles_sound[OF c(1)] by (auto simp: closed_walk_def)
  then show "p \<in> fst ` set docs" using known_path c(3) by simp
qed

definition contradicts_skip :: "relations \<Rightarrow> string \<Rightarrow> string \<Rightarrow> (string \<times> string) list \<Rightarrow> bool" where
  "contradicts_skip b i t seen \<longleftrightarrow>
     t = i \<or> \<not> known b t \<or> \<not> status_in_force b t \<or> (i, t) \<in> set seen \<or> (t, i) \<in> set seen"

definition contradicts_report :: "relations \<Rightarrow> string \<Rightarrow> string \<Rightarrow> log" where
  "contradicts_report b i t =
     (path_of b i, LFinding Warning ''contradicts'' (Contradicts i t))
     # (if path_of b t \<noteq> path_of b i
        then [(path_of b t, LFinding Warning ''contradicts'' (ContradictedBy t i))] else [])"

lemma contradiction_targets_Cons:
  "contradiction_targets b i (t # ts) seen =
     (if contradicts_skip b i t seen then contradiction_targets b i ts seen
      else (contradicts_report b i t @ fst (contradiction_targets b i ts (seen @ [(i, t)])),
            snd (contradiction_targets b i ts (seen @ [(i, t)]))))"
  by (simp add: contradicts_skip_def contradicts_report_def split: prod.splits)

lemma contradiction_pairs_Cons:
  "contradiction_pairs b ((i, ts) # rest) seen =
     (if status_in_force b i
      then fst (contradiction_targets b i ts seen) @ contradiction_pairs b rest (snd (contradiction_targets b i ts seen))
      else contradiction_pairs b rest seen)"
  by (simp split: prod.splits)

lemma contradiction_targets_paths:
  "p \<in> fst ` set (fst (contradiction_targets b i ts seen)) \<Longrightarrow>
   p = path_of b i \<or> p \<in> path_of b ` Collect (known b)"
proof (induction ts arbitrary: seen)
  case (Cons t ts)
  show ?case
  proof (cases "contradicts_skip b i t seen")
    case True
    then show ?thesis using Cons by (simp only: contradiction_targets_Cons if_True)
  next
    case False
    then have "known b t" by (simp add: contradicts_skip_def)
    then have "\<forall>q \<in> fst ` set (contradicts_report b i t). q = path_of b i \<or> q \<in> path_of b ` Collect (known b)"
      by (auto simp: contradicts_report_def)
    then show ?thesis using Cons False
      by (simp only: contradiction_targets_Cons if_False fst_conv set_append image_Un) blast
  qed
qed simp

lemma contradiction_pairs_paths:
  assumes "\<And>i ts. (i, ts) \<in> set cs \<Longrightarrow> path_of b i \<in> P" and "\<And>t. known b t \<Longrightarrow> path_of b t \<in> P"
  shows "fst ` set (contradiction_pairs b cs seen) \<subseteq> P"
  using assms(1)
proof (induction cs arbitrary: seen)
  case (Cons c cs)
  obtain i ts where c: "c = (i, ts)" by fastforce
  have "path_of b i \<in> P" using Cons.prems[of i ts] c by simp
  then have "q \<in> P" if "q \<in> fst ` set (fst (contradiction_targets b i ts seen))" for q
    using contradiction_targets_paths[OF that] assms(2) by blast
  then have "fst ` set (fst (contradiction_targets b i ts seen)) \<subseteq> P" by blast
  moreover have "fst ` set (contradiction_pairs b cs s2) \<subseteq> P" for s2
    by (rule Cons.IH, rule Cons.prems) (rule list.set_intros)
  ultimately show ?case unfolding c contradiction_pairs_Cons
    by (cases "status_in_force b i") (simp_all only: if_True if_False set_append image_Un Un_subset_iff simp_thms)
qed simp

lemma retired_dependencies_mem:
  "(i, src, r) \<in> set (retired_dependencies opt b) \<Longrightarrow>
   (\<exists>ts. (i, ts) \<in> set (derived_from_of b) \<and> src \<in> set ts) \<and> src \<noteq> i \<and> known b src
   \<and> get_or False (in_force_of b) i \<and> in_force_superseders b i = [] \<and> (i, src) \<notin> set (mixed_pairs b)
   \<and> retirement_reason opt b src = Some r"
  by (auto simp: retired_dependencies_def split: option.splits if_splits)

lemma derived_from_paths:
  "fst ` set (derived_from_findings opt (bundle_of opt docs)) \<subseteq> fst ` set docs"
proof -
  let ?b = "bundle_of opt docs"
  have a: "fst ` set (derives_itself ?b) \<subseteq> fst ` set docs"
    by (auto simp: derives_itself_def dest: key_path split: if_splits)
  have b: "i \<in> rel_keys ?b" if "(i, t) \<in> set (mixed_pairs ?b)" for i t
    using that by (auto simp: mixed_pairs_def dest: rel_keysI)
  have c: "i \<in> rel_keys ?b \<and> known ?b src" if "(i, src, r) \<in> set (retired_dependencies opt ?b)" for i src r
    using retired_dependencies_mem[OF that] rel_keysI(4) by blast
  have k: "path_of ?b i \<in> fst ` set docs" if "i \<in> rel_keys ?b \<or> known ?b i" for i
    using that rel_keys_known known_path by blast
  have p: "path_of ?b i \<in> fst ` set docs" if "(i, t) \<in> set (mixed_pairs ?b)" for i t
    using b[OF that] k by blast
  have q: "path_of ?b i \<in> fst ` set docs \<and> path_of ?b src \<in> fst ` set docs"
    if "(i, src, r) \<in> set (retired_dependencies opt ?b)" for i src r
    using c[OF that] k by blast
  have m: "fst ` set [(path_of ?b i, LFinding Error ''derived_from'' (DerivesSuperseded i t)). (i, t) \<leftarrow> mixed_pairs ?b]
      \<subseteq> fst ` set docs" using p by auto
  have r1: "fst ` set [(path_of ?b i, LFinding Warning ''derived_from'' (DerivesRetired i src r)).
      (i, src, r) \<leftarrow> retired_dependencies opt ?b] \<subseteq> fst ` set docs" using q by auto
  have r2: "fst ` set [(path_of ?b src, f src). src \<leftarrow> sort (remdups (map (\<lambda>(i, src, r). src) (retired_dependencies opt ?b)))]
      \<subseteq> fst ` set docs" for f using q by auto
  show ?thesis
    unfolding derived_from_findings_def Let_def set_append image_Un
    using a m r1 r2 cycle_findings_paths[OF derivation_graph_known] by (intro Un_least)
qed

lemma reference_path: "pf \<in> set (reference_findings opt b d) \<Longrightarrow> fst pf = fst d"
  by (auto simp: reference_findings_def Let_def)

lemma cross_file_paths: "fst ` set (cross_file_findings opt docs) \<subseteq> fst ` set docs"
proof -
  let ?b = "bundle_of opt docs"
  have a: "fst ` set (concat (map (reference_findings opt ?b) docs)) \<subseteq> fst ` set docs"
    by (auto dest!: reference_path)
  have k: "(i, ts) \<in> set (supersedes_of ?b) \<Longrightarrow> path_of ?b i \<in> fst ` set docs"
    "(i, t) \<in> set (superseded_by_of ?b) \<Longrightarrow> path_of ?b i \<in> fst ` set docs"
    "(i, ts) \<in> set (contradicts_of ?b) \<Longrightarrow> path_of ?b i \<in> fst ` set docs"
    "(i, t) \<in> set (status_of ?b) \<Longrightarrow> path_of ?b i \<in> fst ` set docs" for i t ts
    by (rule key_path, assumption)+
  have b: "fst ` set (self_supersession ?b) \<subseteq> fst ` set docs"
    using k(1,2) by (auto simp: self_supersession_def split: if_splits)
  have c: "fst ` set (asymmetric_pairs ?b) \<subseteq> fst ` set docs"
    using k(1,2) by (auto simp: asymmetric_pairs_def split: if_splits)
  have d: "fst ` set (status_consistency ?b) \<subseteq> fst ` set docs"
    using k(2,4) by (auto simp: status_consistency_def split: if_splits)
  have e: "fst ` set (contradiction_pairs ?b (contradicts_of ?b) []) \<subseteq> fst ` set docs"
    by (rule contradiction_pairs_paths) (rule k(3) known_path, assumption)+
  show ?thesis
    unfolding cross_file_findings_def Let_def set_append image_Un
    using a b c d e cycle_findings_paths[OF supersession_graph_known] derived_from_paths by (intro Un_least)
qed

lemma schema_paths: "schema_findings today docs = Inr l \<Longrightarrow> fst ` set l \<subseteq> fst ` set docs"
proof (induction docs arbitrary: l)
  case (Cons d docs)
  then obtain fs l' where "schema_findings today docs = Inr l'" "l = map (\<lambda>f. (fst d, schema_finding f)) fs @ l'"
    by (auto split: sum.splits)
  moreover have "fst ` set (map (\<lambda>f. (fst d, schema_finding f)) fs) \<subseteq> {fst d}" by auto
  moreover note Cons.IH[of l']
  ultimately show ?case by (simp add: image_Un) blast
qed simp

lemma taxonomy_path: "pf \<in> set (taxonomy_findings base rules d) \<Longrightarrow> fst pf = fst d"
  by (auto simp: taxonomy_findings_def split: option.splits prod.splits)

lemma keys_by_path: "fst ` set (by_path l) = fst ` set l"
proof -
  have "fst ` set (fold append_finding l d) = fst ` set d \<union> fst ` set l" for d
    by (induction l arbitrary: d) (auto simp: append_finding_def keys_dset)
  then show ?thesis by (simp add: by_path_def)
qed

text \<open>A lint run reports only on the files it was given: ids that resolve through another bundle
  contribute no finding, and every id that a cross-file check looks up has a path.\<close>

theorem findings_only_on_linted_files:
  assumes "lint_files opt rules docs = Inr res"
  shows "fst ` set res \<subseteq> fst ` set docs \<and> (\<forall>i \<in> rel_keys (bundle_of opt docs). dget (ids_of docs) i \<noteq> None)"
proof -
  from assms obtain l where l: "schema_findings (today_of opt) docs = Inr l"
    and res: "res = by_path (l @ cross_file_findings opt docs
       @ (case root_of opt of None \<Rightarrow> [] | Some r \<Rightarrow> concat (map (taxonomy_findings r rules) docs)))"
    by (auto simp: lint_files_def split: sum.splits)
  have "fst ` set (case root_of opt of None \<Rightarrow> [] | Some r \<Rightarrow> concat (map (taxonomy_findings r rules) docs)) \<subseteq> fst ` set docs"
    by (auto split: option.splits dest!: taxonomy_path)
  then have "fst ` set res \<subseteq> fst ` set docs"
    unfolding res keys_by_path set_append image_Un using schema_paths[OF l] cross_file_paths by (intro Un_least)
  moreover have "\<forall>i \<in> rel_keys (bundle_of opt docs). dget (ids_of docs) i \<noteq> None"
    using rel_keys_known unfolding known_def by auto
  ultimately show ?thesis by blast
qed

subsection \<open>Cycles\<close>

lemma supersession_edges:
  "(a, c) \<in> set (supersession_graph b) \<longleftrightarrow> a \<noteq> c \<and>
     ((\<exists>ts. (a, ts) \<in> set (supersedes_of b) \<and> c \<in> set ts \<and> known b c)
      \<or> ((c, a) \<in> set (superseded_by_of b) \<and> known b a))"
  by (auto simp: supersession_graph_def)

definition no_cycle_message :: "log \<Rightarrow> bool" where
  "no_cycle_message l \<longleftrightarrow> (\<forall>pf \<in> set l. \<forall>c. l_message (snd pf) \<noteq> SupersessionCycle c)"

lemma contradiction_messages:
  "pf \<in> set (contradiction_pairs b cs seen) \<Longrightarrow> \<exists>i t. l_message (snd pf) \<in> {Contradicts i t, ContradictedBy i t}"
proof (induction cs arbitrary: seen)
  case (Cons c cs)
  obtain i ts where c: "c = (i, ts)" by fastforce
  have t: "pf \<in> set (fst (contradiction_targets b i ts s)) \<Longrightarrow> \<exists>i t. l_message (snd pf) \<in> {Contradicts i t, ContradictedBy i t}" for s
  proof (induction ts arbitrary: s)
    case (Cons t ts)
    have "pf \<in> set (contradicts_report b i t) \<Longrightarrow> \<exists>i t. l_message (snd pf) \<in> {Contradicts i t, ContradictedBy i t}"
      by (auto simp: contradicts_report_def split: if_splits)
    then show ?case using Cons unfolding contradiction_targets_Cons by (auto split: if_splits)
  qed simp
  show ?case
    using Cons.prems Cons.IH t unfolding c contradiction_pairs_Cons by (auto split: if_splits)
qed simp

lemma no_cycle_messages:
  "no_cycle_message (concat (map (reference_findings opt b) docs))"
  "no_cycle_message (self_supersession b)" "no_cycle_message (asymmetric_pairs b)"
  "no_cycle_message (status_consistency b)" "no_cycle_message (contradiction_pairs b cs seen)"
  "no_cycle_message (derived_from_findings opt b)"
proof -
  show "no_cycle_message (concat (map (reference_findings opt b) docs))"
    by (auto simp: no_cycle_message_def reference_findings_def multi_ref_bad_def target_finding_def Let_def split: if_splits)
  show "no_cycle_message (self_supersession b)" "no_cycle_message (asymmetric_pairs b)" "no_cycle_message (status_consistency b)"
    by (auto simp: no_cycle_message_def self_supersession_def asymmetric_pairs_def status_consistency_def split: if_splits)
  show "no_cycle_message (contradiction_pairs b cs seen)"
    using contradiction_messages by (fastforce simp: no_cycle_message_def)
  show "no_cycle_message (derived_from_findings opt b)"
    by (auto simp: no_cycle_message_def derived_from_findings_def cycle_findings_def derives_itself_def Let_def split: if_splits)
qed

text \<open>C34. The linter reports a supersession cycle exactly when the merged graph of \<open>supersedes\<close> and
  \<open>superseded_by\<close> over the bundle has one; every reported cycle is a closed walk of that graph, each
  finding is an error, and it stands on the file of a member of the cycle.\<close>

theorem supersession_cycle_reported_iff:
  fixes opt docs
  defines "b \<equiv> bundle_of opt docs"
  shows "((\<exists>p f c. (p, f) \<in> set (cross_file_findings opt docs) \<and> l_message f = SupersessionCycle c)
      \<longleftrightarrow> \<not> acyclic (set (supersession_graph b)))
    \<and> (\<forall>p f c. (p, f) \<in> set (cross_file_findings opt docs) \<and> l_message f = SupersessionCycle c \<longrightarrow>
        l_severity f = Error \<and> walk (supersession_graph b) c \<and> hd c = last c \<and> length c \<ge> 2
        \<and> (\<exists>m \<in> set (butlast c). dget (ids_of docs) m = Some p))"
proof -
  let ?g = "supersession_graph b"
  have mem: "(p, f) \<in> set (cross_file_findings opt docs) \<and> l_message f = SupersessionCycle c \<longleftrightarrow>
     c \<in> set (find_cycles ?g) \<and> f = LFinding Error ''supersedes'' (SupersessionCycle c)
       \<and> p \<in> path_of b ` set (butlast c)" for p f c
    using no_cycle_messages[unfolded no_cycle_message_def]
    by (fastforce simp: cross_file_findings_def cycle_findings_def Let_def b_def)
  have ne: "set (butlast c) \<noteq> {}" if "c \<in> set (find_cycles ?g)" for c
    using find_cycles_sound[OF that] by (cases c; cases "tl c") (auto simp: closed_walk_def)
  have "(\<exists>p f c. (p, f) \<in> set (cross_file_findings opt docs) \<and> l_message f = SupersessionCycle c)
      \<longleftrightarrow> find_cycles ?g \<noteq> []"
  proof
    assume "find_cycles ?g \<noteq> []"
    then obtain c where c: "c \<in> set (find_cycles ?g)" by (meson last_in_set)
    then obtain m where "m \<in> set (butlast c)" using ne[OF c] ex_in_conv[of "set (butlast c)"] by blast
    with c show "\<exists>p f c. (p, f) \<in> set (cross_file_findings opt docs) \<and> l_message f = SupersessionCycle c"
      unfolding mem by blast
  qed (use mem in fastforce)
  also have "\<dots> \<longleftrightarrow> \<not> acyclic (set ?g)"
    using find_cycles_complete find_cycles_sound closed_walk_trancl by (metis acyclic_def last_in_set)
  finally have iff: "(\<exists>p f c. (p, f) \<in> set (cross_file_findings opt docs) \<and> l_message f = SupersessionCycle c)
      \<longleftrightarrow> \<not> acyclic (set ?g)" .
  have "dget (ids_of docs) m = Some (path_of b m)" if "c \<in> set (find_cycles ?g)" "m \<in> set (butlast c)" for c m
    using walk_known[OF supersession_graph_known[of opt docs, folded b_def] _ _ that(2)] find_cycles_sound[OF that(1)]
    by (auto simp: closed_walk_def known_def path_of_def b_def)
  then show ?thesis
    using iff find_cycles_sound unfolding mem by (fastforce simp: closed_walk_def)
qed

theorem findings_only_on_linted_files_witness:
  "\<exists>res. lint_files \<lparr>resolve_ids = [''X''], unresolved_severity = ''error'', root_of = None,
       today_of = ''2026-01-01'', inbox_env_of = None, py_str_of = \<lambda>v. ''''\<rparr> []
     [([''k'', ''a.md''], [(PyStr ''id'', PyStr ''A''), (PyStr ''supersedes'', PyStr ''Y'')])] = Inr res
   \<and> fst ` set res \<subseteq> {[''k'', ''a.md'']}"
proof -
  let ?o = "\<lparr>resolve_ids = [''X''], unresolved_severity = ''error'', root_of = None,
       today_of = ''2026-01-01'', inbox_env_of = None, py_str_of = \<lambda>v. ''''\<rparr>"
  let ?d = "[([''k'', ''a.md''], [(PyStr ''id'', PyStr ''A''), (PyStr ''supersedes'', PyStr ''Y'')])]"
  have "(case schema_findings ''2026-01-01'' ?d of Inl e \<Rightarrow> False | Inr l \<Rightarrow> True)" by code_simp
  then obtain res where r: "lint_files ?o [] ?d = Inr res"
    by (auto simp: lint_files_def simp del: schema_findings.simps split: sum.splits)
  then show ?thesis using findings_only_on_linted_files[OF r] by auto
qed

theorem supersession_cycle_reported_iff_witness:
  "\<exists>p f c. (p, f) \<in> set (cross_file_findings \<lparr>resolve_ids = [], unresolved_severity = ''error'', root_of = None,
       today_of = ''2026-01-01'', inbox_env_of = None, py_str_of = \<lambda>v. ''''\<rparr>
     [([''a.md''], [(PyStr ''id'', PyStr ''A''), (PyStr ''supersedes'', PyStr ''B''), (PyStr ''superseded_by'', PyStr ''B'')]),
      ([''b.md''], [(PyStr ''id'', PyStr ''B'')])]) \<and> l_message f = SupersessionCycle c"
proof -
  let ?o = "\<lparr>resolve_ids = [], unresolved_severity = ''error'', root_of = None,
       today_of = ''2026-01-01'', inbox_env_of = None, py_str_of = \<lambda>v. ''''\<rparr>"
  let ?d = "[([''a.md''], [(PyStr ''id'', PyStr ''A''), (PyStr ''supersedes'', PyStr ''B''), (PyStr ''superseded_by'', PyStr ''B'')]),
      ([''b.md''], [(PyStr ''id'', PyStr ''B'')])]"
  have g: "supersession_graph (bundle_of ?o ?d) = [(''A'', ''B''), (''B'', ''A'')]" by code_simp
  have "(''A'', ''A'') \<in> (set (supersession_graph (bundle_of ?o ?d)))\<^sup>+"
    unfolding g by (rule trancl_into_trancl2[of _ "''B''"], simp, rule r_into_trancl, simp)
  then have "\<not> acyclic (set (supersession_graph (bundle_of ?o ?d)))" unfolding acyclic_def by blast
  then show ?thesis using supersession_cycle_reported_iff[of ?o ?d] by blast
qed

end
