(* ===== verification/LintChecks.thy ===== *)
theory LintChecks
  imports Lint
begin

text \<open>
  What the checks of the linter mean: which findings can depend on the date of the run, when a
  contradiction, a dangling reference or a dependency on a retired document is reported, and how
  the linter's reading of a validity block and of a directory tree differs from the indexer's.
\<close>

subsection \<open>Errors do not depend on the date\<close>

definition errors_in :: "log \<Rightarrow> log" where
  "errors_in l = filter (\<lambda>pf. l_severity (snd pf) = Error) l"

lemma errors_in_simps [simp]: "errors_in [] = []" "errors_in (l @ m) = errors_in l @ errors_in m"
  by (simp_all add: errors_in_def)

lemma errors_in_warnings: "(\<And>pf. pf \<in> set l \<Longrightarrow> l_severity (snd pf) = Warning) \<Longrightarrow> errors_in l = []"
  by (fastforce simp: errors_in_def filter_empty_conv)

lemma in_force_only:
  "\<exists>x. bundle_of (opt\<lparr>today_of := t\<rparr>) docs = (bundle_of opt docs)\<lparr>in_force_of := x\<rparr>"
proof -
  have "add_relations (opt\<lparr>today_of := t\<rparr>) d (b\<lparr>in_force_of := x\<rparr>)
      = (add_relations opt d b)\<lparr>in_force_of := in_force_of (add_relations (opt\<lparr>today_of := t\<rparr>) d (b\<lparr>in_force_of := x\<rparr>))\<rparr>" for d b x
    by (cases "usable_id (snd d)"; cases "lint_window (fm_get (snd d) ''validity'')"; cases "root_of opt";
        cases "fst (normalize_single_ref (fm_get (snd d) ''superseded_by''))") (simp_all add: add_relations_def Let_def)
  then have step: "\<exists>y. add_relations (opt\<lparr>today_of := t\<rparr>) d (b\<lparr>in_force_of := x\<rparr>) = (add_relations opt d b)\<lparr>in_force_of := y\<rparr>" for d b x
    by blast
  have "\<exists>y. fold (add_relations (opt\<lparr>today_of := t\<rparr>)) docs (b\<lparr>in_force_of := x\<rparr>) = (fold (add_relations opt) docs b)\<lparr>in_force_of := y\<rparr>" for b x
  proof (induction docs arbitrary: b x)
    case Nil
    then show ?case by auto
  next
    case (Cons d docs)
    obtain y where "add_relations (opt\<lparr>today_of := t\<rparr>) d (b\<lparr>in_force_of := x\<rparr>) = (add_relations opt d b)\<lparr>in_force_of := y\<rparr>"
      using step by blast
    then show ?case using Cons.IH by simp
  qed
  from this[where x = "[]" and b = "\<lparr>id_to_path = ids_of docs, supersedes_of = [], superseded_by_of = [], contradicts_of = [],
      derived_from_of = [], status_of = [], in_force_of = [], valid_until_of = []\<rparr>"]
  show ?thesis by (simp add: bundle_of_def)
qed

lemma today_references: "reference_findings (opt\<lparr>today_of := t\<rparr>) (b\<lparr>in_force_of := x\<rparr>) = reference_findings opt b"
proof -
  have "target_finding (opt\<lparr>today_of := t\<rparr>) (b\<lparr>in_force_of := x\<rparr>) = target_finding opt b"
    by (intro ext) (simp add: target_finding_def known_def)
  then show ?thesis by (intro ext) (simp add: reference_findings_def)
qed

lemma today_graphs [simp]:
  "path_of (b\<lparr>in_force_of := x\<rparr>) = path_of b" "known (b\<lparr>in_force_of := x\<rparr>) = known b"
  "supersession_graph (b\<lparr>in_force_of := x\<rparr>) = supersession_graph b"
  "derivation_graph (b\<lparr>in_force_of := x\<rparr>) = derivation_graph b"
  "mixed_pairs (b\<lparr>in_force_of := x\<rparr>) = mixed_pairs b"
  by (auto simp: fun_eq_iff path_of_def known_def supersession_graph_def derivation_graph_def mixed_pairs_def cong: if_cong)

lemma today_relations [simp]:
  "self_supersession (b\<lparr>in_force_of := x\<rparr>) = self_supersession b"
  "asymmetric_pairs (b\<lparr>in_force_of := x\<rparr>) = asymmetric_pairs b"
  "status_consistency (b\<lparr>in_force_of := x\<rparr>) = status_consistency b"
  "derives_itself (b\<lparr>in_force_of := x\<rparr>) = derives_itself b"
  "cycle_findings (b\<lparr>in_force_of := x\<rparr>) f m g = cycle_findings b f m g"
  by (simp_all add: self_supersession_def asymmetric_pairs_def status_consistency_def derives_itself_def cycle_findings_def
      cong: if_cong)

lemma contradiction_warnings: "errors_in (contradiction_pairs b cs seen) = []"
proof (rule errors_in_warnings)
  have w: "pf \<in> set (fst (contradiction_targets b i ts s)) \<Longrightarrow> l_severity (snd pf) = Warning" for pf i ts s
    by (induction ts arbitrary: s)
      (auto simp: contradiction_targets_Cons contradicts_report_def simp del: contradiction_targets.simps(2) split: if_splits)
  show "pf \<in> set (contradiction_pairs b cs seen) \<Longrightarrow> l_severity (snd pf) = Warning" for pf
  proof (induction cs arbitrary: seen)
    case (Cons c cs)
    then show ?case by (cases c) (auto simp: contradiction_pairs_Cons simp del: contradiction_pairs.simps(2) split: if_splits dest: w)
  qed simp
qed

lemma derived_errors:
  "errors_in (derived_from_findings opt b) = errors_in (derives_itself b
     @ cycle_findings b ''derived_from'' DerivationCycle (derivation_graph b)
     @ [(path_of b i, LFinding Error ''derived_from'' (DerivesSuperseded i t)). (i, t) \<leftarrow> mixed_pairs b])"
proof -
  have "errors_in [(path_of b i, LFinding Warning ''derived_from'' (DerivesRetired i src r)). (i, src, r) \<leftarrow> deps] = []"
    "errors_in [(path_of b src, LFinding Warning ''derived_from'' (g src)). src \<leftarrow> srcs] = []" for deps srcs g
    by (rule errors_in_warnings; auto)+
  then show ?thesis by (simp add: derived_from_findings_def Let_def)
qed

lemma cross_file_errors:
  "errors_in (cross_file_findings (opt\<lparr>today_of := t\<rparr>) docs) = errors_in (cross_file_findings opt docs)"
proof -
  obtain x where x: "bundle_of (opt\<lparr>today_of := t\<rparr>) docs = (bundle_of opt docs)\<lparr>in_force_of := x\<rparr>"
    using in_force_only by blast
  show ?thesis
    by (simp add: cross_file_findings_def Let_def x today_references contradiction_warnings derived_errors)
qed

lemma validate_errors_today:
  assumes "validate_document n fm t1 = Inr f1"
  shows "\<exists>f2. validate_document n fm t2 = Inr f2 \<and>
    filter (\<lambda>f. f_severity f = Error) f2 = filter (\<lambda>f. f_severity f = Error) f1"
proof (cases "n \<in> set RESERVED")
  case True
  then show ?thesis using assms by (simp add: validate_document_def)
next
  case False
  obtain es v1 where e: "enum_findings fm [''type'', ''status'', ''tier''] = Inr es" and v1: "validity_findings fm t1 = Inr v1"
    using assms False by (auto simp: validate_document_def simp del: enum_findings.simps split: sum.splits)
  have "hashable (fm_get fm ''status'')"
    using e enum_findings_Inl[of fm "[''type'', ''status'', ''tier'']" TypeError] by (auto simp del: enum_findings.simps)
  then obtain v2 where v2: "validity_findings fm t2 = Inr v2"
    using validity_findings_Inl[of fm t2] by (cases "validity_findings fm t2") auto
  have "filter (\<lambda>f. f_severity f = Error) v1 = []" "filter (\<lambda>f. f_severity f = Error) v2 = []"
    using validity_warnings[OF v1] validity_warnings[OF v2] by (fastforce simp: filter_empty_conv list_all_iff)+
  then show ?thesis
    using assms False e v1 v2 by (auto simp: validate_document_def simp del: enum_findings.simps)
qed

lemma errors_in_schema: "errors_in (map (\<lambda>f. (p, schema_finding f)) fs) = map (\<lambda>f. (p, schema_finding f)) (filter (\<lambda>f. f_severity f = Error) fs)"
  by (induction fs) (auto simp: errors_in_def schema_finding_def)

lemma schema_errors_today:
  "schema_findings t1 docs = Inr l1 \<Longrightarrow> \<exists>l2. schema_findings t2 docs = Inr l2 \<and> errors_in l2 = errors_in l1"
proof (induction docs arbitrary: l1)
  case (Cons d docs)
  then obtain f1 l where f1: "validate_document (last (fst d)) (snd d) t1 = Inr f1"
    and l: "schema_findings t1 docs = Inr l" "l1 = map (\<lambda>f. (fst d, schema_finding f)) f1 @ l"
    by (auto split: sum.splits)
  obtain f2 where "validate_document (last (fst d)) (snd d) t2 = Inr f2"
    "filter (\<lambda>f. f_severity f = Error) f2 = filter (\<lambda>f. f_severity f = Error) f1"
    using validate_errors_today[OF f1] by blast
  moreover obtain l2 where "schema_findings t2 docs = Inr l2" "errors_in l2 = errors_in l"
    using Cons.IH[OF l(1)] by blast
  ultimately show ?case using l(2) by (auto simp: errors_in_schema)
qed simp

lemma get_or_errors: "filter (\<lambda>f. l_severity f = Error) (get_or [] (by_path l) p) = get_or [] (by_path (errors_in l)) p"
  unfolding get_or_by_path by (induction l) (auto simp: errors_in_def)

text \<open>C38. Checks against the wall clock are warnings only: if a lint run succeeds on one day, it
  succeeds on every day and reports the same errors, in the same order, for every file.\<close>

theorem lint_errors_ignore_date:
  assumes "lint_files opt rules docs = Inr res"
  shows "\<exists>res2. lint_files (opt\<lparr>today_of := t\<rparr>) rules docs = Inr res2 \<and>
    (\<forall>p. filter (\<lambda>f. l_severity f = Error) (get_or [] res2 p) = filter (\<lambda>f. l_severity f = Error) (get_or [] res p))"
proof -
  obtain l where l: "schema_findings (today_of opt) docs = Inr l"
    using assms by (auto simp: lint_files_def split: sum.splits)
  obtain l2 where l2: "schema_findings t docs = Inr l2" "errors_in l2 = errors_in l"
    using schema_errors_today[OF l] by blast
  let ?tax = "case root_of opt of None \<Rightarrow> [] | Some r \<Rightarrow> concat (map (taxonomy_findings r rules) docs)"
  have "res = by_path (l @ cross_file_findings opt docs @ ?tax)"
    "lint_files (opt\<lparr>today_of := t\<rparr>) rules docs = Inr (by_path (l2 @ cross_file_findings (opt\<lparr>today_of := t\<rparr>) docs @ ?tax))"
    using assms l l2 by (simp_all add: lint_files_def)
  then show ?thesis by (simp add: get_or_errors l2(2) cross_file_errors)
qed

definition ex_opts :: "string \<Rightarrow> lint_opts" where
  "ex_opts today = \<lparr>resolve_ids = [], unresolved_severity = ''error'', root_of = None,
     today_of = today, inbox_env_of = None, py_str_of = \<lambda>v. ''''\<rparr>"

theorem lint_errors_ignore_date_witness:
  "\<exists>res2. lint_files (ex_opts ''2030-01-01'') [] [([''k'', ''a.md''], [(PyStr ''id'', PyStr ''A'')])] = Inr res2"
proof -
  let ?d = "[([''k'', ''a.md''], [(PyStr ''id'', PyStr ''A'')])]"
  have "(case schema_findings ''2026-01-01'' ?d of Inl e \<Rightarrow> False | Inr l \<Rightarrow> True)" by code_simp
  then obtain res where r: "lint_files (ex_opts ''2026-01-01'') [] ?d = Inr res"
    by (auto simp: lint_files_def ex_opts_def simp del: schema_findings.simps split: sum.splits)
  have "(ex_opts ''2026-01-01'')\<lparr>today_of := ''2030-01-01''\<rparr> = ex_opts ''2030-01-01''" by (simp add: ex_opts_def)
  then show ?thesis using lint_errors_ignore_date[OF r, of "''2030-01-01''"] by auto
qed

subsection \<open>Contradictions\<close>

definition contradiction_reports :: "string \<Rightarrow> string \<Rightarrow> log \<Rightarrow> nat" where
  "contradiction_reports i t l = length (filter (\<lambda>pf. l_message (snd pf) \<in> {Contradicts i t, Contradicts t i}) l)"

definition paired :: "string \<Rightarrow> string \<Rightarrow> (string \<times> string) list \<Rightarrow> bool" where
  "paired i t seen \<longleftrightarrow> (i, t) \<in> set seen \<or> (t, i) \<in> set seen"

definition names :: "relations \<Rightarrow> string \<Rightarrow> string \<Rightarrow> string \<Rightarrow> string list \<Rightarrow> bool" where
  "names b i t x ts \<longleftrightarrow> x = i \<and> t \<in> set ts \<or> x = t \<and> i \<in> set ts"

lemma reports_simps [simp]:
  "contradiction_reports i t [] = 0"
  "contradiction_reports i t (l @ m) = contradiction_reports i t l + contradiction_reports i t m"
  by (simp_all add: contradiction_reports_def)

lemma reports_one:
  "contradiction_reports i t (contradicts_report b x y) = (if {x, y} = {i, t} then 1 else 0)"
  by (auto simp: contradiction_reports_def contradicts_report_def doubleton_eq_iff)

lemma contradiction_targets_count:
  assumes "i \<noteq> t" and "known b i" and "known b t" and "status_in_force b i" and "status_in_force b t"
  shows "contradiction_reports i t (fst (contradiction_targets b x ts seen))
      = (if \<not> paired i t seen \<and> names b i t x ts then 1 else 0)
    \<and> paired i t (snd (contradiction_targets b x ts seen)) = (paired i t seen \<or> names b i t x ts)"
proof (induction ts arbitrary: seen)
  case Nil
  then show ?case by (simp add: names_def)
next
  case (Cons y ts)
  show ?case
  proof (cases "contradicts_skip b x y seen")
    case True
    have "paired i t seen \<or> {x, y} \<noteq> {i, t}"
      using True assms by (auto simp: contradicts_skip_def paired_def doubleton_eq_iff)
    then show ?thesis
      using True Cons.IH[of seen] assms(1) by (auto simp: contradiction_targets_Cons names_def doubleton_eq_iff simp del: contradiction_targets.simps)
  next
    case False
    have "{x, y} = {i, t} \<Longrightarrow> \<not> paired i t seen"
      using False by (auto simp: contradicts_skip_def paired_def doubleton_eq_iff)
    moreover have "paired i t (seen @ [(x, y)]) \<longleftrightarrow> paired i t seen \<or> {x, y} = {i, t}"
      by (auto simp: paired_def doubleton_eq_iff)
    moreover have "names b i t x (y # ts) \<longleftrightarrow> {x, y} = {i, t} \<or> names b i t x ts"
      using assms(1) by (auto simp: names_def doubleton_eq_iff)
    ultimately show ?thesis
      using False Cons.IH[of "seen @ [(x, y)]"] by (auto simp: contradiction_targets_Cons reports_one simp del: contradiction_targets.simps)
  qed
qed

lemma contradiction_pairs_count:
  assumes "i \<noteq> t" and "known b i" and "known b t" and "status_in_force b i" and "status_in_force b t"
  shows "contradiction_reports i t (contradiction_pairs b cs seen)
      = (if \<not> paired i t seen \<and> (\<exists>(x, ts) \<in> set cs. names b i t x ts) then 1 else 0)"
proof (induction cs arbitrary: seen)
  case (Cons c cs)
  obtain x ts where c: "c = (x, ts)" by fastforce
  show ?case
  proof (cases "status_in_force b x")
    case True
    then show ?thesis
      using Cons.IH contradiction_targets_count[OF assms, of x ts seen]
      by (simp add: c contradiction_pairs_Cons del: contradiction_pairs.simps)
  next
    case False
    then have "\<not> names b i t x ts" using assms by (auto simp: names_def)
    then show ?thesis using False Cons.IH by (simp add: c contradiction_pairs_Cons del: contradiction_pairs.simps)
  qed
qed simp

text \<open>A contradiction between two in-force documents of the bundle is reported exactly once, whichever
  of the two names the other, and also when both do or one names it twice.\<close>

theorem contradiction_reported_once:
  assumes "i \<noteq> t" and "known b i" and "known b t" and "status_in_force b i" and "status_in_force b t"
  shows "contradiction_reports i t (contradiction_pairs b (contradicts_of b) []) =
    (if (\<exists>ts. (i, ts) \<in> set (contradicts_of b) \<and> t \<in> set ts) \<or> (\<exists>ts. (t, ts) \<in> set (contradicts_of b) \<and> i \<in> set ts)
     then 1 else 0)"
  unfolding contradiction_pairs_count[OF assms] by (auto simp: paired_def names_def)

theorem contradiction_reported_once_witness:
  "\<exists>b. contradiction_reports ''A'' ''B'' (contradiction_pairs b [(''A'', [''B'', ''B'']), (''B'', [''A''])] []) = 1"
proof -
  let ?b = "\<lparr>id_to_path = [(''A'', [''a.md'']), (''B'', [''b.md''])], supersedes_of = [], superseded_by_of = [],
    contradicts_of = [(''A'', [''B'', ''B'']), (''B'', [''A''])], derived_from_of = [],
    status_of = [(''A'', ''active''), (''B'', ''Accepted'')], in_force_of = [], valid_until_of = []\<rparr>"
  have "known ?b ''A''" "known ?b ''B''" "status_in_force ?b ''A''" "status_in_force ?b ''B''" by code_simp+
  from contradiction_reported_once[OF _ this] have "contradiction_reports ''A'' ''B'' (contradiction_pairs ?b (contradicts_of ?b) []) = 1" by simp
  then show ?thesis by (intro exI[of _ ?b]) simp
qed

subsection \<open>Dependencies on retired documents\<close>

lemma derives_retired_mem:
  "(p, LFinding Warning ''derived_from'' (DerivesRetired i src r)) \<in> set (derived_from_findings opt b) \<longleftrightarrow>
   p = path_of b i \<and> (i, src, r) \<in> set (retired_dependencies opt b)"
  by (auto simp: derived_from_findings_def Let_def derives_itself_def cycle_findings_def split: if_splits intro: rev_image_eqI)

lemma retired_with_dependents_mem:
  "(p, LFinding Warning ''derived_from'' (RetiredWithDependents src r ds)) \<in> set (derived_from_findings opt b) \<longleftrightarrow>
   p = path_of b src \<and> r = the (retirement_reason opt b src)
   \<and> src \<in> set (map (\<lambda>(i, src, r). src) (retired_dependencies opt b))
   \<and> ds = sort (remdups [i. (i, s, r) \<leftarrow> retired_dependencies opt b, s = src])"
  by (auto simp: derived_from_findings_def Let_def derives_itself_def cycle_findings_def split: if_splits intro: rev_image_eqI)

text \<open>A dependency on a retired document is warned about on both ends or on neither: the dependent
  is told of the source with a reason exactly when the source is told, with the same reason, of
  a list of dependents that names it.\<close>

theorem retired_dependency_both_ends:
  "(\<exists>p. (p, LFinding Warning ''derived_from'' (DerivesRetired i src r)) \<in> set (derived_from_findings opt b))
   \<longleftrightarrow> (\<exists>p ds. (p, LFinding Warning ''derived_from'' (RetiredWithDependents src r ds)) \<in> set (derived_from_findings opt b)
        \<and> i \<in> set ds)"
proof -
  have ds: "i \<in> set (sort (remdups [i. (i, s, r) \<leftarrow> retired_dependencies opt b, s = src]))
      \<longleftrightarrow> (\<exists>r. (i, src, r) \<in> set (retired_dependencies opt b))"
    by (auto split: if_splits) 
  have r: "the (retirement_reason opt b src) = r" if "(i, src, r) \<in> set (retired_dependencies opt b)" for i r
    using retired_dependencies_mem[OF that] by simp
  show ?thesis
    unfolding derives_retired_mem retired_with_dependents_mem
  proof (intro iffI; elim exE conjE)
    assume m: "(i, src, r) \<in> set (retired_dependencies opt b)"
    then have "src \<in> set (map (\<lambda>(i, src, r). src) (retired_dependencies opt b))" by force
    then show "\<exists>p ds. (p = path_of b src \<and> r = the (retirement_reason opt b src)
        \<and> src \<in> set (map (\<lambda>(i, src, r). src) (retired_dependencies opt b))
        \<and> ds = sort (remdups [i. (i, s, r) \<leftarrow> retired_dependencies opt b, s = src])) \<and> i \<in> set ds"
      using r[OF m] ds m by blast
  next
    fix p dl
    assume "dl = sort (remdups [i. (i, s, r) \<leftarrow> retired_dependencies opt b, s = src])" "i \<in> set dl"
      and "r = the (retirement_reason opt b src)"
    then show "\<exists>p. p = path_of b i \<and> (i, src, r) \<in> set (retired_dependencies opt b)"
      using ds r by auto
  qed
qed

subsection \<open>Dangling targets\<close>

definition declared :: "frontmatter \<Rightarrow> string \<Rightarrow> string list" where
  "declared fm field = (if field = ''superseded_by''
     then (case fst (normalize_single_ref (fm_get fm field)) of None \<Rightarrow> [] | Some t \<Rightarrow> [t])
     else fst (normalize_multi_ref (fm_get fm field)))"

lemma target_finding_unknown:
  "LFinding Error f (UnknownId t shaped) \<in> set (target_finding opt b field target) \<longleftrightarrow>
   f = field \<and> t = target \<and> shaped = path_shaped t \<and> field \<noteq> ''contradicts'' \<and> unresolved_severity opt \<noteq> ''warn''
   \<and> \<not> known b t \<and> t \<notin> set (resolve_ids opt)"
  by (auto simp: target_finding_def Let_def)

text \<open>An unresolved target is an error exactly when it is declared in one of the three strict relation
  fields, no document of the bundle and no external bundle has the id, and the run is not in the
  transitional mode.\<close>

theorem dangling_target_error_iff:
  "(p, LFinding Error f (UnknownId t shaped)) \<in> set (reference_findings opt b d) \<longleftrightarrow>
   p = fst d \<and> f \<in> {''supersedes'', ''superseded_by'', ''derived_from''} \<and> t \<in> set (declared (snd d) f)
   \<and> \<not> known b t \<and> t \<notin> set (resolve_ids opt) \<and> unresolved_severity opt \<noteq> ''warn'' \<and> shaped = path_shaped t"
  by (auto simp: reference_findings_def Let_def multi_ref_bad_def target_finding_unknown declared_def
      simp del: normalize_multi_ref.simps normalize_single_ref.simps split: if_splits)

subsection \<open>The linter and the indexer\<close>

text \<open>The linter does not read a validity block as the index does: the two windows differ exactly
  when \<open>last_verified\<close> or \<open>recheck_by\<close> is malformed while the linter's window is not empty; then
  the index drops the whole block.\<close>

theorem lint_window_differs_from_index:
  "lint_window v \<noteq> (v_from (parse_validity v), v_until (parse_validity v)) \<longleftrightarrow>
   (\<exists>m. v = PyDict m \<and> (snd (validity_field m ''last_verified'') \<or> snd (validity_field m ''recheck_by''))
      \<and> lint_window v \<noteq> ('''', ''''))"
proof (cases v)
  case (PyDict m)
  obtain a ba where a: "validity_field m ''valid_from'' = (a, ba)" by fastforce
  obtain c bc where c: "validity_field m ''valid_until'' = (c, bc)" by fastforce
  show ?thesis
    by (auto simp: PyDict lint_window_def parse_validity_def empty_window_def VALIDITY_DATE_FIELDS_def a c split: if_splits)
qed (simp_all add: lint_window_def parse_validity_def empty_window_def)

theorem lint_window_differs_from_index_witness:
  "(let v = PyDict [(PyStr ''valid_until'', PyStr ''2026-01-01''), (PyStr ''recheck_by'', PyStr ''soon'')]
    in lint_window v \<noteq> (v_from (parse_validity v), v_until (parse_validity v)))"
proof -
  let ?m = "[(PyStr ''valid_until'', PyStr ''2026-01-01''), (PyStr ''recheck_by'', PyStr ''soon'')]"
  have "snd (validity_field ?m ''recheck_by'')" "lint_window (PyDict ?m) \<noteq> ('''', '''')" by code_simp+
  then show ?thesis unfolding Let_def using lint_window_differs_from_index[of "PyDict ?m"] by blast
qed

text \<open>The directory filters of the linter and of the indexer are not in sync: a document under
  \<open>.github\<close> is indexed but never linted, one under \<open>data-olympus-mcp\<close> is linted but never indexed.\<close>

lemma directory_filters_differ:
  "\<not> is_linted base (base @ [''.github'', ''x.md'']) \<and> \<not> is_excluded [''.github'', ''x.md'']
   \<and> is_linted base (base @ [''data-olympus-mcp'', ''x.md'']) \<and> is_excluded [''data-olympus-mcp'', ''x.md'']"
proof -
  have "''x.md'' \<notin> set ROOT_META_FILES" "''x.md'' \<notin> set RESERVED" "''.github'' \<in> set SKIP_DIRS"
    "''data-olympus-mcp'' \<notin> set SKIP_DIRS" "''x.md'' \<notin> set SKIP_DIRS"
    "\<not> is_excluded [''.github'', ''x.md'']" "is_excluded [''data-olympus-mcp'', ''x.md'']" by code_simp+
  then show ?thesis by (simp add: is_linted_def)
qed

end
