(* ===== verification/EnforcePolicy.thy ===== *)
theory EnforcePolicy
  imports Taxonomy
begin

text \<open>
  The enforcement policy (\<^verbatim>\<open>enforce_policy.py\<close>): the heuristic classifier of prompts and actions
  with its keyword search, command fragments and path globs, the coverage of a consult intent,
  and the comparison of an action's signals with a coverage set. A signal is the string that
  the code builds, \<open>kind:value\<close>.
\<close>

definition GOVERNED_KEYWORDS :: "string list" where
  "GOVERNED_KEYWORDS = [''library'', ''dependency'', ''dependencies'', ''framework'', ''package'',
     ''pattern'', ''migration'', ''migrate'', ''refactor'', ''architecture'', ''api design'',
     ''endpoint'', ''schema'', ''auth'', ''authorization'', ''authentication'', ''rls'', ''secret'',
     ''convention'', ''standard'']"

definition GOVERNED_PATH_GLOBS :: "string list" where
  "GOVERNED_PATH_GLOBS = [''pyproject.toml'', ''*/pyproject.toml'', ''package.json'', ''*/package.json'',
     ''*/requirements*.txt'', ''requirements*.txt'', ''*/go.mod'', ''go.mod'', ''*/Cargo.toml'',
     ''Cargo.toml'', ''*/pom.xml'', ''*/migrations/*'', ''*/migration/*'', ''*/schema/*'',
     ''*/schema.sql'', ''*.sql'', ''Dockerfile'', ''*/Dockerfile'', ''*/docker-compose*.yml'',
     ''docker-compose*.yml'']"

definition GOVERNED_COMMAND_PATTERNS :: "string list" where
  "GOVERNED_COMMAND_PATTERNS = [''pip install'', ''pip3 install'', ''uv add'', ''uv pip install'',
     ''poetry add'', ''npm install'', ''npm i '', ''yarn add'', ''pnpm add'', ''apt install'',
     ''apt-get install'', ''brew install'', ''go get'', ''cargo add'', ''gem install'', ''bundle add'']"

definition DEPENDENCY_KEYWORDS :: "string list" where
  "DEPENDENCY_KEYWORDS = [''dependency'', ''dependencies'', ''package'', ''library'']"

definition MIGRATION_KEYWORDS :: "string list" where
  "MIGRATION_KEYWORDS = [''migration'', ''migrate'', ''schema'']"

definition SCHEMA_KEYWORDS :: "string list" where
  "SCHEMA_KEYWORDS = [''schema'', ''migration'', ''migrate'']"

definition SIGNAL_FAMILY_COVERAGE :: "(string, string list) dict" where
  "SIGNAL_FAMILY_COVERAGE =
     map (\<lambda>fam. (''path:'' @ fam, DEPENDENCY_KEYWORDS))
       [''pyproject.toml'', ''package.json'', ''requirements*.txt'', ''go.mod'', ''Cargo.toml'', ''pom.xml'']
     @ map (\<lambda>pat. (''command:'' @ strip pat, DEPENDENCY_KEYWORDS)) GOVERNED_COMMAND_PATTERNS
     @ [(''path:migrations/*'', MIGRATION_KEYWORDS), (''path:migration/*'', MIGRATION_KEYWORDS),
        (''path:schema/*'', SCHEMA_KEYWORDS), (''path:schema.sql'', SCHEMA_KEYWORDS), (''path:*.sql'', SCHEMA_KEYWORDS)]"

definition signal_family :: "string \<Rightarrow> string" where
  "signal_family s = (if starts_with ''path:*/'' s then ''path:'' @ drop (length ''path:*/'') s else s)"

definition covers :: "string set \<Rightarrow> string \<Rightarrow> bool" where
  "covers families sig \<longleftrightarrow>
     signal_family sig \<in> families
     \<or> list_ex (\<lambda>kw. ''keyword:'' @ kw \<in> families) (get_or [] SIGNAL_FAMILY_COVERAGE (signal_family sig))"

definition uncovered_signals :: "string list \<Rightarrow> string set \<Rightarrow> string list" where
  "uncovered_signals signals coverage = filter (\<lambda>sig. \<not> covers (signal_family ` coverage) sig) signals"

subsection \<open>Matching\<close>

definition at_boundary :: "bool \<Rightarrow> string \<Rightarrow> bool" where
  "at_boundary prev s \<longleftrightarrow> prev \<noteq> (s \<noteq> [] \<and> is_word (hd s))"

text \<open>\<open>\bkw\b\<close> at the start of \<open>s\<close>, the character before it being a word character or not.\<close>

definition keyword_at :: "bool \<Rightarrow> string \<Rightarrow> string \<Rightarrow> bool" where
  "keyword_at prev kw s \<longleftrightarrow> starts_with kw s \<and> at_boundary prev s
     \<and> at_boundary (if kw = [] then prev else is_word (last kw)) (drop (length kw) s)"

fun keyword_search :: "bool \<Rightarrow> string \<Rightarrow> string \<Rightarrow> bool" where
  "keyword_search prev kw [] = keyword_at prev kw []"
| "keyword_search prev kw (c # s) = (keyword_at prev kw (c # s) \<or> keyword_search (is_word c) kw s)"

text \<open>
  \<open>fnmatch.fnmatch\<close> on a POSIX system (no case folding): \<open>*\<close>, \<open>?\<close> and bracket expressions. A
  bracket without its end is a literal.
\<close>

fun class_items :: "string \<Rightarrow> (char \<times> char) list" where
  "class_items (c # d # e # s) = (if d = CHR ''-'' then (c, e) # class_items s else (c, c) # class_items (d # e # s))"
| "class_items (c # s) = (c, c) # class_items s"
| "class_items [] = []"

definition in_class :: "string \<Rightarrow> char \<Rightarrow> bool" where
  "in_class body c =
     (let items = (\<lambda>s. list_ex (\<lambda>(lo, hi). lo \<le> c \<and> c \<le> hi) (class_items s))
      in case body of CHR ''!'' # rest \<Rightarrow> \<not> items rest | _ \<Rightarrow> items body)"

text \<open>The body of a bracket expression and what follows its closing bracket.\<close>

definition bracket_skip :: "string \<Rightarrow> nat" where
  "bracket_skip p =
     (let j = (if p \<noteq> [] \<and> hd p = CHR ''!'' then 1 else 0)
      in if drop j p \<noteq> [] \<and> hd (drop j p) = CHR '']'' then j + 1 else j)"

definition bracket :: "string \<Rightarrow> (string \<times> string) option" where
  "bracket p =
     (let j = bracket_skip p; body = take j p @ takeWhile (\<lambda>c. c \<noteq> CHR '']'') (drop j p);
          rest = drop (length body) p
      in if rest = [] then None else Some (body, tl rest))"

lemma bracket_shorter: "bracket p = Some (body, rest) \<Longrightarrow> length rest < length p"
  by (cases "drop (length (take (bracket_skip p) p @ takeWhile (\<lambda>c. c \<noteq> CHR '']'') (drop (bracket_skip p) p))) p")
    (auto simp: bracket_def Let_def dest: arg_cong[where f = length] split: if_splits)

function fnmatch :: "string \<Rightarrow> string \<Rightarrow> bool" where
  "fnmatch [] s = (s = [])"
| "fnmatch (p # ps) s =
     (if p = CHR ''*'' then fnmatch ps s \<or> (case s of [] \<Rightarrow> False | c # s' \<Rightarrow> fnmatch (p # ps) s')
      else case s of [] \<Rightarrow> False
        | c # s' \<Rightarrow>
           (if p = CHR ''?'' then fnmatch ps s'
            else if p = CHR ''['' then
              (case bracket ps of
                 None \<Rightarrow> c = CHR ''['' \<and> fnmatch ps s'
               | Some br \<Rightarrow> in_class (fst br) c \<and> fnmatch (snd br) s')
            else c = p \<and> fnmatch ps s'))"
  by pat_completeness auto
termination
  by (relation "measure (\<lambda>(p, s). length p + length s)") (auto dest!: bracket_shorter)

subsection \<open>The classifier\<close>

record classifier =
  c_keywords :: "string list"
  c_globs :: "string list"
  c_patterns :: "string list"

definition intent_classifier :: "string list \<Rightarrow> string list \<Rightarrow> string list \<Rightarrow> classifier" where
  "intent_classifier kws globs pats =
     \<lparr>c_keywords = map lower kws, c_globs = globs, c_patterns = map lower pats\<rparr>"

definition classifier_from_config :: "string list \<Rightarrow> string list \<Rightarrow> string list \<Rightarrow> classifier" where
  "classifier_from_config extra_keywords extra_globs extra_patterns =
     intent_classifier (GOVERNED_KEYWORDS @ extra_keywords) (GOVERNED_PATH_GLOBS @ extra_globs)
       (GOVERNED_COMMAND_PATTERNS @ extra_patterns)"

definition keyword_signals :: "classifier \<Rightarrow> string \<Rightarrow> string list" where
  "keyword_signals c t = [''keyword:'' @ kw. kw \<leftarrow> c_keywords c, keyword_search False kw t]"

definition command_signals :: "classifier \<Rightarrow> string \<Rightarrow> string list" where
  "command_signals c t = [''command:'' @ strip pat. pat \<leftarrow> c_patterns c, contains pat (lower t)]"

definition basename :: "string \<Rightarrow> string" where
  "basename p = rev (takeWhile (\<lambda>c. c \<noteq> CHR ''/'') (rev p))"

definition path_signal :: "classifier \<Rightarrow> string \<Rightarrow> string option" where
  "path_signal c pth =
     (let p = to_slashes pth; base = basename p
      in map_option (\<lambda>glob. ''path:'' @ glob) (find (\<lambda>glob. fnmatch glob p \<or> fnmatch glob base) (c_globs c)))"

text \<open>\<open>action_path\<close> is \<^const>\<open>None\<close> or the path; an empty path is falsy. The result is the list of
  signals; the action is governed when there is one.\<close>

definition classify :: "classifier \<Rightarrow> string \<Rightarrow> string option \<Rightarrow> string \<Rightarrow> string list" where
  "classify c intent action_path action_diff =
     (let given_path = (case action_path of None \<Rightarrow> '''' | Some p \<Rightarrow> p);
          t = (if given_path \<noteq> '''' then lower intent else lower (intent @ '' '' @ action_diff))
      in keyword_signals c t @ command_signals c action_diff
         @ (if given_path \<noteq> '''' then opt_list (path_signal c given_path) else []))"

definition is_quote :: "char \<Rightarrow> bool" where
  "is_quote c \<longleftrightarrow> c = CHR 0x27 \<or> c = CHR 0x22 \<or> c = CHR 0x60"

definition is_delim :: "char \<Rightarrow> bool" where
  "is_delim c \<longleftrightarrow> is_space c \<or> is_quote c"

text \<open>The non-empty pieces of \<open>_TOKEN_SPLIT.split\<close>.\<close>

fun tokens_aux :: "string \<Rightarrow> string \<Rightarrow> string list" where
  "tokens_aux cur [] = (if cur = [] then [] else [rev cur])"
| "tokens_aux cur (c # s) =
     (if is_delim c then (if cur = [] then [] else [rev cur]) @ tokens_aux [] s else tokens_aux (c # cur) s)"

definition tokens :: "string \<Rightarrow> string list" where
  "tokens s = tokens_aux [] s"

definition rstrip_punct :: "string \<Rightarrow> string" where
  "rstrip_punct s = rev (dropWhile (\<lambda>c. c \<in> set ''.,;:!?)'') (rev s))"

text \<open>\<open>_QUOTED_SPAN.finditer\<close>: the leftmost spans, each a non-empty text between two quotes of one kind.\<close>

function quoted_spans :: "string \<Rightarrow> string list" where
  "quoted_spans [] = []"
| "quoted_spans (c # s) =
     (let body = takeWhile (\<lambda>x. x \<noteq> c) s; rest = dropWhile (\<lambda>x. x \<noteq> c) s
      in if is_quote c \<and> body \<noteq> [] \<and> rest \<noteq> [] then body # quoted_spans (tl rest) else quoted_spans s)"
  by pat_completeness auto
termination
  by (relation "measure length") (auto simp: le_imp_less_Suc length_dropWhile_le less_Suc_eq_le diff_le_self
      intro: le_trans[OF diff_le_self length_dropWhile_le])

fun add_path_signals :: "classifier \<Rightarrow> string list \<Rightarrow> string list \<Rightarrow> string list" where
  "add_path_signals c [] signals = signals"
| "add_path_signals c (t # ts) signals =
     (case path_signal c t of
        None \<Rightarrow> add_path_signals c ts signals
      | Some s \<Rightarrow> add_path_signals c ts (if s \<in> set signals then signals else signals @ [s]))"

definition coverage :: "classifier \<Rightarrow> string \<Rightarrow> string list" where
  "coverage c intent =
     (let ts = tokens intent
      in add_path_signals c (ts @ map rstrip_punct ts @ quoted_spans intent)
           (keyword_signals c (lower intent) @ command_signals c intent))"

definition command_pattern :: "classifier \<Rightarrow> string \<Rightarrow> string option" where
  "command_pattern c signal = find (\<lambda>pat. signal = ''command:'' @ strip pat) (c_patterns c)"

subsection \<open>Lower case and word boundaries\<close>

lemma lower_char_cases: "\<forall>n < 256. of_char (lower_char (char_of (n :: nat))) = 
   (if 65 \<le> n \<and> n \<le> 90 \<or> 192 \<le> n \<and> n \<le> 214 \<or> 216 \<le> n \<and> n \<le> 222 then n + 32 else n)"
  by (auto simp: lower_char_def Let_def)

lemma of_lower_char: "of_char (lower_char c) = (let n = of_char c :: nat in
    if 65 \<le> n \<and> n \<le> 90 \<or> 192 \<le> n \<and> n \<le> 214 \<or> 216 \<le> n \<and> n \<le> 222 then n + 32 else n)"
  using lower_char_cases[rule_format, of "of_char c"] by (simp add: Let_def)

lemma is_word_lower [simp]: "is_word (lower_char c) = is_word c"
  unfolding is_word_def of_lower_char Let_def by (auto split: if_splits)

lemma lower_char_idem [simp]: "lower_char (lower_char c) = lower_char c"
proof -
  have "of_char (lower_char (lower_char c)) = (of_char (lower_char c) :: nat)"
    unfolding of_lower_char Let_def by auto
  then show ?thesis by simp
qed

lemma lower_idem [simp]: "lower (lower s) = lower s"
  by (simp add: lower_def)

lemma lower_eq_Nil [simp]: "lower s = [] \<longleftrightarrow> s = []"
  by (simp add: lower_def)

lemma keyword_searchI:
  assumes "kw \<noteq> []" and "is_word (hd kw)" and "is_word (last kw)"
    and "post = [] \<or> \<not> is_word (hd post)" and "if pre = [] then \<not> prev else \<not> is_word (last pre)"
  shows "keyword_search prev kw (pre @ kw @ post)"
  using assms(5)
proof (induction pre arbitrary: prev)
  case Nil
  have "at_boundary True post" using assms(4) by (auto simp: at_boundary_def)
  then have "keyword_at prev kw (kw @ post)"
    using Nil assms(1-3) by (simp add: keyword_at_def at_boundary_def)
  then show ?case using assms(1) by (cases kw) auto
next
  case (Cons c pre)
  then have "keyword_search (is_word c) kw (pre @ kw @ post)" by (auto split: if_splits)
  then show ?case by simp
qed

lemma contains_append: "contains p (pre @ p @ post)"
  by (simp add: contains_iff_sublist)

subsection \<open>Coverage\<close>

lemma path_signal_Nil_globs [simp]: "path_signal (c\<lparr>c_globs := []\<rparr>) p = None"
  by (simp add: path_signal_def Let_def)

lemma set_add_path_signals:
  "set (add_path_signals c ts signals) = set signals \<union> {s. \<exists>t \<in> set ts. path_signal c t = Some s}"
  by (induction c ts signals rule: add_path_signals.induct) (auto split: option.splits)

lemma set_coverage:
  "set (coverage c intent) = set (keyword_signals c (lower intent)) \<union> set (command_signals c intent)
     \<union> {s. \<exists>t \<in> set (tokens intent) \<union> rstrip_punct ` set (tokens intent) \<union> set (quoted_spans intent). path_signal c t = Some s}"
  by (simp add: coverage_def Let_def set_add_path_signals Un_assoc)

lemma quoted_span_first:
  assumes "\<forall>x \<in> set pre. \<not> is_quote x" and "is_quote q" and "q \<notin> set body" and "body \<noteq> []"
  shows "body \<in> set (quoted_spans (pre @ q # body @ q # post))"
  using assms(1)
proof (induction pre)
  case Nil
  have "takeWhile (\<lambda>x. x \<noteq> q) (body @ q # post) = body" "dropWhile (\<lambda>x. x \<noteq> q) (body @ q # post) = q # post"
    using assms(3) by (simp_all add: takeWhile_append dropWhile_append)
  then show ?case using assms(2,4) by (simp add: Let_def)
qed (simp add: Let_def)

lemma uncovered_empty: "set signals \<subseteq> cov \<Longrightarrow> uncovered_signals signals cov = []"
  by (auto simp: uncovered_signals_def covers_def filter_empty_conv)

lemma uncovered_mono: "cov \<subseteq> cov' \<Longrightarrow> set (uncovered_signals signals cov') \<subseteq> set (uncovered_signals signals cov)"
  by (auto simp: uncovered_signals_def covers_def list_ex_iff)

definition given_path :: "string option \<Rightarrow> string" where
  "given_path action_path = (case action_path of None \<Rightarrow> '''' | Some p \<Rightarrow> p)"

definition action_text :: "string \<Rightarrow> string option \<Rightarrow> string \<Rightarrow> string" where
  "action_text intent action_path action_diff =
     (if given_path action_path \<noteq> '''' then lower intent else lower (intent @ '' '' @ action_diff))"

lemma set_classify: "set (classify c intent action_path action_diff) =
   set (keyword_signals c (action_text intent action_path action_diff)) \<union> (set (command_signals c action_diff)
   \<union> (if given_path action_path \<noteq> '''' then {s. path_signal c (given_path action_path) = Some s} else {}))"
  by (simp add: classify_def Let_def given_path_def action_text_def)

subsection \<open>Extension only\<close>

lemma find_append: "find P (xs @ ys) = (case find P xs of None \<Rightarrow> find P ys | Some x \<Rightarrow> Some x)"
  by (induction xs) auto

text \<open>Configuration can only add enforcement: every signal that the shipped vocabulary finds in an
  action is found, unchanged, under every set of extra keywords, globs and command fragments, so
  no governed action becomes ungoverned.\<close>

theorem extras_only_extend:
  "set (classify (classifier_from_config [] [] []) intent action_path action_diff)
   \<subseteq> set (classify (classifier_from_config kws globs pats) intent action_path action_diff)"
proof -
  let ?c = "classifier_from_config [] [] []" and ?d = "classifier_from_config kws globs pats"
  have k: "set (keyword_signals ?c t) \<subseteq> set (keyword_signals ?d t)" for t
    by (auto simp: keyword_signals_def classifier_from_config_def intent_classifier_def)
  have m: "set (command_signals ?c t) \<subseteq> set (command_signals ?d t)" for t
    by (auto simp: command_signals_def classifier_from_config_def intent_classifier_def)
  have p: "path_signal ?c p = Some s \<Longrightarrow> path_signal ?d p = Some s" for p s
    by (auto simp: path_signal_def classifier_from_config_def intent_classifier_def Let_def find_append split: option.splits)
  have q: "{s. path_signal ?c p = Some s} \<subseteq> {s. path_signal ?d p = Some s}" for p
    using p by blast
  show ?thesis
    unfolding set_classify using k[of "action_text intent action_path action_diff"] m[of action_diff]
      q[of "given_path action_path"] by (cases "given_path action_path = ''''") (simp_all add: le_supI1 le_supI2)
qed

end
