(* ===== verification/Ledger.thy ===== *)
theory Ledger
  imports EnforcePolicy
begin

text \<open>
  The consultation ledger (\<open>ConsultationLedger\<close> in \<^verbatim>\<open>enforce_policy.py\<close>): entries per session and
  workspace, the merge of coverage signals, eviction by age, the hard cap, freshness, and the
  JSON file. Every public method holds the lock, so a history of calls is a sequence.
  A file that cannot be parsed is \<open>Corrupt\<close>; \<open>io_ok\<close> says whether a rewrite succeeds.
\<close>

datatype trigger = Explicit | PromptHook

record ledger_entry =
  consulted_at :: time
  rule_ids :: "string list"
  explicit_at :: "time option"
  explicit_signals :: "(string, time) dict"

text \<open>A row of the file; a key added by a later version may be absent.\<close>

record ledger_row =
  row_session :: string
  row_workspace :: string
  row_consulted_at :: time
  row_rule_ids :: "string list option"
  row_explicit_at :: "time option option"
  row_explicit_signals :: "(string, time) dict option"

datatype ledger_file = NoFile | Corrupt | Rows "ledger_row list"

type_synonym pair = "string \<times> string"
type_synonym entry_table = "(pair, ledger_entry) dict"

record ledger =
  has_path :: bool
  l_file :: ledger_file
  entries :: entry_table
  retention_sec :: time
  max_entries :: nat

definition enforce_cap :: "nat \<Rightarrow> entry_table \<Rightarrow> entry_table" where
  "enforce_cap cap es =
     (if length es > cap then take cap (sort_key (\<lambda>kv. - consulted_at (snd kv)) es) else es)"

definition evict :: "ledger \<Rightarrow> time \<Rightarrow> ledger" where
  "evict l now =
     (let cutoff = now - retention_sec l;
          kept = filter (\<lambda>kv. consulted_at (snd kv) \<ge> cutoff) (entries l);
          pruned = map (\<lambda>(k, e). (k, e\<lparr>explicit_signals := filter (\<lambda>st. snd st \<ge> cutoff) (explicit_signals e)\<rparr>)) kept
      in l\<lparr>entries := enforce_cap (max_entries l) pruned\<rparr>)"

definition row_of :: "pair \<times> ledger_entry \<Rightarrow> ledger_row" where
  "row_of kv = \<lparr>row_session = fst (fst kv), row_workspace = snd (fst kv), row_consulted_at = consulted_at (snd kv),
     row_rule_ids = Some (rule_ids (snd kv)), row_explicit_at = Some (explicit_at (snd kv)),
     row_explicit_signals = Some (explicit_signals (snd kv))\<rparr>"

definition entry_of_row :: "ledger_row \<Rightarrow> ledger_entry" where
  "entry_of_row r = \<lparr>consulted_at = row_consulted_at r,
     rule_ids = (case row_rule_ids r of None \<Rightarrow> [] | Some ids \<Rightarrow> ids),
     explicit_at = (case row_explicit_at r of None \<Rightarrow> Some (row_consulted_at r) | Some v \<Rightarrow> v),
     explicit_signals = (case row_explicit_signals r of None \<Rightarrow> [] | Some ss \<Rightarrow> ss)\<rparr>"

definition load_entries :: "ledger_file \<Rightarrow> entry_table" where
  "load_entries f = (case f of
     Rows rows \<Rightarrow> fold (\<lambda>r. dset (row_session r, row_workspace r) (entry_of_row r)) rows []
   | _ \<Rightarrow> [])"

definition new_ledger :: "bool \<Rightarrow> ledger_file \<Rightarrow> time \<Rightarrow> nat \<Rightarrow> ledger" where
  "new_ledger p f retention cap = \<lparr>has_path = p, l_file = f,
     entries = (if p then enforce_cap cap (load_entries f) else []), retention_sec = retention, max_entries = cap\<rparr>"

text \<open>The result says whether the call returns; a failed rewrite raises with the entries already changed.\<close>

definition save :: "bool \<Rightarrow> ledger \<Rightarrow> bool \<times> ledger" where
  "save io_ok l = (if \<not> has_path l then (True, l)
     else if io_ok then (True, l\<lparr>l_file := Rows (map row_of (entries l))\<rparr>) else (False, l))"

definition merged :: "ledger_entry option \<Rightarrow> string list \<Rightarrow> time \<Rightarrow> trigger \<Rightarrow> string list \<Rightarrow> ledger_entry" where
  "merged prior rules now trig signals =
     (let old = (case prior of None \<Rightarrow> [] | Some e \<Rightarrow> explicit_signals e)
      in \<lparr>consulted_at = now, rule_ids = rules,
          explicit_at = (if trig = Explicit then Some now else (case prior of None \<Rightarrow> None | Some e \<Rightarrow> explicit_at e)),
          explicit_signals = (if trig = Explicit then fold (\<lambda>sig. dset sig now) signals old else old)\<rparr>)"

definition record_consult ::
  "bool \<Rightarrow> pair \<Rightarrow> string list \<Rightarrow> time \<Rightarrow> trigger \<Rightarrow> string list \<Rightarrow> ledger \<Rightarrow> bool \<times> ledger" where
  "record_consult io_ok k rules now trig signals l =
     save io_ok (evict (l\<lparr>entries := dset k (merged (dget (entries l) k) rules now trig signals) (entries l)\<rparr>) now)"

definition is_fresh :: "ledger \<Rightarrow> pair \<Rightarrow> time \<Rightarrow> time \<Rightarrow> bool \<Rightarrow> bool" where
  "is_fresh l k now ttl require_explicit =
     (case dget (entries l) k of None \<Rightarrow> False
      | Some e \<Rightarrow> (case (if require_explicit then explicit_at e else Some (consulted_at e)) of
           None \<Rightarrow> False | Some ts \<Rightarrow> now - ts \<le> ttl))"

definition fresh_signals :: "ledger \<Rightarrow> pair \<Rightarrow> time \<Rightarrow> time \<Rightarrow> string set" where
  "fresh_signals l k now ttl =
     (case dget (entries l) k of None \<Rightarrow> {}
      | Some e \<Rightarrow> fst ` set (filter (\<lambda>st. now - snd st \<le> ttl) (explicit_signals e)))"

definition get_entry :: "ledger \<Rightarrow> pair \<Rightarrow> ledger_entry option" where
  "get_entry l k = dget (entries l) k"

subsection \<open>Histories\<close>

record consult =
  c_io :: bool
  c_pair :: pair
  c_rules :: "string list"
  c_now :: time
  c_trigger :: trigger
  c_signals :: "string list"

definition step :: "consult \<Rightarrow> ledger \<Rightarrow> ledger" where
  "step c l = snd (record_consult (c_io c) (c_pair c) (c_rules c) (c_now c) (c_trigger c) (c_signals c) l)"

definition run :: "consult list \<Rightarrow> ledger \<Rightarrow> ledger" where
  "run cs l = fold step cs l"

text \<open>What the ledger stands for: the signals of the explicit consults of a pair that are young enough.\<close>

definition explicit_fresh :: "consult list \<Rightarrow> pair \<Rightarrow> time \<Rightarrow> time \<Rightarrow> string set" where
  "explicit_fresh cs k now ttl =
     {sig. \<exists>c \<in> set cs. c_pair c = k \<and> c_trigger c = Explicit \<and> sig \<in> set (c_signals c) \<and> now - c_now c \<le> ttl}"

lemma entries_step: "entries (step c l) = entries (evict (l\<lparr>entries := dset (c_pair c)
   (merged (dget (entries l) (c_pair c)) (c_rules c) (c_now c) (c_trigger c) (c_signals c)) (entries l)\<rparr>) (c_now c))"
  and limits_step [simp]: "retention_sec (step c l) = retention_sec l" "max_entries (step c l) = max_entries l"
  by (simp_all add: step_def record_consult_def save_def evict_def Let_def)

lemma dget_filter_distinct:
  "distinct (map fst d) \<Longrightarrow> dget (filter P d) k = (case dget d k of None \<Rightarrow> None | Some v \<Rightarrow> if P (k, v) then Some v else None)"
  by (induction d) (auto split: option.splits simp: map_of_eq_None_iff image_iff)

lemma dget_map_value: "dget (map (\<lambda>(k, v). (k, f v)) d) k = map_option f (dget d k)"
  by (induction d) auto

lemma distinct_keys_dset: "distinct (map fst d) \<Longrightarrow> distinct (map fst (dset k v d))"
  by (rule distinct_update)

lemma enforce_cap_sub:
  assumes "distinct (map fst es)"
  shows "dget (enforce_cap cap es) k = Some e \<Longrightarrow> dget es k = Some e"
    and "distinct (map fst (enforce_cap cap es))"
proof -
  let ?s = "sort_key (\<lambda>kv. - consulted_at (snd kv)) es"
  have d: "distinct (map fst ?s)" using assms by (simp add: distinct_map)
  show "distinct (map fst (enforce_cap cap es))"
    using d assms by (auto simp: enforce_cap_def take_map [symmetric] distinct_take)
  assume "dget (enforce_cap cap es) k = Some e"
  then have "(k, e) \<in> set es"
    by (auto simp: enforce_cap_def dest!: map_of_SomeD in_set_takeD split: if_splits)
  then show "dget es k = Some e" using assms by simp
qed

definition prune :: "time \<Rightarrow> ledger_entry \<Rightarrow> ledger_entry" where
  "prune cutoff e = e\<lparr>explicit_signals := filter (\<lambda>st. snd st \<ge> cutoff) (explicit_signals e)\<rparr>"

lemma evict_entries: "entries (evict l now) = enforce_cap (max_entries l)
   (map (\<lambda>(k, e). (k, prune (now - retention_sec l) e))
     (filter (\<lambda>kv. consulted_at (snd kv) \<ge> now - retention_sec l) (entries l)))"
  by (simp add: evict_def Let_def prune_def)

definition wf_entries :: "entry_table \<Rightarrow> bool" where
  "wf_entries es \<longleftrightarrow> distinct (map fst es) \<and> (\<forall>(k, e) \<in> set es. distinct (map fst (explicit_signals e)))"

lemma distinct_fold_dset: "distinct (map fst d) \<Longrightarrow> distinct (map fst (fold (\<lambda>sig. dset sig v) ss d))"
  by (induction ss arbitrary: d) (auto simp: distinct_keys_dset)

lemma dget_fold_dset: "dget (fold (\<lambda>sig. dset sig v) ss d) j = (if j \<in> set ss then Some v else dget d j)"
  by (induction ss arbitrary: d) auto

text \<open>The contract of a pruned table: keys stay distinct, and what is found was there before.\<close>

lemma keys_pruned: "map fst (map (\<lambda>(k, e). (k, f e)) es) = map fst es"
  by (induction es) auto

lemma evict_wf:
  assumes "wf_entries (entries l)" shows "wf_entries (entries (evict l now))"
proof -
  let ?p = "map (\<lambda>(k, e). (k, prune (now - retention_sec l) e))
     (filter (\<lambda>kv. consulted_at (snd kv) \<ge> now - retention_sec l) (entries l))"
  have d: "distinct (map fst ?p)" unfolding keys_pruned
    using assms by (auto simp: wf_entries_def distinct_map_filter)
  have s: "\<forall>(k, e) \<in> set ?p. distinct (map fst (explicit_signals e))"
    using assms by (auto simp: wf_entries_def prune_def distinct_map_filter)
  have "set (enforce_cap (max_entries l) ?p) \<subseteq> set ?p"
    by (auto simp: enforce_cap_def dest: in_set_takeD)
  then show ?thesis using enforce_cap_sub(2)[OF d] s unfolding wf_entries_def evict_entries by blast
qed

lemma merged_wf: "wf_entries es \<Longrightarrow> distinct (map fst (explicit_signals (merged (dget es k) rules now trig signals)))"
  by (cases "dget es k") (auto simp: merged_def Let_def distinct_fold_dset wf_entries_def dest: map_of_SomeD)

lemma set_dset: "set (dset k v d) \<subseteq> insert (k, v) (set d)"
  by (induction d) auto

lemma wf_step: "wf_entries (entries l) \<Longrightarrow> wf_entries (entries (step c l))"
  unfolding entries_step
proof (rule evict_wf)
  assume w: "wf_entries (entries l)"
  let ?m = "merged (dget (entries l) (c_pair c)) (c_rules c) (c_now c) (c_trigger c) (c_signals c)"
  have "\<forall>(k, e) \<in> set (dset (c_pair c) ?m (entries l)). distinct (map fst (explicit_signals e))"
    using set_dset[of "c_pair c" ?m "entries l"] merged_wf[OF w] w unfolding wf_entries_def by blast
  then show "wf_entries (entries (l\<lparr>entries := dset (c_pair c) ?m (entries l)\<rparr>))"
    using w by (simp add: wf_entries_def distinct_keys_dset)
qed

subsection \<open>The ledger refines the history of explicit consults\<close>

definition backed :: "consult list \<Rightarrow> entry_table \<Rightarrow> bool" where
  "backed cs es \<longleftrightarrow> (\<forall>k e sig t. dget es k = Some e \<longrightarrow> (sig, t) \<in> set (explicit_signals e) \<longrightarrow>
     (\<exists>c \<in> set cs. c_pair c = k \<and> c_trigger c = Explicit \<and> sig \<in> set (c_signals c) \<and> c_now c = t))"

lemma backedD: "backed cs es \<Longrightarrow> dget es k = Some e \<Longrightarrow> (sig, t) \<in> set (explicit_signals e) \<Longrightarrow>
   \<exists>c \<in> set cs. c_pair c = k \<and> c_trigger c = Explicit \<and> sig \<in> set (c_signals c) \<and> c_now c = t"
  unfolding backed_def by blast

lemma dget_pruned: "distinct (map fst es) \<Longrightarrow>
   dget (map (\<lambda>(k, e). (k, prune cutoff e)) (filter (\<lambda>kv. consulted_at (snd kv) \<ge> cutoff) es)) k =
   (case dget es k of None \<Rightarrow> None | Some e \<Rightarrow> if consulted_at e \<ge> cutoff then Some (prune cutoff e) else None)"
  by (simp add: dget_map_value dget_filter_distinct split: option.splits)

lemma evict_sub:
  assumes "distinct (map fst (entries l))" and "dget (entries (evict l now)) k = Some e"
  shows "\<exists>e0. dget (entries l) k = Some e0 \<and> e = prune (now - retention_sec l) e0"
proof -
  let ?p = "map (\<lambda>(k, e). (k, prune (now - retention_sec l) e))
     (filter (\<lambda>kv. consulted_at (snd kv) \<ge> now - retention_sec l) (entries l))"
  have d: "distinct (map fst ?p)" unfolding keys_pruned
    using assms(1) by (auto simp: distinct_map_filter)
  have "dget ?p k = Some e"
    by (rule enforce_cap_sub(1)[OF d]) (use assms(2) in \<open>simp add: evict_entries\<close>)
  then show ?thesis by (auto simp: dget_pruned[OF assms(1)] split: option.splits if_splits)
qed

lemma set_fold_dset: "set (fold (\<lambda>sig. dset sig v) ss d) \<subseteq> set d \<union> (\<lambda>s. (s, v)) ` set ss"
proof (induction ss arbitrary: d)
  case (Cons s ss)
  show ?case using Cons[of "dset s v d"] set_dset[of s v d] by auto
qed simp

lemma backed_step:
  assumes "wf_entries (entries l)" and "backed cs (entries l)"
  shows "backed (cs @ [c]) (entries (step c l))"
  unfolding backed_def
proof (intro allI impI)
  fix k e sig t
  let ?m = "merged (dget (entries l) (c_pair c)) (c_rules c) (c_now c) (c_trigger c) (c_signals c)"
  assume e: "dget (entries (step c l)) k = Some e" and st: "(sig, t) \<in> set (explicit_signals e)"
  have "distinct (map fst (dset (c_pair c) ?m (entries l)))"
    using assms(1) by (simp add: wf_entries_def distinct_keys_dset)
  then obtain e0 where e0: "dget (dset (c_pair c) ?m (entries l)) k = Some e0" "e = prune (c_now c - retention_sec l) e0"
    using evict_sub[of "l\<lparr>entries := dset (c_pair c) ?m (entries l)\<rparr>" "c_now c" k e] e by (auto simp: entries_step)
  have st0: "(sig, t) \<in> set (explicit_signals e0)" using st e0(2) by (auto simp: prune_def)
  show "\<exists>c' \<in> set (cs @ [c]). c_pair c' = k \<and> c_trigger c' = Explicit \<and> sig \<in> set (c_signals c') \<and> c_now c' = t"
  proof (cases "k = c_pair c")
    case False
    then have "dget (entries l) k = Some e0" using e0(1) by simp
    then show ?thesis using backedD[OF assms(2) _ st0] by auto
  next
    case True
    then have em: "e0 = ?m" using e0(1) by simp
    show ?thesis
    proof (cases "dget (entries l) (c_pair c)")
      case None
      then have "(sig, t) \<in> set (fold (\<lambda>s. dset s (c_now c)) (c_signals c) []) \<and> c_trigger c = Explicit"
        using st0 em by (auto simp: merged_def split: if_splits)
      then show ?thesis using set_fold_dset[of "c_now c" "c_signals c" "[]"] True by auto
    next
      case (Some old)
      have "(sig, t) \<in> set (explicit_signals old) \<or> c_trigger c = Explicit \<and> sig \<in> set (c_signals c) \<and> t = c_now c"
        using st0 em Some set_fold_dset[of "c_now c" "c_signals c" "explicit_signals old"]
        by (auto simp: merged_def split: if_splits)
      then show ?thesis using backedD[OF assms(2) Some] True by auto
    qed
  qed
qed

lemma run_append [simp]: "run (cs @ ds) l = run ds (run cs l)"
  by (simp add: run_def)

lemma run_wf: "wf_entries (entries l) \<Longrightarrow> wf_entries (entries (run cs l))"
  unfolding run_def by (rule fold_invariant[where I = "\<lambda>l. wf_entries (entries l)"]) (auto intro: wf_step)

lemma run_limits [simp]: "retention_sec (run cs l) = retention_sec l" "max_entries (run cs l) = max_entries l"
  unfolding run_def by (rule fold_invariant[where I = "\<lambda>x. retention_sec x = retention_sec l"]; simp)
    (rule fold_invariant[where I = "\<lambda>x. max_entries x = max_entries l"]; simp)

definition empty_ledger :: "bool \<Rightarrow> time \<Rightarrow> nat \<Rightarrow> ledger" where
  "empty_ledger p retention cap = new_ledger p NoFile retention cap"

lemma entries_empty [simp]: "entries (empty_ledger p r c) = []" "retention_sec (empty_ledger p r c) = r"
  "max_entries (empty_ledger p r c) = c"
  by (simp_all add: empty_ledger_def new_ledger_def load_entries_def enforce_cap_def)

lemma run_backed: "backed cs (entries (run cs (empty_ledger p r cap)))"
proof (induction cs rule: rev_induct)
  case Nil
  then show ?case by (simp add: run_def backed_def)
next
  case (snoc c cs)
  have "wf_entries (entries (run cs (empty_ledger p r cap)))" by (rule run_wf) (simp add: wf_entries_def)
  then show ?case using backed_step[OF _ snoc] by (simp add: run_def)
qed

lemma fresh_signals_backed: "fresh_signals (run cs (empty_ledger p r cap)) k now ttl \<subseteq> explicit_fresh cs k now ttl"
proof
  fix sig assume "sig \<in> fresh_signals (run cs (empty_ledger p r cap)) k now ttl"
  then obtain e t where e: "dget (entries (run cs (empty_ledger p r cap))) k = Some e"
    "(sig, t) \<in> set (explicit_signals e)" "now - t \<le> ttl"
    by (auto simp: fresh_signals_def split: option.splits)
  then obtain c where "c \<in> set cs" "c_pair c = k" "c_trigger c = Explicit" "sig \<in> set (c_signals c)" "c_now c = t"
    using backedD[OF run_backed] by blast
  then show "sig \<in> explicit_fresh cs k now ttl" using e(3) by (auto simp: explicit_fresh_def)
qed

definition holds_recent :: "consult list \<Rightarrow> entry_table \<Rightarrow> time \<Rightarrow> bool" where
  "holds_recent cs es cutoff \<longleftrightarrow> (\<forall>c \<in> set cs. c_trigger c = Explicit \<longrightarrow> c_now c \<ge> cutoff \<longrightarrow>
     (\<forall>sig \<in> set (c_signals c). \<exists>e t. dget es (c_pair c) = Some e \<and> consulted_at e \<ge> c_now c
        \<and> dget (explicit_signals e) sig = Some t \<and> t \<ge> c_now c))"

lemma holds_recent_mono: "holds_recent cs es cutoff \<Longrightarrow> cutoff \<le> cutoff' \<Longrightarrow> holds_recent cs es cutoff'"
  by (meson holds_recent_def order_trans)

lemma evict_keeps:
  assumes w: "wf_entries (entries l)" and "length (entries l) \<le> max_entries l"
    and "dget (entries l) k = Some e" and "consulted_at e \<ge> now - retention_sec l"
  shows "dget (entries (evict l now)) k = Some (prune (now - retention_sec l) e)"
proof -
  have "distinct (map fst (entries l))" using w by (simp add: wf_entries_def)
  moreover have "length (filter (\<lambda>kv. consulted_at (snd kv) \<ge> now - retention_sec l) (entries l)) \<le> max_entries l"
    using assms(2) le_trans length_filter_le by blast
  ultimately show ?thesis using assms(3,4) by (simp add: evict_entries enforce_cap_def dget_pruned)
qed

lemma evict_keys: "fst ` set (entries (evict l now)) \<subseteq> fst ` set (entries l)"
proof -
  let ?k = "filter (\<lambda>kv. consulted_at (snd kv) \<ge> now - retention_sec l) (entries l)"
  let ?p = "map (\<lambda>(k, e). (k, prune (now - retention_sec l) e)) ?k"
  have "set (enforce_cap (max_entries l) ?p) \<subseteq> set ?p"
    by (auto simp: enforce_cap_def dest: in_set_takeD)
  moreover have "fst ` set ?p = fst ` set ?k"
    by (metis keys_pruned list.set_map)
  moreover have "fst ` set ?k \<subseteq> fst ` set (entries l)" by (intro image_mono) simp
  ultimately show ?thesis unfolding evict_entries by blast
qed

lemma length_keys: "distinct (map fst d) \<Longrightarrow> length d = card (fst ` set d)"
  by (metis distinct_card length_map list.set_map)

lemma keys_step: "fst ` set (entries (step c l)) \<subseteq> insert (c_pair c) (fst ` set (entries l))"
  using evict_keys[of "l\<lparr>entries := dset (c_pair c)
   (merged (dget (entries l) (c_pair c)) (c_rules c) (c_now c) (c_trigger c) (c_signals c)) (entries l)\<rparr>" "c_now c"]
  by (simp add: entries_step dom_update)

lemma keys_run: "fst ` set (entries (run cs (empty_ledger p r cap))) \<subseteq> c_pair ` set cs"
proof (induction cs rule: rev_induct)
  case (snoc c cs)
  have "run (cs @ [c]) (empty_ledger p r cap) = step c (run cs (empty_ledger p r cap))" by (simp add: run_def)
  then show ?case using snoc keys_step[of c "run cs (empty_ledger p r cap)"] by (simp only: set_append list.set) blast
qed (simp add: run_def)

lemma holds_recent_step:
  assumes w: "wf_entries (entries l)"
    and h: "holds_recent cs (entries l) (prev - retention_sec l)" and "prev \<le> c_now c" and "0 \<le> retention_sec l"
    and times: "\<forall>d \<in> set cs. c_now d \<le> c_now c"
    and cap: "card (insert (c_pair c) (fst ` set (entries l))) \<le> max_entries l"
  shows "holds_recent (cs @ [c]) (entries (step c l)) (c_now c - retention_sec l)"
proof -
  let ?m = "merged (dget (entries l) (c_pair c)) (c_rules c) (c_now c) (c_trigger c) (c_signals c)"
  let ?l = "l\<lparr>entries := dset (c_pair c) ?m (entries l)\<rparr>"
  let ?cut = "c_now c - retention_sec l"
  have d: "distinct (map fst (entries ?l))" using w by (simp add: wf_entries_def distinct_keys_dset)
  have "\<forall>(k, e) \<in> set (dset (c_pair c) ?m (entries l)). distinct (map fst (explicit_signals e))"
    using set_dset[of "c_pair c" ?m "entries l"] merged_wf[OF w] w unfolding wf_entries_def by blast
  with d have wl: "wf_entries (entries ?l)" by (simp add: wf_entries_def)
  have len: "length (entries ?l) \<le> max_entries ?l"
    using cap length_keys[OF d] by (simp add: dom_update)
  have keep: "dget (entries (step c l)) k = Some (prune ?cut e)" if "dget (entries ?l) k = Some e" "consulted_at e \<ge> ?cut" for k e
    using evict_keeps[OF wl len, of k e "c_now c"] that by (simp add: entries_step)
  have sig: "dget (explicit_signals (prune ?cut e)) s = Some t"
    if "dget (entries ?l) k = Some e" "dget (explicit_signals e) s = Some t" "t \<ge> ?cut" for k e s t
  proof -
    have "distinct (map fst (explicit_signals e))"
      using wl map_of_SomeD[OF that(1)] by (auto simp: wf_entries_def)
    then show ?thesis using that(2,3) by (simp add: prune_def dget_filter_distinct)
  qed
  show ?thesis
    unfolding holds_recent_def
  proof (intro ballI impI)
    fix d s assume d: "d \<in> set (cs @ [c])" "c_trigger d = Explicit" "c_now d \<ge> ?cut" and s: "s \<in> set (c_signals d)"
    have "\<exists>e t. dget (entries ?l) (c_pair d) = Some e \<and> consulted_at e \<ge> c_now d \<and> dget (explicit_signals e) s = Some t \<and> t \<ge> c_now d"
    proof (cases "d = c")
      case True
      then show ?thesis using d(2) s by (simp add: merged_def Let_def dget_fold_dset)
    next
      case False
      then have dc: "d \<in> set cs" using d(1) by simp
      moreover have "c_now d \<ge> prev - retention_sec l" using d(3) assms(3) by linarith
      ultimately obtain e t where e: "dget (entries l) (c_pair d) = Some e" "consulted_at e \<ge> c_now d"
        "dget (explicit_signals e) s = Some t" "t \<ge> c_now d"
        using h d(2) s unfolding holds_recent_def by blast
      show ?thesis
      proof (cases "c_pair d = c_pair c")
        case True
        then show ?thesis using e times dc by (auto simp: merged_def Let_def dget_fold_dset)
      qed (use e in auto)
    qed
    then obtain e t where e: "dget (entries ?l) (c_pair d) = Some e" "consulted_at e \<ge> c_now d"
      "dget (explicit_signals e) s = Some t" "t \<ge> c_now d" by blast
    have "consulted_at e \<ge> ?cut" "t \<ge> ?cut" using e d(3) by linarith+
    then have "dget (entries (step c l)) (c_pair d) = Some (prune ?cut e)" "dget (explicit_signals (prune ?cut e)) s = Some t"
      using keep[OF e(1)] sig[OF e(1,3)] by auto
    then show "\<exists>e t. dget (entries (step c l)) (c_pair d) = Some e \<and> consulted_at e \<ge> c_now d
        \<and> dget (explicit_signals e) s = Some t \<and> t \<ge> c_now d"
      using e(2,4) by (auto simp: prune_def)
  qed
qed

definition times_ordered :: "consult list \<Rightarrow> bool" where
  "times_ordered cs \<longleftrightarrow> sorted (map c_now cs)"

lemma run_holds_recent:
  assumes "times_ordered cs" and "0 \<le> r" and "card (c_pair ` set cs) \<le> cap" and "cs \<noteq> [] \<longrightarrow> c_now (last cs) \<le> now"
  shows "holds_recent cs (entries (run cs (empty_ledger p r cap))) (now - r)"
  using assms
proof (induction cs arbitrary: now rule: rev_induct)
  case Nil
  then show ?case by (simp add: holds_recent_def)
next
  case (snoc c cs)
  let ?l = "run cs (empty_ledger p r cap)"
  have t: "times_ordered cs" "\<forall>d \<in> set cs. c_now d \<le> c_now c"
    using snoc.prems(1) by (auto simp: times_ordered_def sorted_append)
  have cc: "card (c_pair ` set cs) \<le> cap"
    using snoc.prems(3) card_insert_le[of "c_pair ` set cs" "c_pair c"] by simp
  have "holds_recent cs (entries ?l) (c_now c - retention_sec ?l)"
    using snoc.IH[OF t(1) snoc.prems(2) cc, of "c_now c"] t(2) by simp
  moreover have "card (insert (c_pair c) (fst ` set (entries ?l))) \<le> max_entries ?l"
  proof -
    have "insert (c_pair c) (fst ` set (entries ?l)) \<subseteq> c_pair ` set (cs @ [c])"
      using keys_run[of cs p r cap] by auto
    then have "card (insert (c_pair c) (fst ` set (entries ?l))) \<le> card (c_pair ` set (cs @ [c]))"
      by (rule card_mono[rotated]) simp
    then show ?thesis using snoc.prems(3) by simp
  qed
  moreover have "wf_entries (entries ?l)" by (rule run_wf) (simp add: wf_entries_def)
  ultimately have "holds_recent (cs @ [c]) (entries (step c ?l)) (c_now c - retention_sec ?l)"
    using holds_recent_step[of ?l cs "c_now c" c] snoc.prems(2) t(2) by simp
  moreover have "run (cs @ [c]) (empty_ledger p r cap) = step c ?l" by (simp add: run_def)
  moreover have "c_now c - retention_sec ?l \<le> now - r" using snoc.prems(4) by simp
  ultimately show ?case using holds_recent_mono by metis
qed

text \<open>C19. The ledger refines the history: the signals it calls fresh for a session and workspace come
  from explicit consults of that pair within the time to live, and, when clock readings do not
  go back, the retention is at least the time to live and the pairs fit the cap, they are all of
  them. Eviction, merging and prompt-hook consults in between change nothing.\<close>

theorem fresh_signals_refine_history:
  "fresh_signals (run cs (empty_ledger p r cap)) k now ttl \<subseteq> explicit_fresh cs k now ttl \<and>
   (times_ordered cs \<and> (cs \<noteq> [] \<longrightarrow> c_now (last cs) \<le> now) \<and> 0 \<le> r \<and> ttl \<le> r \<and> card (c_pair ` set cs) \<le> cap \<longrightarrow>
    fresh_signals (run cs (empty_ledger p r cap)) k now ttl = explicit_fresh cs k now ttl)"
proof (intro conjI impI; (elim conjE)?)
  show sub: "fresh_signals (run cs (empty_ledger p r cap)) k now ttl \<subseteq> explicit_fresh cs k now ttl"
    by (rule fresh_signals_backed)
  assume a: "times_ordered cs" "cs \<noteq> [] \<longrightarrow> c_now (last cs) \<le> now" "0 \<le> r" "ttl \<le> r" "card (c_pair ` set cs) \<le> cap"
  have h: "holds_recent cs (entries (run cs (empty_ledger p r cap))) (now - r)"
    using run_holds_recent[OF a(1,3,5,2)] .
  have "explicit_fresh cs k now ttl \<subseteq> fresh_signals (run cs (empty_ledger p r cap)) k now ttl"
  proof
    fix s assume "s \<in> explicit_fresh cs k now ttl"
    then obtain c where c: "c \<in> set cs" "c_pair c = k" "c_trigger c = Explicit" "s \<in> set (c_signals c)" "now - c_now c \<le> ttl"
      by (auto simp: explicit_fresh_def)
    then have "c_now c \<ge> now - r" using a(4) by linarith
    then obtain e t where e: "dget (entries (run cs (empty_ledger p r cap))) k = Some e"
      "dget (explicit_signals e) s = Some t" "t \<ge> c_now c"
      using h c unfolding holds_recent_def by blast
    then have "(s, t) \<in> set (explicit_signals e)" "now - t \<le> ttl" using c(5) by (auto dest: map_of_SomeD)
    then show "s \<in> fresh_signals (run cs (empty_ledger p r cap)) k now ttl"
      using e(1) by (force simp: fresh_signals_def)
  qed
  with sub show "fresh_signals (run cs (empty_ledger p r cap)) k now ttl = explicit_fresh cs k now ttl" by blast
qed

definition ex_consult :: "trigger \<Rightarrow> time \<Rightarrow> consult" where
  "ex_consult trig t = \<lparr>c_io = True, c_pair = (''s'', ''w''), c_rules = [], c_now = t, c_trigger = trig,
     c_signals = [''keyword:auth'']\<rparr>"

theorem fresh_signals_refine_history_witness:
  "fresh_signals (run [ex_consult Explicit 10, ex_consult PromptHook 50] (empty_ledger True 60 5)) (''s'', ''w'') 65 60
     = {''keyword:auth''}
   \<and> fresh_signals (run [ex_consult PromptHook 50] (empty_ledger True 60 5)) (''s'', ''w'') 65 60 = {}"
proof -
  have "fresh_signals (run [ex_consult Explicit 10, ex_consult PromptHook 50] (empty_ledger True 60 5)) (''s'', ''w'') 65 60
      = explicit_fresh [ex_consult Explicit 10, ex_consult PromptHook 50] (''s'', ''w'') 65 60"
    using fresh_signals_refine_history[of "[ex_consult Explicit 10, ex_consult PromptHook 50]" True 60 5 "(''s'', ''w'')" 65 60]
    by (simp add: times_ordered_def ex_consult_def)
  moreover have "fresh_signals (run [ex_consult PromptHook 50] (empty_ledger True 60 5)) (''s'', ''w'') 65 60
      \<subseteq> explicit_fresh [ex_consult PromptHook 50] (''s'', ''w'') 65 60"
    using fresh_signals_refine_history[of "[ex_consult PromptHook 50]" True 60 5 "(''s'', ''w'')" 65 60] by blast
  ultimately show ?thesis by (auto simp: explicit_fresh_def ex_consult_def)
qed

subsection \<open>The file\<close>

lemma load_saved: "distinct (map fst es) \<Longrightarrow> load_entries (Rows (map row_of es)) = es"
proof (induction es rule: rev_induct)
  case (snoc kv es)
  obtain k e where kv: "kv = (k, e)" by fastforce
  have "entry_of_row (row_of (k, e)) = e" by (simp add: entry_of_row_def row_of_def)
  moreover have "dset k e es = es @ [(k, e)]" if "k \<notin> fst ` set es" using that by (induction es) auto
  ultimately show ?case using snoc kv by (simp add: load_entries_def row_of_def)
qed (simp add: load_entries_def)

text \<open>A restart loses nothing: after any history in which the last rewrite succeeded, a ledger
  constructed on the file holds the same entries, in the same order.\<close>

theorem restart_keeps_entries:
  assumes "cs \<noteq> []" and "c_io (last cs)"
  shows "entries (new_ledger True (l_file (run cs (empty_ledger True r cap))) r cap) = entries (run cs (empty_ledger True r cap))"
proof -
  obtain ds c where cs: "cs = ds @ [c]" "c_io c" using assms by (metis append_butlast_last_id)
  let ?l = "run ds (empty_ledger True r cap)"
  have w: "wf_entries (entries ?l)" by (rule run_wf) (simp add: wf_entries_def)
  have p: "has_path (run ds (empty_ledger True r cap))" for ds
    unfolding run_def by (rule fold_invariant[where I = has_path])
      (auto simp: step_def record_consult_def save_def evict_def Let_def empty_ledger_def new_ledger_def)
  have s: "run cs (empty_ledger True r cap) = step c ?l" using cs by (simp add: run_def)
  have "l_file (step c ?l) = Rows (map row_of (entries (step c ?l)))"
    using p[of ds] cs(2) by (simp add: step_def record_consult_def save_def evict_def Let_def)
  moreover have "distinct (map fst (entries (step c ?l)))" using wf_step[OF w] by (simp add: wf_entries_def)
  moreover have "length (entries (step c ?l)) \<le> cap"
    by (simp add: entries_step evict_entries enforce_cap_def)
  ultimately show ?thesis by (simp add: s new_ledger_def load_saved enforce_cap_def)
qed

theorem restart_keeps_entries_witness:
  "entries (new_ledger True (l_file (run [ex_consult Explicit 10] (empty_ledger True 60 5))) 60 5)
     = entries (run [ex_consult Explicit 10] (empty_ledger True 60 5))"
  by (rule restart_keeps_entries) (simp_all add: ex_consult_def)

subsection \<open>One explicit consult\<close>

lemma wf_recorded:
  assumes "wf_entries (entries l)"
  shows "wf_entries (dset k (merged (dget (entries l) k) rules now trig signals) (entries l))"
proof -
  let ?m = "merged (dget (entries l) k) rules now trig signals"
  have "\<forall>(k, e) \<in> set (dset k ?m (entries l)). distinct (map fst (explicit_signals e))"
    using set_dset[of k ?m "entries l"] merged_wf[OF assms] assms unfolding wf_entries_def by blast
  then show ?thesis using assms by (simp add: wf_entries_def distinct_keys_dset)
qed

lemma length_dset: "length (dset k v d) \<le> Suc (length d)"
  by (induction d) auto

lemma fresh_signals_recorded:
  assumes w: "wf_entries (entries l)" and len: "length (entries l) < max_entries l" and r: "0 \<le> retention_sec l"
    and t: "ttl \<le> retention_sec l" "now \<le> later" "later - now \<le> ttl"
  shows "fresh_signals l k later ttl \<union> set signals
    \<subseteq> fresh_signals (snd (record_consult io k rules now Explicit signals l)) k later ttl"
proof -
  let ?m = "merged (dget (entries l) k) rules now Explicit signals"
  let ?l = "l\<lparr>entries := dset k ?m (entries l)\<rparr>"
  let ?cut = "now - retention_sec l"
  have wl: "wf_entries (entries ?l)" using wf_recorded[OF w] by simp
  have "length (entries ?l) \<le> max_entries ?l" using length_dset[of k ?m "entries l"] len by simp
  moreover have m: "dget (entries ?l) k = Some ?m" "consulted_at ?m = now" by (simp_all add: merged_def Let_def)
  ultimately have "dget (entries (evict ?l now)) k = Some (prune ?cut ?m)"
    using evict_keeps[OF wl, of k ?m now] r by simp
  then have f: "fresh_signals (snd (record_consult io k rules now Explicit signals l)) k later ttl
      = fst ` set (filter (\<lambda>st. later - snd st \<le> ttl) (filter (\<lambda>st. snd st \<ge> ?cut) (explicit_signals ?m)))"
    by (simp add: fresh_signals_def record_consult_def save_def prune_def)
  have mem: "s \<in> fresh_signals (snd (record_consult io k rules now Explicit signals l)) k later ttl"
    if "dget (explicit_signals ?m) s = Some ts" "later - ts \<le> ttl" for s ts
  proof -
    have "(s, ts) \<in> set (explicit_signals ?m)" using that(1) by (rule map_of_SomeD)
    moreover have "ts \<ge> ?cut" using that(2) t by linarith
    ultimately show ?thesis unfolding f using that(2) by force
  qed
  show ?thesis
  proof
    fix s assume s: "s \<in> fresh_signals l k later ttl \<union> set signals"
    show "s \<in> fresh_signals (snd (record_consult io k rules now Explicit signals l)) k later ttl"
    proof (cases "s \<in> set signals")
      case True
      then have "dget (explicit_signals ?m) s = Some now" by (simp add: merged_def Let_def dget_fold_dset)
      then show ?thesis using mem t(3) by blast
    next
      case False
      then obtain e ts where e: "dget (entries l) k = Some e" "(s, ts) \<in> set (explicit_signals e)" "later - ts \<le> ttl"
        using s by (auto simp: fresh_signals_def split: option.splits)
      have "distinct (map fst (explicit_signals e))"
        using w map_of_SomeD[OF e(1)] by (auto simp: wf_entries_def)
      then have "dget (explicit_signals ?m) s = Some ts"
        using e(1,2) False by (simp add: merged_def Let_def dget_fold_dset)
      then show ?thesis using mem e(3) by blast
    qed
  qed
qed

end
