(* ===== verification/Gate.thy ===== *)
theory Gate
  imports Ledger PyValue
begin

text \<open>
  The enforcement tools (\<^verbatim>\<open>tools_enforce.py\<close>): the consult, the gate check with its denial and
  the suggested intent, the compliance aggregate, and the events that clients may report.
  The audit log is the list of appended events. \<open>search\<close> is the in-force search of the index,
  a parameter: it returns the ids of the rules for an intent.
\<close>

definition MAX_CONSULT_INTENT_CHARS :: nat where
  "MAX_CONSULT_INTENT_CHARS = 4000"

datatype clearance = IntentClearance | PairClearance

datatype event =
    ConsultEvent time string string string trigger "string list" "string list"
      \<comment> \<open>ts, agent, session, workspace, trigger, signals, coverage\<close>
  | GateAllow time string string "string list" \<comment> \<open>ts, session, path or workspace, signals\<close>
  | GateBlock time string string "string list" "string list" \<comment> \<open>... and the uncovered signals\<close>
  | ClientEvent time string string string string string \<comment> \<open>ts, type, agent, session, workspace, reason\<close>

subsection \<open>The suggested intent\<close>

text \<open>The first quote character that the value does not contain, else the double quote.\<close>

definition quote_char :: "string \<Rightarrow> char" where
  "quote_char v = (case find (\<lambda>c. c \<notin> set v) [CHR 0x22, CHR 0x27, CHR 0x60] of None \<Rightarrow> CHR 0x22 | Some c \<Rightarrow> c)"

definition quote :: "string \<Rightarrow> string" where
  "quote v = quote_char v # v @ [quote_char v]"

definition partition_colon :: "string \<Rightarrow> string \<times> string" where
  "partition_colon s = (takeWhile (\<lambda>c. c \<noteq> CHR '':'') s, tl (dropWhile (\<lambda>c. c \<noteq> CHR '':'') s))"

definition suggest_part :: "classifier \<Rightarrow> string \<Rightarrow> string \<Rightarrow> string" where
  "suggest_part c pth sig =
     (case partition_colon sig of (kind, v) \<Rightarrow>
        (if kind = ''path'' \<and> pth \<noteq> '''' then ''edit '' @ quote pth
         else if kind = ''command'' then
           ''run '' @ quote (case command_pattern c sig of None \<Rightarrow> v | Some pat \<Rightarrow> if pat = '''' then v else pat)
         else v))"

definition suggest_parts :: "classifier \<Rightarrow> string \<Rightarrow> string list \<Rightarrow> string list" where
  "suggest_parts c pth uncovered = fold (\<lambda>sig ps. let p = suggest_part c pth sig in if p \<in> set ps then ps else ps @ [p]) uncovered []"

definition suggest_intent :: "classifier \<Rightarrow> string list \<Rightarrow> string option \<Rightarrow> string" where
  "suggest_intent c uncovered action_path =
     join_with ''; '' (sort_key (\<lambda>p. \<not> starts_with ''edit '' p) (suggest_parts c (given_path action_path) uncovered))"

subsection \<open>The gate\<close>

datatype verdict = Allow | ConsultRequired

datatype reason = NotGoverned | FreshConsultation | NoConsultation
  | NotCovered "string list" string \<comment> \<open>the uncovered signals and the suggested intent\<close>

record gate_response =
  g_verdict :: verdict
  g_reason :: reason
  g_session :: string
  g_workspace :: string

text \<open>\<open>audit\<close> is \<^const>\<open>None\<close> when there is no audit log.\<close>

definition append_event :: "event \<Rightarrow> event list option \<Rightarrow> event list option" where
  "append_event e audit = map_option (\<lambda>l. l @ [e]) audit"

definition gate_uncovered :: "ledger \<Rightarrow> pair \<Rightarrow> time \<Rightarrow> time \<Rightarrow> clearance \<Rightarrow> string list \<Rightarrow> string list" where
  "gate_uncovered l k now ttl cl signals =
     (if cl = PairClearance then (if is_fresh l k now ttl True then [] else signals)
      else uncovered_signals signals (fresh_signals l k now ttl))"

definition kb_gate_check ::
  "classifier \<Rightarrow> ledger \<Rightarrow> string \<Rightarrow> string \<Rightarrow> string option \<Rightarrow> string \<Rightarrow> time \<Rightarrow> time
   \<Rightarrow> clearance \<Rightarrow> event list option \<Rightarrow> gate_response \<times> event list option" where
  "kb_gate_check c l workspace session action_path action_diff now ttl cl audit =
     (let signals = classify c '''' action_path action_diff;
          target = (if given_path action_path \<noteq> '''' then given_path action_path else workspace);
          resp = (\<lambda>v r. \<lparr>g_verdict = v, g_reason = r, g_session = session, g_workspace = workspace\<rparr>)
      in if signals = [] then (resp Allow NotGoverned, audit)
         else let uncovered = gate_uncovered l (session, workspace) now ttl cl signals
              in if uncovered = [] then
                   (resp Allow FreshConsultation, append_event (GateAllow now session target signals) audit)
                 else (resp ConsultRequired
                         (if cl = PairClearance then NoConsultation
                          else NotCovered uncovered (suggest_intent c uncovered action_path)),
                       append_event (GateBlock now session target signals uncovered) audit))"

subsection \<open>The consult\<close>

text \<open>
  The trigger that a client sends is coerced: anything but \<open>prompt_hook\<close> counts as explicit. The
  open actions are those of the maintenance state, plus one item for demoted writes: \<open>demoted\<close>
  is the recap's count when there is an audit log, \<open>pending\<close> the sources of the entries of the
  live queue when there is one.
\<close>

definition coerce_trigger :: "string \<Rightarrow> trigger" where
  "coerce_trigger s = (if s = ''prompt_hook'' then PromptHook else Explicit)"

record consult_response =
  cr_governed :: bool
  cr_rules :: "string list"
  cr_consulted_at :: time
  cr_demoted :: "nat option"

definition demoted_writes :: "nat option \<Rightarrow> string option list option \<Rightarrow> string \<Rightarrow> nat option" where
  "demoted_writes demoted pending session =
     (case demoted of None \<Rightarrow> None
      | Some n \<Rightarrow>
         (if n > 0 then
            let live = (case pending of Some es \<Rightarrow> length (filter (\<lambda>s. s = Some session) es) | None \<Rightarrow> n)
            in if live > 0 then Some live else None
          else None))"

definition kb_consult ::
  "(string \<Rightarrow> string list) \<Rightarrow> classifier \<Rightarrow> bool \<Rightarrow> string \<Rightarrow> string \<Rightarrow> string \<Rightarrow> string \<Rightarrow> time \<Rightarrow> string
   \<Rightarrow> nat option \<Rightarrow> string option list option \<Rightarrow> ledger \<times> event list option
   \<Rightarrow> consult_response option \<times> ledger \<times> event list option" where
  "kb_consult search c io_ok workspace intent0 session agent now trigger0 demoted pending st =
     (let trig = coerce_trigger trigger0;
          intent = take MAX_CONSULT_INTENT_CHARS intent0;
          signals = classify c intent None '''';
          cov = coverage c intent;
          rules = (if signals \<noteq> [] then search intent else []);
          (ok, l) = record_consult io_ok (session, workspace) rules now trig cov (fst st)
      in if \<not> ok then (None, l, snd st)
         else (Some \<lparr>cr_governed = (signals \<noteq> []), cr_rules = rules, cr_consulted_at = now,
                 cr_demoted = (if snd st = None then None else demoted_writes demoted pending session)\<rparr>,
               l, append_event (ConsultEvent now agent session workspace trig signals cov) (snd st)))"

subsection \<open>Compliance and client events\<close>

definition ENFORCE_EVENT_TYPES :: "string list" where
  "ENFORCE_EVENT_TYPES = [''consult'', ''gate_allow'', ''gate_block'', ''gate_bypass'', ''gate_degraded'']"

definition RECORDABLE_EVENT_TYPES :: "string list" where
  "RECORDABLE_EVENT_TYPES = [''gate_bypass'', ''gate_degraded'']"

type_synonym counts = "(string, nat) dict"

definition bump :: "string \<Rightarrow> counts \<Rightarrow> counts" where
  "bump k d = dset k (get_or 0 d k + 1) d"

record compliance =
  cp_counts :: counts
  cp_by_agent :: "(string, counts) dict"
  cp_skipped :: nat

text \<open>What a line contributes: nothing, a malformed line to skip, or an event type and an agent.\<close>

datatype contribution = Ignored | Skipped | Counted string string

definition contribution_of :: "pyval \<Rightarrow> contribution" where
  "contribution_of ev = (case ev of
      PyDict m \<Rightarrow>
        (case get_or (PyStr '''') m (PyStr ''event_type'') of
           PyStr et \<Rightarrow>
             (if et \<notin> set ENFORCE_EVENT_TYPES then Ignored
              else case fm_get m ''agent_identity'' of
                     PyNone \<Rightarrow> Counted et ''unknown''
                   | PyStr who \<Rightarrow> Counted et (if who = '''' then ''unknown'' else who)
                   | _ \<Rightarrow> Skipped)
         | _ \<Rightarrow> Ignored)
    | _ \<Rightarrow> Skipped)"

definition add_event :: "pyval \<Rightarrow> compliance \<Rightarrow> compliance" where
  "add_event ev s = (case contribution_of ev of
      Ignored \<Rightarrow> s
    | Skipped \<Rightarrow> s\<lparr>cp_skipped := cp_skipped s + 1\<rparr>
    | Counted et who \<Rightarrow> s\<lparr>cp_counts := bump et (cp_counts s),
        cp_by_agent := dset who (bump et (get_or [] (cp_by_agent s) who)) (cp_by_agent s)\<rparr>)"

definition kb_compliance :: "pyval list \<Rightarrow> compliance" where
  "kb_compliance evs = fold add_event evs \<lparr>cp_counts = [], cp_by_agent = [], cp_skipped = 0\<rparr>"

definition kb_record_event ::
  "string \<Rightarrow> string \<Rightarrow> string \<Rightarrow> string \<Rightarrow> string \<Rightarrow> time \<Rightarrow> event list \<Rightarrow> event list result" where
  "kb_record_event event_type workspace agent session why now audit =
     (if event_type \<notin> set RECORDABLE_EVENT_TYPES
      then Inl (ValueError ''event_type must be one of the recordable types'')
      else Inr (audit @ [ClientEvent now event_type agent session workspace why]))"

subsection \<open>The gate and the history\<close>

lemma gate_verdict:
  "g_verdict (fst (kb_gate_check c l w s p d now ttl cl audit)) = Allow \<longleftrightarrow>
   classify c '''' p d = [] \<or> gate_uncovered l (s, w) now ttl cl (classify c '''' p d) = []"
  by (simp add: kb_gate_check_def Let_def)

text \<open>C11. Under intent clearance the gate lets a governed action pass only if every one of its signals is
  covered by explicit consults that the same session made for the same workspace within the time
  to live; and when clocks do not go back, retention is at least the time to live and the pairs
  fit the cap, it lets every such action pass.\<close>

theorem gate_allows_iff_consulted:
  fixes c cs s w p d
  defines "signals \<equiv> classify c '''' p d"
  shows "(g_verdict (fst (kb_gate_check c (run cs (empty_ledger pth r cap)) w s p d now ttl IntentClearance audit)) = Allow
       \<longrightarrow> uncovered_signals signals (explicit_fresh cs (s, w) now ttl) = [])
    \<and> (times_ordered cs \<and> (cs \<noteq> [] \<longrightarrow> c_now (last cs) \<le> now) \<and> 0 \<le> r \<and> ttl \<le> r \<and> card (c_pair ` set cs) \<le> cap
       \<and> uncovered_signals signals (explicit_fresh cs (s, w) now ttl) = []
       \<longrightarrow> g_verdict (fst (kb_gate_check c (run cs (empty_ledger pth r cap)) w s p d now ttl IntentClearance audit)) = Allow)"
proof -
  have e: "uncovered_signals [] X = []" for X by (simp add: uncovered_signals_def)
  show ?thesis
    unfolding gate_verdict gate_uncovered_def signals_def
    using fresh_signals_refine_history[of cs pth r cap "(s, w)" now ttl]
      uncovered_mono[of "fresh_signals (run cs (empty_ledger pth r cap)) (s, w) now ttl" "explicit_fresh cs (s, w) now ttl" "classify c '''' p d"]
    by (auto simp: e)
qed

subsection \<open>Prompt hooks\<close>

definition explicit_backed :: "consult list \<Rightarrow> entry_table \<Rightarrow> bool" where
  "explicit_backed cs es \<longleftrightarrow> (\<forall>k e t. dget es k = Some e \<longrightarrow> explicit_at e = Some t \<longrightarrow>
     (\<exists>c \<in> set cs. c_pair c = k \<and> c_trigger c = Explicit \<and> c_now c = t))"

lemma explicit_backedD: "explicit_backed cs es \<Longrightarrow> dget es k = Some e \<Longrightarrow> explicit_at e = Some t \<Longrightarrow>
   \<exists>c \<in> set cs. c_pair c = k \<and> c_trigger c = Explicit \<and> c_now c = t"
  unfolding explicit_backed_def by blast

lemma explicit_backed_step:
  assumes "wf_entries (entries l)" and "explicit_backed cs (entries l)"
  shows "explicit_backed (cs @ [c]) (entries (step c l))"
  unfolding explicit_backed_def
proof (intro allI impI)
  fix k e t
  let ?m = "merged (dget (entries l) (c_pair c)) (c_rules c) (c_now c) (c_trigger c) (c_signals c)"
  assume e: "dget (entries (step c l)) k = Some e" and t: "explicit_at e = Some t"
  have "distinct (map fst (dset (c_pair c) ?m (entries l)))"
    using assms(1) by (simp add: wf_entries_def distinct_keys_dset)
  then obtain e0 where e0: "dget (dset (c_pair c) ?m (entries l)) k = Some e0" "e = prune (c_now c - retention_sec l) e0"
    using evict_sub[of "l\<lparr>entries := dset (c_pair c) ?m (entries l)\<rparr>" "c_now c" k e] e by (auto simp: entries_step)
  have t0: "explicit_at e0 = Some t" using t e0(2) by (simp add: prune_def)
  show "\<exists>c' \<in> set (cs @ [c]). c_pair c' = k \<and> c_trigger c' = Explicit \<and> c_now c' = t"
  proof (cases "k = c_pair c \<and> c_trigger c = Explicit")
    case True
    then show ?thesis using e0(1) t0 by (auto simp: merged_def Let_def)
  next
    case False
    then obtain e1 where "dget (entries l) k = Some e1" "explicit_at e1 = Some t"
      using e0(1) t0 by (cases "k = c_pair c"; cases "dget (entries l) (c_pair c)") (auto simp: merged_def Let_def)
    then show ?thesis using explicit_backedD[OF assms(2)] by auto
  qed
qed

lemma run_explicit_backed: "explicit_backed cs (entries (run cs (empty_ledger p r cap)))"
proof (induction cs rule: rev_induct)
  case Nil
  then show ?case by (simp add: run_def explicit_backed_def)
next
  case (snoc c cs)
  have "wf_entries (entries (run cs (empty_ledger p r cap)))" by (rule run_wf) (simp add: wf_entries_def)
  then show ?case using explicit_backed_step[OF _ snoc] by (simp add: run_def)
qed

lemma uncovered_nothing: "uncovered_signals signals {} = signals"
  by (simp add: uncovered_signals_def covers_def filter_id_conv list_ex_iff)

text \<open>C14. Prompt hooks never clear the gate: without an explicit consult of that session for that
  workspace, a governed action is refused in both clearance modes, however many prompt-hook
  consults and consults of other sessions or workspaces the history holds.\<close>

theorem prompt_hooks_never_clear:
  assumes "\<forall>c \<in> set cs. c_pair c = (s, w) \<longrightarrow> c_trigger c = PromptHook"
    and "classify cl '''' p d \<noteq> []"
  shows "g_verdict (fst (kb_gate_check cl (run cs (empty_ledger pth r cap)) w s p d now ttl mode audit)) = ConsultRequired"
proof -
  have "fresh_signals (run cs (empty_ledger pth r cap)) (s, w) now ttl = {}"
    using fresh_signals_backed[of cs pth r cap "(s, w)" now ttl] assms(1) by (fastforce simp: explicit_fresh_def)
  moreover have "\<not> is_fresh (run cs (empty_ledger pth r cap)) (s, w) now ttl True"
    using explicit_backedD[OF run_explicit_backed[of cs pth r cap], of "(s, w)"] assms(1)
    by (fastforce simp: is_fresh_def split: option.splits)
  ultimately show ?thesis
    using assms(2) by (simp add: kb_gate_check_def Let_def gate_uncovered_def uncovered_nothing)
qed

theorem gate_allows_iff_consulted_witness:
  "g_verdict (fst (kb_gate_check (classifier_from_config [] [] [])
     (run [ex_consult Explicit 10] (empty_ledger True 60 5)) ''w'' ''s'' None ''auth'' 20 60 IntentClearance None)) = Allow"
proof -
  have s: "classify (classifier_from_config [] [] []) '''' None ''auth'' = [''keyword:auth'']" by code_simp
  have f: "explicit_fresh [ex_consult Explicit 10] (''s'', ''w'') 20 60 = {''keyword:auth''}"
    by (auto simp: explicit_fresh_def ex_consult_def)
  have u: "uncovered_signals [''keyword:auth''] {''keyword:auth''} = []" by (rule uncovered_empty) simp
  have cond: "times_ordered [ex_consult Explicit 10]" "c_now (last [ex_consult Explicit 10]) \<le> 20"
    "card (c_pair ` set [ex_consult Explicit 10]) \<le> 5"
    by (simp_all add: times_ordered_def ex_consult_def)
  show ?thesis
    by (rule gate_allows_iff_consulted[THEN conjunct2, rule_format], unfold s f, intro conjI impI) (use u cond in simp_all)
qed

theorem prompt_hooks_never_clear_witness:
  "g_verdict (fst (kb_gate_check (classifier_from_config [] [] [])
     (run [ex_consult PromptHook 10, ex_consult PromptHook 19] (empty_ledger True 60 5)) ''w'' ''s'' None ''auth'' 20 60 PairClearance None))
   = ConsultRequired"
proof (rule prompt_hooks_never_clear)
  show "classify (classifier_from_config [] [] []) '''' None ''auth'' \<noteq> []" by code_simp
qed (simp add: ex_consult_def)

subsection \<open>Every denial can be cleared\<close>

definition kw_ok :: "classifier \<Rightarrow> bool" where
  "kw_ok c \<longleftrightarrow> (\<forall>kw \<in> set (c_keywords c). kw \<noteq> [] \<and> is_word (hd kw) \<and> is_word (last kw) \<and> lower kw = kw
      \<and> \<not> starts_with ''edit '' kw) \<and> (\<forall>pat \<in> set (c_patterns c). lower pat = pat)"

lemma join_with_mem:
  "kw \<in> set ps \<Longrightarrow> \<exists>pre post. join_with ''; '' ps = pre @ kw @ post
     \<and> (pre = [] \<or> last pre = CHR '' '') \<and> (post = [] \<or> hd post = CHR '';'')"
proof (induction "''; ''" ps rule: join_with.induct)
  case (2 x)
  then have "join_with ''; '' [x] = [] @ kw @ []" by simp
  then show ?case by blast
next
  case (3 x y xs)
  show ?case
  proof (cases "kw = x")
    case True
    then have "join_with ''; '' (x # y # xs) = [] @ kw @ (''; '' @ join_with ''; '' (y # xs))" by simp
    then show ?thesis by (intro exI[of _ "[]"] exI[of _ "''; '' @ join_with ''; '' (y # xs)"]) simp
  next
    case False
    then obtain pre post where "join_with ''; '' (y # xs) = pre @ kw @ post"
      "pre = [] \<or> last pre = CHR '' ''" "post = [] \<or> hd post = CHR '';''" using 3 by auto
    then have "join_with ''; '' (x # y # xs) = (x @ ''; '' @ pre) @ kw @ post \<and> last (x @ ''; '' @ pre) = CHR '' ''" by auto
    with \<open>post = [] \<or> hd post = CHR '';''\<close> show ?thesis by blast
  qed
qed simp

lemma join_with_first: "join_with sep (x # xs) = x @ (case xs of [] \<Rightarrow> [] | y # ys \<Rightarrow> sep @ join_with sep xs)"
  by (cases xs) auto

lemma set_suggest_parts: "set (suggest_parts c pth sigs) = suggest_part c pth ` set sigs"
proof -
  have "set (fold (\<lambda>sig ps. let p = suggest_part c pth sig in if p \<in> set ps then ps else ps @ [p]) sigs ps)
      = set ps \<union> suggest_part c pth ` set sigs" for ps
    by (induction sigs arbitrary: ps) (auto simp: Let_def)
  then show ?thesis by (simp add: suggest_parts_def)
qed

lemma partition_kinds:
  "partition_colon (''keyword:'' @ v) = (''keyword'', v)" "partition_colon (''command:'' @ v) = (''command'', v)"
  "partition_colon (''path:'' @ v) = (''path'', v)"
  by (simp_all add: partition_colon_def)

lemma lower_not_word: "\<not> is_word (last (lower pre)) \<longleftrightarrow> \<not> is_word (last pre)" if "pre \<noteq> []"
  using that by (simp add: lower_def last_map)

lemma keyword_covered:
  assumes "kw_ok c" and "kw \<in> set (c_keywords c)" and "kw \<in> set ps"
  shows "''keyword:'' @ kw \<in> set (keyword_signals c (lower (join_with ''; '' ps)))"
proof -
  obtain pre post where j: "join_with ''; '' ps = pre @ kw @ post"
    and b: "pre = [] \<or> last pre = CHR '' ''" "post = [] \<or> hd post = CHR '';''" using join_with_mem[OF assms(3)] by blast
  have kw: "kw \<noteq> []" "is_word (hd kw)" "is_word (last kw)" "lower kw = kw" using assms(1,2) by (auto simp: kw_ok_def)
  have n: "\<not> is_word (CHR '' '')" "\<not> is_word (CHR '';'')" by code_simp+
  have "keyword_search False kw (lower pre @ kw @ lower post)"
  proof (rule keyword_searchI[OF kw(1-3)])
    show "lower post = [] \<or> \<not> is_word (hd (lower post))" using b(2) n by (cases post) (auto simp: lower_def)
    show "if lower pre = [] then \<not> False else \<not> is_word (last (lower pre))"
      using b(1) n lower_not_word[of pre] by auto
  qed
  then have "keyword_search False kw (lower (join_with ''; '' ps))" using j kw(4) by (simp add: lower_append)
  then show ?thesis using assms(2) by (auto simp: keyword_signals_def)
qed

lemma command_covered:
  assumes "kw_ok c" and "pat \<in> set (c_patterns c)" and "part \<in> set ps" and "part = pre @ pat @ post"
  shows "''command:'' @ strip pat \<in> set (command_signals c (join_with ''; '' ps))"
proof -
  obtain pre' post' where "join_with ''; '' ps = pre' @ part @ post'" using join_with_mem[OF assms(3)] by blast
  then have "lower (join_with ''; '' ps) = (lower pre' @ lower pre) @ pat @ (lower post @ lower post')"
    using assms(1,2,4) by (simp add: lower_append kw_ok_def)
  then have "contains pat (lower (join_with ''; '' ps))" using contains_append by metis
  then show ?thesis using assms(2) by (auto simp: command_signals_def)
qed

lemma quote_char_free:
  assumes "\<exists>q. is_quote q \<and> q \<notin> set v"
  shows "is_quote (quote_char v) \<and> quote_char v \<notin> set v"
  using assms by (auto simp: quote_char_def is_quote_def split: option.splits)

lemma path_covered:
  assumes "\<exists>q. is_quote q \<and> q \<notin> set p" and "p \<noteq> []" and "path_signal c p = Some sig"
    and "ps = (''edit '' @ quote p) # rest"
  shows "sig \<in> set (coverage c (join_with ''; '' ps))"
proof -
  obtain post where "join_with ''; '' ps = ''edit '' @ quote_char p # p @ quote_char p # post"
    by (simp add: assms(4) join_with_first quote_def)
  moreover have "\<forall>x \<in> set ''edit ''. \<not> is_quote x" by (simp add: is_quote_def)
  ultimately have "p \<in> set (quoted_spans (join_with ''; '' ps))"
    using quoted_span_first[of "''edit ''" "quote_char p" p post] quote_char_free[OF assms(1)] assms(2) by metis
  then show ?thesis using assms(3) unfolding set_coverage by blast
qed

lemma sort_edit_first:
  assumes "part \<in> set ps" and "starts_with ''edit '' part" and "\<forall>x \<in> set ps. starts_with ''edit '' x \<longrightarrow> x = part"
  shows "\<exists>rest. sort_key (\<lambda>p. \<not> starts_with ''edit '' p) ps = part # rest"
proof -
  let ?s = "sort_key (\<lambda>p. \<not> starts_with ''edit '' p) ps"
  have mem: "part \<in> set ?s" using assms(1) by simp
  then obtain x rest where x: "?s = x # rest" by (cases ?s) auto
  have "sorted (map (\<lambda>p. \<not> starts_with ''edit '' p) (x # rest))" using x by (metis sorted_sort_key)
  then have "starts_with ''edit '' x" using mem assms(2) x by auto
  moreover have "x \<in> set ps" using x by (metis list.set_intros(1) set_sort)
  ultimately show ?thesis using assms(3) x by auto
qed

lemma starts_edit: "starts_with ''edit '' (''edit '' @ x)" "\<not> starts_with ''edit '' (''run '' @ x)"
  by (simp_all add: starts_with_def)

lemma suggestion_covers:
  assumes ok: "kw_ok c" and q: "\<exists>q. is_quote q \<and> q \<notin> set (given_path p)"
    and sub: "set unc \<subseteq> set (classify c '''' p d)"
  shows "set unc \<subseteq> set (coverage c (suggest_intent c unc p))"
proof
  fix sig assume sig: "sig \<in> set unc"
  let ?pth = "given_path p"
  let ?ps = "sort_key (\<lambda>p. \<not> starts_with ''edit '' p) (suggest_parts c ?pth unc)"
  have i: "suggest_intent c unc p = join_with ''; '' ?ps" by (simp add: suggest_intent_def)
  have ps: "set ?ps = suggest_part c ?pth ` set unc" by (simp add: set_suggest_parts)
  have part: "suggest_part c ?pth sig \<in> set ?ps" using sig ps by blast
  have kinds: "(\<exists>kw. s = ''keyword:'' @ kw \<and> kw \<in> set (c_keywords c))
      \<or> (\<exists>pat. s = ''command:'' @ strip pat \<and> pat \<in> set (c_patterns c))
      \<or> (?pth \<noteq> '''' \<and> path_signal c ?pth = Some s)" if "s \<in> set unc" for s
    using that sub unfolding set_classify by (auto simp: keyword_signals_def command_signals_def split: if_splits)
  have pform: "\<exists>g. s = ''path:'' @ g" if "path_signal c x = Some s" for s x
    using that by (auto simp: path_signal_def Let_def)
  from kinds[OF sig] consider (k) kw where "sig = ''keyword:'' @ kw" "kw \<in> set (c_keywords c)"
    | (m) pat where "sig = ''command:'' @ strip pat" "pat \<in> set (c_patterns c)"
    | (p) "?pth \<noteq> ''''" "path_signal c ?pth = Some sig" by blast
  then show "sig \<in> set (coverage c (suggest_intent c unc p))"
  proof cases
    case k
    then have "kw \<in> set ?ps" using part partition_kinds(1)[of kw] by (simp add: suggest_part_def)
    then show ?thesis using keyword_covered[OF ok k(2)] k(1) unfolding i set_coverage by blast
  next
    case m
    then obtain pat' where f: "command_pattern c sig = Some pat'"
      by (cases "command_pattern c sig") (auto simp: command_pattern_def find_None_iff)
    then have p': "pat' \<in> set (c_patterns c)" "sig = ''command:'' @ strip pat'"
      by (auto simp: command_pattern_def find_Some_iff)
    have "\<exists>pre post. suggest_part c ?pth sig = pre @ pat' @ post"
    proof (cases "pat' = ''''")
      case True
      then show ?thesis by (intro exI[of _ "[]"] exI[of _ "suggest_part c ?pth sig"]) simp
    next
      case False
      then have "suggest_part c ?pth sig = (''run '' @ [quote_char pat']) @ pat' @ [quote_char pat']"
        using f partition_kinds(2)[of "strip pat"] m(1) by (simp add: suggest_part_def quote_def)
      then show ?thesis by blast
    qed
    then show ?thesis
      using command_covered[OF ok p'(1) part] p'(2) unfolding i set_coverage by blast
  next
    case p
    obtain g where g: "sig = ''path:'' @ g" using pform[OF p(2)] by blast
    have e: "suggest_part c ?pth sig = ''edit '' @ quote ?pth"
      using partition_kinds(3)[of g] g p(1) by (simp add: suggest_part_def)
    have only: "x = suggest_part c ?pth sig" if x: "x \<in> set (suggest_parts c ?pth unc)" "starts_with ''edit '' x" for x
    proof -
      obtain s where s: "s \<in> set unc" "x = suggest_part c ?pth s" using x(1) by (auto simp: set_suggest_parts)
      from kinds[OF s(1)] show ?thesis
      proof (elim disjE exE conjE)
        fix kw assume "s = ''keyword:'' @ kw" "kw \<in> set (c_keywords c)"
        then show ?thesis using s(2) x(2) ok partition_kinds(1)[of kw] by (simp add: suggest_part_def kw_ok_def)
      next
        fix pat assume "s = ''command:'' @ strip pat"
        then show ?thesis using s(2) x(2) starts_edit(2) partition_kinds(2)[of "strip pat"] by (simp add: suggest_part_def)
      next
        assume "path_signal c ?pth = Some s"
        then show ?thesis using s(2) p(2) by simp
      qed
    qed
    have "suggest_part c ?pth sig \<in> set (suggest_parts c ?pth unc)" using sig by (simp add: set_suggest_parts)
    moreover have "starts_with ''edit '' (suggest_part c ?pth sig)" unfolding e by (rule starts_edit(1))
    ultimately obtain rest where "?ps = suggest_part c ?pth sig # rest" using sort_edit_first only by blast
    then have "?ps = (''edit '' @ quote ?pth) # rest" unfolding e .
    then show ?thesis using path_covered[OF q p(1) p(2)] i by simp
  qed
qed

lemma uncovered_covered: "sig \<in> set signals \<Longrightarrow> sig \<notin> set (uncovered_signals signals cov) \<Longrightarrow> covers (signal_family ` cov) sig"
  by (simp add: uncovered_signals_def)

lemma covers_mono: "covers F sig \<Longrightarrow> F \<subseteq> G \<Longrightarrow> covers G sig"
  by (auto simp: covers_def list_ex_iff)

lemma uncovered_union: "set (uncovered_signals signals cov) \<subseteq> cov' \<Longrightarrow> cov \<subseteq> cov' \<Longrightarrow> uncovered_signals signals cov' = []"
proof -
  assume a: "set (uncovered_signals signals cov) \<subseteq> cov'" "cov \<subseteq> cov'"
  have "covers (signal_family ` cov') sig" if "sig \<in> set signals" for sig
  proof (cases "sig \<in> set (uncovered_signals signals cov)")
    case True
    then show ?thesis using a(1) by (auto simp: covers_def)
  next
    case False
    then show ?thesis using uncovered_covered[OF that] covers_mono a(2) by blast
  qed
  then show ?thesis by (simp add: uncovered_signals_def filter_empty_conv)
qed

text \<open>C17. Every denial can be cleared by doing what it says: after a consult with the suggested intent,
  made by the same session for the same workspace, a retry within the time to live passes. This
  needs keywords that begin and end with a word character, a path that lacks one of the three
  quote characters, an intent within the consult limit, and no older coverage expiring in between.\<close>

theorem gate_denial_clearable:
  assumes "kw_ok c" and "\<exists>q. is_quote q \<and> q \<notin> set (given_path p)"
    and "wf_entries (entries l)" and "length (entries l) < max_entries l"
    and "0 \<le> retention_sec l" and "ttl \<le> retention_sec l"
    and "g_reason (fst (kb_gate_check c l w s p d now ttl IntentClearance audit)) = NotCovered unc intent"
    and "length intent \<le> MAX_CONSULT_INTENT_CHARS" and "trig \<noteq> ''prompt_hook''"
    and "kb_consult search c io_ok w intent s agent now2 trig demoted pending (l, audit2) = (resp, l2, audit3)"
    and "now2 \<le> now3" and "now3 - now2 \<le> ttl" and "fresh_signals l (s, w) now ttl \<subseteq> fresh_signals l (s, w) now3 ttl"
  shows "g_verdict (fst (kb_gate_check c l2 w s p d now3 ttl IntentClearance audit3)) = Allow"
proof -
  let ?sig = "classify c '''' p d"
  have u: "unc = uncovered_signals ?sig (fresh_signals l (s, w) now ttl)" and i: "intent = suggest_intent c unc p"
    using assms(7) by (auto simp: kb_gate_check_def Let_def gate_uncovered_def split: if_splits)
  have l2: "l2 = snd (record_consult io_ok (s, w) (if classify c intent None '''' \<noteq> [] then search intent else [])
      now2 Explicit (coverage c intent) l)"
    using assms(8,9,10) by (auto simp: kb_consult_def coerce_trigger_def Let_def split: prod.splits if_splits)
  have sub: "set unc \<subseteq> set ?sig" unfolding u by (auto simp: uncovered_signals_def)
  have "set unc \<subseteq> set (coverage c intent)" unfolding i by (rule suggestion_covers[OF assms(1,2) sub])
  moreover have "fresh_signals l (s, w) now3 ttl \<union> set (coverage c intent) \<subseteq> fresh_signals l2 (s, w) now3 ttl"
    unfolding l2 by (rule fresh_signals_recorded[OF assms(3,4,5,6,11,12)])
  ultimately have "uncovered_signals ?sig (fresh_signals l2 (s, w) now3 ttl) = []"
    using uncovered_union[of ?sig "fresh_signals l (s, w) now ttl"] assms(13) u by blast
  then show ?thesis by (simp add: gate_verdict gate_uncovered_def)
qed

abbreviation shipped :: classifier where "shipped \<equiv> classifier_from_config [] [] []"

lemma shipped_ok: "kw_ok shipped"
  by code_simp

theorem gate_denial_clearable_witness:
  "\<exists>l2 audit3 resp. kb_consult (\<lambda>_. []) shipped True ''w'' ''edit \"go.mod\"'' ''s'' ''a'' 11 ''explicit'' None None
       (empty_ledger True 60 5, None) = (resp, l2, audit3)
     \<and> g_verdict (fst (kb_gate_check shipped l2 ''w'' ''s'' (Some ''go.mod'') '''' 12 60 IntentClearance audit3)) = Allow"
proof -
  let ?l = "empty_ledger True 60 5"
  have s: "classify shipped '''' (Some ''go.mod'') '''' = [''path:go.mod'']" by code_simp
  have i: "suggest_intent shipped [''path:go.mod''] (Some ''go.mod'') = ''edit \"go.mod\"''" by code_simp
  have f: "fresh_signals ?l k now 60 = {}" for k now by (simp add: fresh_signals_def)
  have g: "g_reason (fst (kb_gate_check shipped ?l ''w'' ''s'' (Some ''go.mod'') '''' 10 60 IntentClearance None))
      = NotCovered [''path:go.mod''] ''edit \"go.mod\"''"
    by (simp add: kb_gate_check_def Let_def s gate_uncovered_def f uncovered_nothing i)
  have q: "\<exists>q. is_quote q \<and> q \<notin> set (given_path (Some ''go.mod''))"
    by (intro exI[of _ "CHR 0x22"]) (simp add: is_quote_def given_path_def)
  obtain resp l2 a3 where k: "kb_consult (\<lambda>_. []) shipped True ''w'' ''edit \"go.mod\"'' ''s'' ''a'' 11 ''explicit'' None None (?l, None) = (resp, l2, a3)"
    by (metis prod_cases3)
  have "g_verdict (fst (kb_gate_check shipped l2 ''w'' ''s'' (Some ''go.mod'') '''' 12 60 IntentClearance a3)) = Allow"
    by (rule gate_denial_clearable[OF shipped_ok q _ _ _ _ g _ _ k])
      (simp_all add: wf_entries_def MAX_CONSULT_INTENT_CHARS_def f)
  with k show ?thesis by blast
qed

text \<open>The two conditions on the vocabulary and the path are needed: with an operator keyword that ends in
  a non-word character, and for a path that holds all three quote characters, the gate governs an
  action whose suggested intent does not cover it.\<close>

theorem suggestion_can_fail:
  "(let c = classifier_from_config [''c++''] [] []; unc = classify c '''' None ''use c++17'' in
      unc \<noteq> [] \<and> uncovered_signals unc (set (coverage c (suggest_intent c unc None))) \<noteq> [])
   \<and> (let p = ''requirements'' @ [CHR 0x27, CHR 0x22, CHR 0x60] @ ''.txt''; unc = classify shipped '''' (Some p) '''' in
      unc \<noteq> [] \<and> uncovered_signals unc (set (coverage shipped (suggest_intent shipped unc (Some p)))) \<noteq> [])"
  by code_simp

subsection \<open>The compliance aggregate\<close>

definition agent_count :: "compliance \<Rightarrow> string \<Rightarrow> string \<Rightarrow> nat" where
  "agent_count s who et = get_or 0 (get_or [] (cp_by_agent s) who) et"

lemma get_or_bump: "get_or 0 (bump k d) j = get_or 0 d j + (if j = k then 1 else 0)"
  by (simp add: bump_def get_or_def)

lemma get_or_dset: "get_or z (dset k v d) j = (if j = k then v else get_or z d j)"
  by (simp add: get_or_def)

text \<open>The compliance aggregate is exact: per event type, and per agent and event type, it counts
  precisely the well-formed enforcement events, and it reports how many lines it skipped.\<close>

theorem compliance_counts_exact:
  "get_or 0 (cp_counts (kb_compliance evs)) et = length (filter (\<lambda>ev. \<exists>who. contribution_of ev = Counted et who) evs)
   \<and> agent_count (kb_compliance evs) who et = length (filter (\<lambda>ev. contribution_of ev = Counted et who) evs)
   \<and> cp_skipped (kb_compliance evs) = length (filter (\<lambda>ev. contribution_of ev = Skipped) evs)"
proof -
  have "get_or 0 (cp_counts (fold add_event evs s)) et = get_or 0 (cp_counts s) et + length (filter (\<lambda>ev. \<exists>who. contribution_of ev = Counted et who) evs)
     \<and> agent_count (fold add_event evs s) who et = agent_count s who et + length (filter (\<lambda>ev. contribution_of ev = Counted et who) evs)
     \<and> cp_skipped (fold add_event evs s) = cp_skipped s + length (filter (\<lambda>ev. contribution_of ev = Skipped) evs)" for s
    by (induction evs arbitrary: s)
      (auto simp: add_event_def agent_count_def get_or_bump get_or_dset split: contribution.splits)
  from this[of "\<lparr>cp_counts = [], cp_by_agent = [], cp_skipped = 0\<rparr>"] show ?thesis
    by (simp add: kb_compliance_def agent_count_def get_or_def)
qed

text \<open>Clients cannot forge enforcement rows: a reported event is appended only with one of the two
  client types, and any other type leaves the log as it was with an error.\<close>

lemma clients_cannot_forge:
  "(kb_record_event et w agent s why now audit = Inr audit' \<longleftrightarrow>
      et \<in> {''gate_bypass'', ''gate_degraded''} \<and> audit' = audit @ [ClientEvent now et agent s w why])
   \<and> ((\<exists>e. kb_record_event et w agent s why now audit = Inl e) \<longleftrightarrow> et \<notin> {''gate_bypass'', ''gate_degraded''})"
  by (auto simp: kb_record_event_def RECORDABLE_EVENT_TYPES_def)

end
