(* ===== verification/Pending.thy ===== *)
theory Pending
  imports PyValue
begin

text \<open>
  The pending queue (\<^verbatim>\<open>pending.py\<close>). A proposal is a file \<^verbatim>\<open><pid>.json\<close> that a claim renames to
  \<^verbatim>\<open><pid>.claimed\<close>; a path lock is a file named by the digest of the target path. The disk is
  a directory per suffix, keyed by the pending id, and the directory of locks.

  Every operation is written as the code runs it: it reads the disk and issues atomic effects
  (an atomic write, a rename, an unlink, the link that publishes a lock). An operation is a
  function from the disk to its result and the list of its effects, so that a crash is the
  application of a prefix of that list. \<open>sha\<close> is \<^verbatim>\<open>sha256(...).hexdigest()\<close>, a parameter; fresh
  ids, tokens, and clock readings are arguments.
\<close>

subsection \<open>Records\<close>

datatype write_outcome = Committed string | Failed string | Unknown string

record claim_stamp =
  claim_token :: string
  claimed_at :: "time option" \<comment> \<open>\<^const>\<open>None\<close> when the stamp is not a number\<close>

record write_context =
  session_ref :: string
  pre_write_ref_sha :: string

record entry =
  p_id :: string
  p_type :: string
  p_target :: string
  p_postimage :: string
  p_base_commit :: string
  p_base_blob :: "string option"
  p_file_hash :: "string option"
  p_meta :: frontmatter
  p_enqueued_at :: time
  p_claim :: "claim_stamp option"
  p_context :: "write_context option"
  p_outcome :: "(write_outcome \<times> time) option"
  p_reconcile :: "(string \<times> time) option" \<comment> \<open>the reason and the last check of an uncertain claim\<close>
  p_effective :: "string option" \<comment> \<open>the approved text, as releases before the digest stored it\<close>
  p_effective_sha :: "string option"

datatype entry_doc = Doc entry | DamagedDoc

record lock_info =
  k_holder :: string
  k_target :: "string option"
  k_kind :: "string option" \<comment> \<open>\<^const>\<open>None\<close> in a lock of an old release\<close>
  k_acquired :: "time option"
  k_intent :: "string option"
  k_contradicts :: "string list option"

datatype lock_doc = Lock lock_info | NotALock

record disk =
  live :: "entry_doc dir"
  claimed :: "entry_doc dir"
  restoring :: "entry_doc dir"
  locks :: "lock_doc dir"
  tmps :: "(string, time) dict" \<comment> \<open>lock-publish temp files, with their mtime\<close>

datatype pending_error =
    QueueFull | PathLockBusy string | NotFound string | AlreadyResolved string
  | RecordUnreadable string | Fenced string | BadArguments | JsonError | WriteFailed

subsection \<open>Effects\<close>

datatype effect =
    PutLive string entry_doc | PutClaimed string entry_doc | PutRestoring string entry_doc
  | RenameClaim string \<comment> \<open>\<^verbatim>\<open>.json\<close> to \<^verbatim>\<open>.claimed\<close>\<close>
  | RenameUnclaim string \<comment> \<open>\<^verbatim>\<open>.claimed\<close> to \<^verbatim>\<open>.json\<close>\<close>
  | RenamePublish string \<comment> \<open>\<^verbatim>\<open>.restoring\<close> to \<^verbatim>\<open>.json\<close>\<close>
  | DelClaimed string
  | PutTmp string time | DelTmp string
  | LinkLock string lock_doc | DelLock string

fun apply_effect :: "effect \<Rightarrow> disk \<Rightarrow> disk" where
  "apply_effect (PutLive i x) d = d\<lparr>live := dset i x (live d)\<rparr>"
| "apply_effect (PutClaimed i x) d = d\<lparr>claimed := dset i x (claimed d)\<rparr>"
| "apply_effect (PutRestoring i x) d = d\<lparr>restoring := dset i x (restoring d)\<rparr>"
| "apply_effect (RenameClaim i) d =
     (case dget (live d) i of None \<Rightarrow> d | Some x \<Rightarrow> d\<lparr>live := dpop i (live d), claimed := dset i x (claimed d)\<rparr>)"
| "apply_effect (RenameUnclaim i) d =
     (case dget (claimed d) i of None \<Rightarrow> d | Some x \<Rightarrow> d\<lparr>claimed := dpop i (claimed d), live := dset i x (live d)\<rparr>)"
| "apply_effect (RenamePublish i) d =
     (case dget (restoring d) i of None \<Rightarrow> d | Some x \<Rightarrow> d\<lparr>restoring := dpop i (restoring d), live := dset i x (live d)\<rparr>)"
| "apply_effect (DelClaimed i) d = d\<lparr>claimed := dpop i (claimed d)\<rparr>"
| "apply_effect (PutTmp n t) d = d\<lparr>tmps := dset n t (tmps d)\<rparr>"
| "apply_effect (DelTmp n) d = d\<lparr>tmps := dpop n (tmps d)\<rparr>"
| "apply_effect (LinkLock n x) d = d\<lparr>locks := dset n x (locks d)\<rparr>"
| "apply_effect (DelLock n) d = d\<lparr>locks := dpop n (locks d)\<rparr>"

definition applys :: "effect list \<Rightarrow> disk \<Rightarrow> disk" where
  "applys es d = fold apply_effect es d"

type_synonym 'a op = "disk \<Rightarrow> (pending_error + 'a) \<times> effect list"

definition done_op :: "'a \<Rightarrow> 'a op" where
  "done_op x d = (Inr x, [])"

definition raise :: "pending_error \<Rightarrow> 'a op" where
  "raise e d = (Inl e, [])"

definition emit :: "effect list \<Rightarrow> unit op" where
  "emit es d = (Inr (), es)"

definition andthen :: "'a op \<Rightarrow> ('a \<Rightarrow> 'b op) \<Rightarrow> 'b op" where
  "andthen m f d = (case m d of
     (Inl e, es) \<Rightarrow> (Inl e, es)
   | (Inr x, es) \<Rightarrow> (case f x (applys es d) of (r, fs) \<Rightarrow> (r, es @ fs)))"

subsection \<open>Locks\<close>

definition lock_name :: "(string \<Rightarrow> string) \<Rightarrow> string \<Rightarrow> string" where
  "lock_name sha target = sha target @ ''.lock''"

definition tmp_name :: "(string \<Rightarrow> string) \<Rightarrow> string \<Rightarrow> string \<Rightarrow> string" where
  "tmp_name sha target rand = lock_name sha target @ ''.tmp.'' @ rand"

definition acquire_lock ::
  "(string \<Rightarrow> string) \<Rightarrow> string \<Rightarrow> string \<Rightarrow> string \<Rightarrow> string \<Rightarrow> string option \<Rightarrow> string list option \<Rightarrow> time \<Rightarrow> time op" where
  "acquire_lock sha rand target holder kind intent contradicts now d =
     (let n = lock_name sha target; t = tmp_name sha target rand;
          rec = Lock \<lparr>k_holder = holder, k_target = Some target, k_kind = Some kind, k_acquired = Some now,
            k_intent = intent, k_contradicts = contradicts\<rparr>
      in if dget (locks d) n \<noteq> None then (Inl (PathLockBusy target), [PutTmp t now, DelTmp t])
         else (Inr now, [PutTmp t now, LinkLock n rec, DelTmp t]))"

text \<open>Without an expected time the delete is unconditional; with one it is ownership-checked.\<close>

definition release_lock :: "(string \<Rightarrow> string) \<Rightarrow> string \<Rightarrow> time option \<Rightarrow> bool op" where
  "release_lock sha target expected d =
     (let n = lock_name sha target
      in case dget (locks d) n of
           None \<Rightarrow> (Inr False, [])
         | Some doc \<Rightarrow>
             (case expected of
                None \<Rightarrow> (Inr True, [DelLock n])
              | Some a \<Rightarrow>
                  (case doc of
                     Lock k \<Rightarrow> (if k_acquired k = Some a then (Inr True, [DelLock n]) else (Inr False, []))
                   | NotALock \<Rightarrow> (Inr False, []))))"

definition release_lock_owned_by :: "(string \<Rightarrow> string) \<Rightarrow> string \<Rightarrow> string \<Rightarrow> unit op" where
  "release_lock_owned_by sha target i d =
     (case dget (locks d) (lock_name sha target) of
        Some (Lock k) \<Rightarrow>
          (if k_holder k = i then (case release_lock sha target None d of (_, es) \<Rightarrow> (Inr (), es)) else (Inr (), []))
      | _ \<Rightarrow> (Inr (), []))"

text \<open>\<open>path_lock\<close>: what the context manager does on entry and on exit.\<close>

definition path_lock_enter :: "(string \<Rightarrow> string) \<Rightarrow> string \<Rightarrow> string \<Rightarrow> string \<Rightarrow> time \<Rightarrow> time op" where
  "path_lock_enter sha rand target owner now = acquire_lock sha rand target owner ''auto_commit'' None None now"

definition path_lock_exit :: "(string \<Rightarrow> string) \<Rightarrow> string \<Rightarrow> time \<Rightarrow> bool op" where
  "path_lock_exit sha target acquired = release_lock sha target (Some acquired)"

subsection \<open>Enqueueing\<close>

definition queue_size :: "disk \<Rightarrow> nat" where
  "queue_size d = length (listdir (live d))"

definition would_exceed :: "nat \<Rightarrow> nat \<Rightarrow> disk \<Rightarrow> bool" where
  "would_exceed cap n d \<longleftrightarrow> cap > 0 \<and> queue_size d + n > cap"

text \<open>\<open>str(v)\<close>; \<open>py_str\<close> is the text of a value that is not a string.\<close>

definition text_of :: "(pyval \<Rightarrow> string) \<Rightarrow> pyval \<Rightarrow> string" where
  "text_of py_str v = (case v of PyStr s \<Rightarrow> s | _ \<Rightarrow> py_str v)"

definition as_id_list :: "(pyval \<Rightarrow> string) \<Rightarrow> pyval \<Rightarrow> string list" where
  "as_id_list py_str v =
     (let clean = (\<lambda>vs. filter (\<lambda>s. s \<noteq> []) (map (\<lambda>x. strip (text_of py_str x)) vs))
      in case v of PyList vs \<Rightarrow> clean vs | PyTuple vs \<Rightarrow> clean vs
         | PyStr s \<Rightarrow> (if strip s \<noteq> [] then [strip s] else []) | _ \<Rightarrow> [])"

text \<open>What the write of the entry does: it succeeds, it fails before the rename publishes the file, or
  the directory sync that follows the rename fails.\<close>

datatype write_fault = NoFault | BeforePublish | AfterPublish

record proposal =
  pr_type :: string
  pr_target :: string
  pr_postimage :: string
  pr_base_commit :: string
  pr_base_blob :: "string option"
  pr_file_hash :: "string option"
  pr_meta :: frontmatter

definition new_entry :: "string \<Rightarrow> proposal \<Rightarrow> time \<Rightarrow> entry" where
  "new_entry i pr now = \<lparr>p_id = i, p_type = pr_type pr, p_target = pr_target pr, p_postimage = pr_postimage pr,
     p_base_commit = pr_base_commit pr, p_base_blob = pr_base_blob pr, p_file_hash = pr_file_hash pr,
     p_meta = pr_meta pr, p_enqueued_at = now, p_claim = None, p_context = None, p_outcome = None,
     p_reconcile = None, p_effective = None, p_effective_sha = None\<rparr>"

definition lock_intent :: "(pyval \<Rightarrow> string) \<Rightarrow> frontmatter \<Rightarrow> string option" where
  "lock_intent py_str m = (case fm_get m ''intent'' of PyNone \<Rightarrow> None | v \<Rightarrow> Some (text_of py_str v))"

definition lock_contradicts :: "(pyval \<Rightarrow> string) \<Rightarrow> frontmatter \<Rightarrow> string list option" where
  "lock_contradicts py_str m = (case fm_get m ''contradicts'' of PyNone \<Rightarrow> None | v \<Rightarrow> Some (as_id_list py_str v))"

definition publish_entry :: "(string \<Rightarrow> string) \<Rightarrow> string \<Rightarrow> proposal \<Rightarrow> write_fault \<Rightarrow> time \<Rightarrow> string op" where
  "publish_entry sha i pr fault now =
     (case fault of
        NoFault \<Rightarrow> andthen (emit [PutLive i (Doc (new_entry i pr now))]) (\<lambda>_. done_op i)
      | AfterPublish \<Rightarrow> andthen (emit [PutLive i (Doc (new_entry i pr now))]) (\<lambda>_. raise WriteFailed)
      | BeforePublish \<Rightarrow> (\<lambda>d. if dget (live d) i = None
           then andthen (release_lock sha (pr_target pr) None) (\<lambda>_. raise WriteFailed) d else raise WriteFailed d))"

definition enqueue ::
  "(string \<Rightarrow> string) \<Rightarrow> (pyval \<Rightarrow> string) \<Rightarrow> nat \<Rightarrow> string \<Rightarrow> string \<Rightarrow> proposal \<Rightarrow> write_fault \<Rightarrow> time \<Rightarrow> time \<Rightarrow> string op" where
  "enqueue sha py_str cap i rand pr fault now_lock now d =
     (if cap > 0 \<and> queue_size d \<ge> cap then (Inl QueueFull, [])
      else andthen (acquire_lock sha rand (pr_target pr) i ''pending''
             (lock_intent py_str (pr_meta pr)) (lock_contradicts py_str (pr_meta pr)) now_lock)
           (\<lambda>_. publish_entry sha i pr fault now) d)"

subsection \<open>Reading and claiming\<close>

definition is_hex :: "char \<Rightarrow> bool" where
  "is_hex c \<longleftrightarrow> c \<in> set ''0123456789abcdef''"

definition valid_pid :: "string \<Rightarrow> bool" where
  "valid_pid i \<longleftrightarrow> length i = 32 \<and> list_all is_hex i"

definition get :: "string \<Rightarrow> entry op" where
  "get i d = (if \<not> valid_pid i then (Inl (NotFound i), [])
     else case dget (live d) i of None \<Rightarrow> (Inl (NotFound i), [])
       | Some DamagedDoc \<Rightarrow> (Inl JsonError, []) | Some (Doc e) \<Rightarrow> (Inr e, []))"

text \<open>The rename of a claim, the test-and-set: it loses when another resolver renamed the file since
  the caller saw it.\<close>

definition claim_rename :: "string \<Rightarrow> entry_doc op" where
  "claim_rename i d = (case dget (live d) i of None \<Rightarrow> (Inl (AlreadyResolved i), [])
     | Some doc \<Rightarrow> (Inr doc, [RenameClaim i]))"

definition stamp_claim :: "string \<Rightarrow> string \<Rightarrow> time \<Rightarrow> entry_doc \<Rightarrow> entry op" where
  "stamp_claim i tok now doc = (case doc of
     DamagedDoc \<Rightarrow> raise JsonError
   | Doc e \<Rightarrow> (let e' = e\<lparr>p_claim := Some \<lparr>claim_token = tok, claimed_at = Some now\<rparr>\<rparr>
       in andthen (emit [PutClaimed i (Doc e')]) (\<lambda>_. done_op e')))"

definition claim :: "string \<Rightarrow> string \<Rightarrow> time \<Rightarrow> entry op" where
  "claim i tok now d =
     (if \<not> valid_pid i \<or> dget (live d) i = None then (Inl (NotFound i), [])
      else andthen (claim_rename i) (stamp_claim i tok now) d)"

definition finish_claim :: "(string \<Rightarrow> string) \<Rightarrow> string \<Rightarrow> string \<Rightarrow> unit op" where
  "finish_claim sha i target = andthen (emit [DelClaimed i]) (\<lambda>_. release_lock_owned_by sha target i)"

record resolved =
  r_pid :: string
  r_type :: string
  r_target :: string
  r_postimage :: string
  r_base_commit :: string
  r_base_blob :: "string option"
  r_file_hash :: "string option"
  r_meta :: frontmatter
  r_token :: string

definition to_resolved :: "string \<Rightarrow> entry \<Rightarrow> string option \<Rightarrow> resolved" where
  "to_resolved i e edited = \<lparr>r_pid = i, r_type = p_type e, r_target = p_target e,
     r_postimage = (case edited of None \<Rightarrow> p_postimage e | Some s \<Rightarrow> s),
     r_base_commit = p_base_commit e, r_base_blob = p_base_blob e, r_file_hash = p_file_hash e, r_meta = p_meta e,
     r_token = (case p_claim e of None \<Rightarrow> '''' | Some c \<Rightarrow> claim_token c)\<rparr>"

definition approve :: "(string \<Rightarrow> string) \<Rightarrow> string \<Rightarrow> string option \<Rightarrow> string \<Rightarrow> time \<Rightarrow> resolved op" where
  "approve sha i edited tok now =
     andthen (claim i tok now) (\<lambda>e. andthen (finish_claim sha i (p_target e)) (\<lambda>_. done_op (to_resolved i e edited)))"

definition reject :: "(string \<Rightarrow> string) \<Rightarrow> string \<Rightarrow> string \<Rightarrow> time \<Rightarrow> unit op" where
  "reject sha i tok now = andthen (claim i tok now) (\<lambda>e. finish_claim sha i (p_target e))"

definition claim_for_resolve :: "(string \<Rightarrow> string) \<Rightarrow> string \<Rightarrow> string option \<Rightarrow> string \<Rightarrow> time \<Rightarrow> resolved op" where
  "claim_for_resolve sha i edited tok now =
     andthen (claim i tok now) (\<lambda>e. case edited of
        None \<Rightarrow> done_op (to_resolved i e None)
      | Some t \<Rightarrow> andthen (emit [PutClaimed i (Doc (e\<lparr>p_effective_sha := Some (sha t)\<rparr>))])
          (\<lambda>_. done_op (to_resolved i e edited)))"

subsection \<open>Fenced completion\<close>

definition read_claim :: "string \<Rightarrow> entry op" where
  "read_claim i d = (case dget (claimed d) i of None \<Rightarrow> (Inl (Fenced i), [])
     | Some DamagedDoc \<Rightarrow> (Inl (RecordUnreadable i), []) | Some (Doc e) \<Rightarrow> (Inr e, []))"

definition token_of :: "entry \<Rightarrow> string option" where
  "token_of e = map_option claim_token (p_claim e)"

definition check_token :: "string option \<Rightarrow> entry \<Rightarrow> entry op" where
  "check_token tok e = (if tok = None \<or> token_of e = tok then done_op e else raise (Fenced (p_id e)))"

definition fenced_claim :: "string \<Rightarrow> string option \<Rightarrow> entry op" where
  "fenced_claim i tok = andthen (read_claim i) (check_token tok)"

definition record_write_context :: "string \<Rightarrow> string option \<Rightarrow> string \<Rightarrow> string \<Rightarrow> unit op" where
  "record_write_context i tok ref base_sha = andthen (fenced_claim i tok)
     (\<lambda>e. emit [PutClaimed i (Doc (e\<lparr>p_context := Some \<lparr>session_ref = ref, pre_write_ref_sha = base_sha\<rparr>\<rparr>))])"

definition record_outcome :: "string \<Rightarrow> string option \<Rightarrow> string option \<Rightarrow> string option \<Rightarrow> string option \<Rightarrow> time \<Rightarrow> unit op" where
  "record_outcome i tok commit_sha failure unknown now =
     (if length (filter (\<lambda>x. x \<noteq> None) [commit_sha, failure, unknown]) \<noteq> 1 then raise BadArguments
      else andthen (fenced_claim i tok)
        (\<lambda>e. let outcome = (case commit_sha of Some s \<Rightarrow> Committed s
                 | None \<Rightarrow> (case failure of Some r \<Rightarrow> Failed r | None \<Rightarrow> Unknown (the unknown)))
             in emit [PutClaimed i (Doc (e\<lparr>p_outcome := Some (outcome, now)\<rparr>))]))"

definition finalize_resolve :: "(string \<Rightarrow> string) \<Rightarrow> string \<Rightarrow> string \<Rightarrow> string option \<Rightarrow> unit op" where
  "finalize_resolve sha i target tok =
     (case tok of None \<Rightarrow> finish_claim sha i target
      | Some t \<Rightarrow> andthen (fenced_claim i tok) (\<lambda>_. finish_claim sha i target))"

definition stripped :: "entry \<Rightarrow> entry" where
  "stripped e = e\<lparr>p_claim := None, p_outcome := None, p_context := None, p_reconcile := None,
     p_effective := None, p_effective_sha := None\<rparr>"

definition restore_resolve :: "string \<Rightarrow> string option \<Rightarrow> unit op" where
  "restore_resolve i tok =
     (case tok of
        None \<Rightarrow> (\<lambda>d. if dget (claimed d) i = None then (Inr (), []) else (Inr (), [RenameUnclaim i]))
      | Some t \<Rightarrow> andthen (fenced_claim i tok)
          (\<lambda>e. emit [PutRestoring i (Doc (stripped e)), RenamePublish i, DelClaimed i]))"

subsection \<open>Reconciling\<close>

text \<open>What a search for the claim-linked commit reports; \<open>NoSearch\<close> when none is available.\<close>

datatype search = NoSearch | Found | NotFoundThere | SearchError string

datatype reconciled = RCommitted | RRestored | RUncertain

definition reconcile_reason :: "search \<Rightarrow> string" where
  "reconcile_reason r =
     (let base = ''no durable outcome was recorded and the claim-linked commit could not be found, ''
        @ ''so it is not known whether this decision committed. The path lock is retained deliberately; ''
        @ ''reconciliation is retried on every sweep.''
      in case r of
           SearchError e \<Rightarrow> base @ '' Search error: '' @ e
         | NoSearch \<Rightarrow> ''no durable outcome was recorded and no commit search was available, ''
             @ ''so it is not known whether this decision committed. The path lock is retained deliberately.''
         | _ \<Rightarrow> base)"

text \<open>\<open>find_commit\<close> is the search of the git history, given the id and the claim record.\<close>

definition reconcile_one ::
  "(string \<Rightarrow> string) \<Rightarrow> (string \<Rightarrow> entry \<Rightarrow> search) \<Rightarrow> time \<Rightarrow> string \<Rightarrow> entry \<Rightarrow> reconciled op" where
  "reconcile_one sha find_commit moment i e =
     (let finalize = andthen (finalize_resolve sha i (p_target e) (token_of e)) (\<lambda>_. done_op RCommitted);
          search = andthen (done_op (find_commit i e)) (\<lambda>r. case r of
              Found \<Rightarrow> finalize
            | _ \<Rightarrow> andthen (emit [PutClaimed i (Doc (e\<lparr>p_reconcile := Some (reconcile_reason r, moment)\<rparr>))])
                (\<lambda>_. done_op RUncertain))
      in case p_outcome e of
           Some (Committed c, t) \<Rightarrow> finalize
         | Some (Failed r, t) \<Rightarrow> andthen (restore_resolve i (token_of e)) (\<lambda>_. done_op RRestored)
         | _ \<Rightarrow> search)"

text \<open>One claim of the sweep: \<^const>\<open>None\<close> when it is skipped (gone, or too young).\<close>

definition drop_legacy_text :: "(string \<Rightarrow> string) \<Rightarrow> string \<Rightarrow> entry \<Rightarrow> entry op" where
  "drop_legacy_text sha i e = (case p_effective e of
      None \<Rightarrow> done_op e
    | Some t \<Rightarrow> (let e' = e\<lparr>p_effective := None, p_effective_sha := Some (sha t)\<rparr>
                 in andthen (emit [PutClaimed i (Doc e')]) (\<lambda>_. done_op e')))"

definition claim_age_ok :: "time \<Rightarrow> time \<Rightarrow> entry \<Rightarrow> bool" where
  "claim_age_ok min_age moment e \<longleftrightarrow>
     moment - (case p_claim e of None \<Rightarrow> 0 | Some c \<Rightarrow> (case claimed_at c of None \<Rightarrow> 0 | Some t \<Rightarrow> t)) \<ge> min_age"

definition reconcile_name ::
  "(string \<Rightarrow> string) \<Rightarrow> (string \<Rightarrow> entry \<Rightarrow> search) \<Rightarrow> time \<Rightarrow> time \<Rightarrow> string \<Rightarrow> reconciled option op" where
  "reconcile_name sha find_commit min_age moment i d =
     (case read_claim i d of
        (Inl (RecordUnreadable _), es) \<Rightarrow> (Inr (Some RUncertain), es)
      | (Inl _, es) \<Rightarrow> (Inr None, es)
      | (Inr e, es) \<Rightarrow>
          (if \<not> claim_age_ok min_age moment e then (Inr None, [])
           else andthen (drop_legacy_text sha i e)
             (\<lambda>e'. andthen (reconcile_one sha find_commit moment i e') (\<lambda>r. done_op (Some r))) d))"

text \<open>The sweep over the claimed files, in the order of their names; an exception ends it.\<close>

fun reconcile_names ::
  "(string \<Rightarrow> string) \<Rightarrow> (string \<Rightarrow> entry \<Rightarrow> search) \<Rightarrow> time \<Rightarrow> time \<Rightarrow> string list \<Rightarrow> (string \<times> reconciled) list op" where
  "reconcile_names sha fc min_age moment [] = done_op []"
| "reconcile_names sha fc min_age moment (i # is) =
     andthen (reconcile_name sha fc min_age moment i) (\<lambda>r.
       andthen (reconcile_names sha fc min_age moment is) (\<lambda>rs.
         done_op ((case r of None \<Rightarrow> [] | Some x \<Rightarrow> [(i, x)]) @ rs)))"

definition reconcile_claims ::
  "(string \<Rightarrow> string) \<Rightarrow> (string \<Rightarrow> entry \<Rightarrow> search) \<Rightarrow> time \<Rightarrow> time \<Rightarrow> (string \<times> reconciled) list op" where
  "reconcile_claims sha fc min_age moment d = reconcile_names sha fc min_age moment (listdir (claimed d)) d"

definition claims_at_risk :: "string \<Rightarrow> disk \<Rightarrow> string list" where
  "claims_at_risk ref d =
     (if ref = '''' then []
      else filter (\<lambda>i. case dget (claimed d) i of
          None \<Rightarrow> False | Some DamagedDoc \<Rightarrow> True
        | Some (Doc e) \<Rightarrow> (case p_context e of None \<Rightarrow> False | Some c \<Rightarrow> session_ref c = ref)) (listdir (claimed d)))"

subsection \<open>Collecting locks\<close>

definition lock_holder_is :: "string \<Rightarrow> string \<Rightarrow> disk \<Rightarrow> bool" where
  "lock_holder_is n holder d \<longleftrightarrow>
     (case dget (locks d) n of Some (Lock k) \<Rightarrow> k_holder k = holder | _ \<Rightarrow> False)"

definition gc_name :: "string \<Rightarrow> bool op" where
  "gc_name n d = (case dget (locks d) n of
      Some (Lock k) \<Rightarrow>
        (if valid_pid (k_holder k) \<and> dget (live d) (k_holder k) = None \<and> dget (claimed d) (k_holder k) = None
            \<and> lock_holder_is n (k_holder k) d
         then (Inr True, [DelLock n]) else (Inr False, []))
    | _ \<Rightarrow> (Inr False, []))"

definition is_auto_commit_lock :: "lock_info \<Rightarrow> bool" where
  "is_auto_commit_lock k = (case k_kind k of Some kind \<Rightarrow> kind = ''auto_commit''
     | None \<Rightarrow> starts_with ''auto-commit:'' (k_holder k))"

text \<open>A lock without a usable time goes only in the unconditional sweep.\<close>

definition reclaim_name :: "(string \<Rightarrow> string) \<Rightarrow> time \<Rightarrow> time \<Rightarrow> string \<Rightarrow> bool op" where
  "reclaim_name sha max_age now n d = (case dget (locks d) n of
      Some (Lock k) \<Rightarrow>
        (if \<not> is_auto_commit_lock k then (Inr False, [])
         else case k_target k of None \<Rightarrow> (Inr False, [])
           | Some target \<Rightarrow>
              (case k_acquired k of
                 None \<Rightarrow> (if max_age > 0 then (Inr False, []) else (Inr True, [DelLock n]))
               | Some a \<Rightarrow> (if now - a \<le> max_age then (Inr False, []) else release_lock sha target (Some a) d)))
    | _ \<Rightarrow> (Inr False, []))"

fun count_names :: "(string \<Rightarrow> bool op) \<Rightarrow> string list \<Rightarrow> nat op" where
  "count_names f [] = done_op 0"
| "count_names f (n # ns) = andthen (f n) (\<lambda>b. andthen (count_names f ns) (\<lambda>c. done_op (if b then c + 1 else c)))"

text \<open>\<open>names\<close> is the order of \<^verbatim>\<open>os.listdir\<close>, which is arbitrary.\<close>

definition gc_orphan_locks :: "string list \<Rightarrow> nat op" where
  "gc_orphan_locks ns = count_names gc_name ns"

definition reclaim_stale_auto_commit_locks :: "(string \<Rightarrow> string) \<Rightarrow> time \<Rightarrow> time \<Rightarrow> string list \<Rightarrow> nat op" where
  "reclaim_stale_auto_commit_locks sha max_age now ns = count_names (reclaim_name sha max_age now) ns"

definition reclaim_tmp :: "time \<Rightarrow> time \<Rightarrow> string \<Rightarrow> bool op" where
  "reclaim_tmp max_age now n d =
     (if ends_with ''.lock'' n \<or> \<not> contains ''.tmp.'' n then (Inr False, [])
      else case dget (tmps d) n of None \<Rightarrow> (Inr False, [])
        | Some mtime \<Rightarrow> (if now - mtime < max_age then (Inr False, []) else (Inr True, [DelTmp n])))"

definition reclaim_stale_lock_tmpfiles :: "time \<Rightarrow> time \<Rightarrow> string list \<Rightarrow> nat op" where
  "reclaim_stale_lock_tmpfiles max_age now ns = count_names (reclaim_tmp max_age now) ns"

definition locks_held :: "disk \<Rightarrow> nat" where
  "locks_held d = length (listdir (locks d))"

end
