(* ===== verification/PendingDisk.thy ===== *)
theory PendingDisk
  imports Pending
begin

text \<open>
  The invariant of the pending queue's disk, and the proof that every operation keeps it after
  every prefix of its effects, that is, wherever a crash falls. The invariant is stated over the
  decisions that have been committed (\<open>comm\<close>), the ids in use (\<open>us\<close>) and the clock (\<open>now\<close>).
\<close>

definition after :: "'a op \<Rightarrow> disk \<Rightarrow> disk" where
  "after m d = applys (snd (m d)) d"

definition crashed_in :: "nat \<Rightarrow> 'a op \<Rightarrow> disk \<Rightarrow> disk" where
  "crashed_in k m d = applys (take k (snd (m d))) d"

subsection \<open>The invariant of the disk\<close>

definition locked_for :: "(string \<Rightarrow> string) \<Rightarrow> disk \<Rightarrow> string \<Rightarrow> entry \<Rightarrow> bool" where
  "locked_for sha d i e \<longleftrightarrow> (\<exists>k. dget (locks d) (lock_name sha (p_target e)) = Some (Lock k)
     \<and> k_holder k = i \<and> k_kind k = Some ''pending'')"

definition outcome_ok :: "string set \<Rightarrow> string \<Rightarrow> entry \<Rightarrow> bool" where
  "outcome_ok comm i e \<longleftrightarrow> (p_outcome e \<noteq> None \<longrightarrow> p_claim e \<noteq> None) \<and> (case p_outcome e of
      Some (Committed c, t) \<Rightarrow> i \<in> comm | Some (Failed r, t) \<Rightarrow> i \<notin> comm | _ \<Rightarrow> True)"

definition failed :: "entry \<Rightarrow> bool" where
  "failed e \<longleftrightarrow> (\<exists>r t. p_outcome e = Some (Failed r, t))"

definition entries_ok :: "(string \<Rightarrow> string) \<Rightarrow> string set \<Rightarrow> disk \<Rightarrow> bool" where
  "entries_ok sha us d \<longleftrightarrow> (\<forall>i doc. dget (live d) i = Some doc \<or> dget (claimed d) i = Some doc \<longrightarrow>
     (\<exists>e. doc = Doc e \<and> i \<in> us \<and> valid_pid i \<and> locked_for sha d i e))"

definition live_ok :: "string set \<Rightarrow> disk \<Rightarrow> bool" where
  "live_ok comm d \<longleftrightarrow> (\<forall>i e. dget (live d) i = Some (Doc e) \<longrightarrow> i \<notin> comm \<and> p_outcome e = None)"

definition claims_ok :: "string set \<Rightarrow> disk \<Rightarrow> bool" where
  "claims_ok comm d \<longleftrightarrow> (\<forall>i e. dget (claimed d) i = Some (Doc e) \<longrightarrow> outcome_ok comm i e)"

definition lock_ok :: "(string \<Rightarrow> string) \<Rightarrow> time \<Rightarrow> string \<Rightarrow> lock_doc \<Rightarrow> bool" where
  "lock_ok sha now n doc \<longleftrightarrow> (\<exists>k t a. doc = Lock k \<and> k_target k = Some t \<and> n = lock_name sha t
     \<and> k_acquired k = Some a \<and> a \<le> now \<and> k_kind k \<in> {Some ''pending'', Some ''auto_commit''})"

definition locks_ok :: "(string \<Rightarrow> string) \<Rightarrow> time \<Rightarrow> disk \<Rightarrow> bool" where
  "locks_ok sha now d \<longleftrightarrow> (\<forall>n doc. dget (locks d) n = Some doc \<longrightarrow> lock_ok sha now n doc)"

definition disk_inv :: "(string \<Rightarrow> string) \<Rightarrow> string set \<Rightarrow> string set \<Rightarrow> time \<Rightarrow> disk \<Rightarrow> bool" where
  "disk_inv sha comm us now d \<longleftrightarrow> entries_ok sha us d \<and> live_ok comm d \<and> claims_ok comm d \<and> locks_ok sha now d"

lemmas disk_inv_defs = disk_inv_def entries_ok_def live_ok_def claims_ok_def locks_ok_def

definition at_entry :: "disk \<Rightarrow> string \<Rightarrow> entry \<Rightarrow> bool" where
  "at_entry d i e \<longleftrightarrow> dget (live d) i = Some (Doc e) \<or> dget (claimed d) i = Some (Doc e)"

lemma disk_inv_entry: "disk_inv sha comm us now d \<Longrightarrow> at_entry d i e \<Longrightarrow> i \<in> us \<and> valid_pid i \<and> locked_for sha d i e"
  by (fastforce simp: disk_inv_def entries_ok_def at_entry_def)

lemma disk_inv_live: "disk_inv sha comm us now d \<Longrightarrow> dget (live d) i = Some doc \<Longrightarrow>
   \<exists>e. doc = Doc e \<and> i \<in> us \<and> valid_pid i \<and> i \<notin> comm \<and> p_outcome e = None \<and> locked_for sha d i e"
  unfolding disk_inv_def entries_ok_def live_ok_def by blast

lemma disk_inv_claimed: "disk_inv sha comm us now d \<Longrightarrow> dget (claimed d) i = Some doc \<Longrightarrow>
   \<exists>e. doc = Doc e \<and> i \<in> us \<and> valid_pid i \<and> outcome_ok comm i e \<and> locked_for sha d i e"
  unfolding disk_inv_def entries_ok_def claims_ok_def by blast

lemma disk_inv_lock: "disk_inv sha comm us now d \<Longrightarrow> dget (locks d) n = Some doc \<Longrightarrow> lock_ok sha now n doc"
  unfolding disk_inv_def locks_ok_def by blast

lemma disk_invI:
  assumes "\<And>i doc. dget (live d) i = Some doc \<Longrightarrow>
      \<exists>e. doc = Doc e \<and> i \<in> us \<and> valid_pid i \<and> i \<notin> comm \<and> p_outcome e = None \<and> locked_for sha d i e"
    and "\<And>i doc. dget (claimed d) i = Some doc \<Longrightarrow>
      \<exists>e. doc = Doc e \<and> i \<in> us \<and> valid_pid i \<and> outcome_ok comm i e \<and> locked_for sha d i e"
    and "\<And>n doc. dget (locks d) n = Some doc \<Longrightarrow> lock_ok sha now n doc"
  shows "disk_inv sha comm us now d"
proof -
  have "entries_ok sha us d" unfolding entries_ok_def
  proof (intro allI impI, elim disjE)
    fix i doc assume "dget (live d) i = Some doc"
    from assms(1)[OF this] show "\<exists>e. doc = Doc e \<and> i \<in> us \<and> valid_pid i \<and> locked_for sha d i e" by blast
  next
    fix i doc assume "dget (claimed d) i = Some doc"
    from assms(2)[OF this] show "\<exists>e. doc = Doc e \<and> i \<in> us \<and> valid_pid i \<and> locked_for sha d i e" by blast
  qed
  moreover have "live_ok comm d" unfolding live_ok_def using assms(1) by fastforce
  moreover have "claims_ok comm d" unfolding claims_ok_def using assms(2) by fastforce
  moreover have "locks_ok sha now d" unfolding locks_ok_def using assms(3) by blast
  ultimately show ?thesis by (simp add: disk_inv_def)
qed

subsection \<open>Effects keep the invariant of the disk\<close>

lemma locked_for_simps [simp]:
  "locked_for sha (d\<lparr>live := x\<rparr>) i e = locked_for sha d i e" "locked_for sha (d\<lparr>claimed := x\<rparr>) i e = locked_for sha d i e"
  "locked_for sha (d\<lparr>restoring := x\<rparr>) i e = locked_for sha d i e" "locked_for sha (d\<lparr>tmps := y\<rparr>) i e = locked_for sha d i e"
  by (simp_all add: locked_for_def)

lemma disk_inv_mono: "disk_inv sha comm us now d \<Longrightarrow> us \<subseteq> us' \<Longrightarrow> now \<le> now' \<Longrightarrow> disk_inv sha comm us' now' d"
  unfolding disk_inv_defs lock_ok_def by (meson order_trans subsetD)

lemma inv_scratch [simp]:
  "disk_inv sha comm us now (d\<lparr>tmps := x\<rparr>) = disk_inv sha comm us now d"
  "disk_inv sha comm us now (d\<lparr>restoring := y\<rparr>) = disk_inv sha comm us now d"
  "disk_inv sha comm us now (d\<lparr>tmps := x, locks := l\<rparr>) = disk_inv sha comm us now (d\<lparr>locks := l\<rparr>)"
  by (simp_all add: disk_inv_defs locked_for_def)

lemma inv_put_claimed:
  assumes "disk_inv sha comm us now d" and "at_entry d i e" and "p_target e' = p_target e" and "outcome_ok comm i e'"
  shows "disk_inv sha comm us now (apply_effect (PutClaimed i (Doc e')) d)"
proof -
  have "locked_for sha d i e'" using disk_inv_entry[OF assms(1,2)] assms(3) by (simp add: locked_for_def)
  then show ?thesis
    using disk_inv_entry[OF assms(1,2)] assms(4)
    by (intro disk_invI) (auto dest: disk_inv_live[OF assms(1)] disk_inv_claimed[OF assms(1)] disk_inv_lock[OF assms(1)] split: if_splits)
qed

lemma inv_rename_claim:
  assumes "disk_inv sha comm us now d"
  shows "disk_inv sha comm us now (apply_effect (RenameClaim i) d)"
proof (cases "dget (live d) i")
  case None
  then show ?thesis using assms by simp
next
  case (Some doc)
  then obtain e where "doc = Doc e" "i \<in> us" "valid_pid i" "p_outcome e = None" "locked_for sha d i e"
    using disk_inv_live[OF assms] by blast
  then show ?thesis
    using Some by (intro disk_invI) (auto simp: outcome_ok_def dest: disk_inv_live[OF assms] disk_inv_claimed[OF assms] disk_inv_lock[OF assms] split: if_splits)
qed

lemma inv_del_claimed: "disk_inv sha comm us now d \<Longrightarrow> disk_inv sha comm us now (apply_effect (DelClaimed i) d)"
  by (intro disk_invI) (auto dest: disk_inv_live disk_inv_claimed disk_inv_lock split: if_splits)

lemma inv_del_lock:
  assumes "disk_inv sha comm us now d" and "\<And>i e. at_entry d i e \<Longrightarrow> lock_name sha (p_target e) \<noteq> n"
  shows "disk_inv sha comm us now (apply_effect (DelLock n) d)"
proof -
  have l: "at_entry d i e \<Longrightarrow> locked_for sha (d\<lparr>locks := dpop n (locks d)\<rparr>) i e" for i e
    using disk_inv_entry[OF assms(1)] assms(2) by (fastforce simp: locked_for_def)
  show ?thesis
  proof (rule disk_invI)
    fix i doc assume "dget (live (apply_effect (DelLock n) d)) i = Some doc"
    then show "\<exists>e. doc = Doc e \<and> i \<in> us \<and> valid_pid i \<and> i \<notin> comm \<and> p_outcome e = None \<and> locked_for sha (apply_effect (DelLock n) d) i e"
      using disk_inv_live[OF assms(1), of i doc] l by (auto simp: at_entry_def)
  next
    fix i doc assume "dget (claimed (apply_effect (DelLock n) d)) i = Some doc"
    then show "\<exists>e. doc = Doc e \<and> i \<in> us \<and> valid_pid i \<and> outcome_ok comm i e \<and> locked_for sha (apply_effect (DelLock n) d) i e"
      using disk_inv_claimed[OF assms(1), of i doc] l by (auto simp: at_entry_def)
  qed (auto dest: disk_inv_lock[OF assms(1)] split: if_splits)
qed

lemma inv_link_lock:
  assumes "disk_inv sha comm us now d" and "dget (locks d) n = None" and "lock_ok sha now n doc"
  shows "disk_inv sha comm us now (apply_effect (LinkLock n doc) d)"
proof -
  have l: "locked_for sha d i e \<Longrightarrow> locked_for sha (d\<lparr>locks := dset n doc (locks d)\<rparr>) i e" for i e
    using assms(2) by (auto simp: locked_for_def)
  show ?thesis
  proof (rule disk_invI)
    fix i doc' assume "dget (live (apply_effect (LinkLock n doc) d)) i = Some doc'"
    then show "\<exists>e. doc' = Doc e \<and> i \<in> us \<and> valid_pid i \<and> i \<notin> comm \<and> p_outcome e = None \<and> locked_for sha (apply_effect (LinkLock n doc) d) i e"
      using disk_inv_live[OF assms(1), of i doc'] l by auto
  next
    fix i doc' assume "dget (claimed (apply_effect (LinkLock n doc) d)) i = Some doc'"
    then show "\<exists>e. doc' = Doc e \<and> i \<in> us \<and> valid_pid i \<and> outcome_ok comm i e \<and> locked_for sha (apply_effect (LinkLock n doc) d) i e"
      using disk_inv_claimed[OF assms(1), of i doc'] l by auto
  qed (use assms(3) in \<open>auto dest: disk_inv_lock[OF assms(1)] split: if_splits\<close>)
qed

lemma inv_put_live:
  assumes "disk_inv sha comm us now d" and "i \<in> us" and "valid_pid i" and "i \<notin> comm" and "p_outcome e = None"
    and "locked_for sha d i e"
  shows "disk_inv sha comm us now (d\<lparr>live := dset i (Doc e) (live d)\<rparr>)"
  using assms by (intro disk_invI)
    (auto dest: disk_inv_live[OF assms(1)] disk_inv_claimed[OF assms(1)] disk_inv_lock[OF assms(1)] split: if_splits)

subsection \<open>Prefixes of operations\<close>

fun keeps_list :: "(disk \<Rightarrow> bool) \<Rightarrow> effect list \<Rightarrow> disk \<Rightarrow> bool" where
  "keeps_list I [] d = I d"
| "keeps_list I (e # es) d = (I d \<and> keeps_list I es (apply_effect e d))"

lemma applys_simps [simp]: "applys [] d = d" "applys (e # es) d = applys es (apply_effect e d)"
  "applys (es @ fs) d = applys fs (applys es d)"
  by (simp_all add: applys_def)

lemma keeps_list_take: "keeps_list I es d \<Longrightarrow> I (applys (take k es) d)"
  by (induction es arbitrary: d k) (auto simp: take_Cons split: nat.splits)

lemma keeps_list_all: "keeps_list I es d \<Longrightarrow> I (applys es d)"
  using keeps_list_take[of I es d "length es"] by simp

lemma keeps_list_append: "keeps_list I es d \<Longrightarrow> keeps_list I fs (applys es d) \<Longrightarrow> keeps_list I (es @ fs) d"
  by (induction es arbitrary: d) auto

lemma andthen_effects: "snd (andthen m f d) = (case fst (m d) of Inl e \<Rightarrow> snd (m d)
   | Inr x \<Rightarrow> snd (m d) @ snd (f x (applys (snd (m d)) d)))"
  and andthen_result: "fst (andthen m f d) = (case fst (m d) of Inl e \<Rightarrow> Inl e
   | Inr x \<Rightarrow> fst (f x (applys (snd (m d)) d)))"
  by (auto simp: andthen_def split: prod.splits sum.splits)

lemma op_simps [simp]: "done_op x d = (Inr x, [])" "raise e d = (Inl e, [])" "emit es d = (Inr (), es)"
  by (simp_all add: done_op_def raise_def emit_def)

named_theorems op_effects \<open>the result and the effects of the operations on a state that satisfies the invariant\<close>

lemma claim_absent: "\<not> valid_pid i \<or> dget (live d) i = None \<Longrightarrow> claim i tok now d = (Inl (NotFound i), [])"
  by (auto simp: claim_def)

definition stamped :: "string \<Rightarrow> time \<Rightarrow> entry \<Rightarrow> entry" where
  "stamped tok now e = e\<lparr>p_claim := Some \<lparr>claim_token = tok, claimed_at = Some now\<rparr>\<rparr>"

lemma claim_present: "valid_pid i \<Longrightarrow> dget (live d) i = Some (Doc e) \<Longrightarrow>
   claim i tok now d = (Inr (stamped tok now e), [RenameClaim i, PutClaimed i (Doc (stamped tok now e))])"
  by (simp add: claim_def andthen_def claim_rename_def stamp_claim_def Let_def stamped_def)

lemma stamped_simps [simp]: "p_target (stamped tok now e) = p_target e" "p_outcome (stamped tok now e) = p_outcome e"
  "token_of (stamped tok now e) = Some tok"
  by (simp_all add: stamped_def token_of_def)

definition owned :: "(string \<Rightarrow> string) \<Rightarrow> string \<Rightarrow> string \<Rightarrow> disk \<Rightarrow> bool" where
  "owned sha target i d \<longleftrightarrow> (\<exists>k. dget (locks d) (lock_name sha target) = Some (Lock k) \<and> k_holder k = i)"

lemma finish_effects: "finish_claim sha i target d =
   (Inr (), DelClaimed i # (if owned sha target i d then [DelLock (lock_name sha target)] else []))"
  by (auto simp: finish_claim_def andthen_def release_lock_owned_by_def release_lock_def owned_def Let_def split: option.splits lock_doc.splits)

lemma fenced_claim_eq: "fenced_claim i (Some tok) d = (case dget (claimed d) i of
     None \<Rightarrow> (Inl (Fenced i), []) | Some DamagedDoc \<Rightarrow> (Inl (RecordUnreadable i), [])
   | Some (Doc e) \<Rightarrow> (if token_of e = Some tok then (Inr e, []) else (Inl (Fenced (p_id e)), [])))"
  by (auto simp: fenced_claim_def andthen_def read_claim_def check_token_def split: option.splits entry_doc.splits)

text \<open>The claim that a fenced call may act on.\<close>

definition fences :: "disk \<Rightarrow> string \<Rightarrow> string \<Rightarrow> entry \<Rightarrow> bool" where
  "fences d i tok e \<longleftrightarrow> dget (claimed d) i = Some (Doc e) \<and> token_of e = Some tok"

lemma fenced_ok: "fences d i tok e \<Longrightarrow> fenced_claim i (Some tok) d = (Inr e, [])"
  by (simp add: fenced_claim_eq fences_def)

lemma fenced_off: "\<nexists>e. fences d i tok e \<Longrightarrow> \<exists>x. fenced_claim i (Some tok) d = (Inl x, [])"
  by (auto simp: fenced_claim_eq fences_def split: option.splits entry_doc.splits)

lemma fenced_effects:
  "fences d i tok e \<Longrightarrow> snd (andthen (fenced_claim i (Some tok)) f d) = snd (f e d)"
  "\<nexists>e. fences d i tok e \<Longrightarrow> snd (andthen (fenced_claim i (Some tok)) f d) = []"
  using fenced_ok[of d i tok e] fenced_off[of d i tok] by (auto simp: andthen_effects)

text \<open>C21. A fenced call is fenced: with a token that is not the one on disk, recording a context or an
  outcome, finalizing and restoring have no effect at all and report an error.\<close>

theorem fenced_calls_change_nothing:
  assumes "\<forall>e. dget (claimed d) i = Some (Doc e) \<longrightarrow> token_of e \<noteq> Some tok"
  shows "snd (record_write_context i (Some tok) ref base d) = [] \<and> snd (record_outcome i (Some tok) c f u now d) = []
    \<and> snd (finalize_resolve sha i target (Some tok) d) = [] \<and> snd (restore_resolve i (Some tok) d) = []
    \<and> (\<exists>x. fst (finalize_resolve sha i target (Some tok) d) = Inl x) \<and> (\<exists>x. fst (restore_resolve i (Some tok) d) = Inl x)"
proof -
  have n: "\<nexists>e. fences d i tok e" using assms by (simp add: fences_def)
  then obtain x where x: "fenced_claim i (Some tok) d = (Inl x, [])" using fenced_off by blast
  show ?thesis
    using fenced_effects(2)[OF n] x
    by (simp add: record_write_context_def record_outcome_def finalize_resolve_def restore_resolve_def andthen_def)
qed

theorem fenced_calls_change_nothing_witness:
  "snd (restore_resolve ''i'' (Some ''old'')
     \<lparr>live = [], claimed = [(''i'', Doc \<lparr>p_id = ''i'', p_type = ''edit'', p_target = ''a'', p_postimage = [], p_base_commit = [],
        p_base_blob = None, p_file_hash = None, p_meta = [], p_enqueued_at = 0, p_claim = Some \<lparr>claim_token = ''new'', claimed_at = None\<rparr>,
        p_context = None, p_outcome = None, p_reconcile = None, p_effective = None, p_effective_sha = None\<rparr>)],
      restoring = [], locks = [], tmps = []\<rparr>) = []"
  (is "snd (restore_resolve _ _ ?d) = []")
proof -
  have "\<forall>e. dget (claimed ?d) ''i'' = Some (Doc e) \<longrightarrow> token_of e \<noteq> Some ''old''" by (simp add: token_of_def)
  from fenced_calls_change_nothing[OF this] show ?thesis by blast
qed

subsection \<open>The operations keep the invariant in every prefix\<close>

lemma keeps_claim:
  assumes "disk_inv sha comm us now d" shows "keeps_list (disk_inv sha comm us now) (snd (claim i tok t d)) d"
proof (cases "valid_pid i \<and> dget (live d) i \<noteq> None")
  case True
  then obtain e where e: "dget (live d) i = Some (Doc e)" "p_outcome e = None" using disk_inv_live[OF assms] by blast
  have "disk_inv sha comm us now (apply_effect (RenameClaim i) d)" by (rule inv_rename_claim[OF assms])
  moreover have "at_entry (apply_effect (RenameClaim i) d) i e" using e(1) by (simp add: at_entry_def)
  ultimately have "disk_inv sha comm us now (apply_effect (PutClaimed i (Doc (stamped tok t e))) (apply_effect (RenameClaim i) d))"
    by (rule inv_put_claimed) (simp_all add: outcome_ok_def e(2))
  then show ?thesis using True e(1) assms inv_rename_claim[OF assms, of i] claim_present[of i d e tok t] by simp
next
  case False
  then show ?thesis using claim_absent[of i d tok t] assms by auto
qed

lemma after_claim:
  assumes "disk_inv sha comm us now d" and "fst (claim i tok t d) = Inr e'"
  shows "\<exists>e. dget (live d) i = Some (Doc e) \<and> valid_pid i \<and> e' = stamped tok t e \<and> p_outcome e = None
     \<and> applys (snd (claim i tok t d)) d = d\<lparr>live := dpop i (live d), claimed := dset i (Doc e') (dset i (Doc e) (claimed d))\<rparr>"
proof -
  have "valid_pid i \<and> dget (live d) i \<noteq> None" using assms(2) claim_absent[of i d tok t] by fastforce
  then obtain e where e: "dget (live d) i = Some (Doc e)" "p_outcome e = None" "valid_pid i"
    using disk_inv_live[OF assms(1)] by blast
  then show ?thesis using claim_present[of i d e tok t] assms(2) by auto
qed

lemma inv_release_owned:
  assumes "disk_inv sha comm us now d" and "dget (live d) i = None" and "dget (claimed d) i = None" and "owned sha target i d"
  shows "disk_inv sha comm us now (apply_effect (DelLock (lock_name sha target)) d)"
proof (rule inv_del_lock[OF assms(1)])
  fix j e assume "at_entry d j e"
  then have "j \<noteq> i" "locked_for sha d j e" using assms(2,3) disk_inv_entry[OF assms(1)] by (auto simp: at_entry_def)
  then show "lock_name sha (p_target e) \<noteq> lock_name sha target"
    using assms(4) by (auto simp: locked_for_def owned_def)
qed

lemma keeps_finish:
  assumes "disk_inv sha comm us now d" and "dget (live d) i = None"
  shows "keeps_list (disk_inv sha comm us now) (snd (finish_claim sha i target d)) d"
proof -
  have a: "disk_inv sha comm us now (apply_effect (DelClaimed i) d)" by (rule inv_del_claimed[OF assms(1)])
  moreover have "disk_inv sha comm us now (apply_effect (DelLock (lock_name sha target)) (apply_effect (DelClaimed i) d))"
    if "owned sha target i d"
    by (rule inv_release_owned[OF a]) (use assms(2) that in \<open>auto simp: owned_def\<close>)
  ultimately show ?thesis using assms(1) by (simp add: finish_effects)
qed

lemma keeps_consume:
  assumes "disk_inv sha comm us now d"
  shows "keeps_list (disk_inv sha comm us now) (snd (approve sha i edited tok t d)) d"
    and "keeps_list (disk_inv sha comm us now) (snd (reject sha i tok t d)) d"
proof -
  have f: "keeps_list (disk_inv sha comm us now) (snd (finish_claim sha i target d')) d'"
    if "fst (claim i tok t d) = Inr e" "d' = applys (snd (claim i tok t d)) d" for e target d'
    using keeps_finish[of sha comm us now d' i target] keeps_list_all[OF keeps_claim[OF assms, of i tok t]]
      after_claim[OF assms that(1)] that(2) by auto
  show "keeps_list (disk_inv sha comm us now) (snd (approve sha i edited tok t d)) d"
    "keeps_list (disk_inv sha comm us now) (snd (reject sha i tok t d)) d"
    using keeps_claim[OF assms, of i tok t] f
    by (auto simp: approve_def reject_def andthen_effects split: sum.splits intro!: keeps_list_append)
qed

lemma keeps_claim_for_resolve:
  assumes "disk_inv sha comm us now d"
  shows "keeps_list (disk_inv sha comm us now) (snd (claim_for_resolve sha i edited tok t d)) d"
proof (cases "fst (claim i tok t d)")
  case (Inl x)
  then show ?thesis using keeps_claim[OF assms, of i tok t] by (simp add: claim_for_resolve_def andthen_effects)
next
  case (Inr e')
  let ?d = "applys (snd (claim i tok t d)) d"
  have inv: "disk_inv sha comm us now ?d" by (rule keeps_list_all[OF keeps_claim[OF assms]])
  from after_claim[OF assms Inr] have "at_entry ?d i e'" "p_outcome e' = None" by (auto simp: at_entry_def)
  then have "disk_inv sha comm us now (apply_effect (PutClaimed i (Doc (e'\<lparr>p_effective_sha := x\<rparr>))) ?d)" for x
    by (intro inv_put_claimed[OF inv]) (auto simp: outcome_ok_def)
  then show ?thesis
    using keeps_claim[OF assms, of i tok t] Inr inv
    by (auto simp: claim_for_resolve_def andthen_effects split: option.splits intro!: keeps_list_append)
qed

lemma keeps_put_claimed:
  assumes "disk_inv sha comm us now d" and "dget (claimed d) i = Some (Doc e)" and "p_target e' = p_target e" and "outcome_ok comm i e'"
  shows "keeps_list (disk_inv sha comm us now) [PutClaimed i (Doc e')] d"
  using inv_put_claimed[OF assms(1), of i e e'] assms by (simp add: at_entry_def)

lemma fenced_cases:
  assumes "\<And>e. fences d i tok e \<Longrightarrow> keeps_list P (snd (f e d)) d" and "P d"
  shows "keeps_list P (snd (andthen (fenced_claim i (Some tok)) f d)) d"
proof (cases "\<exists>e. fences d i tok e")
  case True
  then obtain e where "fences d i tok e" by blast
  then show ?thesis using fenced_effects(1)[of d i tok e f] assms(1) by simp
next
  case False
  then show ?thesis using fenced_effects(2)[of d i tok f] assms(2) by simp
qed

lemma keeps_context:
  assumes "disk_inv sha comm us now d"
  shows "keeps_list (disk_inv sha comm us now) (snd (record_write_context i (Some tok) ref base d)) d"
  unfolding record_write_context_def
proof (rule fenced_cases[where P = "disk_inv sha comm us now"])
  fix e assume f: "fences d i tok e"
  then have "outcome_ok comm i e" using disk_inv_claimed[OF assms, of i "Doc e"] by (auto simp: fences_def)
  then show "keeps_list (disk_inv sha comm us now)
      (snd (emit [PutClaimed i (Doc (e\<lparr>p_context := Some \<lparr>session_ref = ref, pre_write_ref_sha = base\<rparr>\<rparr>))] d)) d"
    using keeps_put_claimed[OF assms, of i e] f by (simp add: fences_def outcome_ok_def)
qed (rule assms)

lemma keeps_outcome:
  assumes "disk_inv sha comm us now d" and "c \<noteq> None \<longrightarrow> i \<in> comm" and "f \<noteq> None \<longrightarrow> i \<notin> comm"
  shows "keeps_list (disk_inv sha comm us now) (snd (record_outcome i (Some tok) c f u t d)) d"
proof (cases "length (filter (\<lambda>x. x \<noteq> None) [c, f, u]) \<noteq> 1")
  case True
  then show ?thesis using assms(1) by (simp add: record_outcome_def)
next
  case False
  define o' where "o' = (case c of Some s \<Rightarrow> Committed s | None \<Rightarrow> (case f of Some r \<Rightarrow> Failed r | None \<Rightarrow> Unknown (the u)))"
  have r: "record_outcome i (Some tok) c f u t d
      = andthen (fenced_claim i (Some tok)) (\<lambda>e. emit [PutClaimed i (Doc (e\<lparr>p_outcome := Some (o', t)\<rparr>))]) d"
    using False by (simp add: record_outcome_def o'_def Let_def)
  show ?thesis
    unfolding r
  proof (rule fenced_cases[where P = "disk_inv sha comm us now"])
    fix e assume f: "fences d i tok e"
    then have "p_claim e \<noteq> None" by (auto simp: fences_def token_of_def)
    moreover note f
    moreover have "outcome_ok comm i (e\<lparr>p_outcome := Some (o', t)\<rparr>)"
      using assms(2,3) \<open>p_claim e \<noteq> None\<close> by (auto simp: outcome_ok_def o'_def split: option.splits)
    ultimately show "keeps_list (disk_inv sha comm us now) (snd (emit [PutClaimed i (Doc (e\<lparr>p_outcome := Some (o', t)\<rparr>))] d)) d"
      using keeps_put_claimed[OF assms(1), of i e "e\<lparr>p_outcome := Some (o', t)\<rparr>"] by (simp add: fences_def)
  qed (rule assms(1))
qed

lemma keeps_finalize:
  assumes "disk_inv sha comm us now d" and "\<And>e. fences d i tok e \<Longrightarrow> dget (live d) i = None"
  shows "keeps_list (disk_inv sha comm us now) (snd (finalize_resolve sha i target (Some tok) d)) d"
  unfolding finalize_resolve_def option.case
  by (rule fenced_cases[where P = "disk_inv sha comm us now"]) (rule keeps_finish[OF assms(1)], erule assms(2), rule assms(1))

lemma stripped_simps [simp]: "p_target (stripped e) = p_target e" "p_outcome (stripped e) = None"
  by (simp_all add: stripped_def)

lemma restore_effects: "fences d i tok e \<Longrightarrow>
   restore_resolve i (Some tok) d = (Inr (), [PutRestoring i (Doc (stripped e)), RenamePublish i, DelClaimed i])"
  using fenced_ok[of d i tok e] by (simp add: restore_resolve_def andthen_def)

lemma keeps_restore:
  assumes "disk_inv sha comm us now d" and "\<And>e. fences d i tok e \<Longrightarrow> i \<notin> comm"
  shows "keeps_list (disk_inv sha comm us now) (snd (restore_resolve i (Some tok) d)) d"
proof (cases "\<exists>e. fences d i tok e")
  case True
  then obtain e where e: "fences d i tok e" by blast
  let ?d = "d\<lparr>restoring := dset i (Doc (stripped e)) (restoring d)\<rparr>"
  have c: "dget (claimed d) i = Some (Doc e)" using e by (simp add: fences_def)
  from disk_inv_claimed[OF assms(1) c] have l: "i \<in> us" "valid_pid i" "locked_for sha d i e" by auto
  have p: "disk_inv sha comm us now (d\<lparr>restoring := x, live := dset i (Doc (stripped e)) (live d)\<rparr>)" for x
    using inv_put_live[of sha comm us now "d\<lparr>restoring := x\<rparr>" i "stripped e"] l assms(2)[OF e] assms(1)
    by (simp add: locked_for_def)
  then have "disk_inv sha comm us now (apply_effect (DelClaimed i) (d\<lparr>restoring := x, live := dset i (Doc (stripped e)) (live d)\<rparr>))" for x
    by (rule inv_del_claimed)
  then show ?thesis using restore_effects[OF e] p assms(1) by simp
next
  case False
  then show ?thesis
    unfolding restore_resolve_def option.case using assms(1) by (simp add: fenced_effects(2)[OF False])
qed

lemma keeps_andthen:
  "keeps_list P (snd (m d)) d \<Longrightarrow> (\<And>x. fst (m d) = Inr x \<Longrightarrow> keeps_list P (snd (f x (applys (snd (m d)) d))) (applys (snd (m d)) d))
   \<Longrightarrow> keeps_list P (snd (andthen m f d)) d"
  by (auto simp: andthen_effects split: sum.splits intro: keeps_list_append)

lemma keeps_andthen_done: "keeps_list P (snd (m d)) d \<Longrightarrow> keeps_list P (snd (andthen m (\<lambda>x. done_op (g x)) d)) d"
  by (rule keeps_andthen) (auto dest: keeps_list_all)

lemma keeps_rename_unclaim:
  assumes "disk_inv sha comm us now d" and "\<And>e. dget (claimed d) i = Some (Doc e) \<Longrightarrow> i \<notin> comm \<and> p_outcome e = None"
  shows "disk_inv sha comm us now (apply_effect (RenameUnclaim i) d)"
proof (cases "dget (claimed d) i")
  case None
  then show ?thesis using assms(1) by simp
next
  case (Some doc)
  then obtain e where "doc = Doc e" "i \<in> us" "valid_pid i" "i \<notin> comm" "p_outcome e = None" "locked_for sha d i e"
    using disk_inv_claimed[OF assms(1) Some] assms(2) by blast
  then show ?thesis using Some
    by (intro disk_invI) (auto dest: disk_inv_live[OF assms(1)] disk_inv_claimed[OF assms(1)] disk_inv_lock[OF assms(1)] split: if_splits)
qed

lemma keeps_reconcile_one:
  assumes "disk_inv sha comm us now d" and e: "dget (claimed d) i = Some (Doc e)"
    and found: "fc i e = Found \<Longrightarrow> i \<in> comm"
  shows "keeps_list (disk_inv sha comm us now) (snd (reconcile_one sha fc moment i e d)) d"
proof -
  have o': "outcome_ok comm i e" using disk_inv_claimed[OF assms(1) e] by auto
  have absent: "i \<in> comm \<Longrightarrow> dget (live d) i = None" using disk_inv_live[OF assms(1), of i] by (cases "dget (live d) i") auto
  have fin: "keeps_list (disk_inv sha comm us now) (snd (andthen (finalize_resolve sha i (p_target e) (token_of e)) (\<lambda>_. done_op RCommitted) d)) d"
    if "i \<in> comm"
  proof (rule keeps_andthen_done[where g = "\<lambda>_. RCommitted"], cases "token_of e")
    case None
    then show "keeps_list (disk_inv sha comm us now) (snd (finalize_resolve sha i (p_target e) (token_of e) d)) d"
      using keeps_finish[OF assms(1) absent[OF that]] by (simp add: finalize_resolve_def)
  next
    case (Some tok)
    then show "keeps_list (disk_inv sha comm us now) (snd (finalize_resolve sha i (p_target e) (token_of e) d)) d"
      using keeps_finalize[OF assms(1) absent[OF that], where tok = tok and target = "p_target e"] by simp
  qed
  have unc: "keeps_list (disk_inv sha comm us now) (snd (andthen (emit [PutClaimed i (Doc (e\<lparr>p_reconcile := x\<rparr>))]) (\<lambda>_. done_op RUncertain) d)) d" for x
    using keeps_put_claimed[OF assms(1) e, of "e\<lparr>p_reconcile := x\<rparr>"] o' by (simp add: andthen_effects outcome_ok_def)
  have srch: "keeps_list (disk_inv sha comm us now) (snd (andthen (done_op (fc i e)) (\<lambda>r. case r of
        Found \<Rightarrow> andthen (finalize_resolve sha i (p_target e) (token_of e)) (\<lambda>_. done_op RCommitted)
      | _ \<Rightarrow> andthen (emit [PutClaimed i (Doc (e\<lparr>p_reconcile := Some (reconcile_reason r, moment)\<rparr>))])
                (\<lambda>_. done_op RUncertain)) d)) d"
    using fin found unc by (simp add: andthen_effects[of "done_op (fc i e)"] split: search.split)
  have rest: "keeps_list (disk_inv sha comm us now) (snd (andthen (restore_resolve i (token_of e)) (\<lambda>_. done_op RRestored) d)) d"
    if "p_outcome e = Some (Failed r, t)" for r t
  proof -
    have "i \<notin> comm" "p_claim e \<noteq> None" using o' that by (auto simp: outcome_ok_def)
    moreover obtain tok where "token_of e = Some tok" using calculation(2) by (auto simp: token_of_def)
    ultimately show ?thesis
      using keeps_restore[OF assms(1), of i tok] by (auto intro: keeps_andthen_done[where g = "\<lambda>_. RRestored"])
  qed
  have comm: "i \<in> comm" if "p_outcome e = Some (Committed c, t)" for c t using o' that by (simp add: outcome_ok_def)
  show ?thesis
    using srch rest comm fin by (auto simp: reconcile_one_def Let_def split: option.split prod.split write_outcome.split)
qed

lemma keeps_reconcile_name:
  assumes "disk_inv sha comm us now d" and "\<And>i e. fc i e = Found \<Longrightarrow> i \<in> comm"
  shows "keeps_list (disk_inv sha comm us now) (snd (reconcile_name sha fc min_age moment i d)) d"
proof (cases "dget (claimed d) i")
  case None
  then show ?thesis using assms(1) by (simp add: reconcile_name_def read_claim_def)
next
  case (Some doc)
  then obtain e where e: "doc = Doc e" "outcome_ok comm i e" using disk_inv_claimed[OF assms(1) Some] by blast
  have one: "keeps_list (disk_inv sha comm us now) (snd (andthen (reconcile_one sha fc moment i e') (\<lambda>r. done_op (Some r)) d')) d'"
    if "disk_inv sha comm us now d'" "dget (claimed d') i = Some (Doc e')" for d' e'
    by (rule keeps_andthen_done, rule keeps_reconcile_one[OF that assms(2)])
  have drop: "keeps_list (disk_inv sha comm us now) [PutClaimed i (Doc (e\<lparr>p_effective := None, p_effective_sha := x\<rparr>))] d" for x
    using keeps_put_claimed[OF assms(1), of i e "e\<lparr>p_effective := None, p_effective_sha := x\<rparr>"] Some e by (simp add: outcome_ok_def)
  have "keeps_list (disk_inv sha comm us now) (snd (andthen (drop_legacy_text sha i e)
     (\<lambda>e'. andthen (reconcile_one sha fc moment i e') (\<lambda>r. done_op (Some r))) d)) d"
  proof (cases "p_effective e")
    case None
    then have "drop_legacy_text sha i e d = (Inr e, [])" by (simp add: drop_legacy_text_def)
    then show ?thesis using one[OF assms(1)] Some e(1) by (simp add: andthen_effects[of "drop_legacy_text sha i e"])
  next
    case eff: (Some t)
    let ?e = "e\<lparr>p_effective := None, p_effective_sha := Some (sha t)\<rparr>"
    have m: "drop_legacy_text sha i e d = (Inr ?e, [PutClaimed i (Doc ?e)])"
      using eff by (simp add: drop_legacy_text_def Let_def andthen_def)
    have "keeps_list (disk_inv sha comm us now) (snd (andthen (reconcile_one sha fc moment i ?e) (\<lambda>r. done_op (Some r))
        (applys [PutClaimed i (Doc ?e)] d))) (applys [PutClaimed i (Doc ?e)] d)"
      by (rule one[OF keeps_list_all[OF drop]]) simp
    then show ?thesis
      using keeps_list_append[OF drop] by (simp add: andthen_effects[of "drop_legacy_text sha i e"] m)
  qed
  then show ?thesis using Some e(1) assms(1) by (simp add: reconcile_name_def read_claim_def)
qed

subsection \<open>Locks and enqueueing\<close>

lemma keeps_Nil: "P d \<Longrightarrow> keeps_list P [] d"
  by simp

definition pending_lock :: "string \<Rightarrow> string \<Rightarrow> string option \<Rightarrow> string list option \<Rightarrow> time \<Rightarrow> string \<Rightarrow> lock_doc" where
  "pending_lock i target intent contradicts t kind = Lock \<lparr>k_holder = i, k_target = Some target, k_kind = Some kind,
     k_acquired = Some t, k_intent = intent, k_contradicts = contradicts\<rparr>"

lemma acquire_effects: "acquire_lock sha rand target holder kind intent contradicts now d =
   (let n = lock_name sha target; t = tmp_name sha target rand
    in if dget (locks d) n \<noteq> None then (Inl (PathLockBusy target), [PutTmp t now, DelTmp t])
       else (Inr now, [PutTmp t now, LinkLock n (pending_lock holder target intent contradicts now kind), DelTmp t]))"
  by (simp add: acquire_lock_def pending_lock_def Let_def)

lemma keeps_acquire:
  assumes "disk_inv sha comm us now d" and "t \<le> now" and "kind \<in> {''pending'', ''auto_commit''}"
  shows "keeps_list (disk_inv sha comm us now) (snd (acquire_lock sha rand target holder kind intent contradicts t d)) d"
proof (cases "dget (locks d) (lock_name sha target)")
  case None
  have "lock_ok sha now (lock_name sha target) (pending_lock holder target intent contradicts t kind)"
    using assms(2,3) by (auto simp: lock_ok_def pending_lock_def)
  from inv_link_lock[OF assms(1) None this] show ?thesis
    using None assms(1) by (simp add: acquire_effects Let_def)
next
  case (Some doc)
  then show ?thesis using assms(1) by (simp add: acquire_effects Let_def)
qed

text \<open>The state after a lock was taken for a new id.\<close>

lemma after_acquire:
  assumes "fst (acquire_lock sha rand target i kind intent contradicts t d) = Inr x"
  shows "dget (locks d) (lock_name sha target) = None \<and> x = t
    \<and> dget (locks (applys (snd (acquire_lock sha rand target i kind intent contradicts t d)) d)) (lock_name sha target)
        = Some (pending_lock i target intent contradicts t kind)
    \<and> live (applys (snd (acquire_lock sha rand target i kind intent contradicts t d)) d) = live d
    \<and> claimed (applys (snd (acquire_lock sha rand target i kind intent contradicts t d)) d) = claimed d"
  using assms by (auto simp: acquire_effects Let_def split: if_splits)

lemma new_entry_simps [simp]: "p_target (new_entry i pr now) = pr_target pr" "p_outcome (new_entry i pr now) = None"
  by (simp_all add: new_entry_def)

lemma keeps_publish:
  assumes inv: "disk_inv sha comm us now d" and "i \<in> us" "valid_pid i" "i \<notin> comm"
    and lock: "dget (locks d) (lock_name sha (pr_target pr)) = Some (Lock k)" "k_holder k = i" "k_kind k = Some ''pending''"
    and fresh: "dget (live d) i = None" "dget (claimed d) i = None"
  shows "keeps_list (disk_inv sha comm us now) (snd (publish_entry sha i pr fault t d)) d"
proof -
  have l: "locked_for sha d i (new_entry i pr t)" using lock by (simp add: locked_for_def)
  have p: "disk_inv sha comm us now (d\<lparr>live := dset i (Doc (new_entry i pr t)) (live d)\<rparr>)"
    by (rule inv_put_live[OF inv assms(2-4) _ l]) simp
  have r: "disk_inv sha comm us now (apply_effect (DelLock (lock_name sha (pr_target pr))) d)"
    by (rule inv_release_owned[OF inv fresh]) (use lock in \<open>simp add: owned_def\<close>)
  show ?thesis
    using p r inv fresh by (cases fault) (auto simp: publish_entry_def andthen_def release_lock_def Let_def split: option.splits)
qed

lemma keeps_enqueue:
  assumes inv: "disk_inv sha comm us now d" and "i \<notin> us" "valid_pid i" "comm \<subseteq> us" "t1 \<le> now"
  shows "keeps_list (disk_inv sha comm (insert i us) now) (snd (enqueue sha py cap i rand pr fault t1 t2 d)) d"
proof (cases "cap > 0 \<and> queue_size d \<ge> cap")
  case True
  then show ?thesis using disk_inv_mono[OF inv, of "insert i us" now] by (auto simp: enqueue_def)
next
  case False
  have inv': "disk_inv sha comm (insert i us) now d" using disk_inv_mono[OF inv, of "insert i us" now] by blast
  have fresh: "dget (live d) i = None" "dget (claimed d) i = None"
    using disk_inv_live[OF inv, of i] disk_inv_claimed[OF inv, of i] assms(2) by (metis option.exhaust)+
  have acq: "keeps_list (disk_inv sha comm (insert i us) now)
      (snd (acquire_lock sha rand (pr_target pr) i ''pending'' x y t1 d)) d" for x y
    by (rule keeps_acquire[OF inv' assms(5)]) simp
  let ?a = "acquire_lock sha rand (pr_target pr) i ''pending'' (lock_intent py (pr_meta pr)) (lock_contradicts py (pr_meta pr)) t1"
  have "keeps_list (disk_inv sha comm (insert i us) now) (snd (andthen ?a (\<lambda>_. publish_entry sha i pr fault t2) d)) d"
  proof (rule keeps_andthen)
    show "keeps_list (disk_inv sha comm (insert i us) now) (snd (?a d)) d" by (rule acq)
  next
    fix x assume "fst (?a d) = Inr x"
    note a = after_acquire[OF this]
    show "keeps_list (disk_inv sha comm (insert i us) now) (snd (publish_entry sha i pr fault t2 (applys (snd (?a d)) d))) (applys (snd (?a d)) d)"
      by (rule keeps_publish[OF keeps_list_all[OF acq]]) (use a fresh assms in \<open>auto simp: pending_lock_def\<close>)
  qed
  then show ?thesis using False by (auto simp: enqueue_def)
qed

lemma keeps_exit:
  assumes inv: "disk_inv sha comm us now d"
    and "\<And>k. dget (locks d) (lock_name sha target) = Some (Lock k) \<Longrightarrow> k_acquired k = Some a \<Longrightarrow> k_kind k = Some ''auto_commit''"
  shows "keeps_list (disk_inv sha comm us now) (snd (path_lock_exit sha target a d)) d"
proof -
  have "disk_inv sha comm us now (apply_effect (DelLock (lock_name sha target)) d)"
    if "dget (locks d) (lock_name sha target) = Some (Lock k)" "k_acquired k = Some a" for k
    using disk_inv_entry[OF inv] assms(2)[OF that] that by (intro inv_del_lock[OF inv]) (fastforce simp: locked_for_def)
  then show ?thesis
    using inv by (auto simp: path_lock_exit_def release_lock_def Let_def split: option.splits lock_doc.splits)
qed

lemma keeps_reclaim:
  assumes inv: "disk_inv sha comm us now d"
  shows "keeps_list (disk_inv sha comm us now) (snd (reclaim_name sha max_age t n d)) d"
proof -
  have "disk_inv sha comm us now (apply_effect (DelLock n') d)"
    if "dget (locks d) n = Some (Lock k)" "is_auto_commit_lock k" "k_target k = Some target" "n' = lock_name sha target" for k target n'
  proof (rule inv_del_lock[OF inv])
    from disk_inv_lock[OF inv that(1)] that(3,4) have n: "n' = n" by (auto simp: lock_ok_def)
    fix i e assume "at_entry d i e"
    then show "lock_name sha (p_target e) \<noteq> n'"
      using disk_inv_entry[OF inv] that n by (fastforce simp: locked_for_def is_auto_commit_lock_def)
  qed
  moreover have "n = lock_name sha target" if "dget (locks d) n = Some (Lock k)" "k_target k = Some target" for k target
    using disk_inv_lock[OF inv that(1)] that(2) by (auto simp: lock_ok_def)
  ultimately show ?thesis
    using inv by (auto simp: reclaim_name_def release_lock_def Let_def split: option.splits lock_doc.splits)
qed

lemma keeps_gc:
  assumes inv: "disk_inv sha comm us now d"
  shows "keeps_list (disk_inv sha comm us now) (snd (gc_name n d)) d"
proof -
  have "disk_inv sha comm us now (apply_effect (DelLock n) d)"
    if "dget (locks d) n = Some (Lock k)" "dget (live d) (k_holder k) = None" "dget (claimed d) (k_holder k) = None" for k
  proof (rule inv_del_lock[OF inv])
    fix i e assume "at_entry d i e"
    then show "lock_name sha (p_target e) \<noteq> n"
      using disk_inv_entry[OF inv] that by (fastforce simp: locked_for_def at_entry_def)
  qed
  then show ?thesis using inv by (auto simp: gc_name_def split: option.splits lock_doc.splits)
qed

lemma keeps_reclaim_tmp: "disk_inv sha comm us now d \<Longrightarrow> keeps_list (disk_inv sha comm us now) (snd (reclaim_tmp max_age t n d)) d"
  by (auto simp: reclaim_tmp_def split: option.splits)

end
