(* ===== verification/PendingProtocol.thy ===== *)
theory PendingProtocol
  imports PendingDisk
begin

text \<open>
  The protocol of the pending queue: the server's operations, the resolvers that hold claims, the
  git commits they make, the sweeps, and crashes between any two effects of any operation. The
  ghost state says which resolvers are alive, which decisions have committed, which auto-commits
  hold a path, which ids and tokens were minted, and the clock. Every operation runs under the
  shared write serializer, so a step is a whole operation, a crash inside one, or a git commit by
  a resolver that holds its claim. A sweep is the sequence of its per-name steps.
\<close>

record sys =
  dsk :: disk
  resolvers :: "(string \<times> string) set" \<comment> \<open>pending id and token of the resolvers that may still commit\<close>
  stopped :: "(string \<times> string) set" \<comment> \<open>resolvers whose write provably failed\<close>
  holders :: "(string \<times> time) set" \<comment> \<open>target and acquisition time of the auto-commits in flight\<close>
  committed :: "string set"
  used :: "string set"
  minted :: "string set"
  clock :: time

subsection \<open>Calls\<close>

datatype call =
    Enqueue string string proposal write_fault time time
  | Approve string "string option" string time
  | Reject string string time
  | ClaimResolve string "string option" string time
  | Context string string string string
  | Outcome string string "string option" "string option" "string option" time
  | Finalize string string string
  | Restore string string
  | LockPath string string string time
  | UnlockPath string time
  | ReconcileName "string \<Rightarrow> entry \<Rightarrow> search" time time string
  | GcName string
  | ReclaimName time time string
  | ReclaimTmp time time string

definition ignoring :: "'a op \<Rightarrow> unit op" where
  "ignoring m = andthen m (\<lambda>_. done_op ())"

fun run :: "(string \<Rightarrow> string) \<Rightarrow> (pyval \<Rightarrow> string) \<Rightarrow> nat \<Rightarrow> call \<Rightarrow> unit op" where
  "run sha py cap (Enqueue i rand pr fault t1 t2) = ignoring (enqueue sha py cap i rand pr fault t1 t2)"
| "run sha py cap (Approve i edited tok t) = ignoring (approve sha i edited tok t)"
| "run sha py cap (Reject i tok t) = reject sha i tok t"
| "run sha py cap (ClaimResolve i edited tok t) = ignoring (claim_for_resolve sha i edited tok t)"
| "run sha py cap (Context i tok ref base) = record_write_context i (Some tok) ref base"
| "run sha py cap (Outcome i tok c f u t) = record_outcome i (Some tok) c f u t"
| "run sha py cap (Finalize i target tok) = finalize_resolve sha i target (Some tok)"
| "run sha py cap (Restore i tok) = restore_resolve i (Some tok)"
| "run sha py cap (LockPath target owner rand t) = ignoring (path_lock_enter sha rand target owner t)"
| "run sha py cap (UnlockPath target a) = ignoring (path_lock_exit sha target a)"
| "run sha py cap (ReconcileName fc age moment i) = ignoring (reconcile_name sha fc age moment i)"
| "run sha py cap (GcName n) = ignoring (gc_name n)"
| "run sha py cap (ReclaimName age t n) = ignoring (reclaim_name sha age t n)"
| "run sha py cap (ReclaimTmp age t n) = ignoring (reclaim_tmp age t n)"

text \<open>
  What the callers guarantee. Ids and tokens are fresh uuids, the clock moves forward between lock
  acquisitions, a resolver reports a commit only when it has committed and a failure only when it
  has not, it restores only a decision that did not commit, and the search of the history finds
  only commits that exist.
\<close>

fun allowed :: "sys \<Rightarrow> call \<Rightarrow> bool" where
  "allowed s (Enqueue i rand pr fault t1 t2) \<longleftrightarrow> i \<notin> used s \<and> valid_pid i \<and> t1 > clock s"
| "allowed s (Approve i edited tok t) \<longleftrightarrow> tok \<notin> minted s"
| "allowed s (Reject i tok t) \<longleftrightarrow> tok \<notin> minted s"
| "allowed s (ClaimResolve i edited tok t) \<longleftrightarrow> tok \<notin> minted s"
| "allowed s (Outcome i tok c f u t) \<longleftrightarrow> (c \<noteq> None \<longrightarrow> i \<in> committed s)
     \<and> (f \<noteq> None \<longrightarrow> (i, tok) \<in> resolvers s \<and> i \<notin> committed s)"
| "allowed s (Finalize i target tok) \<longleftrightarrow> (i, tok) \<in> resolvers s \<and> i \<in> committed s"
| "allowed s (Restore i tok) \<longleftrightarrow> (i, tok) \<in> resolvers s \<union> stopped s \<and> i \<notin> committed s"
| "allowed s (LockPath target owner rand t) \<longleftrightarrow> t > clock s"
| "allowed s (UnlockPath target a) \<longleftrightarrow> (target, a) \<in> holders s"
| "allowed s (ReconcileName fc age moment i) \<longleftrightarrow> (\<forall>j e. fc j e = Found \<longrightarrow> j \<in> committed s)"
| "allowed s _ \<longleftrightarrow> True"

fun mint :: "call \<Rightarrow> sys \<Rightarrow> sys" where
  "mint (Enqueue i rand pr fault t1 t2) s = s\<lparr>used := insert i (used s), clock := t1\<rparr>"
| "mint (Approve i edited tok t) s = s\<lparr>minted := insert tok (minted s)\<rparr>"
| "mint (Reject i tok t) s = s\<lparr>minted := insert tok (minted s)\<rparr>"
| "mint (ClaimResolve i edited tok t) s = s\<lparr>minted := insert tok (minted s)\<rparr>"
| "mint (LockPath target owner rand t) s = s\<lparr>clock := t\<rparr>"
| "mint _ s = s"

fun finish :: "call \<Rightarrow> bool \<Rightarrow> sys \<Rightarrow> sys" where
  "finish (ClaimResolve i edited tok t) ok s = (if ok then s\<lparr>resolvers := insert (i, tok) (resolvers s)\<rparr> else s)"
| "finish (Outcome i tok c f u t) ok s = (if f \<noteq> None
     then s\<lparr>resolvers := resolvers s - {(i, tok)}, stopped := insert (i, tok) (stopped s)\<rparr> else s)"
| "finish (Finalize i target tok) ok s = s\<lparr>resolvers := resolvers s - {(i, tok)}\<rparr>"
| "finish (Restore i tok) ok s = s\<lparr>resolvers := resolvers s - {(i, tok)}, stopped := stopped s - {(i, tok)}\<rparr>"
| "finish (LockPath target owner rand t) ok s = (if ok then s\<lparr>holders := insert (target, t) (holders s)\<rparr> else s)"
| "finish (UnlockPath target a) ok s = s\<lparr>holders := holders s - {(target, a)}\<rparr>"
| "finish _ ok s = s"

definition crash_to :: "disk \<Rightarrow> sys \<Rightarrow> sys" where
  "crash_to d s = s\<lparr>dsk := d, resolvers := {}, stopped := {}, holders := {}\<rparr>"

definition effects_of :: "(string \<Rightarrow> string) \<Rightarrow> (pyval \<Rightarrow> string) \<Rightarrow> nat \<Rightarrow> call \<Rightarrow> disk \<Rightarrow> effect list" where
  "effects_of sha py cap c d = snd (run sha py cap c d)"

definition completed :: "(string \<Rightarrow> string) \<Rightarrow> (pyval \<Rightarrow> string) \<Rightarrow> nat \<Rightarrow> call \<Rightarrow> sys \<Rightarrow> sys" where
  "completed sha py cap c s = finish c (\<not> isl (fst (run sha py cap c (dsk s))))
     ((mint c s)\<lparr>dsk := applys (effects_of sha py cap c (dsk s)) (dsk s)\<rparr>)"

inductive pstep :: "(string \<Rightarrow> string) \<Rightarrow> (pyval \<Rightarrow> string) \<Rightarrow> nat \<Rightarrow> sys \<Rightarrow> sys \<Rightarrow> bool"
  for sha :: "string \<Rightarrow> string" and py :: "pyval \<Rightarrow> string" and cap :: nat where
  complete: "allowed s c \<Longrightarrow> pstep sha py cap s (completed sha py cap c s)"
| crash: "allowed s c \<Longrightarrow> pstep sha py cap s
    (crash_to (applys (take k (effects_of sha py cap c (dsk s))) (dsk s)) (mint c s))"
| commit: "(i, tok) \<in> resolvers s \<Longrightarrow> pstep sha py cap s (s\<lparr>committed := insert i (committed s)\<rparr>)"

inductive_cases pstepE: "pstep sha py cap s s'"

definition empty_disk :: disk where
  "empty_disk = \<lparr>live = [], claimed = [], restoring = [], locks = [], tmps = []\<rparr>"

definition initial :: sys where
  "initial = \<lparr>dsk = empty_disk, resolvers = {}, stopped = {}, holders = {}, committed = {}, used = {}, minted = {}, clock = 0\<rparr>"

definition reachable :: "(string \<Rightarrow> string) \<Rightarrow> (pyval \<Rightarrow> string) \<Rightarrow> nat \<Rightarrow> sys \<Rightarrow> bool" where
  "reachable sha py cap s \<longleftrightarrow> (pstep sha py cap)\<^sup>*\<^sup>* initial s"

subsection \<open>What the ghosts satisfy\<close>

definition resolver_ok :: "sys \<Rightarrow> string \<Rightarrow> bool" where
  "resolver_ok s i \<longleftrightarrow> (\<forall>tok. ((i, tok) \<in> resolvers s \<longrightarrow> tok \<in> minted s \<and> i \<in> used s \<and> dget (live (dsk s)) i = None
       \<and> (i \<in> committed s \<or> (\<exists>e. fences (dsk s) i tok e \<and> \<not> failed e)))
     \<and> ((i, tok) \<in> stopped s \<longrightarrow> tok \<in> minted s \<and> i \<in> used s \<and> (i, tok) \<notin> resolvers s
       \<and> ((\<exists>e. fences (dsk s) i tok e) \<longrightarrow> i \<notin> committed s)))"

definition holds_auto :: "(string \<Rightarrow> string) \<Rightarrow> disk \<Rightarrow> string \<Rightarrow> time \<Rightarrow> bool" where
  "holds_auto sha d t a \<longleftrightarrow> (\<forall>k. dget (locks d) (lock_name sha t) = Some (Lock k) \<and> k_acquired k = Some a
     \<longrightarrow> k_kind k = Some ''auto_commit'')"

definition holders_ok :: "(string \<Rightarrow> string) \<Rightarrow> sys \<Rightarrow> bool" where
  "holders_ok sha s \<longleftrightarrow> (\<forall>t a. (t, a) \<in> holders s \<longrightarrow> a \<le> clock s \<and> holds_auto sha (dsk s) t a)"

definition sys_inv :: "(string \<Rightarrow> string) \<Rightarrow> sys \<Rightarrow> bool" where
  "sys_inv sha s \<longleftrightarrow> disk_inv sha (committed s) (used s) (clock s) (dsk s) \<and> committed s \<subseteq> used s
     \<and> (\<forall>i. resolver_ok s i) \<and> holders_ok sha s"

subsection \<open>Which files an operation touches\<close>

fun id_of :: "effect \<Rightarrow> string option" where
  "id_of (PutLive i x) = Some i" | "id_of (PutClaimed i x) = Some i" | "id_of (PutRestoring i x) = Some i"
| "id_of (RenameClaim i) = Some i" | "id_of (RenameUnclaim i) = Some i" | "id_of (RenamePublish i) = Some i"
| "id_of (DelClaimed i) = Some i" | "id_of _ = None"

fun link_after :: "time \<Rightarrow> effect \<Rightarrow> bool" where
  "link_after c (LinkLock n x) = (case x of Lock k \<Rightarrow> (case k_acquired k of Some a \<Rightarrow> a > c | None \<Rightarrow> False) | NotALock \<Rightarrow> False)"
| "link_after c _ = True"

definition emits :: "(effect \<Rightarrow> bool) \<Rightarrow> 'a op \<Rightarrow> bool" where
  "emits P m \<longleftrightarrow> (\<forall>d. list_all P (snd (m d)))"

lemma emits_andthen: "emits P m \<Longrightarrow> (\<And>x. emits P (f x)) \<Longrightarrow> emits P (andthen m f)"
  by (auto simp: emits_def andthen_effects split: sum.splits)

lemma emits_basic [simp]: "emits P (done_op x)" "emits P (raise e)" "emits P (emit es) = list_all P es"
  by (simp_all add: emits_def)

lemma emits_ignoring [simp]: "emits P m \<Longrightarrow> emits P (ignoring m)"
  by (simp add: ignoring_def emits_andthen)

lemma frame_id: "list_all (\<lambda>x. id_of x \<noteq> Some j) es \<Longrightarrow>
   dget (live (applys es d)) j = dget (live d) j \<and> dget (claimed (applys es d)) j = dget (claimed d) j"
proof (induction es arbitrary: d)
  case (Cons x es)
  then show ?case by (cases x) (auto split: option.splits)
qed simp

lemma frame_lock: "list_all (link_after c) es \<Longrightarrow> a \<le> c \<Longrightarrow> holds_auto sha d t a \<Longrightarrow> holds_auto sha (applys es d) t a"
proof (induction es arbitrary: d)
  case (Cons x es)
  then have "holds_auto sha (apply_effect x d) t a"
    by (cases x) (auto simp: holds_auto_def split: option.splits lock_doc.splits)
  then show ?case using Cons by simp
qed simp

text \<open>An operation on the entry \<open>i\<close>, taken after the clock reading \<open>c\<close>.\<close>

definition about :: "string \<Rightarrow> time \<Rightarrow> effect \<Rightarrow> bool" where
  "about i c x \<longleftrightarrow> (id_of x = None \<or> id_of x = Some i) \<and> link_after c x"

lemma release_about [simp]: "emits (about i c) (release_lock sha target a)" "emits (about i c) (release_lock_owned_by sha target j)"
  by (auto simp: emits_def about_def release_lock_def release_lock_owned_by_def Let_def split: option.splits lock_doc.splits)

lemma acquire_about [simp]: "t > c \<Longrightarrow> emits (about i c) (acquire_lock sha rand target j kind x y t)"
  by (auto simp: emits_def about_def acquire_effects pending_lock_def Let_def)

lemma claim_about [simp]: "emits (about i c) (claim i tok t)"
  by (auto simp: emits_def about_def claim_def andthen_def claim_rename_def stamp_claim_def Let_def split: option.splits entry_doc.splits)

lemma finish_about [simp]: "emits (about i c) (finish_claim sha i target)"
  by (auto simp: finish_claim_def about_def intro: emits_andthen)

lemma fenced_about [simp]: "emits P (fenced_claim i (Some tok))"
  by (auto simp: emits_def fenced_claim_eq split: option.splits entry_doc.splits)

lemma consume_about [simp]: "emits (about i c) (approve sha i edited tok t)" "emits (about i c) (reject sha i tok t)"
   "emits (about i c) (claim_for_resolve sha i edited tok t)"
  by (auto simp: approve_def reject_def claim_for_resolve_def about_def intro!: emits_andthen split: option.split)

lemma fenced_ops_about [simp]: "emits (about i c) (record_write_context i (Some tok) ref base)"
   "emits (about i c) (record_outcome i (Some tok) x f u t)"
   "emits (about i c) (finalize_resolve sha i target (Some tok))" "emits (about i c) (restore_resolve i (Some tok))"
  by (auto simp: record_write_context_def record_outcome_def finalize_resolve_def restore_resolve_def about_def Let_def intro!: emits_andthen)

lemma reconcile_about [simp]: "emits (about i c) (reconcile_name sha fc age moment i)"
proof -
  have fin: "emits (about i c) (finalize_resolve sha i target tok)" for target tok
    by (cases tok) (simp_all add: finalize_resolve_def emits_andthen)
  have res: "emits (about i c) (restore_resolve i tok)" for tok
  proof (cases tok)
    case None
    then show ?thesis by (simp add: restore_resolve_def emits_def about_def)
  qed simp
  have one: "emits (about i c) (reconcile_one sha fc moment i e)" for e
    by (auto simp: reconcile_one_def Let_def about_def intro!: emits_andthen fin res split: option.split write_outcome.split search.split)
  have drop: "emits (about i c) (drop_legacy_text sha i e)" for e
    by (auto simp: drop_legacy_text_def Let_def about_def intro!: emits_andthen split: option.split)
  have "emits (about i c) (andthen (drop_legacy_text sha i e)
             (\<lambda>e'. andthen (reconcile_one sha fc moment i e') (\<lambda>r. done_op (Some r))))" for e
    by (intro emits_andthen drop one) simp
  then show ?thesis
    by (auto simp: emits_def reconcile_name_def read_claim_def split: option.split entry_doc.split)
qed

lemma enqueue_about [simp]: "t1 > c \<Longrightarrow> emits (about i c) (enqueue sha py cap i rand pr fault t1 t2)"
proof -
  assume "t1 > c"
  moreover have "emits (about i c) (publish_entry sha i pr fault t2)"
    by (cases fault) (auto simp: publish_entry_def emits_def about_def andthen_effects release_lock_def Let_def split: option.splits)
  ultimately have "emits (about i c) (andthen (acquire_lock sha rand (pr_target pr) i ''pending'' x y t1) (\<lambda>_. publish_entry sha i pr fault t2))" for x y
    by (intro emits_andthen) simp_all
  then show ?thesis by (simp add: emits_def enqueue_def)
qed

lemma lock_calls_about [simp]: "t > c \<Longrightarrow> emits (about i c) (path_lock_enter sha rand target owner t)"
  "emits (about i c) (path_lock_exit sha target a)" "emits (about i c) (gc_name n)"
  "emits (about i c) (reclaim_name sha age t n)" "emits (about i c) (reclaim_tmp age t n)"
proof -
  show "emits (about i c) (gc_name n)" "emits (about i c) (reclaim_tmp age t n)"
    by (auto simp: emits_def gc_name_def reclaim_tmp_def about_def split: option.split lock_doc.split)
  have "list_all (about i c) (snd (release_lock sha target a d))" for target a d
    using release_about(1) by (auto simp: emits_def)
  then show "emits (about i c) (reclaim_name sha age t n)"
    by (auto simp: emits_def reclaim_name_def about_def split: option.split lock_doc.split)
qed (simp_all add: path_lock_enter_def path_lock_exit_def)

text \<open>The entry a call works on; a call on the locks alone works on every entry alike.\<close>

fun subject :: "call \<Rightarrow> string option" where
  "subject (Enqueue i rand pr fault t1 t2) = Some i" | "subject (Approve i edited tok t) = Some i"
| "subject (Reject i tok t) = Some i" | "subject (ClaimResolve i edited tok t) = Some i"
| "subject (Context i tok ref base) = Some i" | "subject (Outcome i tok c f u t) = Some i"
| "subject (Finalize i target tok) = Some i" | "subject (Restore i tok) = Some i"
| "subject (ReconcileName fc age moment i) = Some i" | "subject _ = None"

lemma run_about:
  assumes "allowed s c" and "subject c = None \<or> subject c = Some i"
  shows "list_all (about i (clock s)) (effects_of sha py cap c d)"
proof -
  have "emits (about i (clock s)) (run sha py cap c)" using assms by (cases c) simp_all
  then show ?thesis by (simp add: emits_def effects_of_def)
qed

subsection \<open>The disk after every prefix\<close>

lemma ignoring_effects [simp]: "snd (ignoring m d) = snd (m d)"
  by (simp add: ignoring_def andthen_effects split: sum.split)

lemma ignoring_ok [simp]: "isl (fst (ignoring m d)) = isl (fst (m d))"
  by (auto simp: ignoring_def andthen_result split: sum.split)

definition disk_after :: "(string \<Rightarrow> string) \<Rightarrow> call \<Rightarrow> sys \<Rightarrow> disk \<Rightarrow> bool" where
  "disk_after sha c s = disk_inv sha (committed s) (used (mint c s)) (clock (mint c s))"

lemma mint_simps [simp]: "committed (mint c s) = committed s" "resolvers (mint c s) = resolvers s"
  "stopped (mint c s) = stopped s" "holders (mint c s) = holders s" "dsk (mint c s) = dsk s"
  by (cases c; simp)+

lemma finish_simps [simp]: "committed (finish c ok s) = committed s" "used (finish c ok s) = used s"
  "minted (finish c ok s) = minted s" "clock (finish c ok s) = clock s" "dsk (finish c ok s) = dsk s"
  by (cases c; simp)+

lemma mint_grows: "allowed s c \<Longrightarrow> used s \<subseteq> used (mint c s) \<and> minted s \<subseteq> minted (mint c s) \<and> clock s \<le> clock (mint c s)"
  by (cases c) auto

lemma run_keeps:
  assumes inv: "sys_inv sha s" and a: "allowed s c"
  shows "keeps_list (disk_after sha c s) (effects_of sha py cap c (dsk s)) (dsk s)"
proof -
  have d: "disk_inv sha (committed s) (used s) (clock s) (dsk s)" and cu: "committed s \<subseteq> used s"
    and ho: "holders_ok sha s" using inv by (auto simp: sys_inv_def)
  have d': "disk_inv sha (committed s) (used (mint c s)) (clock (mint c s)) (dsk s)"
    using disk_inv_mono[OF d] mint_grows[OF a] by blast
  have absent: "i \<in> committed s \<Longrightarrow> dget (live (dsk s)) i = None" for i
    using disk_inv_live[OF d, of i] by (cases "dget (live (dsk s)) i") auto
  show ?thesis
  proof (cases c)
    case (Enqueue i rand pr fault t1 t2)
    then have "disk_inv sha (committed s) (used s) t1 (dsk s)" using disk_inv_mono[OF d, of "used s" t1] a by simp
    then show ?thesis
      using keeps_enqueue[where us = "used s" and i = i and ?t1.0 = t1 and comm = "committed s" and now = t1] a cu Enqueue
      by (simp add: disk_after_def effects_of_def)
  next
    case (Outcome i tok x f u t)
    then show ?thesis using keeps_outcome[OF d'] a by (simp add: disk_after_def effects_of_def)
  next
    case (Finalize i target tok)
    then show ?thesis using keeps_finalize[OF d' absent] a by (simp add: disk_after_def effects_of_def)
  next
    case (Restore i tok)
    then show ?thesis using keeps_restore[OF d'] a by (simp add: disk_after_def effects_of_def)
  next
    case (LockPath target owner rand t)
    then show ?thesis using keeps_acquire[OF d'] a by (simp add: disk_after_def effects_of_def path_lock_enter_def)
  next
    case (UnlockPath target t)
    then show ?thesis using keeps_exit[OF d'] a ho
      by (simp add: disk_after_def effects_of_def holders_ok_def holds_auto_def)
  next
    case (ReconcileName fc age moment i)
    have "fc j e = Found \<Longrightarrow> j \<in> committed s" for j e using a ReconcileName by auto
    from keeps_reconcile_name[OF d' this] show ?thesis using ReconcileName by (simp add: disk_after_def effects_of_def)
  qed (use d' in \<open>simp_all add: disk_after_def effects_of_def keeps_consume keeps_claim_for_resolve keeps_context
      keeps_gc keeps_reclaim keeps_reclaim_tmp\<close>)
qed

subsection \<open>The resolvers after a call\<close>

lemma holders_after:
  assumes inv: "sys_inv sha s" and a: "allowed s c"
  shows "holders_ok sha (completed sha py cap c s)"
proof -
  let ?es = "effects_of sha py cap c (dsk s)"
  have ho: "holders_ok sha s" using inv by (simp add: sys_inv_def)
  obtain i where "subject c = None \<or> subject c = Some i" by (cases "subject c") auto
  from run_about[OF a this, of sha py cap "dsk s"] have l: "list_all (link_after (clock s)) ?es"
    by (auto simp: about_def list_all_iff)
  have old: "a \<le> clock (mint c s) \<and> holds_auto sha (applys ?es (dsk s)) t a" if "(t, a) \<in> holders s" for t a
    using frame_lock[OF l, where a = a and t = t and sha = sha and d = "dsk s"] ho that mint_grows[OF a]
    by (fastforce simp: holders_ok_def)
  show ?thesis
  proof (cases c)
    case (LockPath target owner rand t)
    let ?m = "path_lock_enter sha rand target owner t"
    have "holds_auto sha (applys ?es (dsk s)) target t" if "\<not> isl (fst (run sha py cap c (dsk s)))"
    proof -
      from that LockPath obtain x where "fst (?m (dsk s)) = Inr x" by (cases "fst (?m (dsk s))") auto
      from after_acquire[OF this[unfolded path_lock_enter_def]]
      have "dget (locks (applys ?es (dsk s))) (lock_name sha target) = Some (pending_lock owner target None None t ''auto_commit'')"
        using LockPath by (simp add: effects_of_def path_lock_enter_def)
      then show ?thesis by (simp add: holds_auto_def pending_lock_def)
    qed
    then show ?thesis using old LockPath by (auto simp: completed_def holders_ok_def)
  qed (use old in \<open>auto simp: completed_def holders_ok_def\<close>)
qed

text \<open>A resolver on another entry is left alone.\<close>

lemma resolver_elsewhere:
  assumes inv: "sys_inv sha s" and a: "allowed s c" and "subject c = None \<or> subject c = Some i" and "subject c \<noteq> Some j"
  shows "resolver_ok (completed sha py cap c s) j"
proof -
  let ?es = "effects_of sha py cap c (dsk s)"
  obtain i' where i': "subject c = None \<or> subject c = Some i'" "i' \<noteq> j"
  proof (cases "subject c")
    case None
    have "j @ ''x'' \<noteq> j" by simp
    then show ?thesis using that[of "j @ ''x''"] None by simp
  next
    case (Some k)
    then show ?thesis using that[of k] assms(4) by simp
  qed
  from run_about[OF a i'(1), of sha py cap "dsk s"] i'(2) have "list_all (\<lambda>x. id_of x \<noteq> Some j) ?es"
    by (auto simp: about_def list_all_iff)
  note fr = frame_id[OF this, of "dsk s"]
  then have fe: "fences (applys ?es (dsk s)) j tok e = fences (dsk s) j tok e" for tok e by (simp add: fences_def)
  have r: "resolver_ok s j" using inv by (simp add: sys_inv_def)
  show ?thesis
    using r mint_grows[OF a] assms(4) fr fe unfolding resolver_ok_def completed_def
    by (cases c) (auto split: if_splits)
qed

text \<open>The states an entry can be in after a call on it.\<close>

lemma ok_unchanged:
  assumes "resolver_ok s i" and "applys es (dsk s) = dsk s" and "resolvers s' \<subseteq> resolvers s" and "stopped s' \<subseteq> stopped s"
    and "dsk s' = applys es (dsk s)" "committed s' = committed s" "used s \<subseteq> used s'" "minted s \<subseteq> minted s'"
  shows "resolver_ok s' i"
  using assms unfolding resolver_ok_def by (metis (no_types, lifting) subsetD)

lemma consume_absent:
  assumes "\<not> valid_pid i \<or> dget (live d) i = None"
  shows "approve sha i edited tok t d = (Inl (NotFound i), []) \<and> reject sha i tok t d = (Inl (NotFound i), [])
    \<and> claim_for_resolve sha i edited tok t d = (Inl (NotFound i), [])"
  using claim_absent[OF assms] by (simp add: approve_def reject_def claim_for_resolve_def andthen_def)

lemma consume_present:
  assumes "valid_pid i" and "dget (live d) i = Some (Doc e)"
  shows "dget (live (applys (snd (approve sha i edited tok t d)) d)) i = None
    \<and> dget (claimed (applys (snd (approve sha i edited tok t d)) d)) i = None
    \<and> dget (live (applys (snd (reject sha i tok t d)) d)) i = None
    \<and> dget (claimed (applys (snd (reject sha i tok t d)) d)) i = None"
  using claim_present[OF assms] by (simp add: approve_def reject_def andthen_effects andthen_result finish_effects assms(2))

lemma claim_for_resolve_present:
  assumes "valid_pid i" and "dget (live d) i = Some (Doc e)"
  shows "\<exists>e'. dget (live (applys (snd (claim_for_resolve sha i edited tok t d)) d)) i = None
    \<and> fences (applys (snd (claim_for_resolve sha i edited tok t d)) d) i tok e' \<and> p_outcome e' = p_outcome e \<and> p_target e' = p_target e"
  using claim_present[OF assms] assms(2)
  by (auto simp: claim_for_resolve_def andthen_effects andthen_result fences_def stamped_def token_of_def split: option.split)

lemma fenced_put:
  assumes "fences d i tok e"
  shows "applys (snd (record_write_context i (Some tok) ref base d)) d
      = d\<lparr>claimed := dset i (Doc (e\<lparr>p_context := Some \<lparr>session_ref = ref, pre_write_ref_sha = base\<rparr>\<rparr>)) (claimed d)\<rparr>"
  unfolding record_write_context_def by (simp add: fenced_effects(1)[OF assms])

definition the_outcome :: "string option \<Rightarrow> string option \<Rightarrow> string option \<Rightarrow> write_outcome" where
  "the_outcome c f u = (case c of Some s \<Rightarrow> Committed s | None \<Rightarrow> (case f of Some r \<Rightarrow> Failed r | None \<Rightarrow> Unknown (the u)))"

lemma outcome_put:
  assumes "fences d i tok e" and "length (filter (\<lambda>x. x \<noteq> None) [c, f, u]) = 1"
  shows "record_outcome i (Some tok) c f u t d = (Inr (), [PutClaimed i (Doc (e\<lparr>p_outcome := Some (the_outcome c f u, t)\<rparr>))])"
  using fenced_ok[OF assms(1)] assms(2) by (simp add: record_outcome_def andthen_def the_outcome_def Let_def)

lemma outcome_bad: "length (filter (\<lambda>x. x \<noteq> None) [c, f, u]) \<noteq> 1 \<Longrightarrow> record_outcome i tok c f u t d = (Inl BadArguments, [])"
  by (simp add: record_outcome_def)

lemma fenced_none:
  assumes "\<nexists>e. fences d i tok e"
  shows "snd (record_write_context i (Some tok) ref base d) = [] \<and> snd (record_outcome i (Some tok) c f u t d) = []
    \<and> snd (finalize_resolve sha i target (Some tok) d) = [] \<and> snd (restore_resolve i (Some tok) d) = []"
  by (simp add: record_write_context_def record_outcome_def finalize_resolve_def restore_resolve_def fenced_effects(2)[OF assms])

lemma finalize_put: "fences d i tok e \<Longrightarrow> finalize_resolve sha i target (Some tok) d = finish_claim sha i target d"
  using fenced_ok[of d i tok e] by (simp add: finalize_resolve_def andthen_def)

text \<open>What reconciling one claim leaves: the claim with the same token and outcome, or nothing when it
  committed, or the live entry when it had failed.\<close>

definition kept_claim :: "disk \<Rightarrow> disk \<Rightarrow> string \<Rightarrow> entry \<Rightarrow> bool" where
  "kept_claim d d' i e \<longleftrightarrow> dget (live d') i = dget (live d) i
     \<and> (\<exists>e'. dget (claimed d') i = Some (Doc e') \<and> p_claim e' = p_claim e \<and> p_outcome e' = p_outcome e \<and> p_target e' = p_target e)"

lemma andthen_done_effects: "snd (andthen m (\<lambda>x. done_op (g x)) d) = snd (m d)"
  by (simp add: andthen_effects split: sum.split)

lemma reconcile_one_effects: "snd (reconcile_one sha fc moment i e d) =
   (case p_outcome e of
      Some (Committed c, t) \<Rightarrow> snd (finalize_resolve sha i (p_target e) (token_of e) d)
    | Some (Failed r, t) \<Rightarrow> snd (restore_resolve i (token_of e) d)
    | _ \<Rightarrow> (if fc i e = Found then snd (finalize_resolve sha i (p_target e) (token_of e) d)
         else [PutClaimed i (Doc (e\<lparr>p_reconcile := Some (reconcile_reason (fc i e), moment)\<rparr>))]))"
proof -
  note fin = andthen_done_effects[of "finalize_resolve sha i (p_target e) (token_of e)" "\<lambda>_. RCommitted" d]
    and res = andthen_done_effects[of "restore_resolve i (token_of e)" "\<lambda>_. RRestored" d]
  have srch: "snd (andthen (done_op x) f d) = snd (f x d)" for x and f :: "search \<Rightarrow> reconciled op"
    by (simp add: andthen_effects)
  show ?thesis
    by (cases "fc i e")
      (auto simp: reconcile_one_def Let_def srch fin res andthen_effects[of "emit es" for es] split: option.split write_outcome.split)
qed

lemma reconcile_one_result:
  assumes inv: "disk_inv sha comm us now d" and e: "dget (claimed d) i = Some (Doc e)" and found: "fc i e = Found \<Longrightarrow> i \<in> comm"
    and d': "d' = applys (snd (reconcile_one sha fc moment i e d)) d"
  shows "kept_claim d d' i e \<or> (i \<in> comm \<and> dget (claimed d') i = None \<and> dget (live d') i = dget (live d) i)
    \<or> (failed e \<and> i \<notin> comm \<and> dget (claimed d') i = None \<and> dget (live d') i = Some (Doc (stripped e)))"
proof -
  have o': "outcome_ok comm i e" using disk_inv_claimed[OF inv e] by auto
  have fin: "dget (claimed (applys (snd (finalize_resolve sha i (p_target e) (token_of e) d)) d)) i = None
      \<and> live (applys (snd (finalize_resolve sha i (p_target e) (token_of e) d)) d) = live d"
  proof (cases "token_of e")
    case None
    then show ?thesis by (simp add: finalize_resolve_def finish_effects)
  next
    case (Some tok)
    then have "fences d i tok e" using e by (simp add: fences_def)
    then show ?thesis using Some finalize_put by (simp add: finish_effects)
  qed
  have res: "applys (snd (restore_resolve i (token_of e) d)) d = d\<lparr>restoring := dpop i (dset i (Doc (stripped e)) (restoring d)),
      live := dset i (Doc (stripped e)) (live d), claimed := dpop i (claimed d)\<rparr>" if "failed e"
  proof -
    have "p_claim e \<noteq> None" using that o' by (auto simp: failed_def outcome_ok_def)
    then obtain tok where "token_of e = Some tok" by (auto simp: token_of_def)
    then show ?thesis using e restore_effects[of d i tok e] by (simp add: fences_def)
  qed
  have comm: "i \<in> comm" if "p_outcome e = Some (Committed c, t)" for c t using o' that by (simp add: outcome_ok_def)
  have failed: "failed e \<and> i \<notin> comm" if "p_outcome e = Some (Failed r, t)" for r t
    using o' that by (auto simp: outcome_ok_def failed_def)
  have put: "kept_claim d (applys [PutClaimed i (Doc (e\<lparr>p_reconcile := x\<rparr>))] d) i e" for x
    by (simp add: kept_claim_def)
  show ?thesis
    using fin res put comm failed found unfolding d' reconcile_one_effects
    by (auto split: option.split write_outcome.split prod.split)
qed

lemma reconcile_name_result:
  assumes inv: "disk_inv sha comm us now d" and found: "\<And>j e. fc j e = Found \<Longrightarrow> j \<in> comm"
    and d': "d' = applys (snd (reconcile_name sha fc age moment i d)) d" and e: "dget (claimed d) i = Some (Doc e)"
  shows "kept_claim d d' i e \<or> (i \<in> comm \<and> dget (claimed d') i = None \<and> dget (live d') i = dget (live d) i)
    \<or> (failed e \<and> i \<notin> comm \<and> dget (claimed d') i = None \<and> (\<exists>x. dget (live d') i = Some x))"
proof -
  let ?e = "case p_effective e of None \<Rightarrow> e | Some t \<Rightarrow> e\<lparr>p_effective := None, p_effective_sha := Some (sha t)\<rparr>"
  let ?d = "case p_effective e of None \<Rightarrow> d | Some t \<Rightarrow> d\<lparr>claimed := dset i (Doc ?e) (claimed d)\<rparr>"
  have drop: "fst (drop_legacy_text sha i e d) = Inr ?e \<and> applys (snd (drop_legacy_text sha i e d)) d = ?d"
    by (auto simp: drop_legacy_text_def Let_def andthen_def split: option.split)
  have same: "p_outcome ?e = p_outcome e" "p_claim ?e = p_claim e" "p_target ?e = p_target e" by (simp_all split: option.split)
  have oe: "outcome_ok comm i ?e"
    using disk_inv_claimed[OF inv e] by (auto simp: outcome_ok_def split: option.split)
  have inv': "disk_inv sha comm us now ?d"
    using inv inv_put_claimed[OF inv _ _ oe, of e] e same oe by (auto simp: at_entry_def split: option.splits)
  have c: "dget (claimed ?d) i = Some (Doc ?e)" "live ?d = live d" using e by (simp_all split: option.split)
  show ?thesis
  proof (cases "claim_age_ok age moment e")
    case False
    then show ?thesis using e d' by (simp add: reconcile_name_def read_claim_def kept_claim_def)
  next
    case True
    have "d' = applys (snd (reconcile_one sha fc moment i ?e ?d)) ?d"
      using True e d' drop by (simp add: reconcile_name_def read_claim_def andthen_effects[of "drop_legacy_text sha i e"] andthen_done_effects)
    from reconcile_one_result[OF inv' c(1) found this] show ?thesis
      using same c(2) by (auto simp: kept_claim_def failed_def)
  qed
qed

lemma reconcile_name_absent: "dget (claimed d) i = None \<Longrightarrow> snd (reconcile_name sha fc age moment i d) = []"
  by (simp add: reconcile_name_def read_claim_def)

lemma resolver_okI:
  assumes "\<And>tok. (i, tok) \<in> resolvers s \<Longrightarrow> tok \<in> minted s \<and> i \<in> used s \<and> dget (live (dsk s)) i = None
       \<and> (i \<in> committed s \<or> (\<exists>e. fences (dsk s) i tok e \<and> \<not> failed e))"
    and "\<And>tok. (i, tok) \<in> stopped s \<Longrightarrow> tok \<in> minted s \<and> i \<in> used s \<and> (i, tok) \<notin> resolvers s
       \<and> ((\<exists>e. fences (dsk s) i tok e) \<longrightarrow> i \<notin> committed s)"
  shows "resolver_ok s i"
  using assms unfolding resolver_ok_def by blast

lemma resolver_okD:
  assumes "resolver_ok s i" and "(i, tok) \<in> resolvers s"
  shows "tok \<in> minted s \<and> i \<in> used s \<and> dget (live (dsk s)) i = None \<and> (i \<in> committed s \<or> (\<exists>e. fences (dsk s) i tok e \<and> \<not> failed e))"
  using assms unfolding resolver_ok_def by blast

lemma stopped_okD:
  assumes "resolver_ok s i" and "(i, tok) \<in> stopped s"
  shows "tok \<in> minted s \<and> i \<in> used s \<and> (i, tok) \<notin> resolvers s \<and> ((\<exists>e. fences (dsk s) i tok e) \<longrightarrow> i \<notin> committed s)"
  using assms unfolding resolver_ok_def by blast

lemma fences_unique: "fences d i tok e \<Longrightarrow> fences d i tok' e' \<Longrightarrow> tok' = tok \<and> e' = e"
  by (simp add: fences_def)

text \<open>A claim made under a fresh token: nobody else may commit or has given up under it.\<close>

lemma resolver_claim:
  assumes inv: "sys_inv sha s" and c: "c \<in> {Approve i edited tok t, Reject i tok t, ClaimResolve i edited tok t}" and a: "allowed s c"
  shows "resolver_ok (completed sha py cap c s) i"
proof -
  have r: "resolver_ok s i" and d: "disk_inv sha (committed s) (used s) (clock s) (dsk s)"
    using inv by (simp_all add: sys_inv_def)
  have fresh: "tok \<notin> minted s" using c a by auto
  show ?thesis
  proof (cases "\<not> valid_pid i \<or> dget (live (dsk s)) i = None")
    case True
    from consume_absent[OF this] show ?thesis
      using c by (intro ok_unchanged[OF r, of "[]"]) (auto simp: completed_def effects_of_def ignoring_def andthen_def)
  next
    case False
    then obtain e where e: "dget (live (dsk s)) i = Some (Doc e)" "valid_pid i" "i \<in> used s" "p_outcome e = None"
      using disk_inv_live[OF d] by blast
    have no: "(i, tok') \<notin> resolvers s" for tok' using resolver_okD[OF r, of tok'] e(1) by auto
    note st = stopped_okD[OF r]
    from c consider "c = Approve i edited tok t \<or> c = Reject i tok t" | "c = ClaimResolve i edited tok t" by auto
    then show ?thesis
    proof cases
      case 1
      then show ?thesis using no st consume_present[OF e(2,1), of sha] 
        by (intro resolver_okI) (auto simp: completed_def effects_of_def fences_def)
    next
      case 2
      obtain e' where e': "dget (live (applys (snd (claim_for_resolve sha i edited tok t (dsk s))) (dsk s))) i = None"
        "fences (applys (snd (claim_for_resolve sha i edited tok t (dsk s))) (dsk s)) i tok e'" "p_outcome e' = None"
        using claim_for_resolve_present[OF e(2,1), of sha edited tok t] e(4) by auto
      have "fences (applys (snd (claim_for_resolve sha i edited tok t (dsk s))) (dsk s)) i tok' x \<Longrightarrow> tok' = tok" for tok' x
        using fences_unique[OF e'(2)] by blast
      then show ?thesis using 2 no st e' fresh e(3)
        by (intro resolver_okI) (auto simp: completed_def effects_of_def failed_def split: if_splits)
    qed
  qed
qed

text \<open>What a call must not do to the resolvers of its entry.\<close>

lemma resolver_rest:
  assumes r: "resolver_ok s i" and same: "committed s' = committed s" "used s' = used s" "minted s' = minted s"
    and sub: "resolvers s' \<subseteq> resolvers s"
    and stop: "\<And>tok. (i, tok) \<in> stopped s' \<Longrightarrow> (i, tok) \<in> stopped s \<or> (i, tok) \<in> resolvers s \<and> (i, tok) \<notin> resolvers s' \<and> i \<notin> committed s"
    and live: "\<And>tok. (i, tok) \<in> resolvers s' \<Longrightarrow> dget (live (dsk s')) i = None"
    and keep: "\<And>tok e. (i, tok) \<in> resolvers s' \<Longrightarrow> i \<notin> committed s \<Longrightarrow> fences (dsk s) i tok e \<Longrightarrow> \<not> failed e
      \<Longrightarrow> \<exists>e. fences (dsk s') i tok e \<and> \<not> failed e"
    and old: "\<And>tok e. fences (dsk s') i tok e \<Longrightarrow> \<exists>e. fences (dsk s) i tok e"
  shows "resolver_ok s' i"
proof (rule resolver_okI)
  fix tok assume t: "(i, tok) \<in> resolvers s'"
  then have "(i, tok) \<in> resolvers s" using sub by blast
  from resolver_okD[OF r this] live[OF t] keep[OF t] same
  show "tok \<in> minted s' \<and> i \<in> used s' \<and> dget (live (dsk s')) i = None \<and> (i \<in> committed s' \<or> (\<exists>e. fences (dsk s') i tok e \<and> \<not> failed e))"
    by auto
next
  fix tok assume t: "(i, tok) \<in> stopped s'"
  from stop[OF this] show "tok \<in> minted s' \<and> i \<in> used s' \<and> (i, tok) \<notin> resolvers s' \<and> ((\<exists>e. fences (dsk s') i tok e) \<longrightarrow> i \<notin> committed s')"
    using stopped_okD[OF r, of tok] resolver_okD[OF r, of tok] sub old[of tok] same by auto
qed

lemma resolver_fenced:
  assumes inv: "sys_inv sha s" and a: "allowed s c"
    and c: "c = Context i tok ref base \<or> c = Outcome i tok x f u t \<or> c = Finalize i target tok \<or> c = Restore i tok"
  shows "resolver_ok (completed sha py cap c s) i"
proof -
  let ?s = "completed sha py cap c s"
  have r: "resolver_ok s i" using inv by (simp add: sys_inv_def)
  have live: "(i, tok') \<in> resolvers s \<Longrightarrow> dget (live (dsk s)) i = None" for tok' using resolver_okD[OF r] by blast
  have g: "committed ?s = committed s" "used ?s = used s" "minted ?s = minted s" "resolvers ?s \<subseteq> resolvers s"
      "\<And>tok. (i, tok) \<in> stopped ?s \<Longrightarrow> (i, tok) \<in> stopped s \<or> (i, tok) \<in> resolvers s \<and> (i, tok) \<notin> resolvers ?s \<and> i \<notin> committed s"
    using c a by (auto simp: completed_def split: if_splits)
  show ?thesis
  proof (cases "\<exists>e. fences (dsk s) i tok e")
    case False
    have "effects_of sha py cap c (dsk s) = []" using fenced_none[OF False] c by (auto simp: effects_of_def)
    then have "dsk ?s = dsk s" by (simp add: completed_def)
    then show ?thesis using live g(4) by (intro resolver_rest[OF r g]) auto
  next
    case True
    then obtain e where e: "fences (dsk s) i tok e" by blast
    note un = fences_unique[OF e]
    have put: "fences (dsk s\<lparr>claimed := dset i (Doc e') (claimed (dsk s))\<rparr>) i tok' x \<longleftrightarrow> tok' = tok \<and> x = e'"
      if "p_claim e' = p_claim e" for e' tok' x using e that by (auto simp: fences_def token_of_def)
    have rewrite: "resolver_ok ?s i" if d: "dsk ?s = dsk s\<lparr>claimed := dset i (Doc e') (claimed (dsk s))\<rparr>" and c: "p_claim e' = p_claim e"
      and f: "failed e \<or> \<not> failed e' \<or> (i, tok) \<notin> resolvers ?s" for e'
    proof (rule resolver_rest[OF r g])
      fix tok' x assume "(i, tok') \<in> resolvers ?s" "fences (dsk s) i tok' x" "\<not> failed x"
      moreover from un[OF this(2)] have "tok' = tok" "x = e" by simp_all
      ultimately have "fences (dsk ?s) i tok' e' \<and> \<not> failed e'" using f put[OF c, of tok e'] d by auto
      then show "\<exists>x. fences (dsk ?s) i tok' x \<and> \<not> failed x" by blast
    next
      fix tok' x assume "fences (dsk ?s) i tok' x"
      then have "tok' = tok" using put[OF c, of tok' x] d by simp
      then show "\<exists>x. fences (dsk s) i tok' x" using e by blast
    next
      fix tok' assume "(i, tok') \<in> resolvers ?s"
      then show "dget (live (dsk ?s)) i = None" using live g(4) d by auto
    qed
    have gone: "\<not> fences d i tok' x" if "dget (claimed d) i = None" for d tok' x using that by (simp add: fences_def)
    from c consider (ctx) "c = Context i tok ref base" | (out) "c = Outcome i tok x f u t" | (fin) "c = Finalize i target tok" | (res) "c = Restore i tok"
      by blast
    then show ?thesis
    proof cases
      case ctx
      then have d: "dsk ?s = dsk s\<lparr>claimed := dset i (Doc (e\<lparr>p_context := Some \<lparr>session_ref = ref, pre_write_ref_sha = base\<rparr>\<rparr>)) (claimed (dsk s))\<rparr>"
        using fenced_put[OF e] by (simp add: completed_def effects_of_def)
      show ?thesis
        by (rule rewrite[OF d]) (auto simp: failed_def)
    next
      case res
      have d: "dget (claimed (dsk ?s)) i = None" using res restore_effects[OF e] by (simp add: completed_def effects_of_def)
      have n: "(i, tok') \<notin> resolvers ?s" for tok'
        using resolver_okD[OF r, of tok'] un a res by (auto simp: completed_def)
      show ?thesis by (rule resolver_rest[OF r g]) (use n gone[OF d] in auto)
    next
      case fin
      have d: "dget (claimed (dsk ?s)) i = None" "live (dsk ?s) = live (dsk s)"
        using fin finalize_put[OF e] by (auto simp: completed_def effects_of_def finish_effects)
      have "i \<in> committed s" using a fin by simp
      then show ?thesis using live g(4) d(2) by (intro resolver_rest[OF r g]) (auto simp: gone[OF d(1)])
    next
      case out
      show ?thesis
      proof (cases "length (filter (\<lambda>x. x \<noteq> None) [x, f, u]) = 1")
        case True
        let ?e = "e\<lparr>p_outcome := Some (the_outcome x f u, t)\<rparr>"
        have d: "dsk ?s = dsk s\<lparr>claimed := dset i (Doc ?e) (claimed (dsk s))\<rparr>"
          using out outcome_put[OF e True] by (simp add: completed_def effects_of_def)
        have nf: "failed e \<or> \<not> failed ?e \<or> (i, tok) \<notin> resolvers ?s"
          using out by (auto simp: failed_def the_outcome_def completed_def split: option.splits)
        show ?thesis
          by (rule rewrite[OF d _ nf]) simp
      next
        case False
        have "dsk ?s = dsk s" using out outcome_bad[OF False] by (simp add: completed_def effects_of_def)
        then show ?thesis using live g(4) by (intro resolver_rest[OF r g]) auto
      qed
    qed
  qed
qed

lemma resolver_reconcile:
  assumes inv: "sys_inv sha s" and a: "allowed s (ReconcileName fc age moment i)"
  shows "resolver_ok (completed sha py cap (ReconcileName fc age moment i) s) i"
proof -
  have r: "resolver_ok s i" and d: "disk_inv sha (committed s) (used s) (clock s) (dsk s)"
    using inv by (simp_all add: sys_inv_def)
  let ?d = "applys (snd (reconcile_name sha fc age moment i (dsk s))) (dsk s)"
  have found: "fc j e = Found \<Longrightarrow> j \<in> committed s" for j e using a by auto
  show ?thesis
  proof (cases "dget (claimed (dsk s)) i")
    case None
    then show ?thesis
      using reconcile_name_absent[OF None, of sha fc age moment]
      by (intro ok_unchanged[OF r, of "[]"]) (auto simp: completed_def effects_of_def)
  next
    case (Some doc)
    then obtain e where e: "dget (claimed (dsk s)) i = Some (Doc e)" using disk_inv_claimed[OF d] by blast
    have fe: "fences (dsk s) i tok x \<longleftrightarrow> x = e \<and> token_of e = Some tok" for tok x using e by (auto simp: fences_def)
    note act = resolver_okD[OF r] and st = stopped_okD[OF r]
    from reconcile_name_result[where fc = fc and age = age and moment = moment and d = "dsk s" and i = i and d' = ?d, OF d _ refl e] found consider
        "kept_claim (dsk s) ?d i e" | "i \<in> committed s \<and> dget (claimed ?d) i = None \<and> dget (live ?d) i = dget (live (dsk s)) i"
      | "failed e \<and> i \<notin> committed s \<and> dget (claimed ?d) i = None \<and> (\<exists>x. dget (live ?d) i = Some x)"
      by blast
    then show ?thesis
    proof cases
      case 1
      then obtain e' where e': "dget (claimed ?d) i = Some (Doc e')" "p_claim e' = p_claim e" "p_outcome e' = p_outcome e"
        and l: "dget (live ?d) i = dget (live (dsk s)) i" by (auto simp: kept_claim_def)
      have "token_of e' = token_of e" "failed e' = failed e" using e'(2,3) by (simp_all add: token_of_def failed_def)
      then have "fences ?d i tok x \<longleftrightarrow> x = e' \<and> token_of e = Some tok" and "failed e' = failed e" for tok x
        using e'(1) by (auto simp: fences_def)
      then show ?thesis using act st fe l
        by (intro resolver_okI) (auto simp: completed_def effects_of_def)
    next
      case 2
      then show ?thesis using act st
        by (intro resolver_okI) (auto simp: completed_def effects_of_def fences_def)
    next
      case 3
      then have "(i, tok) \<notin> resolvers s" for tok using act[of tok] fe by auto
      then show ?thesis using 3 st
        by (intro resolver_okI) (auto simp: completed_def effects_of_def fences_def)
    qed
  qed
qed

lemma resolver_subject:
  assumes inv: "sys_inv sha s" and a: "allowed s c" and "subject c = Some i"
  shows "resolver_ok (completed sha py cap c s) i"
proof (cases c)
  case (Enqueue j rand pr fault t1 t2)
  have r: "resolver_ok s i" using inv by (simp add: sys_inv_def)
  have "i \<notin> used s" using Enqueue a assms(3) by simp
  then have "(i, tok) \<notin> resolvers s" "(i, tok) \<notin> stopped s" for tok
    using resolver_okD[OF r] stopped_okD[OF r] by blast+
  then show ?thesis using Enqueue by (intro resolver_okI) (simp_all add: completed_def)
next
  case (ReconcileName fc age moment j)
  then show ?thesis using resolver_reconcile[OF inv, of fc age moment j] a assms(3) by simp
qed (use resolver_claim[OF inv _ a] resolver_fenced[OF inv a] assms(3) in auto)

subsection \<open>The invariant of the system\<close>

lemma sys_inv_initial: "sys_inv sha initial"
  by (auto simp: sys_inv_def initial_def empty_disk_def resolver_ok_def holders_ok_def intro!: disk_invI)

lemma sys_inv_completed:
  assumes inv: "sys_inv sha s" and a: "allowed s c"
  shows "sys_inv sha (completed sha py cap c s)"
proof -
  have "disk_after sha c s (applys (effects_of sha py cap c (dsk s)) (dsk s))"
    by (rule keeps_list_all[OF run_keeps[OF inv a]])
  moreover have "resolver_ok (completed sha py cap c s) i" for i
  proof (cases "subject c = Some i")
    case True
    then show ?thesis by (rule resolver_subject[OF inv a])
  next
    case False
    obtain j where "subject c = None \<or> subject c = Some j" by (cases "subject c") auto
    from resolver_elsewhere[OF inv a this False] show ?thesis .
  qed
  moreover have "committed s \<subseteq> used (mint c s)" using inv mint_grows[OF a] by (auto simp: sys_inv_def)
  ultimately show ?thesis
    using holders_after[OF inv a] by (simp add: sys_inv_def disk_after_def completed_def)
qed

lemma sys_inv_crash:
  assumes inv: "sys_inv sha s" and a: "allowed s c"
  shows "sys_inv sha (crash_to (applys (take k (effects_of sha py cap c (dsk s))) (dsk s)) (mint c s))"
proof -
  have "disk_after sha c s (applys (take k (effects_of sha py cap c (dsk s))) (dsk s))"
    by (rule keeps_list_take[OF run_keeps[OF inv a]])
  moreover have "committed s \<subseteq> used (mint c s)" using inv mint_grows[OF a] by (auto simp: sys_inv_def)
  ultimately show ?thesis
    by (simp add: sys_inv_def crash_to_def disk_after_def resolver_ok_def holders_ok_def)
qed

text \<open>A resolver's commit: its entry is not live, and its claim has no recorded failure.\<close>

lemma sys_inv_commit:
  assumes inv: "sys_inv sha s" and t: "(i, tok) \<in> resolvers s"
  shows "sys_inv sha (s\<lparr>committed := insert i (committed s)\<rparr>)"
proof -
  let ?s = "s\<lparr>committed := insert i (committed s)\<rparr>"
  have d: "disk_inv sha (committed s) (used s) (clock s) (dsk s)" and r: "resolver_ok s j" for j
    using inv by (simp_all add: sys_inv_def)
  note act = resolver_okD[OF r t]
  have "outcome_ok (insert i (committed s)) j e" if "outcome_ok (committed s) j e" "dget (claimed (dsk s)) j = Some (Doc e)" for j e
    using act that by (auto simp: outcome_ok_def fences_def failed_def split: option.splits prod.splits write_outcome.splits)
  then have "disk_inv sha (insert i (committed s)) (used s) (clock s) (dsk s)"
    using act disk_inv_live[OF d] disk_inv_claimed[OF d] disk_inv_lock[OF d]
    by (intro disk_invI) (metis insert_iff option.distinct(1) option.inject | blast)+
  moreover have "resolver_ok ?s j" for j
  proof (cases "j = i")
    case False
    then show ?thesis using r[of j] by (simp add: resolver_ok_def)
  next
    case True
    have "\<nexists>e. fences (dsk s) i tok' e" if st: "(i, tok') \<in> stopped s" for tok'
    proof
      assume "\<exists>e. fences (dsk s) i tok' e"
      then obtain e where e: "fences (dsk s) i tok' e" by blast
      with stopped_okD[OF r st] have "i \<notin> committed s" "(i, tok') \<notin> resolvers s" by auto
      with act fences_unique[OF e] t show False by auto
    qed
    then show ?thesis using True resolver_okD[OF r] stopped_okD[OF r] by (intro resolver_okI) auto
  qed
  ultimately show ?thesis using inv act by (simp add: sys_inv_def holders_ok_def)
qed

lemma sys_inv_step: "pstep sha py cap s s' \<Longrightarrow> sys_inv sha s \<Longrightarrow> sys_inv sha s'"
  by (auto elim!: pstepE intro: sys_inv_completed sys_inv_crash sys_inv_commit)

lemma sys_inv_steps: "(pstep sha py cap)\<^sup>*\<^sup>* s s' \<Longrightarrow> sys_inv sha s \<Longrightarrow> sys_inv sha s'"
  by (induction rule: rtranclp_induct) (auto intro: sys_inv_step)

lemma reachable_inv: "reachable sha py cap s \<Longrightarrow> sys_inv sha s"
  unfolding reachable_def using sys_inv_steps sys_inv_initial by blast

lemma committed_grows: "(pstep sha py cap)\<^sup>*\<^sup>* s s' \<Longrightarrow> committed s \<subseteq> committed s'"
proof (induction rule: rtranclp_induct)
  case (step s' s'')
  then show ?case by (auto elim!: pstepE simp: completed_def crash_to_def)
qed simp

end
