(* ===== verification/PendingClaims.thy ===== *)
theory PendingClaims
  imports PendingProtocol
begin

text \<open>
  What the pending queue promises: exclusion of writers on a path, no decision presented twice,
  no entry lost by a crash in a restore, the sweeps as functions of the disk, and recovery.
\<close>

subsection \<open>A demonstration state\<close>

definition demo_id :: string where
  "demo_id = ''0123456789abcdef0123456789abcdef''"

definition demo_proposal :: proposal where
  "demo_proposal = \<lparr>pr_type = ''edit'', pr_target = ''a.md'', pr_postimage = ''text'', pr_base_commit = ''c'',
     pr_base_blob = None, pr_file_hash = None, pr_meta = []\<rparr>"

definition demo_sha :: "string \<Rightarrow> string" where
  "demo_sha s = s"

definition demo_py :: "pyval \<Rightarrow> string" where
  "demo_py v = ''''"

definition demo_enqueue :: call where
  "demo_enqueue = Enqueue demo_id ''r'' demo_proposal NoFault 1 2"

definition demo_claim :: call where
  "demo_claim = ClaimResolve demo_id None ''tok'' 3"

definition demo_pending :: sys where
  "demo_pending = completed demo_sha demo_py 0 demo_enqueue initial"

definition demo_claimed :: sys where
  "demo_claimed = completed demo_sha demo_py 0 demo_claim demo_pending"

definition demo_committed :: sys where
  "demo_committed = demo_claimed\<lparr>committed := insert demo_id (committed demo_claimed)\<rparr>"

lemma demo_id_valid: "valid_pid demo_id"
  by code_simp

definition demo_entry :: entry where
  "demo_entry = new_entry demo_id demo_proposal 2"

lemma demo_pending_eq: "demo_pending = \<lparr>dsk = \<lparr>live = [(demo_id, Doc demo_entry)], claimed = [], restoring = [],
     locks = [(''a.md.lock'', pending_lock demo_id ''a.md'' None None 1 ''pending'')], tmps = []\<rparr>,
     resolvers = {}, stopped = {}, holders = {}, committed = {}, used = {demo_id}, minted = {}, clock = 1\<rparr>"
  by (simp add: demo_pending_def demo_enqueue_def completed_def effects_of_def ignoring_def andthen_def enqueue_def
      acquire_effects Let_def initial_def empty_disk_def publish_entry_def lock_name_def demo_sha_def demo_proposal_def
      demo_entry_def lock_intent_def lock_contradicts_def fm_get_def get_or_def tmp_name_def)

lemma demo_claimed_eq: "demo_claimed = \<lparr>dsk = \<lparr>live = [], claimed = [(demo_id, Doc (stamped ''tok'' 3 demo_entry))], restoring = [],
     locks = [(''a.md.lock'', pending_lock demo_id ''a.md'' None None 1 ''pending'')], tmps = []\<rparr>,
     resolvers = {(demo_id, ''tok'')}, stopped = {}, holders = {}, committed = {}, used = {demo_id}, minted = {''tok''}, clock = 1\<rparr>"
proof -
  have "valid_pid demo_id" by (rule demo_id_valid)
  then show ?thesis
    by (simp add: demo_claimed_def demo_claim_def completed_def effects_of_def ignoring_def demo_pending_eq claim_for_resolve_def
        andthen_def claim_def claim_rename_def stamp_claim_def Let_def stamped_def)
qed

lemma demo_pending_reachable: "reachable demo_sha demo_py 0 demo_pending"
proof -
  have "allowed initial demo_enqueue" using demo_id_valid by (simp add: demo_enqueue_def initial_def)
  from pstep.complete[OF this] have "pstep demo_sha demo_py 0 initial demo_pending" unfolding demo_pending_def .
  then show ?thesis unfolding reachable_def by (rule r_into_rtranclp)
qed

lemma demo_claimed_reachable: "reachable demo_sha demo_py 0 demo_claimed"
proof -
  have "allowed demo_pending demo_claim" by (simp add: demo_claim_def demo_pending_eq)
  from pstep.complete[OF this] have "pstep demo_sha demo_py 0 demo_pending demo_claimed" unfolding demo_claimed_def .
  then show ?thesis using demo_pending_reachable unfolding reachable_def by simp
qed

lemma demo_committed_reachable: "reachable demo_sha demo_py 0 demo_committed"
proof -
  have "(demo_id, ''tok'') \<in> resolvers demo_claimed" by (simp add: demo_claimed_eq)
  from pstep.commit[OF this] have "pstep demo_sha demo_py 0 demo_claimed demo_committed" unfolding demo_committed_def .
  then show ?thesis using demo_claimed_reachable unfolding reachable_def by simp
qed

subsection \<open>Exclusion\<close>

text \<open>C1. In every reachable state, crashes included, no two entries that are pending or claimed have the
  same target, and while an entry stands every other writer of its path is turned away: an
  auto-commit cannot take the path lock and a further proposal for the path is refused.\<close>

theorem entries_exclude_writers:
  assumes "reachable sha py cap s" and "at_entry (dsk s) i e"
  shows "(\<forall>j e'. at_entry (dsk s) j e' \<and> p_target e' = p_target e \<longrightarrow> j = i)
    \<and> fst (path_lock_enter sha rand (p_target e) owner t (dsk s)) = Inl (PathLockBusy (p_target e))
    \<and> (cap' = 0 \<or> queue_size (dsk s) < cap' \<longrightarrow> pr_target pr = p_target e \<longrightarrow>
        fst (enqueue sha py cap' j' rand pr fault t t' (dsk s)) = Inl (PathLockBusy (p_target e)))"
proof -
  have d: "disk_inv sha (committed s) (used s) (clock s) (dsk s)" using reachable_inv[OF assms(1)] by (simp add: sys_inv_def)
  from disk_inv_entry[OF d assms(2)] obtain k where k: "dget (locks (dsk s)) (lock_name sha (p_target e)) = Some (Lock k)" "k_holder k = i"
    by (auto simp: locked_for_def)
  have "j = i" if "at_entry (dsk s) j e'" "p_target e' = p_target e" for j e'
    using disk_inv_entry[OF d that(1)] that(2) k by (auto simp: locked_for_def)
  then show ?thesis
    using k by (auto simp: path_lock_enter_def acquire_effects enqueue_def andthen_result Let_def)
qed

theorem entries_exclude_writers_witness:
  "fst (path_lock_enter demo_sha ''x'' ''a.md'' ''auto-commit:s'' 9 (dsk demo_claimed)) = Inl (PathLockBusy ''a.md'')"
proof -
  have "at_entry (dsk demo_claimed) demo_id (stamped ''tok'' 3 demo_entry)" by (simp add: demo_claimed_eq at_entry_def)
  from entries_exclude_writers[OF demo_claimed_reachable this] show ?thesis by (simp add: demo_entry_def demo_proposal_def)
qed

subsection \<open>Decisions\<close>

text \<open>C2. A decision that has committed is never presented again: whatever operations, crashes and sweeps
  follow, its entry is not among the pending ones.\<close>

theorem committed_never_represented:
  assumes "reachable sha py cap s" and "i \<in> committed s" and "(pstep sha py cap)\<^sup>*\<^sup>* s s'"
  shows "dget (live (dsk s')) i = None"
proof -
  have "reachable sha py cap s'" using assms(1,3) unfolding reachable_def by (rule rtranclp_trans)
  then have "disk_inv sha (committed s') (used s') (clock s') (dsk s')" using reachable_inv by (auto simp: sys_inv_def)
  moreover have "i \<in> committed s'" using committed_grows[OF assms(3)] assms(2) by blast
  ultimately show ?thesis using disk_inv_live by (cases "dget (live (dsk s')) i") blast+
qed

theorem committed_never_represented_witness:
  "dget (live (dsk (completed demo_sha demo_py 0 (Outcome demo_id ''tok'' (Some ''c0ffee'') None None 4) demo_committed))) demo_id = None"
proof -
  have "demo_id \<in> committed demo_committed" by (simp add: demo_committed_def)
  moreover from this have "allowed demo_committed (Outcome demo_id ''tok'' (Some ''c0ffee'') None None 4)" by simp
  ultimately show ?thesis
    by (intro committed_never_represented[OF demo_committed_reachable] r_into_rtranclp pstep.complete)
qed

text \<open>C8. A restore never loses the entry: after any prefix of its effects the entry is on disk, as the
  claim it was or as the proposal again, and in the end it is pending, unclaimed, with no trace of the decision.\<close>

theorem restore_never_loses:
  assumes "fences d i tok e"
  shows "(dget (claimed (crashed_in k (restore_resolve i (Some tok)) d)) i = Some (Doc e)
      \<or> dget (live (crashed_in k (restore_resolve i (Some tok)) d)) i = Some (Doc (stripped e)))
    \<and> dget (live (after (restore_resolve i (Some tok)) d)) i = Some (Doc (stripped e))
    \<and> dget (claimed (after (restore_resolve i (Some tok)) d)) i = None
    \<and> locks (after (restore_resolve i (Some tok)) d) = locks d"
  using assms by (auto simp: crashed_in_def after_def restore_effects[OF assms] fences_def take_Cons split: nat.split)

theorem restore_never_loses_witness:
  "dget (live (after (restore_resolve demo_id (Some ''tok'')) (dsk demo_claimed))) demo_id = Some (Doc (stripped (stamped ''tok'' 3 demo_entry)))"
proof -
  have "fences (dsk demo_claimed) demo_id ''tok'' (stamped ''tok'' 3 demo_entry)" by (simp add: demo_claimed_eq fences_def)
  from restore_never_loses[OF this, of 2] show ?thesis by blast
qed

subsection \<open>Reconciliation\<close>

lemma andthen_skip: "m d = (Inr x, []) \<Longrightarrow> andthen m f d = f x d"
  by (simp add: andthen_def)

definition evidence :: "(string \<Rightarrow> entry \<Rightarrow> search) \<Rightarrow> string \<Rightarrow> entry \<Rightarrow> reconciled" where
  "evidence fc i e = (case p_outcome e of
      Some (Committed c, t) \<Rightarrow> RCommitted | Some (Failed r, t) \<Rightarrow> RRestored
    | _ \<Rightarrow> (if fc i e = Found then RCommitted else RUncertain))"

lemma token_eff [simp]: "token_of (e\<lparr>p_effective := x, p_effective_sha := y\<rparr>) = token_of e"
  "token_of (e\<lparr>p_reconcile := z\<rparr>) = token_of e"
  by (simp_all add: token_of_def)

lemma reconcile_one_evidence:
  assumes "fences d i tok e"
  shows "reconcile_one sha fc moment i e d = (case evidence fc i e of
      RCommitted \<Rightarrow> (Inr RCommitted, snd (finish_claim sha i (p_target e) d))
    | RRestored \<Rightarrow> (Inr RRestored, [PutRestoring i (Doc (stripped e)), RenamePublish i, DelClaimed i])
    | RUncertain \<Rightarrow> (Inr RUncertain, [PutClaimed i (Doc (e\<lparr>p_reconcile := Some (reconcile_reason (fc i e), moment)\<rparr>))]))"
proof -
  have t: "token_of e = Some tok" using assms by (simp add: fences_def)
  have f: "fst (finish_claim sha i (p_target e) d) = Inr ()" by (simp add: finish_effects)
  show ?thesis
    using finalize_put[OF assms, of sha "p_target e"] restore_effects[OF assms] f
    by (cases "fc i e")
      (auto simp: reconcile_one_def evidence_def t Let_def andthen_def split: option.split write_outcome.split prod.split)
qed

text \<open>C4. Reconciliation decides on evidence alone. For a stamped claim old enough to be looked at: a recorded
  commit, or a commit found in the history when no outcome was recorded, consumes it; a recorded failure makes
  it pending again; anything else leaves the claim, its lock and its token, and says uncertain.\<close>

theorem reconcile_on_evidence:
  assumes "fences d i tok e" and "claim_age_ok age moment e" and "p_effective e = None"
  shows "fst (reconcile_name sha fc age moment i d) = Inr (Some (evidence fc i e))
    \<and> (case evidence fc i e of
         RCommitted \<Rightarrow> dget (claimed (after (reconcile_name sha fc age moment i) d)) i = None
           \<and> live (after (reconcile_name sha fc age moment i) d) = live d
       | RRestored \<Rightarrow> dget (claimed (after (reconcile_name sha fc age moment i) d)) i = None
           \<and> dget (live (after (reconcile_name sha fc age moment i) d)) i = Some (Doc (stripped e))
           \<and> locks (after (reconcile_name sha fc age moment i) d) = locks d
       | RUncertain \<Rightarrow> live (after (reconcile_name sha fc age moment i) d) = live d
           \<and> locks (after (reconcile_name sha fc age moment i) d) = locks d
           \<and> (\<exists>e'. fences (after (reconcile_name sha fc age moment i) d) i tok e' \<and> p_outcome e' = p_outcome e))"
proof -
  have c: "dget (claimed d) i = Some (Doc e)" using assms(1) by (simp add: fences_def)
  have "reconcile_name sha fc age moment i d
      = andthen (drop_legacy_text sha i e) (\<lambda>e'. andthen (reconcile_one sha fc moment i e') (\<lambda>r. done_op (Some r))) d"
    using c assms(2) by (simp add: reconcile_name_def read_claim_def)
  also have "\<dots> = andthen (reconcile_one sha fc moment i e) (\<lambda>r. done_op (Some r)) d"
    by (rule andthen_skip) (simp add: drop_legacy_text_def assms(3))
  finally show ?thesis
    using c assms(1)
    by (auto simp: after_def andthen_effects andthen_result reconcile_one_evidence[OF assms(1)] finish_effects fences_def
        token_of_def split: reconciled.split)
qed

theorem reconcile_on_evidence_witness:
  "fst (reconcile_name demo_sha (\<lambda>_ _. NotFoundThere) 1 10 demo_id (dsk demo_claimed)) = Inr (Some RUncertain)"
proof -
  have f: "fences (dsk demo_claimed) demo_id ''tok'' (stamped ''tok'' 3 demo_entry)" by (simp add: demo_claimed_eq fences_def)
  have a: "claim_age_ok 1 10 (stamped ''tok'' 3 demo_entry)" and e: "p_effective (stamped ''tok'' 3 demo_entry) = None"
    and v: "evidence (\<lambda>_ _. NotFoundThere) demo_id (stamped ''tok'' 3 demo_entry) = RUncertain"
    by (simp_all add: claim_age_ok_def stamped_def demo_entry_def new_entry_def evidence_def)
  from reconcile_on_evidence[OF f a e, of demo_sha "\<lambda>_ _. NotFoundThere"] v show ?thesis by simp
qed

subsection \<open>Sweeps\<close>

definition orphan :: "disk \<Rightarrow> string \<Rightarrow> bool" where
  "orphan d n \<longleftrightarrow> (case dget (locks d) n of
     Some (Lock k) \<Rightarrow> valid_pid (k_holder k) \<and> dget (live d) (k_holder k) = None \<and> dget (claimed d) (k_holder k) = None
   | _ \<Rightarrow> False)"

lemma gc_name_eq: "gc_name n d = (if orphan d n then (Inr True, [DelLock n]) else (Inr False, []))"
  by (auto simp: gc_name_def orphan_def lock_holder_is_def split: option.split lock_doc.split)

lemma count_names_effects: "applys (snd (count_names f (n # ns) d)) d = (case fst (f n d) of
    Inl e \<Rightarrow> applys (snd (f n d)) d | Inr b \<Rightarrow> applys (snd (count_names f ns (applys (snd (f n d)) d))) (applys (snd (f n d)) d))"
  by (auto simp: andthen_effects andthen_done_effects split: sum.split)

text \<open>C24. The collector is exact: after a pass over the names \<open>ns\<close>, in whatever order the directory lists them,
  a lock is gone if and only if it was listed, it can be read, its holder has the form of a pending id, and that id has
  neither a pending nor a claimed entry; no entry has changed. A lock whose holder is no pending id, as those of
  auto-commits, is kept, and so is one that cannot be read.\<close>

theorem gc_removes_exactly_orphans:
  "dget (locks (after (gc_orphan_locks ns) d)) n = (if n \<in> set ns \<and> orphan d n then None else dget (locks d) n)
    \<and> live (after (gc_orphan_locks ns) d) = live d \<and> claimed (after (gc_orphan_locks ns) d) = claimed d"
proof (induction ns arbitrary: d)
  case Nil
  then show ?case by (simp add: gc_orphan_locks_def after_def)
next
  case (Cons m ns)
  have o: "orphan (d\<lparr>locks := dpop m (locks d)\<rparr>) n = (orphan d n \<and> n \<noteq> m)"
    by (auto simp: orphan_def split: option.split lock_doc.split)
  show ?case
    using Cons.IH[of d] Cons.IH[of "d\<lparr>locks := dpop m (locks d)\<rparr>"] o
    unfolding after_def gc_orphan_locks_def count_names_effects by (auto simp: gc_name_eq)
qed

text \<open>The startup and periodic reclaim of the locks that auto-commits left behind.\<close>

definition stale_auto :: "time \<Rightarrow> time \<Rightarrow> disk \<Rightarrow> string \<Rightarrow> bool" where
  "stale_auto max_age now d n \<longleftrightarrow> (case dget (locks d) n of
     Some (Lock k) \<Rightarrow> k_kind k = Some ''auto_commit'' \<and> (case k_acquired k of Some a \<Rightarrow> now - a > max_age | None \<Rightarrow> False)
   | _ \<Rightarrow> False)"

lemma reclaim_name_eq:
  assumes "locks_ok sha clk d"
  shows "reclaim_name sha max_age now n d = (if stale_auto max_age now d n then (Inr True, [DelLock n]) else (Inr False, []))"
proof (cases "dget (locks d) n")
  case (Some doc)
  then have "lock_ok sha clk n doc" using assms by (simp add: locks_ok_def)
  then obtain k t a where "doc = Lock k" "k_target k = Some t" "n = lock_name sha t" "k_acquired k = Some a"
     "k_kind k = Some ''pending'' \<or> k_kind k = Some ''auto_commit''" by (auto simp: lock_ok_def)
  then show ?thesis
    using Some by (auto simp: reclaim_name_def stale_auto_def is_auto_commit_lock_def release_lock_def Let_def)
qed (simp add: reclaim_name_def stale_auto_def)

text \<open>The reclaim of auto-commit locks is exact on every reachable disk: after a pass over the names \<open>ns\<close>
  a lock is gone if and only if it was listed, belongs to an auto-commit and is older than the bound. The lock of
  a pending or claimed entry is never taken, however old.\<close>

theorem reclaim_exactly_stale_auto_commits:
  assumes "reachable sha py cap s"
  shows "dget (locks (after (reclaim_stale_auto_commit_locks sha max_age now ns) (dsk s))) n
      = (if n \<in> set ns \<and> stale_auto max_age now (dsk s) n then None else dget (locks (dsk s)) n)
    \<and> (\<forall>i e. at_entry (dsk s) i e \<longrightarrow> \<not> stale_auto max_age now (dsk s) (lock_name sha (p_target e)))"
proof -
  have d: "disk_inv sha (committed s) (used s) (clock s) (dsk s)" using reachable_inv[OF assms] by (simp add: sys_inv_def)
  then have ok: "locks_ok sha (clock s) (dsk s)" by (simp add: disk_inv_def)
  have "locks_ok sha (clock s) d \<Longrightarrow> dget (locks (applys (snd (count_names (reclaim_name sha max_age now) ns d)) d)) n
      = (if n \<in> set ns \<and> stale_auto max_age now d n then None else dget (locks d) n)" for d
  proof (induction ns arbitrary: d)
    case (Cons m ns)
    let ?d = "d\<lparr>locks := dpop m (locks d)\<rparr>"
    have "locks_ok sha (clock s) ?d" using Cons.prems by (auto simp: locks_ok_def)
    from Cons.IH[OF this] Cons.IH[OF Cons.prems] show ?case
      unfolding count_names_effects reclaim_name_eq[OF Cons.prems]
      by (auto simp: stale_auto_def split: option.splits lock_doc.splits)
  qed simp
  from this[OF ok] show ?thesis
    using disk_inv_entry[OF d]
    by (fastforce simp: after_def reclaim_stale_auto_commit_locks_def stale_auto_def[of _ _ _ "lock_name _ _"] locked_for_def)
qed

theorem reclaim_exactly_stale_auto_commits_witness:
  "dget (locks (after (reclaim_stale_auto_commit_locks demo_sha 0 100 [''a.md.lock'']) (dsk demo_claimed))) ''a.md.lock'' \<noteq> None"
proof -
  have "\<not> stale_auto 0 100 (dsk demo_claimed) ''a.md.lock''"
    by (simp add: demo_claimed_eq stale_auto_def pending_lock_def)
  with reclaim_exactly_stale_auto_commits[OF demo_claimed_reachable, of 0 100 "[''a.md.lock'']" "''a.md.lock''"]
  show ?thesis by (simp add: demo_claimed_eq)
qed

subsection \<open>Recovery\<close>

text \<open>C28. A crash while enqueueing never wedges a path: wherever it falls, one pass of the collector over that lock
  leaves the proposal pending under its lock, or the path free for the next writer.\<close>

theorem interrupted_enqueue_recovers:
  assumes "reachable sha py cap s" and "i \<notin> used s" and "valid_pid i" and "dget (locks (dsk s)) (lock_name sha (pr_target pr)) = None"
  shows "let d = after (gc_name (lock_name sha (pr_target pr))) (crashed_in k (enqueue sha py cap i rand pr NoFault t1 t2) (dsk s))
    in (dget (live d) i = Some (Doc (new_entry i pr t2)) \<and> locked_for sha d i (new_entry i pr t2))
       \<or> (dget (live d) i = None \<and> (\<exists>x. fst (path_lock_enter sha rand' (pr_target pr) owner t3 d) = Inr x))"
proof -
  have d: "disk_inv sha (committed s) (used s) (clock s) (dsk s)" using reachable_inv[OF assms(1)] by (simp add: sys_inv_def)
  have n: "dget (live (dsk s)) i = None" "dget (claimed (dsk s)) i = None"
    using disk_inv_live[OF d, of i] disk_inv_claimed[OF d, of i] assms(2)
    by (cases "dget (live (dsk s)) i"; cases "dget (claimed (dsk s)) i"; blast)+
  let ?n = "lock_name sha (pr_target pr)" and ?t = "tmp_name sha (pr_target pr) rand"
  let ?k = "pending_lock i (pr_target pr) (lock_intent py (pr_meta pr)) (lock_contradicts py (pr_meta pr)) t1 ''pending''"
  have e: "snd (enqueue sha py cap i rand pr NoFault t1 t2 (dsk s)) = (if cap > 0 \<and> queue_size (dsk s) \<ge> cap then []
     else [PutTmp ?t t1, LinkLock ?n ?k, DelTmp ?t, PutLive i (Doc (new_entry i pr t2))])"
    using assms(4) by (simp add: enqueue_def andthen_effects andthen_result acquire_effects Let_def publish_entry_def)
  have free: "\<exists>x. fst (path_lock_enter sha rand' (pr_target pr) owner t3 d') = Inr x" if "dget (locks d') ?n = None" for d'
    using that by (simp add: path_lock_enter_def acquire_effects Let_def)
  show ?thesis
    unfolding Let_def after_def gc_name_eq crashed_in_def e
    using n assms(3,4)
    by (auto simp: take_Cons orphan_def pending_lock_def locked_for_def intro!: free split: nat.split)
qed

theorem interrupted_enqueue_recovers_witness:
  "let d = after (gc_name ''a.md.lock'') (crashed_in 2 (enqueue demo_sha demo_py 0 demo_id ''r'' demo_proposal NoFault 1 2) (dsk initial))
    in (dget (live d) demo_id = Some (Doc (new_entry demo_id demo_proposal 2)) \<and> locked_for demo_sha d demo_id (new_entry demo_id demo_proposal 2))
       \<or> (dget (live d) demo_id = None \<and> (\<exists>x. fst (path_lock_enter demo_sha ''q'' ''a.md'' ''o'' 3 d) = Inr x))"
proof -
  have r: "reachable demo_sha demo_py 0 initial" by (simp add: reachable_def)
  have n: "lock_name demo_sha ''a.md'' = ''a.md.lock''" "pr_target demo_proposal = ''a.md''"
    by (simp_all add: lock_name_def demo_sha_def demo_proposal_def)
  have u: "demo_id \<notin> used initial" "dget (locks (dsk initial)) (lock_name demo_sha (pr_target demo_proposal)) = None"
    by (simp_all add: initial_def empty_disk_def)
  from interrupted_enqueue_recovers[OF r u(1) demo_id_valid u(2), where k = 2 and rand = "''r''" and rand' = "''q''"
      and owner = "''o''" and ?t1.0 = 1 and ?t2.0 = 2 and ?t3.0 = 3]
  show ?thesis unfolding n .
qed

lemma listdir_dset: "length (listdir (dset i x m)) \<le> Suc (length (listdir m))"
proof -
  have "length (listdir (dset i x m)) = card (set (listdir (dset i x m)))" by (simp add: distinct_card distinct_listdir)
  also have "\<dots> \<le> card (insert i (set (listdir m)))" by (rule card_mono) (simp, auto simp: set_listdir)
  also have "\<dots> \<le> Suc (card (set (listdir m)))" by (simp add: card_insert_if)
  finally show ?thesis by (simp add: distinct_card distinct_listdir)
qed

text \<open>The cap holds at the moment of enqueueing: a proposal is accepted only while fewer than \<open>cap\<close> entries are
  pending, and then at most \<open>cap\<close> are.\<close>

theorem enqueue_keeps_cap:
  assumes "cap > 0" and "fst (enqueue sha py cap i rand pr fault t1 t2 d) = Inr j"
  shows "j = i \<and> queue_size d < cap \<and> queue_size (after (enqueue sha py cap i rand pr fault t1 t2) d) \<le> cap"
proof -
  let ?a = "acquire_lock sha rand (pr_target pr) i ''pending'' (lock_intent py (pr_meta pr)) (lock_contradicts py (pr_meta pr)) t1"
  have q: "queue_size d < cap" using assms by (auto simp: enqueue_def split: if_splits)
  then have e: "enqueue sha py cap i rand pr fault t1 t2 d = andthen ?a (\<lambda>_. publish_entry sha i pr fault t2) d" by (simp add: enqueue_def)
  with assms(2) obtain x where x: "fst (?a d) = Inr x"
      "fst (publish_entry sha i pr fault t2 (applys (snd (?a d)) d)) = Inr j"
    by (auto simp: andthen_result split: sum.splits)
  then have f: "fault = NoFault" "j = i"
    by (auto simp: publish_entry_def andthen_result split: write_fault.splits if_splits sum.splits)
  have "live (after (enqueue sha py cap i rand pr fault t1 t2) d) = dset i (Doc (new_entry i pr t2)) (live d)"
    using e x(1) after_acquire[OF x(1)] f(1) by (simp add: after_def andthen_effects publish_entry_def)
  then show ?thesis
    using f(2) q listdir_dset[of i "Doc (new_entry i pr t2)" "live d"] by (simp add: queue_size_def)
qed

theorem enqueue_keeps_cap_witness:
  "queue_size (after (enqueue demo_sha demo_py 1 demo_id ''r'' demo_proposal NoFault 1 2) empty_disk) \<le> 1"
proof -
  have "fst (enqueue demo_sha demo_py 1 demo_id ''r'' demo_proposal NoFault 1 2 empty_disk) = Inr demo_id"
    by (simp add: enqueue_def queue_size_def listdir_def empty_disk_def andthen_result acquire_effects Let_def publish_entry_def)
  from enqueue_keeps_cap[OF _ this] show ?thesis by simp
qed

end
