(* ===== verification/Frontmatter.thy ===== *)
theory Frontmatter
  imports Taxonomy Validate
begin

text \<open>
  Splitting the YAML block from a document (\<^verbatim>\<open>format/frontmatter.py\<close>). \<open>load\<close> is
  \<^verbatim>\<open>yaml.safe_load\<close>, with \<^const>\<open>None\<close> for a YAML error.
\<close>

datatype fm_error = InvalidYaml | NotAMapping | Unterminated

definition newline :: char where
  "newline = CHR 0x0A"

definition lines_of :: "string \<Rightarrow> string list" where
  "lines_of s = split_on newline s"

definition join_lines :: "string list \<Rightarrow> string" where
  "join_lines ls = join_with [newline] ls"

definition is_delim_line :: "string \<Rightarrow> bool" where
  "is_delim_line l \<longleftrightarrow> strip l = ''---''"

text \<open>The lines before the closing delimiter and those after it.\<close>

fun find_close :: "string list \<Rightarrow> (string list \<times> string list) option" where
  "find_close [] = None"
| "find_close (l # ls) = (if is_delim_line l then Some ([], ls)
     else map_option (\<lambda>(a, b). (l # a, b)) (find_close ls))"

definition parse_frontmatter :: "(string \<Rightarrow> pyval option) \<Rightarrow> string \<Rightarrow> fm_error + frontmatter \<times> string" where
  "parse_frontmatter load text =
     (let ls = lines_of text
      in if \<not> is_delim_line (hd ls) then Inr ([], text)
         else case find_close (tl ls) of
           None \<Rightarrow> Inl Unterminated
         | Some (raw, body) \<Rightarrow>
             (case load (join_lines raw) of
                None \<Rightarrow> Inl InvalidYaml
              | Some v \<Rightarrow> (case (if truthy v then v else PyDict []) of
                    PyDict m \<Rightarrow> Inr (m, join_lines body) | _ \<Rightarrow> Inl NotAMapping)))"

lemma find_close_append: "list_all (\<lambda>l. \<not> is_delim_line l) ls \<Longrightarrow> is_delim_line d \<Longrightarrow> find_close (ls @ d # rest) = Some (ls, rest)"
  by (induction ls) auto

text \<open>A document with a frontmatter block, as the code that builds one concatenates it.\<close>

definition with_block :: "string \<Rightarrow> string \<Rightarrow> string" where
  "with_block yaml body = ''---'' @ [newline] @ yaml @ [newline] @ ''---'' @ [newline] @ body"

lemma split_append: "split_on c (p @ c # s) = split_on c p @ split_on c s"
  by (induction p) (auto simp: split_on_Cons)

lemma split_block: "c \<notin> set d \<Longrightarrow> split_on c (d @ [c] @ y @ [c] @ d @ [c] @ b) = d # split_on c y @ d # split_on c b"
  by (simp add: split_append_sep split_append split_free)

lemma lines_of_block: "lines_of (with_block yaml body) = ''---'' # lines_of yaml @ ''---'' # lines_of body"
  unfolding lines_of_def with_block_def by (rule split_block) (simp add: newline_def)

lemma delim_plain: "is_delim_line ''---''"
  by code_simp

text \<open>Parsing gives back what a document was built from: the mapping its YAML text loads to and the body, byte
  for byte, whatever the body holds, as long as no line of the YAML text is itself a delimiter.\<close>

theorem parse_with_block:
  assumes "load yaml = Some (PyDict m)" and "list_all (\<lambda>l. \<not> is_delim_line l) (lines_of yaml)"
  shows "parse_frontmatter load (with_block yaml body) = Inr (m, body)"
proof -
  have j: "join_lines (lines_of s) = s" for s by (simp add: join_lines_def lines_of_def join_split)
  show ?thesis
    using assms find_close_append[OF assms(2) delim_plain, of "lines_of body"] delim_plain
    by (cases m) (simp_all add: parse_frontmatter_def Let_def lines_of_block j)
qed

theorem parse_with_block_witness:
  "parse_frontmatter (\<lambda>s. Some (PyDict [(PyStr ''status'', PyStr s)])) (with_block ''x'' ''body'')
     = Inr ([(PyStr ''status'', PyStr ''x'')], ''body'')"
  by (rule parse_with_block) (simp, code_simp)

text \<open>A text whose first line is not a delimiter has no frontmatter and is returned whole.\<close>

lemma parse_without_block: "\<not> is_delim_line (hd (lines_of text)) \<Longrightarrow> parse_frontmatter load text = Inr ([], text)"
  by (simp add: parse_frontmatter_def)

lemma find_close_Some: "find_close ls = Some (a, b) \<Longrightarrow> \<exists>d. ls = a @ d # b"
  by (induction ls arbitrary: a b) (auto split: if_splits)

lemma join_suffix: "suffix (join_with sep b) (join_with sep (a @ b))"
proof (cases "b = []")
  case False
  then show ?thesis
  proof (induction a)
    case (Cons x a)
    then obtain y ys where y: "a @ b = y # ys" by (cases "a @ b") auto
    have "join_with sep (x # a @ b) = (x @ sep) @ join_with sep (a @ b)" unfolding y by simp
    with Cons show ?case by (auto simp: suffix_append intro: suffix_order.trans)
  qed simp
qed simp

text \<open>The body is the end of the text.\<close>

lemma parse_body_suffix:
  assumes "parse_frontmatter load text = Inr (fm, body)"
  shows "suffix body text"
proof (cases "is_delim_line (hd (lines_of text)) \<and> find_close (tl (lines_of text)) \<noteq> None")
  case True
  then obtain raw ls where c: "find_close (tl (lines_of text)) = Some (raw, ls)" by auto
  then have body: "body = join_lines ls"
    using assms True by (auto simp: parse_frontmatter_def Let_def split: option.splits pyval.splits if_splits)
  from find_close_Some[OF c] obtain d where d: "tl (lines_of text) = raw @ d # ls" by blast
  then have "lines_of text = (hd (lines_of text) # raw @ [d]) @ ls"
    by (metis append.assoc append_Cons append_Nil list.collapse lines_of_def split_on_not_Nil)
  moreover have "text = join_lines (lines_of text)" by (simp add: join_lines_def lines_of_def join_split)
  ultimately show ?thesis unfolding body join_lines_def by (metis join_suffix)
next
  case False
  then show ?thesis
    using assms by (auto simp: parse_frontmatter_def Let_def split: option.splits if_splits)
qed

subsection \<open>Paths\<close>

text \<open>\<open>PurePosixPath(s).parts\<close> and its \<open>name\<close>.\<close>

definition path_parts :: "string \<Rightarrow> string list" where
  "path_parts s =
     (let slash = CHR ''/'';
          root = (if starts_with ''//'' s \<and> \<not> starts_with ''///'' s then [''//''] else if starts_with ''/'' s then [''/''] else [])
      in root @ filter (\<lambda>p. p \<noteq> [] \<and> p \<noteq> ''.'') (split_on slash s))"

definition path_name :: "string \<Rightarrow> string" where
  "path_name s = (let ps = filter (\<lambda>p. p \<noteq> [] \<and> p \<noteq> ''.'') (split_on CHR ''/'' s) in if ps = [] then [] else last ps)"

end
