(* ===== verification/Regex.thy ===== *)
theory Regex
  imports Prelude
begin

text \<open>
  The part of Python's \<^verbatim>\<open>re\<close> that the scanners use: a backtracking matcher that lists the
  ways to match in the order in which \<^verbatim>\<open>re\<close> tries them, with captured groups,
  back references, word boundaries and one-character lookarounds, and \<^verbatim>\<open>search\<close> and
  \<^verbatim>\<open>finditer\<close> over it. A cursor is the text before it, reversed, and the text after it.
  The body of an unbounded repetition consumes a character, so that the length of the rest bounds it.
\<close>

type_synonym cursor = "string \<times> string"
type_synonym mstate = "cursor \<times> (nat, string) dict"

datatype re =
    Sat "char \<Rightarrow> bool"
  | Eps
  | Seq re re
  | Alt re re
  | Rep bool nat "nat option" re \<comment> \<open>greedy, at least, at most\<close>
  | Group nat re
  | Ref nat
  | Bos \<comment> \<open>\<open>^\<close> without the MULTILINE flag\<close>
  | WordB \<comment> \<open>\<open>\b\<close>\<close>
  | NotBehind "char \<Rightarrow> bool"
  | NotAhead "char \<Rightarrow> bool"

fun advance :: "string \<Rightarrow> cursor \<Rightarrow> cursor" where
  "advance w (b, s) = (rev w @ b, drop (length w) s)"

fun rep_alts :: "(mstate \<Rightarrow> mstate list) \<Rightarrow> bool \<Rightarrow> nat \<Rightarrow> nat \<Rightarrow> mstate \<Rightarrow> mstate list" where
  "rep_alts m g lo 0 st = (if lo = 0 then [st] else [])"
| "rep_alts m g lo (Suc hi) st =
     (let more = concat (map (rep_alts m g (lo - 1) hi) (m st))
      in if lo > 0 then more else if g then more @ [st] else st # more)"

definition word_at :: "string \<Rightarrow> bool" where
  "word_at s \<longleftrightarrow> s \<noteq> [] \<and> is_word (hd s)"

fun alts :: "re \<Rightarrow> mstate \<Rightarrow> mstate list" where
  "alts (Sat p) st = (case snd (fst st) of [] \<Rightarrow> []
     | c # s' \<Rightarrow> (if p c then [((c # fst (fst st), s'), snd st)] else []))"
| "alts Eps st = [st]"
| "alts (Seq r q) st = concat (map (alts q) (alts r st))"
| "alts (Alt r q) st = alts r st @ alts q st"
| "alts (Rep g lo hi r) st = rep_alts (alts r) g lo (case hi of None \<Rightarrow> length (snd (fst st)) | Some n \<Rightarrow> n) st"
| "alts (Group n r) st =
     map (\<lambda>st'. (fst st', dset n (rev (take (length (fst (fst st')) - length (fst (fst st))) (fst (fst st')))) (snd st'))) (alts r st)"
| "alts (Ref n) st = (case dget (snd st) n of None \<Rightarrow> []
     | Some w \<Rightarrow> (if starts_with w (snd (fst st)) then [(advance w (fst st), snd st)] else []))"
| "alts Bos st = (if fst (fst st) = [] then [st] else [])"
| "alts WordB st = (if word_at (fst (fst st)) \<noteq> word_at (snd (fst st)) then [st] else [])"
| "alts (NotBehind p) st = (case fst (fst st) of [] \<Rightarrow> [st] | c # b \<Rightarrow> (if p c then [] else [st]))"
| "alts (NotAhead p) st = (case snd (fst st) of [] \<Rightarrow> [st] | c # b \<Rightarrow> (if p c then [] else [st]))"

definition first_alt :: "re \<Rightarrow> cursor \<Rightarrow> mstate option" where
  "first_alt r cur = (case alts r (cur, []) of [] \<Rightarrow> None | st # _ \<Rightarrow> Some st)"

text \<open>\<open>pattern.search\<close> from a cursor on: where the match starts, and how it ends.\<close>

fun search_at :: "re \<Rightarrow> string \<Rightarrow> string \<Rightarrow> (nat \<times> mstate) option" where
  "search_at r b [] = map_option (Pair (length b)) (first_alt r (b, []))"
| "search_at r b (c # s) = (case first_alt r (b, c # s) of
     Some st \<Rightarrow> Some (length b, st) | None \<Rightarrow> search_at r (c # b) s)"

definition re_search :: "re \<Rightarrow> string \<Rightarrow> (nat \<times> mstate) option" where
  "re_search r s = search_at r [] s"

text \<open>\<open>pattern.finditer\<close> for a pattern that matches no empty text: the search goes on where the last
  match ended.\<close>

fun finditer_at :: "nat \<Rightarrow> re \<Rightarrow> cursor \<Rightarrow> (nat \<times> mstate) list" where
  "finditer_at 0 r cur = []"
| "finditer_at (Suc n) r cur = (case search_at r (fst cur) (snd cur) of
     None \<Rightarrow> [] | Some (i, st) \<Rightarrow> (i, st) # finditer_at n r (fst st))"

definition re_finditer :: "re \<Rightarrow> string \<Rightarrow> (nat \<times> mstate) list" where
  "re_finditer r s = finditer_at (length s) r ([], s)"

subsection \<open>Building patterns\<close>

definition lit :: "char \<Rightarrow> re" where
  "lit c = Sat (\<lambda>x. x = c)"

definition liti :: "char \<Rightarrow> re" where
  "liti c = Sat (\<lambda>x. lower_char x = c)"

definition seqs :: "re list \<Rightarrow> re" where
  "seqs rs = foldr Seq rs Eps"

definition any_of :: "re list \<Rightarrow> re" where
  "any_of rs = foldr Alt rs (Sat (\<lambda>_. False))"

definition lits :: "string \<Rightarrow> re" where
  "lits s = seqs (map lit s)"

definition litsi :: "string \<Rightarrow> re" where
  "litsi s = seqs (map liti s)"

definition opt :: "re \<Rightarrow> re" where
  "opt r = Rep True 0 (Some 1) r"

definition is_upper :: "char \<Rightarrow> bool" where
  "is_upper c \<longleftrightarrow> (let n = of_char c :: nat in 65 \<le> n \<and> n \<le> 90)"

definition is_lower :: "char \<Rightarrow> bool" where
  "is_lower c \<longleftrightarrow> (let n = of_char c :: nat in 97 \<le> n \<and> n \<le> 122)"

definition ascii_digit :: "char \<Rightarrow> bool" where
  "ascii_digit c \<longleftrightarrow> (let n = of_char c :: nat in 48 \<le> n \<and> n \<le> 57)"

definition is_alnum :: "char \<Rightarrow> bool" where
  "is_alnum c \<longleftrightarrow> is_upper c \<or> is_lower c \<or> ascii_digit c"

definition alnum_or :: "string \<Rightarrow> char \<Rightarrow> bool" where
  "alnum_or s c \<longleftrightarrow> is_alnum c \<or> c \<in> set s"

subsection \<open>What a match consumes\<close>

definition eats :: "mstate \<Rightarrow> mstate \<Rightarrow> bool" where
  "eats st st' \<longleftrightarrow> (\<exists>w. snd (fst st) = w @ snd (fst st') \<and> fst (fst st') = rev w @ fst (fst st))"

lemma eats_refl [simp]: "eats st st"
  by (simp add: eats_def)

lemma eats_trans: "eats st st' \<Longrightarrow> eats st' st'' \<Longrightarrow> eats st st''"
  by (auto simp: eats_def)

lemma rep_eats: "(\<And>st st'. st' \<in> set (m st) \<Longrightarrow> eats st st') \<Longrightarrow> st' \<in> set (rep_alts m g lo hi st) \<Longrightarrow> eats st st'"
proof (induction hi arbitrary: lo st)
  case 0
  then show ?case by (auto split: if_splits)
next
  case (Suc hi)
  from Suc.prems(2) consider "st' = st" | st1 where "st1 \<in> set (m st)" "st' \<in> set (rep_alts m g (lo - 1) hi st1)"
    by (auto simp: Let_def split: if_splits)
  then show ?case
  proof cases
    case (2 st1)
    then show ?thesis using Suc.IH[OF Suc.prems(1) 2(2)] Suc.prems(1)[OF 2(1)] eats_trans by blast
  qed simp
qed

lemma alts_eats: "st' \<in> set (alts r st) \<Longrightarrow> eats st st'"
proof (induction r arbitrary: st st')
  case (Sat p)
  then show ?case by (auto simp: eats_def split: list.splits if_splits)
next
  case (Seq r q)
  from Seq.prems obtain st1 where "st1 \<in> set (alts r st)" "st' \<in> set (alts q st1)" by auto
  then show ?case using Seq.IH eats_trans by blast
next
  case (Rep g lo hi r)
  then show ?case using rep_eats[of "alts r"] by auto
next
  case (Group n r)
  from Group.prems obtain st1 where "st1 \<in> set (alts r st)" "fst st' = fst st1" by auto
  then show ?case using Group.IH by (fastforce simp: eats_def)
next
  case (Ref n)
  then show ?case
    by (cases st; cases "fst st")
      (auto simp: eats_def starts_with_iff_prefix prefix_def split: option.splits if_splits)
qed (auto split: if_splits list.splits)

subsection \<open>The search\<close>

lemma first_alt_None: "first_alt r cur = None \<longleftrightarrow> alts r (cur, []) = []"
  by (simp add: first_alt_def split: list.split)

text \<open>A search finds the first position at which the pattern can match.\<close>

lemma search_at_least:
  "search_at r b s = Some (i, st) \<Longrightarrow> \<exists>u v. s = u @ v \<and> i = length b + length u \<and> first_alt r (rev u @ b, v) = Some st
     \<and> (\<forall>u' v'. s = u' @ v' \<and> length u' < length u \<longrightarrow> first_alt r (rev u' @ b, v') = None)"
proof (induction s arbitrary: b)
  case Nil
  then show ?case by auto
next
  case (Cons c s)
  show ?case
  proof (cases "first_alt r (b, c # s)")
    case None
    then have "search_at r (c # b) s = Some (i, st)" using Cons.prems by simp
    from Cons.IH[OF this] obtain u v where uv: "s = u @ v" "i = length (c # b) + length u" "first_alt r (rev u @ c # b, v) = Some st"
      and l: "\<forall>u' v'. s = u' @ v' \<and> length u' < length u \<longrightarrow> first_alt r (rev u' @ c # b, v') = None" by blast
    have "first_alt r (rev u' @ b, v') = None" if "c # s = u' @ v'" "length u' < length (c # u)" for u' v'
      using that l None by (cases u') auto
    then show ?thesis using uv by (intro exI[of _ "c # u"] exI[of _ v]) auto
  next
    case (Some st')
    then show ?thesis using Cons.prems by (intro exI[of _ "[]"] exI[of _ "c # s"]) auto
  qed
qed

lemma search_at_None: "search_at r b s = None \<longleftrightarrow> (\<forall>u v. s = u @ v \<longrightarrow> first_alt r (rev u @ b, v) = None)"
proof (induction s arbitrary: b)
  case (Cons c s)
  show ?case
  proof (cases "first_alt r (b, c # s)")
    case None
    have eq: "search_at r b (c # s) = search_at r (c # b) s" using None by simp
    have iff: "(\<forall>u v. c # s = u @ v \<longrightarrow> first_alt r (rev u @ b, v) = None)
        \<longleftrightarrow> (\<forall>u v. s = u @ v \<longrightarrow> first_alt r (rev u @ c # b, v) = None)"
    proof
      assume a: "\<forall>u v. c # s = u @ v \<longrightarrow> first_alt r (rev u @ b, v) = None"
      show "\<forall>u v. s = u @ v \<longrightarrow> first_alt r (rev u @ c # b, v) = None"
      proof (intro allI impI)
        fix u v assume "s = u @ v"
        then show "first_alt r (rev u @ c # b, v) = None" using a[rule_format, of "c # u" v] by simp
      qed
    next
      assume a: "\<forall>u v. s = u @ v \<longrightarrow> first_alt r (rev u @ c # b, v) = None"
      show "\<forall>u v. c # s = u @ v \<longrightarrow> first_alt r (rev u @ b, v) = None"
      proof (intro allI impI)
        fix u v assume u: "c # s = u @ v"
        show "first_alt r (rev u @ b, v) = None"
        proof (cases u)
          case Nil
          then show ?thesis using u None by simp
        next
          case (Cons x u')
          then have "s = u' @ v" "x = c" using u by simp_all
          from a[rule_format, OF this(1)] show ?thesis using Cons \<open>x = c\<close> by simp
        qed
      qed
    qed
    show ?thesis unfolding eq iff by (rule Cons.IH)
  next
    case (Some st)
    have "first_alt r (rev [] @ b, c # s) \<noteq> None" using Some by simp
    then have "\<not> (\<forall>u v. c # s = u @ v \<longrightarrow> first_alt r (rev u @ b, v) = None)" by (metis append_Nil)
    moreover have "search_at r b (c # s) \<noteq> None" using Some by simp
    ultimately show ?thesis by blast
  qed
qed simp

lemma search_finds:
  assumes "st \<in> set (alts r ((rev u, v), []))"
  shows "re_search r (u @ v) \<noteq> None"
  using assms search_at_None[of r "[]" "u @ v"] by (auto simp: re_search_def first_alt_None)

subsection \<open>Rewriting matches\<close>

lemma alts_lit [simp]: "alts (lit c) ((b, s), g) = (case s of [] \<Rightarrow> [] | x # s' \<Rightarrow> if x = c then [((c # b, s'), g)] else [])"
  by (simp add: lit_def split: list.split)

lemma alts_seqs_Cons: "alts (seqs (r # rs)) st = concat (map (alts (seqs rs)) (alts r st))"
  by (simp add: seqs_def)

lemma alts_any_Cons: "alts (any_of (r # rs)) st = alts r st @ alts (any_of rs) st"
  by (simp add: any_of_def)

lemma alts_lits: "alts (lits w) ((b, w @ s), g) = [((rev w @ b, s), g)]"
proof (induction w arbitrary: b)
  case (Cons c w)
  then show ?case by (simp add: lits_def alts_seqs_Cons)
qed (simp add: lits_def seqs_def)

lemma rep_consumes:
  assumes "\<And>b c s. p c \<Longrightarrow> m ((b, c # s), g) = [((c # b, s), g)]"
  shows "list_all p w \<Longrightarrow> lo \<le> length w \<Longrightarrow> length w \<le> hi \<Longrightarrow>
    ((rev w @ b, s), g) \<in> set (rep_alts m gr lo hi ((b, w @ s), g))"
proof (induction hi arbitrary: w lo b)
  case (Suc hi)
  then show ?case
  proof (cases w)
    case (Cons c w')
    with Suc.prems have "((rev w' @ c # b, s), g) \<in> set (rep_alts m gr (lo - 1) hi ((c # b, w' @ s), g))"
      by (intro Suc.IH) auto
    then show ?thesis using Cons Suc.prems(1) assms by (auto simp: Let_def)
  qed (auto simp: Let_def)
qed auto

lemma alts_Rep_Sat:
  "list_all p w \<Longrightarrow> lo \<le> length w \<Longrightarrow> length w \<le> hi \<Longrightarrow>
   ((rev w @ b, s), g) \<in> set (alts (Rep gr lo (Some hi) (Sat p)) ((b, w @ s), g))"
  unfolding alts.simps(5) option.case by (rule rep_consumes[where p = p]) auto

end
