(* ===== verification/SecretScan.thy ===== *)
theory SecretScan
  imports Regex PyValue
begin

text \<open>
  The secret scanner of the write gate (\<^verbatim>\<open>write_gate.py\<close>): the built-in patterns, the earliest
  match, its redacted report, and the operator's extra patterns, whose engine (the third-party
  \<^verbatim>\<open>regex\<close> package) is a parameter that gives the start of a match, or nothing on a timeout.
\<close>

subsection \<open>Patterns\<close>

definition re_alnum_or :: "string \<Rightarrow> nat \<Rightarrow> nat \<Rightarrow> re" where
  "re_alnum_or s lo hi = Rep True lo (Some hi) (Sat (alnum_or s))"

definition private_key_re :: re where
  "private_key_re = seqs [lits ''-----BEGIN '',
     opt (Seq (any_of [lits ''RSA'', lits ''EC'', lits ''OPENSSH'', lits ''DSA'', lits ''PGP'']) (lits '' '')),
     lits ''PRIVATE KEY-----'']"

definition github_token_re :: re where
  "github_token_re = seqs [WordB,
     any_of [seqs [lits ''gh'', Sat (\<lambda>c. c \<in> set ''oprsu''), lits ''_'', re_alnum_or '''' 20 255],
       seqs [lits ''github_pat_'', re_alnum_or ''_'' 20 255]],
     WordB]"

definition aws_access_key_re :: re where
  "aws_access_key_re = seqs [WordB, any_of [lits ''AKIA'', lits ''ASIA''],
     Rep True 16 (Some 16) (Sat (\<lambda>c. ascii_digit c \<or> is_upper c)), WordB]"

definition llm_provider_key_re :: re where
  "llm_provider_key_re = seqs [NotBehind is_alnum,
     any_of [Seq (lits ''sk-ant-'') (re_alnum_or ''_-'' 24 255), Seq (lits ''sk-proj-'') (re_alnum_or ''_-'' 24 255),
       Seq (lits ''sk-svcacct-'') (re_alnum_or ''_-'' 24 255), Seq (lits ''sk-or-v1-'') (re_alnum_or '''' 32 255),
       Seq (lits ''hf_'') (re_alnum_or '''' 32 255), Seq (lits ''gsk_'') (re_alnum_or '''' 20 255),
       Seq (lits ''xai-'') (re_alnum_or ''_'' 32 255), Seq (lits ''sk-'') (re_alnum_or '''' 32 255)],
     NotAhead is_alnum]"

definition google_api_key_re :: re where
  "google_api_key_re = seqs [NotBehind is_alnum, lits ''AIza'', re_alnum_or ''_-'' 35 35, NotAhead (alnum_or ''-'')]"

definition slack_token_re :: re where
  "slack_token_re = seqs [WordB, lits ''xox'', Sat (\<lambda>c. c \<in> set ''bpars''), lits ''-'', re_alnum_or ''-'' 10 200, WordB]"

definition is_quote_char :: "char \<Rightarrow> bool" where
  "is_quote_char c \<longleftrightarrow> of_char c = (39 :: nat) \<or> of_char c = (34 :: nat)"

definition spaces_re :: re where
  "spaces_re = Rep True 0 None (Sat is_space)"

definition generic_cred_re :: re where
  "generic_cred_re = seqs [any_of [Bos, Sat (\<lambda>c. \<not> alnum_or ''_'' c)], re_alnum_or ''_'' 0 40,
     any_of [litsi ''password'', litsi ''passwd'', litsi ''secret''], spaces_re, Sat (\<lambda>c. c \<in> set '':=''), spaces_re,
     Group 1 (opt (Sat is_quote_char)), Group 2 (Rep True 1 (Some 200) (Sat (\<lambda>c. \<not> is_space c \<and> \<not> is_quote_char c))), Ref 1]"

definition segment_re :: "string \<Rightarrow> re" where
  "segment_re s = Rep True 1 (Some 200) (Sat (\<lambda>c. \<not> is_space c \<and> \<not> is_quote_char c \<and> c \<notin> set s))"

definition conn_string_re :: re where
  "conn_string_re = seqs [WordB, Sat (\<lambda>c. is_upper c \<or> is_lower c), re_alnum_or ''+.-'' 1 20, lits ''://'',
     segment_re '':/@'', lits '':'', segment_re ''@/'', lits ''@'', segment_re ''/'']"

definition builtin_patterns :: "(string \<times> re) list" where
  "builtin_patterns = [(''private_key_block'', private_key_re), (''github_token'', github_token_re),
     (''aws_access_key_id'', aws_access_key_re), (''slack_token'', slack_token_re),
     (''llm_provider_api_key'', llm_provider_key_re), (''google_api_key'', google_api_key_re),
     (''generic_credential_assignment'', generic_cred_re), (''connection_string_password'', conn_string_re)]"

definition PLACEHOLDER_VALUES :: "string list" where
  "PLACEHOLDER_VALUES = ['''', ''changeme'', ''change_me'', ''change-me'', ''placeholder'', ''example'',
     ''redacted'', ''xxx'', ''xxxx'', ''todo'', ''fixme'', ''password'', ''secret'',
     ''test'', ''null'', ''none'', ''n/a'', ''your_password'', ''yourpassword'']"

definition strip_quotes :: "string \<Rightarrow> string" where
  "strip_quotes s = rev (dropWhile is_quote_char (rev (dropWhile is_quote_char s)))"

definition is_placeholder_value :: "string \<Rightarrow> bool" where
  "is_placeholder_value value =
     (let v = strip_quotes (strip value)
      in if v = [] then True
         else if lower v \<in> set PLACEHOLDER_VALUES then True
         else hd v \<in> set ''<{$'' \<or> list_all (\<lambda>c. c = CHR ''x'') (lower v) \<or> list_all (\<lambda>c. c = CHR ''*'') v)"

definition line_of :: "string \<Rightarrow> nat \<Rightarrow> nat" where
  "line_of content i = length (filter (\<lambda>c. c = CHR 0x0A) (take i content)) + 1"

subsection \<open>The scan\<close>

record secret_match =
  pattern_name :: string
  line :: nat

text \<open>Where a built-in pattern first matches, a placeholder credential not counting.\<close>

definition is_real :: "string \<Rightarrow> nat \<times> mstate \<Rightarrow> bool" where
  "is_real name m \<longleftrightarrow> \<not> (name = ''generic_credential_assignment'' \<and> is_placeholder_value (get_or [] (snd (snd m)) 2))"

definition builtin_start :: "string \<times> re \<Rightarrow> string \<Rightarrow> nat option" where
  "builtin_start p s = map_option fst (List.find (is_real (fst p)) (re_finditer (snd p) s))"

type_synonym custom = "string \<times> (string \<Rightarrow> nat option)"

definition better :: "(nat \<times> string) option \<Rightarrow> string \<Rightarrow> nat option \<Rightarrow> (nat \<times> string) option" where
  "better best name start = (case start of None \<Rightarrow> best
     | Some i \<Rightarrow> (case best of None \<Rightarrow> Some (i, name) | Some (j, n) \<Rightarrow> if i < j then Some (i, name) else best))"

definition starts :: "custom list \<Rightarrow> string \<Rightarrow> (string \<times> nat option) list" where
  "starts cs s = map (\<lambda>p. (fst p, builtin_start p s)) builtin_patterns @ map (\<lambda>c. (fst c, snd c s)) cs"

definition scan_postimage_for_secrets :: "custom list \<Rightarrow> string \<Rightarrow> secret_match option" where
  "scan_postimage_for_secrets cs s =
     map_option (\<lambda>(i, n). \<lparr>pattern_name = n, line = line_of s i\<rparr>)
       (fold (\<lambda>p best. better best (fst p) (snd p)) (starts cs s) None)"

subsection \<open>Extra patterns\<close>

definition redos_nested_quantifier_re :: re where
  "redos_nested_quantifier_re = (let other = Rep True 0 None (Sat (\<lambda>c. c \<notin> set ''()''))
     in seqs [lits ''('', other, Sat (\<lambda>c. c \<in> set ''+*''), other, lits '')'', Sat (\<lambda>c. c \<in> set ''+*'')])"

definition looks_redos_prone :: "string \<Rightarrow> bool" where
  "looks_redos_prone s \<longleftrightarrow> re_search redos_nested_quantifier_re s \<noteq> None"

text \<open>The comma form, character by character: the index, the current piece, the depth of braces,
  whether inside a class, and where its body starts.\<close>

fun split_comma_at :: "nat \<Rightarrow> string \<Rightarrow> nat \<Rightarrow> bool \<Rightarrow> nat \<Rightarrow> string \<Rightarrow> string list" where
  "split_comma_at i buf depth in_class body [] = [buf]"
| "split_comma_at i buf depth in_class body (c # s) =
     (if c = CHR 0x5C \<and> s \<noteq> [] then split_comma_at (i + 2) (buf @ [c, hd s]) depth in_class body (tl s)
      else if in_class then split_comma_at (i + 1) (buf @ [c]) depth (\<not> (c = CHR '']'' \<and> i > body)) body s
      else if c = CHR ''['' then
        split_comma_at (i + 1) (buf @ [c]) depth True (if take 1 s = ''^'' then i + 2 else i + 1) s
      else if c = CHR ''{'' then split_comma_at (i + 1) (buf @ [c]) (depth + 1) False body s
      else if c = CHR ''}'' \<and> depth > 0 then split_comma_at (i + 1) (buf @ [c]) (depth - 1) False body s
      else if c = CHR '','' \<and> depth = 0 then buf # split_comma_at (i + 1) [] depth False body s
      else split_comma_at (i + 1) (buf @ [c]) depth False body s)"

definition split_comma_form :: "string \<Rightarrow> string list" where
  "split_comma_form raw = filter (\<lambda>p. p \<noteq> []) (map strip (split_comma_at 0 [] 0 False 0 raw))"

text \<open>\<open>loads\<close> is \<^verbatim>\<open>json.loads\<close>, with \<^const>\<open>None\<close> for a decoding error.\<close>

definition split_extra_secret_patterns :: "(string \<Rightarrow> pyval option) \<Rightarrow> string \<Rightarrow> pyval list" where
  "split_extra_secret_patterns loads raw =
     (let stripped = strip raw
      in if stripped = [] then []
         else case (if starts_with ''['' stripped then loads stripped else None) of
             Some (PyList xs) \<Rightarrow> xs
           | _ \<Rightarrow> map PyStr (split_comma_form stripped))"

datatype entry_problem = NotAString | RedosProne | InvalidRegex

text \<open>\<open>compile\<close> is the constructor of the third-party engine: \<^const>\<open>None\<close> for an invalid expression.\<close>

definition entry_pattern :: "(string \<Rightarrow> (string \<Rightarrow> nat option) option) \<Rightarrow> pyval \<Rightarrow> entry_problem + (string \<Rightarrow> nat option)" where
  "entry_pattern compile v = (case v of
      PyStr s \<Rightarrow> (if strip s = [] then Inl NotAString
         else if looks_redos_prone s then Inl RedosProne
         else case compile s of None \<Rightarrow> Inl InvalidRegex | Some f \<Rightarrow> Inr f)
    | _ \<Rightarrow> Inl NotAString)"

fun compile_from :: "(string \<Rightarrow> (string \<Rightarrow> nat option) option) \<Rightarrow> (nat \<Rightarrow> string) \<Rightarrow> bool \<Rightarrow> nat \<Rightarrow> custom list \<Rightarrow>
    pyval list \<Rightarrow> (nat \<times> entry_problem) + custom list" where
  "compile_from compile show strict number out [] = Inr out"
| "compile_from compile show strict number out (v # vs) = (case entry_pattern compile v of
      Inl p \<Rightarrow> (if strict then Inl (number, p) else compile_from compile show strict (number + 1) out vs)
    | Inr f \<Rightarrow> compile_from compile show strict (number + 1) (out @ [(''custom_'' @ show (length out + 1), f)]) vs)"

definition compile_extra_secret_patterns where
  "compile_extra_secret_patterns compile show strict entries = compile_from compile show strict 1 [] entries"

text \<open>The patterns a scan uses: those given, else those configured at startup, else the environment's, read leniently.\<close>

definition effective_patterns where
  "effective_patterns compile show loads given configured env =
     (case given of Some cs \<Rightarrow> cs | None \<Rightarrow> (case configured of Some cs \<Rightarrow> cs
       | None \<Rightarrow> (case compile_extra_secret_patterns compile show False (split_extra_secret_patterns loads env) of
            Inr cs \<Rightarrow> cs | Inl _ \<Rightarrow> [])))"

subsection \<open>The earliest match\<close>

lemma better_simps [simp]: "better best n None = best" "better None n (Some i) = Some (i, n)"
  "better (Some (j, m)) n (Some i) = (if i < j then Some (i, n) else Some (j, m))"
  by (simp_all add: better_def)

lemma fold_better_None: "fold (\<lambda>p best. better best (fst p) (snd p)) ps best = None \<longleftrightarrow> best = None \<and> (\<forall>p \<in> set ps. snd p = None)"
proof (induction ps arbitrary: best)
  case (Cons p ps)
  then show ?case by (cases "snd p"; cases best) auto
qed simp

lemma fold_better_Some:
  "fold (\<lambda>p best. better best (fst p) (snd p)) ps None = Some (i, n) \<longleftrightarrow>
   (\<exists>xs ys. ps = xs @ (n, Some i) # ys \<and> (\<forall>q \<in> set xs. \<forall>j. snd q = Some j \<longrightarrow> i < j) \<and> (\<forall>q \<in> set ys. \<forall>j. snd q = Some j \<longrightarrow> i \<le> j))"
  (is "?f ps = _ \<longleftrightarrow> ?R ps i n")
proof (induction ps arbitrary: i n rule: rev_induct)
  case (snoc p ps)
  have R: "?R (ps @ [p]) i n \<longleftrightarrow> (?R ps i n \<and> (\<forall>j. snd p = Some j \<longrightarrow> i \<le> j))
      \<or> (p = (n, Some i) \<and> (\<forall>q \<in> set ps. \<forall>j. snd q = Some j \<longrightarrow> i < j))" (is "_ \<longleftrightarrow> ?A \<or> ?B")
  proof
    assume "?R (ps @ [p]) i n"
    then obtain xs ys where x: "ps @ [p] = xs @ (n, Some i) # ys" "\<forall>q \<in> set xs. \<forall>j. snd q = Some j \<longrightarrow> i < j"
      "\<forall>q \<in> set ys. \<forall>j. snd q = Some j \<longrightarrow> i \<le> j" by blast
    show "?A \<or> ?B"
    proof (cases ys rule: rev_cases)
      case Nil
      then show ?thesis using x by auto
    next
      case (snoc ys' q)
      then have "ps = xs @ (n, Some i) # ys'" "p = q" using x(1) by auto
      moreover have "\<forall>q \<in> set ys'. \<forall>j. snd q = Some j \<longrightarrow> i \<le> j" "\<forall>j. snd p = Some j \<longrightarrow> i \<le> j"
        using x(3) snoc calculation(2) by auto
      ultimately have ?A using x(2) by blast
      then show ?thesis ..
    qed
  next
    assume "?A \<or> ?B"
    then show "?R (ps @ [p]) i n"
    proof
      assume ?A
      then obtain xs ys where "ps = xs @ (n, Some i) # ys" "\<forall>q \<in> set xs. \<forall>j. snd q = Some j \<longrightarrow> i < j"
        "\<forall>q \<in> set (ys @ [p]). \<forall>j. snd q = Some j \<longrightarrow> i \<le> j" by auto
      then show ?thesis by (intro exI[of _ xs] exI[of _ "ys @ [p]"]) simp
    next
      assume ?B
      then show ?thesis by (intro exI[of _ ps] exI[of _ "[]"]) simp
    qed
  qed
  show ?case
  proof (cases "?f ps")
    case None
    then have all: "\<forall>q \<in> set ps. snd q = None" by (simp add: fold_better_None)
    have n: "\<not> ?R ps i n" using snoc.IH[of i n] None by simp
    have f: "?f (ps @ [p]) = better None (fst p) (snd p)" using None by simp
    show ?thesis unfolding R f using n all by (cases p; cases "snd p") auto
  next
    case (Some b)
    obtain j m where b: "b = (j, m)" by fastforce
    have j: "?R ps j m" using snoc.IH[of j m] Some b by simp
    have u: "?R ps i n \<longleftrightarrow> i = j \<and> n = m" using snoc.IH[of i n] Some b by auto
    have l: "(\<forall>q \<in> set ps. \<forall>k. snd q = Some k \<longrightarrow> i < k) \<longleftrightarrow> i < j"
    proof
      assume "\<forall>q \<in> set ps. \<forall>k. snd q = Some k \<longrightarrow> i < k"
      then show "i < j" using j by auto
    next
      assume ij: "i < j"
      show "\<forall>q \<in> set ps. \<forall>k. snd q = Some k \<longrightarrow> i < k"
      proof (intro ballI allI impI)
        fix q k assume "q \<in> set ps" "snd q = Some k"
        then have "j \<le> k" using j by fastforce
        then show "i < k" using ij by simp
      qed
    qed
    have f: "?f (ps @ [p]) = better (Some (j, m)) (fst p) (snd p)" using Some b by simp
    show ?thesis unfolding R u l f by (cases p; cases "snd p") auto
  qed
qed simp

text \<open>The scan is clean exactly when no pattern, built in or extra, has a match that counts, and otherwise
  it reports the earliest one, by name and line only; of two that start together the pattern listed first.\<close>

theorem scan_reports_earliest:
  "(scan_postimage_for_secrets cs s = None \<longleftrightarrow> (\<forall>p \<in> set (starts cs s). snd p = None))
   \<and> (scan_postimage_for_secrets cs s = Some m \<longleftrightarrow> (\<exists>xs ys i. starts cs s = xs @ (pattern_name m, Some i) # ys
        \<and> m = \<lparr>pattern_name = pattern_name m, line = line_of s i\<rparr>
        \<and> (\<forall>q \<in> set xs. \<forall>j. snd q = Some j \<longrightarrow> i < j) \<and> (\<forall>q \<in> set ys. \<forall>j. snd q = Some j \<longrightarrow> i \<le> j)))"
proof -
  have "scan_postimage_for_secrets cs s = Some m \<longleftrightarrow>
      (\<exists>i. fold (\<lambda>p best. better best (fst p) (snd p)) (starts cs s) None = Some (i, pattern_name m)
        \<and> m = \<lparr>pattern_name = pattern_name m, line = line_of s i\<rparr>)"
    by (auto simp: scan_postimage_for_secrets_def)
  then show ?thesis
    unfolding fold_better_Some by (auto simp: scan_postimage_for_secrets_def fold_better_None)
qed

theorem scan_reports_earliest_witness: "scan_postimage_for_secrets [] ''a plain line'' = None"
proof -
  have "list_all (\<lambda>p. snd p = None) (starts [] ''a plain line'')" by code_simp
  then show ?thesis using scan_reports_earliest[of "[]" "''a plain line''"] by (simp add: list_all_iff)
qed

subsection \<open>Detection\<close>

lemma builtin_start_found:
  assumes "st \<in> set (alts r ((rev u, v), []))" and "u @ v \<noteq> []" and "name \<noteq> ''generic_credential_assignment''"
  shows "builtin_start (name, r) (u @ v) \<noteq> None"
proof -
  obtain n where n: "length (u @ v) = Suc n" using assms(2) by (cases "u @ v") auto
  obtain i st' where f: "search_at r [] (u @ v) = Some (i, st')"
    using search_finds[OF assms(1)] by (auto simp: re_search_def)
  have "re_finditer r (u @ v) = (i, st') # finditer_at n r (fst st')"
    unfolding re_finditer_def n by (simp add: f)
  then show ?thesis using assms(3) by (simp add: builtin_start_def is_real_def)
qed

lemma scan_flags: "(name, r) \<in> set builtin_patterns \<Longrightarrow> builtin_start (name, r) s \<noteq> None \<Longrightarrow> scan_postimage_for_secrets cs s \<noteq> None"
proof -
  assume p: "(name, r) \<in> set builtin_patterns" "builtin_start (name, r) s \<noteq> None"
  then have "(name, builtin_start (name, r) s) \<in> set (starts cs s)" by (force simp: starts_def)
  then have "\<not> (\<forall>q \<in> set (starts cs s). snd q = None)" using p(2) by fastforce
  then show ?thesis by (simp add: scan_postimage_for_secrets_def fold_better_None)
qed

lemma is_word_ascii: "is_upper c \<or> is_lower c \<or> ascii_digit c \<Longrightarrow> is_word c"
  by (auto simp: is_upper_def is_lower_def ascii_digit_def is_word_def Let_def)

text \<open>An AWS key id is always reported: wherever it stands in a text, with whatever around it, as long as no
  word character touches it, and whatever the extra patterns do, the scan is not clean.\<close>

theorem aws_key_always_reported:
  assumes "length k = 16" and "list_all (\<lambda>c. ascii_digit c \<or> is_upper c) k" and "p \<in> {''AKIA'', ''ASIA''}"
    and "\<not> word_at (rev u)" and "\<not> word_at v"
  shows "scan_postimage_for_secrets cs (u @ p @ k @ v) \<noteq> None"
proof -
  have k: "((rev k @ rev p @ rev u, v), []) \<in> set (alts (Rep True 16 (Some 16) (Sat (\<lambda>c. ascii_digit c \<or> is_upper c))) ((rev p @ rev u, k @ v), []))"
    by (rule alts_Rep_Sat) (use assms(1,2) in simp_all)
  have "k \<noteq> []" and l: "is_word (last k)"
    using assms(1,2) is_word_ascii by (cases k rule: rev_cases; auto)+
  then have w2: "word_at (rev k @ rev p @ rev u) \<noteq> word_at v"
    using assms(5) by (cases k rule: rev_cases) (auto simp: word_at_def)
  have w1: "word_at (rev u) \<noteq> word_at (p @ k @ v)"
    using assms(3,4) by (auto simp: word_at_def is_word_def)
  have pk: "((rev p @ rev u, k @ v), []) \<in> set (alts (any_of [lits ''AKIA'', lits ''ASIA'']) ((rev u, p @ k @ v), []))"
    using assms(3) alts_lits[of "''AKIA''" "rev u" "k @ v" "[]"] alts_lits[of "''ASIA''" "rev u" "k @ v" "[]"]
    by (auto simp: alts_any_Cons simp del: append.simps)
  have "((rev k @ rev p @ rev u, v), []) \<in> set (alts aws_access_key_re ((rev u, p @ k @ v), []))"
    unfolding aws_access_key_re_def alts_seqs_Cons using w1 w2 pk k
    by (fastforce simp: alts_seqs_Cons seqs_def[of "[]"])
  then have "builtin_start (''aws_access_key_id'', aws_access_key_re) (u @ p @ k @ v) \<noteq> None"
    by (rule builtin_start_found) (use \<open>k \<noteq> []\<close> in simp_all)
  then show ?thesis by (intro scan_flags[of "''aws_access_key_id''" aws_access_key_re]) (simp_all add: builtin_patterns_def)
qed

theorem aws_key_always_reported_witness:
  "scan_postimage_for_secrets [] (''x='' @ ''AKIA'' @ ''0123456789ABCDEF'' @ '';'') \<noteq> None"
  by (rule aws_key_always_reported) (code_simp+)

lemma scan_plain: "scan_postimage_for_secrets [] ''password = hunter2'' \<noteq> None" by code_simp

lemma scan_hidden: "scan_postimage_for_secrets [] ''secret: password = hunter2'' = None" by code_simp

lemma scan_emphasis: "scan_postimage_for_secrets [] ''_AKIA0123456789ABCDEF_'' = None" by code_simp

text \<open>A real credential can be hidden by a placeholder: the placeholder's match is skipped together with the
  text it consumed, so a key name that stands as the value of another key takes its own assignment out of sight; and
  a key in Markdown emphasis is not seen by the patterns whose boundary is \<open>\b\<close>.\<close>

theorem placeholder_hides_credential:
  "scan_postimage_for_secrets [] ''password = hunter2'' \<noteq> None
   \<and> scan_postimage_for_secrets [] ''secret: password = hunter2'' = None
   \<and> scan_postimage_for_secrets [] ''_AKIA0123456789ABCDEF_'' = None"
  by (intro conjI scan_plain scan_hidden scan_emphasis)

subsection \<open>The comma form\<close>

text \<open>A piece that the splitter leaves in one part and in its initial state.\<close>

fun closed_at :: "nat \<Rightarrow> nat \<Rightarrow> bool \<Rightarrow> nat \<Rightarrow> string \<Rightarrow> bool" where
  "closed_at i depth in_class body [] = (depth = 0 \<and> \<not> in_class)"
| "closed_at i depth in_class body (c # s) =
     (if c = CHR 0x5C then s \<noteq> [] \<and> closed_at (i + 2) depth in_class body (tl s)
      else if in_class then closed_at (i + 1) depth (\<not> (c = CHR '']'' \<and> i > body)) body s
      else if c = CHR ''['' then s \<noteq> [] \<and> closed_at (i + 1) depth True (if take 1 s = ''^'' then i + 2 else i + 1) s
      else if c = CHR ''{'' then closed_at (i + 1) (depth + 1) False body s
      else if c = CHR ''}'' \<and> depth > 0 then closed_at (i + 1) (depth - 1) False body s
      else if c = CHR '','' \<and> depth = 0 then False
      else closed_at (i + 1) depth False body s)"

definition closed :: "string \<Rightarrow> bool" where
  "closed p \<longleftrightarrow> closed_at 0 0 False 0 p"

text \<open>Only the distance to the start of a class body matters, and only inside a class.\<close>

lemma split_shift:
  "ic \<longrightarrow> i + body' = i' + body \<Longrightarrow> split_comma_at i buf depth ic body s = split_comma_at i' buf depth ic body' s"
proof (induction i buf depth ic body s arbitrary: i' body' rule: split_comma_at.induct)
  case (2 i buf depth ic body c s)
  let ?esc = "c = CHR 0x5C \<and> s \<noteq> []"
  show ?case
  proof (cases ?esc)
    case True
    then show ?thesis using "2.IH"(1)[OF True, of body' "i' + 2"] "2.prems" by simp
  next
    case esc: False
    show ?thesis
    proof (cases ic)
      case True
      have "i > body \<longleftrightarrow> i' > body'" using "2.prems" True by arith
      then show ?thesis using "2.IH"(2)[OF esc True, of body' "i' + 1"] "2.prems" esc True by simp
    next
      case out: False
      consider "c = CHR ''[''" | "c = CHR ''{''" | "c = CHR ''}'' \<and> depth > 0" | "c = CHR '','' \<and> depth = 0"
        | "c \<noteq> CHR ''[''" "c \<noteq> CHR ''{''" "\<not> (c = CHR ''}'' \<and> depth > 0)" "\<not> (c = CHR '','' \<and> depth = 0)" by blast
      then show ?thesis
      proof cases
        case 1
        have "(if take 1 s = ''^'' then i + 2 else i + 1) + (i' + 1) = (if take 1 s = ''^'' then i' + 2 else i' + 1) + (i + 1)" by simp
        then show ?thesis
          using "2.IH"(3)[OF esc out 1, of "if take 1 s = ''^'' then i' + 2 else i' + 1" "i' + 1"] 1 esc out
          by (simp del: take.simps split del: if_split)
      next
        case 2
        then show ?thesis using "2.IH"(4)[OF esc out _ 2, of body' "i' + 1"] esc out by simp
      next
        case 3
        then show ?thesis using "2.IH"(5)[OF esc out _ _ 3, of body' "i' + 1"] esc out by simp
      next
        case 4
        then show ?thesis using "2.IH"(6)[OF esc out _ _ _ 4, of body' "i' + 1"] esc out by simp
      next
        case 5
        then show ?thesis using "2.IH"(7)[OF esc out 5, of body' "i' + 1"] 5 esc out by auto
      qed
    qed
  qed
qed simp

lemma split_outside: "split_comma_at i buf depth False body s = split_comma_at 0 buf depth False 0 s"
  by (rule split_shift) simp

lemma split_closed:
  "closed_at i depth ic body p \<Longrightarrow> split_comma_at i buf depth ic body (p @ s) = split_comma_at 0 (buf @ p) 0 False 0 s"
proof (induction i depth ic body p arbitrary: buf rule: closed_at.induct)
  case (1 i depth ic body)
  then show ?case using split_outside[of i buf 0 body s] by simp
next
  case (2 i depth ic body c p)
  show ?case
  proof (cases "c = CHR 0x5C")
    case True
    then obtain x p' where "p = x # p'" using "2.prems" by (cases p) auto
    then show ?thesis using "2.IH"(1)[OF True, of "buf @ [c, x]"] "2.prems" True by simp
  next
    case esc: False
    show ?thesis
    proof (cases ic)
      case True
      then show ?thesis using "2.IH"(2)[OF esc True, of "buf @ [c]"] "2.prems" esc by simp
    next
      case out: False
      consider "c = CHR ''[''" | "c = CHR ''{''" | "c = CHR ''}'' \<and> depth > 0" | "c = CHR '','' \<and> depth = 0"
        | "c \<noteq> CHR ''[''" "c \<noteq> CHR ''{''" "\<not> (c = CHR ''}'' \<and> depth > 0)" "\<not> (c = CHR '','' \<and> depth = 0)" by blast
      then show ?thesis
      proof cases
        case 1
        then obtain x p' where "p = x # p'" using "2.prems" esc out by (cases p) auto
        then show ?thesis using "2.IH"(3)[OF esc out 1, of "buf @ [c]"] "2.prems" 1 esc out by simp
      next
        case 2
        then show ?thesis using "2.IH"(4)[OF esc out _ 2, of "buf @ [c]"] "2.prems" esc out by simp
      next
        case 3
        then show ?thesis using "2.IH"(5)[OF esc out _ _ 3, of "buf @ [c]"] "2.prems" esc out by simp
      next
        case 4
        then show ?thesis using "2.prems" esc out by simp
      next
        case 5
        then show ?thesis using "2.IH"(6)[OF esc out 5, of "buf @ [c]"] "2.prems" 5 esc out by (auto split: if_splits)
      qed
    qed
  qed
qed

fun join_comma :: "string list \<Rightarrow> string" where
  "join_comma [] = ''''"
| "join_comma [p] = p"
| "join_comma (p # ps) = p @ '','' @ join_comma ps"

lemma comma_split_join: "ps \<noteq> [] \<Longrightarrow> list_all closed ps \<Longrightarrow> split_comma_at 0 [] 0 False 0 (join_comma ps) = ps"
proof (induction ps rule: join_comma.induct)
  case (2 p)
  then show ?case using split_closed[of 0 0 False 0 p "[]" "[]"] by (simp add: closed_def)
next
  case (3 p q ps)
  have "split_comma_at 0 [] 0 False 0 (p @ '','' @ join_comma (q # ps)) = split_comma_at 0 p 0 False 0 ('','' @ join_comma (q # ps))"
    using 3 split_closed[of 0 0 False 0 p "[]"] by (simp add: closed_def)
  also have "\<dots> = p # split_comma_at 0 [] 0 False 0 (join_comma (q # ps))"
    using split_outside[of 1] by simp
  finally show ?case using 3 by simp
qed simp

text \<open>The comma form is faithful: patterns that are stripped, non-empty and have their commas inside braces or
  classes or escaped come back exactly as they were joined.\<close>

theorem comma_form_roundtrip:
  assumes "ps \<noteq> []" and "list_all closed ps" and "list_all (\<lambda>p. strip p = p \<and> p \<noteq> []) ps"
  shows "split_comma_form (join_comma ps) = ps"
proof -
  have "map strip ps = ps" "filter (\<lambda>p. p \<noteq> []) ps = ps"
    using assms(3) by (induction ps) auto
  then show ?thesis by (simp add: split_comma_form_def comma_split_join[OF assms(1,2)])
qed

theorem comma_form_roundtrip_witness:
  "split_comma_form (join_comma [''a{1,2}'', ''[],]b'', ''c'']) = [''a{1,2}'', ''[],]b'', ''c'']"
  by (rule comma_form_roundtrip) (simp, code_simp, code_simp)

end
