(* ===== verification/WriteGate.thy ===== *)
theory WriteGate
  imports Frontmatter SecretScan
begin

text \<open>
  The integrity gates of the write path (\<^verbatim>\<open>write_gate.py\<close>): compare-and-swap on the base
  of a write, the snapshot of the committed tree, and the validation of the bytes to be committed.

  Parameters: the digests \<open>sha1\<close> and \<open>sha256\<close>, \<open>load\<close> for \<^verbatim>\<open>yaml.safe_load\<close>, \<open>scan\<close>
  for the secret scan with the configured patterns, and what git answers.
\<close>

subsection \<open>Compare and swap\<close>

fun nat_digits :: "nat \<Rightarrow> nat \<Rightarrow> string" where
  "nat_digits 0 n = []"
| "nat_digits (Suc fuel) n = (if n < 10 then [digit n] else nat_digits fuel (n div 10) @ [digit n])"

definition show_nat :: "nat \<Rightarrow> string" where
  "show_nat n = nat_digits (Suc n) n"

definition blob_sha :: "(string \<Rightarrow> string) \<Rightarrow> string \<Rightarrow> string" where
  "blob_sha sha1 content = sha1 (''blob '' @ show_nat (length content) @ [CHR 0x00] @ content)"

definition upper_head :: "string \<Rightarrow> bool" where
  "upper_head s \<longleftrightarrow> lower s = ''head''"

definition is_enforceable_base_commit :: "string option \<Rightarrow> bool" where
  "is_enforceable_base_commit c = (case c of None \<Rightarrow> False | Some s \<Rightarrow> s \<noteq> [] \<and> \<not> upper_head (strip s))"

datatype cas_result =
    CasOk
  | BlobMismatch string string
  | HashMismatch string string
  | UnknownCommit string
  | CommitMismatch string string string

text \<open>What git says of the worktree: whether a commit exists, and the blob of the target at a commit
  (empty when there is none).\<close>

record git_view =
  commit_exists :: "string \<Rightarrow> bool"
  git_blob_at :: "string \<Rightarrow> string"

definition marker :: "string option \<Rightarrow> bool" where
  "marker m \<longleftrightarrow> (case m of None \<Rightarrow> False | Some s \<Rightarrow> s \<noteq> [])"

definition check_cas ::
  "(string \<Rightarrow> string) \<Rightarrow> (string \<Rightarrow> string) \<Rightarrow> git_view \<Rightarrow> string option \<Rightarrow> string option \<Rightarrow> string option \<Rightarrow> string option \<Rightarrow> cas_result" where
  "check_cas sha1 sha256 git current base_commit base_blob file_hash =
     (let has_commit = is_enforceable_base_commit base_commit;
          current_blob = (case current of None \<Rightarrow> [] | Some c \<Rightarrow> blob_sha sha1 c);
          actual_h = (case current of None \<Rightarrow> [] | Some c \<Rightarrow> sha256 c)
      in if \<not> marker base_blob \<and> \<not> marker file_hash \<and> \<not> has_commit then CasOk
         else if marker base_blob \<and> current_blob \<noteq> the base_blob then BlobMismatch (the base_blob) current_blob
         else if marker file_hash \<and> actual_h \<noteq> the file_hash then HashMismatch (the file_hash) actual_h
         else if has_commit then
           (if \<not> commit_exists git (the base_commit) then UnknownCommit (the base_commit)
            else if git_blob_at git (the base_commit) \<noteq> current_blob
            then CommitMismatch (the base_commit) (git_blob_at git (the base_commit)) current_blob
            else CasOk)
         else CasOk)"

subsection \<open>The snapshot of a commit\<close>

definition space :: char where "space = CHR '' ''"
definition tab :: char where "tab = CHR 0x09"
definition nul :: char where "nul = CHR 0x00"

definition is_oid :: "string \<Rightarrow> bool" where
  "is_oid s \<longleftrightarrow> (length s = 40 \<or> length s = 64) \<and> list_all (\<lambda>c. c \<in> set ''0123456789abcdef'') s"

text \<open>\<open>b.partition(sep)\<close>, and \<open>b.find(sep, pos)\<close> on the text from \<open>pos\<close> on.\<close>

definition partition_at :: "char \<Rightarrow> string \<Rightarrow> string \<times> string" where
  "partition_at c s = (takeWhile (\<lambda>x. x \<noteq> c) s, drop 1 (dropWhile (\<lambda>x. x \<noteq> c) s))"

text \<open>One record of \<open>ls-tree -r -z\<close>: \<^const>\<open>None\<close> when it is malformed, \<^term>\<open>Some None\<close> when it is
  not a concept file. \<open>fsdecode\<close> decodes a path.\<close>

definition listing_record :: "(string \<Rightarrow> string) \<Rightarrow> string \<Rightarrow> (string \<times> string) option option" where
  "listing_record fsdecode r =
     (case partition_at tab r of (meta, raw_path) \<Rightarrow>
        (case split_on space meta of
           [mode, obj_type, oid] \<Rightarrow>
             (if raw_path = [] \<or> \<not> is_oid oid then None
              else let p = fsdecode raw_path
                   in if obj_type \<noteq> ''blob'' \<or> \<not> ends_with ''.md'' p \<or> is_excluded (path_parts p)
                      then Some None else Some (Some (p, oid)))
         | _ \<Rightarrow> None))"

fun listing_oids :: "(string \<Rightarrow> string) \<Rightarrow> string list \<Rightarrow> (string \<times> string) list option" where
  "listing_oids fsdecode [] = Some []"
| "listing_oids fsdecode (r # rs) =
     (if r = [] then listing_oids fsdecode rs
      else case listing_record fsdecode r of
        None \<Rightarrow> None
      | Some None \<Rightarrow> listing_oids fsdecode rs
      | Some (Some po) \<Rightarrow> map_option (Cons po) (listing_oids fsdecode rs))"

definition is_digits :: "string \<Rightarrow> bool" where
  "is_digits s \<longleftrightarrow> s \<noteq> [] \<and> list_all is_digit s"

definition nat_of :: "string \<Rightarrow> nat" where
  "nat_of s = foldl (\<lambda>n c. n * 10 + digit_val c) 0 s"

text \<open>One answer of \<open>cat-file --batch\<close>: its content and the rest of the output.\<close>

definition batch_entry :: "string \<Rightarrow> string \<Rightarrow> (string \<times> string) option" where
  "batch_entry oid out =
     (if newline \<notin> set out then None
      else case partition_at newline out of (head, rest) \<Rightarrow>
        (case split_on space head of
           [o', t, n] \<Rightarrow>
             (if o' = oid \<and> t = ''blob'' \<and> is_digits n then
                (let content = take (nat_of n) rest; after = drop (nat_of n) rest
                 in if length rest < nat_of n + 1 \<or> take 1 after \<noteq> [newline] then None
                    else Some (content, drop 1 after))
              else None)
         | _ \<Rightarrow> None))"

text \<open>The frontmatter of a committed file: empty when it does not decode or does not parse. \<open>utf8\<close> is
  \<^verbatim>\<open>bytes.decode\<close>.\<close>

definition committed_fm :: "(string \<Rightarrow> string option) \<Rightarrow> (string \<Rightarrow> pyval option) \<Rightarrow> string \<Rightarrow> frontmatter" where
  "committed_fm utf8 load bytes = (case utf8 bytes of None \<Rightarrow> []
     | Some text \<Rightarrow> (case parse_frontmatter load text of Inl e \<Rightarrow> [] | Inr (fm, body) \<Rightarrow> fm))"

fun batch_read :: "(string \<Rightarrow> string option) \<Rightarrow> (string \<Rightarrow> pyval option) \<Rightarrow> (string \<times> string) list \<Rightarrow> string \<Rightarrow>
    (string, frontmatter) dict \<Rightarrow> (string, frontmatter) dict option" where
  "batch_read utf8 load [] out acc = (if out = [] then Some acc else None)"
| "batch_read utf8 load ((p, oid) # pos) out acc = (case batch_entry oid out of
      None \<Rightarrow> None
    | Some (content, rest) \<Rightarrow> batch_read utf8 load pos rest (dset p (committed_fm utf8 load content) acc))"

record git_output =
  head_sha :: "string option"
  ls_tree :: "string \<Rightarrow> string option"
  cat_file :: "string \<Rightarrow> string option"

type_synonym snapshot = "(string, frontmatter) dict"

definition request_of :: "(string \<times> string) list \<Rightarrow> string" where
  "request_of pos = concat (map (\<lambda>(p, oid). oid @ [newline]) pos)"

text \<open>The snapshot: \<^const>\<open>None\<close> when the committed tree could not be read completely.\<close>

definition load_snapshot ::
  "(string \<Rightarrow> string) \<Rightarrow> (string \<Rightarrow> string option) \<Rightarrow> (string \<Rightarrow> pyval option) \<Rightarrow> git_output \<Rightarrow> snapshot option" where
  "load_snapshot fsdecode utf8 load git =
     (case head_sha git of None \<Rightarrow> None | Some raw \<Rightarrow>
       (case ls_tree git (strip raw) of None \<Rightarrow> None | Some listing \<Rightarrow>
         (case listing_oids fsdecode (split_on nul listing) of None \<Rightarrow> None | Some pos \<Rightarrow>
           (if pos = [] then Some []
            else case cat_file git (request_of pos) of None \<Rightarrow> None
              | Some out \<Rightarrow> batch_read utf8 load pos out []))))"

text \<open>The id the indexer gives a path.\<close>

definition effective_doc_id :: "frontmatter \<Rightarrow> string \<Rightarrow> string" where
  "effective_doc_id fm target = (case fm_get fm ''id'' of
      PyStr s \<Rightarrow> (if s \<noteq> [] \<and> CHR '':'' \<notin> set s then s else derive_id_from_path (path_parts target))
    | _ \<Rightarrow> derive_id_from_path (path_parts target))"

definition path_to_effective_id :: "snapshot \<Rightarrow> (string, string) dict" where
  "path_to_effective_id snap = map (\<lambda>(p, fm). (p, effective_doc_id fm p)) snap"

subsection \<open>What the compare-and-swap detects\<close>

definition blob_of :: "(string \<Rightarrow> string) \<Rightarrow> string option \<Rightarrow> string" where
  "blob_of sha1 content = (case content of None \<Rightarrow> [] | Some c \<Rightarrow> blob_sha sha1 c)"

definition hash_of :: "(string \<Rightarrow> string) \<Rightarrow> string option \<Rightarrow> string" where
  "hash_of sha256 content = (case content of None \<Rightarrow> [] | Some c \<Rightarrow> sha256 c)"

text \<open>Passing means that every marker agrees.\<close>

lemma check_cas_ok_iff:
  "check_cas sha1 sha256 git current bc bb fh = CasOk \<longleftrightarrow>
     (marker bb \<longrightarrow> blob_of sha1 current = the bb) \<and> (marker fh \<longrightarrow> hash_of sha256 current = the fh) \<and>
     (is_enforceable_base_commit bc \<longrightarrow> commit_exists git (the bc) \<and> git_blob_at git (the bc) = blob_of sha1 current)"
  by (auto simp: check_cas_def Let_def blob_of_def hash_of_def)

lemma nat_digits_digits: "list_all is_digit (nat_digits fuel n)"
  by (induction fuel arbitrary: n) auto

lemma show_nat_digits: "list_all is_digit (show_nat n)"
  unfolding show_nat_def by (rule nat_digits_digits)

lemma show_nat_free: "\<not> is_digit c \<Longrightarrow> c \<notin> set (show_nat n)"
  using show_nat_digits[of n] by (auto simp: list_all_iff)

lemma nul_not_digit [simp]: "\<not> is_digit CHR 0x00"
  by (simp add: is_digit_def)

lemma foldl_digits_append: "nat_of (p @ [digit k]) = nat_of p * 10 + k mod 10"
  by (simp add: nat_of_def)

lemma nat_of_nat_digits: "n < fuel \<Longrightarrow> nat_of (nat_digits fuel n) = n"
proof (induction fuel arbitrary: n)
  case (Suc fuel)
  show ?case
  proof (cases "n < 10")
    case True
    then show ?thesis by (simp add: nat_of_def)
  next
    case False
    then have "n div 10 < fuel" using Suc.prems by linarith
    from Suc.IH[OF this] False show ?thesis by (simp add: foldl_digits_append)
  qed
qed simp

lemma nat_of_show_nat [simp]: "nat_of (show_nat n) = n"
  unfolding show_nat_def by (rule nat_of_nat_digits) simp

lemma is_digits_show_nat [simp]: "is_digits (show_nat n)"
  using show_nat_digits[of n] by (auto simp: is_digits_def show_nat_def)

lemma takeWhile_before: "c \<notin> set p \<Longrightarrow> takeWhile (\<lambda>x. x \<noteq> c) (p @ c # s) = p \<and> dropWhile (\<lambda>x. x \<noteq> c) (p @ c # s) = c # s"
  by (induction p) auto

lemma partition_at_sep [simp]: "c \<notin> set p \<Longrightarrow> partition_at c (p @ c # s) = (p, s)"
  by (simp add: partition_at_def takeWhile_before)

lemma blob_frame_inj:
  assumes "''blob '' @ show_nat m @ [CHR 0x00] @ a = ''blob '' @ show_nat n @ [CHR 0x00] @ b"
  shows "a = b"
proof -
  have "show_nat m @ CHR 0x00 # a = show_nat n @ CHR 0x00 # b" using assms by simp
  then have e: "partition_at CHR 0x00 (show_nat m @ CHR 0x00 # a) = partition_at CHR 0x00 (show_nat n @ CHR 0x00 # b)"
    by (rule arg_cong)
  show ?thesis using e unfolding partition_at_sep[OF show_nat_free[OF nul_not_digit]] by simp
qed

text \<open>The digests tell the version that was read from the one that is there: no collision between the two,
  and no empty digest.\<close>

definition told_apart :: "(string \<Rightarrow> string) \<Rightarrow> (string \<Rightarrow> string) \<Rightarrow> string option \<Rightarrow> string option \<Rightarrow> bool" where
  "told_apart sha1 sha256 seen current \<longleftrightarrow>
     (blob_of sha1 seen = blob_of sha1 current \<longrightarrow> seen = current) \<and>
     (hash_of sha256 seen = hash_of sha256 current \<longrightarrow> seen = current)"

lemma told_apart_inj:
  assumes "inj sha1" "inj sha256" "[] \<notin> range sha1" "[] \<notin> range sha256"
  shows "told_apart sha1 sha256 a b"
proof -
  have b: "blob_sha sha1 x = blob_sha sha1 y \<longleftrightarrow> x = y" for x y
    using blob_frame_inj injD[OF assms(1)] unfolding blob_sha_def by blast
  have n: "blob_sha sha1 x \<noteq> []" "sha256 x \<noteq> []" for x
    using assms(3,4) unfolding blob_sha_def by (metis rangeI)+
  have n': "[] \<noteq> blob_sha sha1 x" "[] \<noteq> sha256 x" for x
    using n by (metis)+
  show ?thesis
    by (cases a; cases b) (simp_all add: told_apart_def blob_of_def hash_of_def b n n' inj_eq[OF assms(2)])
qed

text \<open>C18. When every marker the caller sends was taken from the version it read, and it sends one, the check passes
  exactly if the file is still that version: no stale base gets through, a deleted or created file included.\<close>

theorem cas_accepts_only_the_version_read:
  assumes "told_apart sha1 sha256 seen current"
    and "marker bb \<longrightarrow> bb = Some (blob_of sha1 seen)"
    and "marker fh \<longrightarrow> fh = Some (hash_of sha256 seen)"
    and "is_enforceable_base_commit bc \<longrightarrow> commit_exists git (the bc) \<and> git_blob_at git (the bc) = blob_of sha1 seen"
    and "marker bb \<or> marker fh \<or> is_enforceable_base_commit bc"
  shows "check_cas sha1 sha256 git current bc bb fh = CasOk \<longleftrightarrow> current = seen"
  using assms unfolding check_cas_ok_iff told_apart_def by (auto dest: sym)

theorem cas_accepts_only_the_version_read_witness:
  "check_cas (Cons CHR ''h'') (Cons CHR ''h'') \<lparr>commit_exists = \<lambda>c. c = ''c1'', git_blob_at = \<lambda>c. blob_sha (Cons CHR ''h'') ''old''\<rparr>
     (Some ''new'') (Some ''c1'') None (Some (CHR ''h'' # ''old'')) = CasOk \<longleftrightarrow> Some ''new'' = Some ''old''"
proof (rule cas_accepts_only_the_version_read)
  show "told_apart (Cons CHR ''h'') (Cons CHR ''h'') (Some ''old'') (Some ''new'')"
    by (rule told_apart_inj) (auto intro: injI)
qed (auto simp: marker_def hash_of_def blob_of_def)

text \<open>An empty base, \<open>HEAD\<close> in any case or spacing, and no digest ask for nothing.\<close>

lemma cas_opt_in: "\<not> is_enforceable_base_commit bc \<Longrightarrow> \<not> marker bb \<Longrightarrow> \<not> marker fh \<Longrightarrow> check_cas sha1 sha256 git current bc bb fh = CasOk"
  by (simp add: check_cas_ok_iff)

subsection \<open>The snapshot is the committed tree\<close>

text \<open>A committed entry and how \<^verbatim>\<open>git\<close> prints it (\<open>ls-tree -r -z\<close> and \<open>cat-file --batch\<close>).\<close>

record tree_entry =
  te_mode :: string
  te_type :: string
  te_oid :: string
  te_path :: string
  te_bytes :: string

definition print_entry :: "tree_entry \<Rightarrow> string" where
  "print_entry e = te_mode e @ [space] @ te_type e @ [space] @ te_oid e @ [tab] @ te_path e"

definition print_tree :: "tree_entry list \<Rightarrow> string" where
  "print_tree es = concat (map (\<lambda>e. print_entry e @ [nul]) es)"

definition print_blob :: "tree_entry \<Rightarrow> string" where
  "print_blob e = te_oid e @ [space] @ ''blob'' @ [space] @ show_nat (length (te_bytes e)) @ [newline] @ te_bytes e @ [newline]"

definition plain :: "string \<Rightarrow> bool" where
  "plain s \<longleftrightarrow> space \<notin> set s \<and> tab \<notin> set s \<and> nul \<notin> set s"

definition wf_entry :: "tree_entry \<Rightarrow> bool" where
  "wf_entry e \<longleftrightarrow> plain (te_mode e) \<and> plain (te_type e) \<and> is_oid (te_oid e) \<and> te_path e \<noteq> [] \<and> nul \<notin> set (te_path e)"

definition concept :: "(string \<Rightarrow> string) \<Rightarrow> tree_entry \<Rightarrow> bool" where
  "concept fsdecode e \<longleftrightarrow> te_type e = ''blob'' \<and> ends_with ''.md'' (fsdecode (te_path e)) \<and> \<not> is_excluded (path_parts (fsdecode (te_path e)))"

lemma is_oid_char: "is_oid s \<Longrightarrow> c \<notin> set ''0123456789abcdef'' \<Longrightarrow> c \<notin> set s"
  unfolding is_oid_def list_all_iff by blast

lemma is_oid_free:
  assumes "is_oid s"
  shows "space \<notin> set s" "tab \<notin> set s" "nul \<notin> set s" "newline \<notin> set s"
  by (rule is_oid_char[OF assms], simp add: space_def tab_def nul_def newline_def)+

lemma plain_free: "plain s \<Longrightarrow> space \<notin> set s \<and> tab \<notin> set s \<and> nul \<notin> set s"
  by (simp add: plain_def)

lemma seps_distinct [simp]: "space \<noteq> tab" "space \<noteq> nul" "tab \<noteq> nul" "tab \<noteq> space" "nul \<noteq> space" "nul \<noteq> tab"
  by (simp_all add: space_def tab_def nul_def)

lemma entry_nul_free: "wf_entry e \<Longrightarrow> nul \<notin> set (print_entry e)"
  by (auto simp: wf_entry_def print_entry_def plain_def dest: is_oid_free)

lemma listing_record_print:
  assumes "wf_entry e"
  shows "listing_record fsdecode (print_entry e)
    = Some (if concept fsdecode e then Some (fsdecode (te_path e), te_oid e) else None)"
proof -
  note w = assms[unfolded wf_entry_def]
  let ?meta = "te_mode e @ space # te_type e @ space # te_oid e"
  have f: "tab \<notin> set ?meta" using w by (auto simp: plain_def dest: is_oid_free)
  have "partition_at tab (print_entry e) = partition_at tab (?meta @ tab # te_path e)"
    by (simp add: print_entry_def)
  also have "\<dots> = (?meta, te_path e)" using f by (rule partition_at_sep)
  finally have p: "partition_at tab (print_entry e) = (?meta, te_path e)" .
  have "split_on space ?meta = [te_mode e, te_type e, te_oid e]"
    using w is_oid_free(1)[of "te_oid e"] by (simp add: plain_def split_append_sep split_free)
  then show ?thesis using w by (simp add: listing_record_def p concept_def)
qed

lemma listing_oids_print:
  "list_all wf_entry es \<Longrightarrow> listing_oids fsdecode (map print_entry es @ [[]])
     = Some (map (\<lambda>e. (fsdecode (te_path e), te_oid e)) (filter (concept fsdecode) es))"
proof (induction es)
  case (Cons e es)
  have "print_entry e \<noteq> []" by (simp add: print_entry_def)
  with Cons show ?case by (simp add: listing_record_print)
qed simp

lemma split_print_tree: "list_all wf_entry es \<Longrightarrow> split_on nul (print_tree es) = map print_entry es @ [[]]"
proof (induction es)
  case (Cons e es)
  then have "split_on nul (print_entry e @ nul # print_tree es) = print_entry e # split_on nul (print_tree es)"
    by (intro split_append_sep entry_nul_free) simp
  with Cons show ?case by (simp add: print_tree_def)
qed (simp add: print_tree_def)

lemma newline_not_digit [simp]: "\<not> is_digit newline" and space_not_digit [simp]: "\<not> is_digit space"
  by (simp_all add: is_digit_def newline_def space_def)

lemma batch_entry_print:
  assumes "is_oid (te_oid e)"
  shows "batch_entry (te_oid e) (print_blob e @ rest) = Some (te_bytes e, rest)"
proof -
  let ?n = "show_nat (length (te_bytes e))"
  let ?head = "te_oid e @ space # ''blob'' @ space # ?n"
  have f: "newline \<notin> set ?head"
    using is_oid_free(4)[OF assms] show_nat_free[OF newline_not_digit] by (simp add: newline_def space_def)
  have o: "print_blob e @ rest = ?head @ newline # te_bytes e @ newline # rest"
    by (simp add: print_blob_def)
  have b: "space \<notin> set ''blob''" by (simp add: space_def)
  have s: "split_on space ?head = [te_oid e, ''blob'', ?n]"
    using is_oid_free(1)[OF assms] b
    by (simp only: split_append_sep split_free show_nat_free[OF space_not_digit] not_False_eq_True)
  have "newline \<in> set (print_blob e @ rest)" unfolding o by simp
  then show ?thesis
    unfolding batch_entry_def unfolding o partition_at_sep[OF f] by (simp only: s prod.case list.case) (simp add: Let_def)
qed

lemma batch_read_print:
  "list_all (\<lambda>e. is_oid (te_oid e)) es \<Longrightarrow>
   batch_read utf8 load (map (\<lambda>e. (path e, te_oid e)) es) (concat (map print_blob es)) acc
     = Some (fold (\<lambda>e. dset (path e) (committed_fm utf8 load (te_bytes e))) es acc)"
  by (induction es arbitrary: acc) (simp_all add: batch_entry_print)

lemma dset_fresh: "k \<notin> fst ` set d \<Longrightarrow> dset k v d = d @ [(k, v)]"
  by (induction d) auto

lemma fold_dset_distinct:
  "distinct (map fst acc @ map path es) \<Longrightarrow> fold (\<lambda>e. dset (path e) (g e)) es acc = acc @ map (\<lambda>e. (path e, g e)) es"
  by (induction es arbitrary: acc) (auto simp: dset_fresh)

text \<open>When \<^verbatim>\<open>git\<close> prints the tree and the blobs of a commit, the snapshot is exactly the frontmatter of its
  concept files, path by path, however the files look inside (bytes, newlines, spaces in names).\<close>

theorem snapshot_is_the_committed_tree:
  assumes "head_sha git = Some raw" and "ls_tree git (strip raw) = Some (print_tree es)"
    and "cat_file git (concat (map (\<lambda>e. te_oid e @ [newline]) (filter (concept fsdecode) es)))
           = Some (concat (map print_blob (filter (concept fsdecode) es)))"
    and "list_all wf_entry es" and "distinct (map (fsdecode \<circ> te_path) es)"
  shows "load_snapshot fsdecode utf8 load git
    = Some (map (\<lambda>e. (fsdecode (te_path e), committed_fm utf8 load (te_bytes e))) (filter (concept fsdecode) es))"
proof -
  let ?cs = "filter (concept fsdecode) es"
  have oids: "list_all (\<lambda>e. is_oid (te_oid e)) ?cs" using assms(4) by (auto simp: list_all_iff wf_entry_def)
  have dist: "distinct (map fst [] @ map (\<lambda>e. fsdecode (te_path e)) ?cs)"
    using assms(5) by (simp add: o_def distinct_map_filter)
  have req: "request_of (map (\<lambda>e. (fsdecode (te_path e), te_oid e)) ?cs) = concat (map (\<lambda>e. te_oid e @ [newline]) ?cs)"
    by (simp add: request_of_def o_def)
  show ?thesis
    using assms(1-3) fold_dset_distinct[OF dist, where g = "\<lambda>e. committed_fm utf8 load (te_bytes e)"]
    by (simp add: load_snapshot_def split_print_tree[OF assms(4)] listing_oids_print[OF assms(4)]
        req batch_read_print[OF oids, where path = "\<lambda>e. fsdecode (te_path e)"])
qed

definition example_entry :: tree_entry where
  "example_entry = \<lparr>te_mode = ''100644'', te_type = ''blob'', te_oid = replicate 40 CHR ''a'',
     te_path = ''adr/my file.md'', te_bytes = ''hi''\<rparr>"

lemma example_entry_wf: "wf_entry example_entry \<and> concept (\<lambda>p. p) example_entry"
  by code_simp

theorem snapshot_is_the_committed_tree_witness:
  "load_snapshot (\<lambda>p. p) Some (\<lambda>y. None) \<lparr>head_sha = Some ''c1'', ls_tree = \<lambda>c. Some (print_tree [example_entry]),
     cat_file = \<lambda>r. Some (print_blob example_entry)\<rparr>
   = Some (map (\<lambda>e. (te_path e, committed_fm Some (\<lambda>y. None) (te_bytes e))) (filter (concept (\<lambda>p. p)) [example_entry]))"
  by (rule snapshot_is_the_committed_tree[where raw = "''c1''"]) (simp_all add: example_entry_wf)

text \<open>Output that stops short is never taken for a complete tree.\<close>

lemma batch_entry_truncated:
  assumes "is_oid (te_oid e)" and "strict_prefix out (print_blob e)"
  shows "batch_entry (te_oid e) out = None"
proof -
  let ?n = "show_nat (length (te_bytes e))"
  let ?head = "te_oid e @ space # ''blob'' @ space # ?n"
  have f: "newline \<notin> set ?head"
    using is_oid_free(4)[OF assms(1)] show_nat_free[OF newline_not_digit] by (simp add: newline_def space_def)
  have o: "print_blob e = ?head @ newline # te_bytes e @ [newline]" by (simp add: print_blob_def)
  show ?thesis
  proof (cases "newline \<in> set out")
    case False
    then show ?thesis by (simp add: batch_entry_def)
  next
    case True
    then have "\<not> prefix out ?head" using f by (meson set_mono_prefix subsetD)
    with assms(2) obtain rest where r: "out = ?head @ newline # rest" "strict_prefix rest (te_bytes e @ [newline])"
      unfolding o by (auto simp: strict_prefix_def prefix_append prefix_Cons)
    from r(2) have "length rest < length (te_bytes e) + 1" using prefix_length_less by fastforce
    moreover have b: "space \<notin> set ''blob''" by (simp add: space_def)
    have s: "split_on space ?head = [te_oid e, ''blob'', ?n]"
      using is_oid_free(1)[OF assms(1)] b
      by (simp only: split_append_sep split_free show_nat_free[OF space_not_digit] not_False_eq_True)
    ultimately show ?thesis
      unfolding batch_entry_def r(1) partition_at_sep[OF f] by (simp only: s prod.case list.case) (simp add: Let_def)
  qed
qed

lemma batch_read_truncated:
  "list_all (\<lambda>e. is_oid (te_oid e)) es \<Longrightarrow> strict_prefix out (concat (map print_blob es)) \<Longrightarrow>
   batch_read utf8 load (map (\<lambda>e. (path e, te_oid e)) es) out acc = None"
proof (induction es arbitrary: out acc)
  case (Cons e es)
  from Cons.prems(2) have p: "prefix out (print_blob e @ concat (map print_blob es))" "out \<noteq> print_blob e @ concat (map print_blob es)"
    by (auto simp: strict_prefix_def)
  from p(1)[unfolded prefix_append] show ?case
  proof
    assume "prefix out (print_blob e)"
    then consider "strict_prefix out (print_blob e)" | "out = print_blob e @ []" by (auto simp: strict_prefix_def)
    then show ?thesis
    proof cases
      case 1
      with Cons.prems(1) show ?thesis by (simp add: batch_entry_truncated)
    next
      case 2
      with p(2) have "strict_prefix [] (concat (map print_blob es))" by (auto simp: strict_prefix_def)
      from Cons.IH[OF _ this] Cons.prems(1) show ?thesis
        unfolding 2 by (simp add: batch_entry_print del: append_Nil2)
    qed
  next
    assume "\<exists>us. out = print_blob e @ us \<and> prefix us (concat (map print_blob es))"
    then obtain us where u: "out = print_blob e @ us" "prefix us (concat (map print_blob es))" by blast
    with p(2) have "strict_prefix us (concat (map print_blob es))" by (auto simp: strict_prefix_def)
    with Cons.IH Cons.prems(1) show ?thesis unfolding u(1) by (simp add: batch_entry_print)
  qed
qed simp

text \<open>When the blobs stop short, anywhere, there is no snapshot: a truncated answer of \<^verbatim>\<open>git\<close> is never taken for a
  smaller tree.\<close>

theorem truncated_blobs_are_no_snapshot:
  assumes "head_sha git = Some raw" and "ls_tree git (strip raw) = Some (print_tree es)"
    and "cat_file git (concat (map (\<lambda>e. te_oid e @ [newline]) (filter (concept fsdecode) es))) = Some out"
    and "strict_prefix out (concat (map print_blob (filter (concept fsdecode) es)))"
    and "list_all wf_entry es"
  shows "load_snapshot fsdecode utf8 load git = None"
proof -
  let ?cs = "filter (concept fsdecode) es"
  have oids: "list_all (\<lambda>e. is_oid (te_oid e)) ?cs" using assms(5) by (auto simp: list_all_iff wf_entry_def)
  have ne: "?cs \<noteq> []" using assms(4) by auto
  have req: "request_of (map (\<lambda>e. (fsdecode (te_path e), te_oid e)) ?cs) = concat (map (\<lambda>e. te_oid e @ [newline]) ?cs)"
    by (simp add: request_of_def o_def)
  show ?thesis
    using assms(1-3) ne
    by (simp add: load_snapshot_def split_print_tree[OF assms(5)] listing_oids_print[OF assms(5)]
        req batch_read_truncated[OF oids assms(4), where path = "\<lambda>e. fsdecode (te_path e)"])
qed

theorem truncated_blobs_are_no_snapshot_witness:
  "load_snapshot (\<lambda>p. p) Some (\<lambda>y. None) \<lparr>head_sha = Some ''c1'', ls_tree = \<lambda>c. Some (print_tree [example_entry]),
     cat_file = \<lambda>r. Some (butlast (print_blob example_entry))\<rparr> = None"
proof (rule truncated_blobs_are_no_snapshot[where raw = "''c1''" and es = "[example_entry]"])
  show "strict_prefix (butlast (print_blob example_entry)) (concat (map print_blob (filter (concept (\<lambda>p. p)) [example_entry])))"
    by (simp add: example_entry_wf strict_prefix_def) code_simp
qed (simp_all add: example_entry_wf)

end
