(* ===== verification/WriteValidate.thy ===== *)
theory WriteValidate
  imports WriteGate
begin

text \<open>
  The content validation of the write path (\<^verbatim>\<open>validate_postimage\<close> of \<^verbatim>\<open>write_gate.py\<close>): enums,
  a status on new documents, ids that no other path owns, and relationship targets that exist in
  the commit being made. An error is a constructor with what its message interpolates.
\<close>

subsection \<open>Type-exact equality\<close>

definition instant :: "date \<Rightarrow> int \<Rightarrow> int \<Rightarrow> int" where
  "instant d t off = ordinal d * 86400000000 + t - off"

definition datetime_eq :: "date \<Rightarrow> int \<Rightarrow> int option \<Rightarrow> date \<Rightarrow> int \<Rightarrow> int option \<Rightarrow> bool" where
  "datetime_eq d t z d' t' z' \<longleftrightarrow> (case (z, z') of
      (None, None) \<Rightarrow> d = d' \<and> t = t'
    | (Some o1, Some o2) \<Rightarrow> instant d t o1 = instant d' t' o2
    | _ \<Rightarrow> False)"

fun atom_equal :: "pyval \<Rightarrow> pyval \<Rightarrow> bool" where
  "atom_equal (PyDateTime d t z) (PyDateTime d' t' z') = datetime_eq d t z d' t' z'"
| "atom_equal l r = (l = r)"

lemma sum_size_values: "(\<Sum>v\<leftarrow>xs. Suc (Suc (3 * size v))) \<le> 3 * sum_list (map size xs) + 3 * length (xs :: pyval list)"
  by (induction xs) auto

lemma sum_size_pairs: "(\<Sum>p\<leftarrow>xs. Suc (Suc (3 * size (fst p) + 3 * size (snd p))))
   \<le> 3 * sum_list (map (size_prod size size) xs) + 3 * length (xs :: (pyval \<times> pyval) list)"
  by (induction xs) auto

function strict_equal :: "pyval \<Rightarrow> pyval \<Rightarrow> bool"
  and strict_all :: "pyval list \<Rightarrow> pyval list \<Rightarrow> bool"
  and match_unordered :: "(pyval \<times> pyval) list \<Rightarrow> (pyval \<times> pyval) list \<Rightarrow> bool"
  and take_match :: "pyval \<Rightarrow> pyval \<Rightarrow> (pyval \<times> pyval) list \<Rightarrow> (pyval \<times> pyval) list option" where
  "strict_equal l r = (case l of
      PyList xs \<Rightarrow> (case r of PyList ys \<Rightarrow> length xs = length ys \<and> strict_all xs ys | _ \<Rightarrow> False)
    | PyTuple xs \<Rightarrow> (case r of PyTuple ys \<Rightarrow> length xs = length ys \<and> strict_all xs ys | _ \<Rightarrow> False)
    | PyDict xs \<Rightarrow> (case r of PyDict ys \<Rightarrow> length xs = length ys \<and> match_unordered xs ys | _ \<Rightarrow> False)
    | PySet xs \<Rightarrow> (case r of PySet ys \<Rightarrow> length xs = length ys
         \<and> match_unordered (map (\<lambda>x. (x, PyNone)) xs) (map (\<lambda>y. (y, PyNone)) ys) | _ \<Rightarrow> False)
    | _ \<Rightarrow> atom_equal l r)"
| "strict_all [] ys = True"
| "strict_all (x # xs) ys = (case ys of [] \<Rightarrow> True | y # ys' \<Rightarrow> strict_equal x y \<and> strict_all xs ys')"
| "match_unordered [] rs = (rs = [])"
| "match_unordered (p # ps) rs = (case take_match (fst p) (snd p) rs of None \<Rightarrow> False | Some rs' \<Rightarrow> match_unordered ps rs')"
| "take_match k v [] = None"
| "take_match k v (r # rs) =
     (if strict_equal k (fst r) \<and> strict_equal v (snd r) then Some rs else map_option (Cons r) (take_match k v rs))"
  by pat_completeness auto
termination
  by (relation "measures [\<lambda>x. case x of
        Inl (Inl (l, r)) \<Rightarrow> 3 * size l
      | Inl (Inr (ls, rs)) \<Rightarrow> sum_list (map (\<lambda>v. 3 * size v + 2) ls)
      | Inr (Inl (ps, rs)) \<Rightarrow> sum_list (map (\<lambda>p. 3 * size (fst p) + 3 * size (snd p) + 2) ps)
      | Inr (Inr (k, v, rs)) \<Rightarrow> 3 * size k + 3 * size v + 1,
      \<lambda>x. case x of Inr (Inr (k, v, rs)) \<Rightarrow> length rs | _ \<Rightarrow> 0]")
    (simp_all add: size_list_conv_sum_list o_def le_imp_less_Suc
      le_less_trans[OF sum_size_values] le_less_trans[OF sum_size_pairs])

declare strict_equal.simps [simp del]

lemma strict_all_refl: "(\<And>x. x \<in> set xs \<Longrightarrow> strict_equal x x) \<Longrightarrow> strict_all xs xs"
  by (induction xs) auto

lemma match_unordered_refl: "(\<And>p. p \<in> set ps \<Longrightarrow> strict_equal (fst p) (fst p) \<and> strict_equal (snd p) (snd p)) \<Longrightarrow> match_unordered ps ps"
  by (induction ps) auto

lemma strict_equal_none [simp]: "strict_equal PyNone PyNone"
  by (simp add: strict_equal.simps)

text \<open>A value equals itself, so that a malformed value carried over unchanged keeps passing.\<close>

lemma strict_equal_refl: "strict_equal v v"
proof (induction v)
  case (PyDateTime d t z)
  then show ?case by (cases z) (simp_all add: strict_equal.simps datetime_eq_def)
next
  case (PyList xs)
  then show ?case by (simp add: strict_equal.simps strict_all_refl)
next
  case (PyTuple xs)
  then show ?case by (simp add: strict_equal.simps strict_all_refl)
next
  case (PySet xs)
  then show ?case by (auto simp: strict_equal.simps intro!: match_unordered_refl)
next
  case (PyDict ps)
  have "strict_equal (fst p) (fst p) \<and> strict_equal (snd p) (snd p)" if "p \<in> set ps" for p
    using PyDict[of p] that by (cases p) auto
  then show ?case by (simp add: strict_equal.simps match_unordered_refl)
qed (simp_all add: strict_equal.simps)

subsection \<open>Errors\<close>

datatype gate_error =
    InvalidFrontmatter fm_error
  | BadEnum string pyval
  | MissingStatus string
  | DuplicateId string string
  | Unverifiable string
  | MalformedTarget string
  | UnresolvedTarget string string \<comment> \<open>the field, and the target as shown\<close>

fun error_field :: "gate_error \<Rightarrow> string" where
  "error_field (InvalidFrontmatter e) = ''frontmatter''" | "error_field (BadEnum f v) = f"
| "error_field (MissingStatus p) = ''status''" | "error_field (DuplicateId i p) = ''id''"
| "error_field (Unverifiable f) = f" | "error_field (MalformedTarget f) = f" | "error_field (UnresolvedTarget f t) = f"

fun error_code :: "gate_error \<Rightarrow> string" where
  "error_code (InvalidFrontmatter e) = ''invalid_frontmatter''" | "error_code (BadEnum f v) = ''invalid_enum''"
| "error_code (MissingStatus p) = ''missing_status''" | "error_code (DuplicateId i p) = ''duplicate_id''"
| "error_code (Unverifiable f) = ''unresolved_target_unverifiable''"
| "error_code (MalformedTarget f) = ''malformed_'' @ f"
| "error_code (UnresolvedTarget f t) = ''unresolved_'' @ f @ ''_target''"

definition SNAPSHOT_DEPENDENT_CODES :: "string list" where
  "SNAPSHOT_DEPENDENT_CODES = [''missing_status'', ''unresolved_supersedes_target'', ''unresolved_superseded_by_target'',
     ''malformed_supersedes'', ''malformed_superseded_by'', ''unresolved_derived_from_target'', ''malformed_derived_from'',
     ''unresolved_target_unverifiable'']"

definition WRITE_STATUSES :: "string list" where
  "WRITE_STATUSES = [''draft'', ''active'', ''deprecated'', ''superseded'', ''proposed'', ''accepted'', ''rejected'', ''approved'']"

definition RELATIONSHIP_FIELDS :: "string list" where
  "RELATIONSHIP_FIELDS = [''supersedes'', ''superseded_by'', ''derived_from'']"

definition LIST_OR_SCALAR_FIELDS :: "string list" where
  "LIST_OR_SCALAR_FIELDS = [''supersedes'', ''derived_from'']"

subsection \<open>Relationship targets\<close>

text \<open>The targets as authored, and whether the shape is malformed.\<close>

definition relationship_targets :: "string \<Rightarrow> pyval \<Rightarrow> string list \<times> bool" where
  "relationship_targets field v =
     (let items = (case v of PyStr s \<Rightarrow> Some [s]
           | PyList xs \<Rightarrow> (if field \<in> set LIST_OR_SCALAR_FIELDS \<and> all_strs xs then Some (strs_of xs) else None)
           | _ \<Rightarrow> None)
      in case items of None \<Rightarrow> ([], True)
         | Some ts \<Rightarrow> (if list_ex (\<lambda>t. strip t = []) ts then ([], True) else (ts, False)))"

definition safe_target :: "(string \<Rightarrow> secret_match option) \<Rightarrow> string \<Rightarrow> string" where
  "safe_target scan t = (case scan t of None \<Rightarrow> [CHR 0x27] @ t @ [CHR 0x27]
     | Some m \<Rightarrow> ''[redacted: secret pattern '' @ [CHR 0x27] @ pattern_name m @ [CHR 0x27] @ '']'')"

definition fm_of :: "(string \<Rightarrow> pyval option) \<Rightarrow> string \<Rightarrow> frontmatter" where
  "fm_of load text = (case parse_frontmatter load text of Inl e \<Rightarrow> [] | Inr (fm, body) \<Rightarrow> fm)"

text \<open>The ids of the commit being made: the parent's, with every written path replaced.\<close>

definition put_owner :: "string \<times> frontmatter \<Rightarrow> (string, string) dict \<Rightarrow> (string, string) dict" where
  "put_owner w owners = (case w of (p, fm) \<Rightarrow>
     (if \<not> ends_with ''.md'' p \<or> is_excluded (path_parts p) then dpop p owners else dset p (effective_doc_id fm p) owners))"

definition result_owners :: "(string \<Rightarrow> pyval option) \<Rightarrow> snapshot \<Rightarrow> string \<Rightarrow> frontmatter \<Rightarrow> (string, string) dict \<Rightarrow> (string, string) dict" where
  "result_owners load snap target fm transaction =
     (let writes = dset target fm (fold (\<lambda>(p, text) ws. dset p (fm_of load text) ws) transaction [])
      in fold put_owner writes (path_to_effective_id snap))"

definition result_membership :: "(string \<Rightarrow> pyval option) \<Rightarrow> snapshot \<Rightarrow> string \<Rightarrow> frontmatter \<Rightarrow> (string, string) dict \<Rightarrow> string set" where
  "result_membership load snap target fm transaction = snd ` set (result_owners load snap target fm transaction)"

text \<open>One field: its errors, and the targets the write adds.\<close>

definition field_check :: "frontmatter \<Rightarrow> frontmatter \<Rightarrow> string \<Rightarrow> gate_error list \<times> (string \<times> string) list" where
  "field_check pre post field =
     (let v = fm_get post field; p = fm_get pre field
      in if v = PyNone then ([], [])
         else case relationship_targets field v of
           (ts, True) \<Rightarrow> (if p = PyNone \<or> \<not> strict_equal v p then [MalformedTarget field] else [], [])
         | (ts, False) \<Rightarrow>
             (let known = (if p = PyNone then [] else case relationship_targets field p of (us, bad) \<Rightarrow> (if bad then [] else us))
              in ([], map (Pair field) (filter (\<lambda>t. t \<notin> set known) ts))))"

definition supersession_errors ::
  "(string \<Rightarrow> secret_match option) \<Rightarrow> (string \<Rightarrow> pyval option) \<Rightarrow> frontmatter \<Rightarrow> string \<Rightarrow> snapshot option \<Rightarrow> (string, string) dict \<Rightarrow> gate_error list" where
  "supersession_errors scan load fm target snapshot transaction =
     (let present = filter (\<lambda>f. fm_get fm f \<noteq> PyNone) RELATIONSHIP_FIELDS
      in if present = [] then []
         else case snapshot of
           None \<Rightarrow> [Unverifiable (hd present)]
         | Some snap \<Rightarrow>
             (let checks = map (field_check (get_or [] snap target) fm) RELATIONSHIP_FIELDS;
                  errors = concat (map fst checks); added = concat (map snd checks)
              in errors @ [UnresolvedTarget f (safe_target scan t). (f, t) \<leftarrow> added, t \<notin> result_membership load snap target fm transaction]))"

subsection \<open>The gate\<close>

text \<open>The live index as the gate reads it: \<^const>\<open>None\<close> when it cannot be read or is not a mapping.\<close>

record index_view =
  id_to_path :: "(string, string) dict option"

definition index_map :: "index_view option \<Rightarrow> (string, string) dict" where
  "index_map idx = (case idx of None \<Rightarrow> [] | Some v \<Rightarrow> (case id_to_path v of None \<Rightarrow> [] | Some m \<Rightarrow> m))"

definition target_path_exists :: "string \<Rightarrow> index_view option \<Rightarrow> bool \<Rightarrow> bool" where
  "target_path_exists target idx isfile \<longleftrightarrow> target \<in> snd ` set (index_map idx) \<or> isfile"

definition is_reserved :: "string \<Rightarrow> bool" where
  "is_reserved target \<longleftrightarrow> path_name target \<in> set RESERVED"

definition enum_error :: "frontmatter \<Rightarrow> string \<times> string list \<Rightarrow> gate_error list result" where
  "enum_error fm fa = (case fa of (f, allowed) \<Rightarrow>
     (if fm_get fm f = PyNone then Inr []
      else case in_frozenset (fm_get fm f) allowed of
        Inl e \<Rightarrow> Inl e | Inr ok \<Rightarrow> Inr (if ok then [] else [BadEnum f (fm_get fm f)])))"

fun enum_errors :: "frontmatter \<Rightarrow> (string \<times> string list) list \<Rightarrow> gate_error list result" where
  "enum_errors fm [] = Inr []"
| "enum_errors fm (fa # fas) = (case enum_error fm fa of Inl e \<Rightarrow> Inl e
     | Inr es \<Rightarrow> (case enum_errors fm fas of Inl e \<Rightarrow> Inl e | Inr es' \<Rightarrow> Inr (es @ es')))"

definition collision :: "string \<Rightarrow> string \<Rightarrow> index_view option \<Rightarrow> snapshot option \<Rightarrow> string option" where
  "collision eid target idx snapshot =
     (if eid = [] then None
      else case dget (index_map idx) eid of
        Some other \<Rightarrow> (if other \<noteq> target then Some other
          else map_option fst (List.find (\<lambda>(p, i). i = eid \<and> p \<noteq> target) (case snapshot of None \<Rightarrow> [] | Some s \<Rightarrow> path_to_effective_id s)))
      | None \<Rightarrow> map_option fst (List.find (\<lambda>(p, i). i = eid \<and> p \<noteq> target) (case snapshot of None \<Rightarrow> [] | Some s \<Rightarrow> path_to_effective_id s)))"

text \<open>\<open>worktree\<close> says whether a worktree is given, and then whether the target is a file in it and
  what its committed tree holds; \<open>inbox_env\<close> is \<^verbatim>\<open>KB_MEMORY_INBOX_PREFIX\<close>. The empty list means accepted.\<close>

record worktree_view =
  isfile :: bool
  tree :: "snapshot option"

definition validate_postimage ::
  "(string \<Rightarrow> secret_match option) \<Rightarrow> (string \<Rightarrow> pyval option) \<Rightarrow> string option \<Rightarrow> index_view option \<Rightarrow>
   worktree_view option \<Rightarrow> (string, string) dict \<Rightarrow> string \<Rightarrow> string \<Rightarrow> gate_error list result" where
  "validate_postimage scan load inbox_env idx wt transaction target postimage =
     (case parse_frontmatter load postimage of
        Inl e \<Rightarrow> Inr [InvalidFrontmatter e]
      | Inr (fm, body) \<Rightarrow>
          (case (if is_reserved target then Inr [] else enum_errors fm [(''type'', TYPES), (''status'', WRITE_STATUSES), (''tier'', TIERS)]) of
             Inl e \<Rightarrow> Inl e
           | Inr enums \<Rightarrow>
               (let missing = (if \<not> is_reserved target \<and> \<not> is_inbox_path inbox_env target \<and> fm_get fm ''status'' = PyNone
                      \<and> \<not> target_path_exists target idx (case wt of None \<Rightarrow> False | Some w \<Rightarrow> isfile w)
                     then [MissingStatus target] else []);
                    eid = effective_doc_id fm target;
                    dup = (case collision eid target idx (case wt of None \<Rightarrow> None | Some w \<Rightarrow> tree w) of
                      None \<Rightarrow> [] | Some p \<Rightarrow> [DuplicateId eid p]);
                    rel = (case wt of None \<Rightarrow> [] | Some w \<Rightarrow>
                      (if is_reserved target then [] else supersession_errors scan load fm target (tree w) transaction))
                in Inr (enums @ missing @ dup @ rel))))"

subsection \<open>Ids stay unique\<close>

lemma validate_ok_parses:
  assumes "validate_postimage scan load env idx wt tr target text = Inr errs" and "\<forall>e. errs \<noteq> [InvalidFrontmatter e]"
  obtains fm body where "parse_frontmatter load text = Inr (fm, body)"
  using assms by (cases "parse_frontmatter load text") (auto simp: validate_postimage_def)

lemma validate_accepted:
  assumes "validate_postimage scan load env idx wt tr target text = Inr []" and "parse_frontmatter load text = Inr (fm, body)"
  shows "collision (effective_doc_id fm target) target idx (case wt of None \<Rightarrow> None | Some w \<Rightarrow> tree w) = None"
    and "wt = Some w \<Longrightarrow> \<not> is_reserved target \<Longrightarrow> supersession_errors scan load fm target (tree w) tr = []"
  using assms by (auto simp: validate_postimage_def Let_def split: sum.splits option.splits if_splits)

lemma collision_None_iff:
  "collision i target idx snapshot = None \<longleftrightarrow> i = [] \<or>
     (\<forall>p. dget (index_map idx) i = Some p \<longrightarrow> p = target) \<and>
     (\<forall>snap. snapshot = Some snap \<longrightarrow> (\<forall>(p, j) \<in> set (path_to_effective_id snap). j = i \<longrightarrow> p = target))"
  by (auto simp: collision_def find_None_iff split: option.splits)

lemma set_join_with: "set (join_with sep ps) \<subseteq> set sep \<union> (\<Union>p \<in> set ps. set p)"
  by (induction sep ps rule: join_with.induct) auto

lemma path_parts_nonempty:
  assumes "ends_with ''.md'' target"
  shows "path_parts target \<noteq> []"
proof
  assume "path_parts target = []"
  then have "\<forall>p \<in> set (split_on CHR ''/'' target). p = [] \<or> p = ''.''"
    by (simp add: path_parts_def Let_def filter_empty_conv)
  then have "(\<Union>p \<in> set (split_on CHR ''/'' target). set p) \<subseteq> {CHR ''.''}" by fastforce
  then have "set target \<subseteq> {CHR ''/'', CHR ''.''}"
    using set_join_with[of "[CHR ''/'']" "split_on CHR ''/'' target"] unfolding join_split by fastforce
  moreover have "CHR ''m'' \<in> set target"
    using assms by (auto simp: ends_with_iff_suffix suffix_def)
  ultimately show False by auto
qed

lemma stem_nonempty: "name \<noteq> [] \<Longrightarrow> stem name \<noteq> []"
  by (auto simp: stem_def Let_def)

lemma join_nonempty: "ps \<noteq> [] \<Longrightarrow> last ps \<noteq> [] \<Longrightarrow> join_with sep ps \<noteq> []"
  by (induction sep ps rule: join_with.induct) auto

lemma effective_id_nonempty:
  assumes "ends_with ''.md'' target"
  shows "effective_doc_id fm target \<noteq> []"
proof -
  have "last (path_parts target) \<in> set (path_parts target)" using path_parts_nonempty[OF assms] by simp
  then have "last (path_parts target) \<noteq> []" by (auto simp: path_parts_def Let_def split: if_splits)
  then have "derive_id_from_path (path_parts target) \<noteq> []"
    by (simp add: derive_id_from_path_def join_nonempty stem_nonempty)
  then show ?thesis by (simp add: effective_doc_id_def split: pyval.split)
qed

lemma distinct_values_dset:
  "distinct (map snd d) \<Longrightarrow> distinct (map fst d) \<Longrightarrow> (\<forall>(p, i) \<in> set d. i = v \<longrightarrow> p = k) \<Longrightarrow> distinct (map snd (dset k v d))"
proof (induction d)
  case (Cons e d)
  obtain p i where e: "e = (p, i)" by (cases e)
  have sub: "snd ` set (dset k v d) \<subseteq> insert v (snd ` set d)"
    by (induction d) auto
  show ?case
  proof (cases "p = k")
    case True
    then have "v \<notin> snd ` set d" using Cons.prems e by force
    then show ?thesis using Cons.prems e True by simp
  next
    case False
    then have "i \<noteq> v" "i \<notin> snd ` set d" using Cons.prems e by auto
    then show ?thesis using Cons e False sub by auto
  qed
qed simp

lemma distinct_values_dpop: "distinct (map snd d) \<Longrightarrow> distinct (map snd (dpop k d))"
  by (simp add: AList.delete_eq distinct_map_filter)

lemma paths_of_ids: "map fst (path_to_effective_id snap) = map fst snap"
  by (simp add: path_to_effective_id_def o_def case_prod_beta)

text \<open>C12. Accepting a write never makes two files of the commit own one id, the failure that keeps the index from
  being rebuilt: if the ids of the parent commit are unique, so are those of the commit with the write in it.\<close>

theorem accepted_write_keeps_ids_unique:
  assumes "validate_postimage scan load env idx (Some w) tr target text = Inr []"
    and "parse_frontmatter load text = Inr (fm, body)" and "ends_with ''.md'' target"
    and "tree w = Some snap" and "distinct (map fst snap)" and "distinct (map snd (path_to_effective_id snap))"
  shows "distinct (map snd (result_owners load snap target fm []))"
proof -
  have "collision (effective_doc_id fm target) target idx (Some snap) = None"
    using validate_accepted(1)[OF assms(1,2)] assms(4) by simp
  then have "\<forall>(p, j) \<in> set (path_to_effective_id snap). j = effective_doc_id fm target \<longrightarrow> p = target"
    using effective_id_nonempty[OF assms(3)] unfolding collision_None_iff by simp
  from distinct_values_dset[OF assms(6) _ this] assms(5,6)
  show ?thesis by (simp add: result_owners_def put_owner_def paths_of_ids distinct_values_dpop)
qed

text \<open>A document with nothing between its delimiters has no frontmatter: its id comes from its path.\<close>

definition bare :: string where "bare = with_block [] ''text''"

lemma parse_bare: "parse_frontmatter (\<lambda>y. Some PyNone) bare = Inr ([], ''text'')"
  by code_simp

theorem accepted_write_keeps_ids_unique_witness:
  "distinct (map snd (result_owners (\<lambda>y. Some PyNone) [(''adr/one.md'', []), (''adr/two.md'', [])] ''adr/two.md'' [] []))"
proof (rule accepted_write_keeps_ids_unique)
  show "validate_postimage (\<lambda>t. None) (\<lambda>y. Some PyNone) None None
      (Some \<lparr>isfile = True, tree = Some [(''adr/one.md'', []), (''adr/two.md'', [])]\<rparr>) [] ''adr/two.md'' bare = Inr []"
    by code_simp
  show "parse_frontmatter (\<lambda>y. Some PyNone) bare = Inr ([], ''text'')" by (rule parse_bare)
qed code_simp+

subsection \<open>Relationship targets exist\<close>

lemma relationship_fields_get: "f \<in> set RELATIONSHIP_FIELDS \<longleftrightarrow> f \<in> {''supersedes'', ''superseded_by'', ''derived_from''}"
  by (simp add: RELATIONSHIP_FIELDS_def)

lemma guarded_Nil: "concat (map (\<lambda>(f, t). if P t then [g f t] else []) xs) = [] \<longleftrightarrow> (\<forall>(f, t) \<in> set xs. \<not> P t)"
  by (induction xs) (auto split: if_splits)

lemma supersession_ok:
  assumes "supersession_errors scan load fm target snapshot tr = []" and "f \<in> set RELATIONSHIP_FIELDS" and "fm_get fm f \<noteq> PyNone"
  obtains snap where "snapshot = Some snap" and "fst (field_check (get_or [] snap target) fm f) = []"
    and "\<And>t. (f, t) \<in> set (snd (field_check (get_or [] snap target) fm f)) \<Longrightarrow> t \<in> result_membership load snap target fm tr"
proof (cases snapshot)
  case None
  with assms show ?thesis by (auto simp: supersession_errors_def Let_def filter_empty_conv split: if_splits)
next
  case (Some snap)
  let ?c = "map (field_check (get_or [] snap target) fm) RELATIONSHIP_FIELDS"
  have ne: "filter (\<lambda>f. fm_get fm f \<noteq> PyNone) RELATIONSHIP_FIELDS \<noteq> []"
    using assms(2,3) by (auto simp: filter_empty_conv)
  have e: "concat (map fst ?c) @ [UnresolvedTarget f (safe_target scan t). (f, t) \<leftarrow> concat (map snd ?c), t \<notin> result_membership load snap target fm tr] = []"
    using assms(1) ne unfolding supersession_errors_def Some Let_def by simp
  have m: "field_check (get_or [] snap target) fm f \<in> set ?c" using assms(2) by simp
  show ?thesis
  proof (rule that[OF Some])
    show "fst (field_check (get_or [] snap target) fm f) = []" using e m by auto
    fix t assume "(f, t) \<in> set (snd (field_check (get_or [] snap target) fm f))"
    then have t: "(f, t) \<in> set (concat (map snd ?c))" using m by auto
    then show "t \<in> result_membership load snap target fm tr"
      using e unfolding append_is_Nil_conv guarded_Nil by blast
  qed
qed

text \<open>C32. After an accepted write no relationship of the document dangles newly: the value is well formed, and every
  target is an id of the very commit being made or was a target in the committed version of the same path; or the
  value is malformed, and then it is what was committed before.\<close>

theorem accepted_targets_resolve:
  assumes "validate_postimage scan load env idx (Some w) tr target text = Inr []"
    and "parse_frontmatter load text = Inr (fm, body)" and "\<not> is_reserved target"
    and "f \<in> set RELATIONSHIP_FIELDS" and "fm_get fm f \<noteq> PyNone"
  shows "\<exists>snap. tree w = Some snap \<and>
    (let old = fm_get (get_or [] snap target) f
     in case relationship_targets f (fm_get fm f) of
          (ts, False) \<Rightarrow> \<forall>t \<in> set ts. t \<in> result_membership load snap target fm tr
             \<or> old \<noteq> PyNone \<and> (\<exists>us. relationship_targets f old = (us, False) \<and> t \<in> set us)
        | (ts, True) \<Rightarrow> old \<noteq> PyNone \<and> strict_equal (fm_get fm f) old)"
proof -
  have ok: "supersession_errors scan load fm target (tree w) tr = []"
    using validate_accepted(2)[OF assms(1,2) refl assms(3)] .
  show ?thesis
  proof (rule supersession_ok[OF ok assms(4,5)])
    fix snap assume s: "tree w = Some snap" "fst (field_check (get_or [] snap target) fm f) = []"
      "\<And>t. (f, t) \<in> set (snd (field_check (get_or [] snap target) fm f)) \<Longrightarrow> t \<in> result_membership load snap target fm tr"
    let ?old = "fm_get (get_or [] snap target) f"
    obtain ts bad where v: "relationship_targets f (fm_get fm f) = (ts, bad)" by fastforce
    show ?thesis
    proof (cases bad)
      case True
      then show ?thesis using s(1,2) v assms(5) by (auto simp: field_check_def Let_def split: if_splits)
    next
      case False
      obtain us ub where u: "relationship_targets f ?old = (us, ub)" by fastforce
      have "t \<in> result_membership load snap target fm tr \<or> ?old \<noteq> PyNone \<and> \<not> ub \<and> t \<in> set us" if "t \<in> set ts" for t
        using s(3)[of t] that v u False assms(5) by (cases "?old = PyNone"; cases ub) (auto simp: field_check_def Let_def image_iff)
      then show ?thesis using s(1) v u False by (auto simp: Let_def)
    qed
  qed
qed

definition sample_fm :: frontmatter where
  "sample_fm = [(PyStr ''supersedes'', PyList [PyStr ''adr-old'']), (PyStr ''derived_from'', PyInt 3)]"

definition sample_tree :: snapshot where
  "sample_tree = [(''adr/old.md'', []), (''adr/new.md'', [(PyStr ''derived_from'', PyInt 3)])]"

lemma sample_accepted:
  "validate_postimage (\<lambda>t. None) (\<lambda>y. Some (PyDict sample_fm)) None None
      (Some \<lparr>isfile = True, tree = Some sample_tree\<rparr>) [] ''adr/new.md'' bare = Inr []"
  by code_simp

lemma sample_parsed: "parse_frontmatter (\<lambda>y. Some (PyDict sample_fm)) bare = Inr (sample_fm, ''text'')"
  by code_simp

theorem accepted_targets_resolve_witness:
  "\<exists>snap. tree \<lparr>isfile = True, tree = Some sample_tree\<rparr> = Some snap \<and>
    (let old = fm_get (get_or [] snap ''adr/new.md'') ''supersedes''
     in case relationship_targets ''supersedes'' (fm_get sample_fm ''supersedes'') of
          (ts, False) \<Rightarrow> \<forall>t \<in> set ts. t \<in> result_membership (\<lambda>y. Some (PyDict sample_fm)) snap ''adr/new.md'' sample_fm []
             \<or> old \<noteq> PyNone \<and> (\<exists>us. relationship_targets ''supersedes'' old = (us, False) \<and> t \<in> set us)
        | (ts, True) \<Rightarrow> old \<noteq> PyNone \<and> strict_equal (fm_get sample_fm ''supersedes'') old)"
  by (rule accepted_targets_resolve[OF sample_accepted sample_parsed]) code_simp+

text \<open>A write that leaves the relationship fields of a committed document as they are gets no relationship error,
  however old and broken their values are.\<close>

theorem unchanged_relationships_pass:
  assumes "\<forall>f \<in> set RELATIONSHIP_FIELDS. fm_get fm f = fm_get (get_or [] snap target) f"
  shows "supersession_errors scan load fm target (Some snap) tr = []"
proof -
  have "field_check (get_or [] snap target) fm f = ([], [])" if "f \<in> set RELATIONSHIP_FIELDS" for f
    using assms that strict_equal_refl by (auto simp: field_check_def Let_def filter_empty_conv split: prod.splits bool.splits)
  then show ?thesis by (simp add: supersession_errors_def Let_def RELATIONSHIP_FIELDS_def)
qed

theorem unchanged_relationships_pass_witness:
  "supersession_errors (\<lambda>t. None) (\<lambda>y. None) [(PyStr ''derived_from'', PyInt 3)] ''adr/new.md'' (Some sample_tree) [] = []"
proof (rule unchanged_relationships_pass)
  show "\<forall>f \<in> set RELATIONSHIP_FIELDS. fm_get [(PyStr ''derived_from'', PyInt 3)] f = fm_get (get_or [] sample_tree ''adr/new.md'') f"
    by (simp add: sample_tree_def RELATIONSHIP_FIELDS_def fm_get_def get_or_def)
qed

subsection \<open>When the gate itself fails\<close>

lemma enum_errors_raise_iff:
  "(\<exists>e. enum_errors fm fas = Inl e) \<longleftrightarrow> (\<exists>(f, allowed) \<in> set fas. \<not> hashable (fm_get fm f))"
  by (induction fas) (auto simp: enum_error_def in_frozenset_def split: sum.splits if_splits)

text \<open>The gate returns an answer except in one case: a document that is not schema-exempt has a list or a mapping
  where \<^verbatim>\<open>type\<close>, \<^verbatim>\<open>status\<close> or \<^verbatim>\<open>tier\<close> should be; then the lookup in the vocabulary raises \<open>TypeError\<close>.\<close>

theorem gate_raises_exactly_on_unhashable:
  "(\<exists>e. validate_postimage scan load env idx wt tr target text = Inl e) \<longleftrightarrow>
     (\<exists>fm body. parse_frontmatter load text = Inr (fm, body) \<and> \<not> is_reserved target \<and>
        (\<exists>f \<in> {''type'', ''status'', ''tier''}. \<not> hashable (fm_get fm f)))"
proof (cases "parse_frontmatter load text")
  case (Inr r)
  then obtain fm body where p: "parse_frontmatter load text = Inr (fm, body)" by (cases r) auto
  have "(\<exists>e. validate_postimage scan load env idx wt tr target text = Inl e) \<longleftrightarrow> \<not> is_reserved target \<and>
      (\<exists>e. enum_errors fm [(''type'', TYPES), (''status'', WRITE_STATUSES), (''tier'', TIERS)] = Inl e)"
    by (auto simp: validate_postimage_def p Let_def simp del: enum_errors.simps split: sum.splits)
  then show ?thesis unfolding enum_errors_raise_iff by (auto simp: p)
qed (simp add: validate_postimage_def)

end
