(* ===== verification/GovernedLane.thy ===== *)
theory GovernedLane
  imports WriteValidate
begin

text \<open>
  Governed-lane protection (\<^verbatim>\<open>governed_lane.py\<close>): agents can propose, only humans can promote. The
  status clamp, the state of the target in the live index (failing closed), the backstop on the bytes
  of the commit base, and the advisory injection patterns.

  Parameters: \<open>load\<close> for \<^verbatim>\<open>yaml.safe_load\<close>; \<open>inbox_env\<close> for \<^verbatim>\<open>KB_MEMORY_INBOX_PREFIX\<close>;
  \<open>today\<close> for the ISO date of the day.
\<close>

definition governed_lane_protection_enabled :: "string option \<Rightarrow> bool" where
  "governed_lane_protection_enabled env = (lower (strip (case env of None \<Rightarrow> '''' | Some v \<Rightarrow> v)) \<notin> {''off'', ''0'', ''false'', ''no''})"

subsection \<open>The status clamp\<close>

text \<open>The in-force status that a postimage claims, if it does.\<close>

definition check_status_clamp :: "(string \<Rightarrow> pyval option) \<Rightarrow> string \<Rightarrow> string option" where
  "check_status_clamp load postimage = (case parse_frontmatter load postimage of Inl e \<Rightarrow> None
     | Inr (fm, body) \<Rightarrow> (case fm_get fm ''status'' of
           PyStr s \<Rightarrow> (if s \<in> set IN_FORCE_STATUSES then Some s else None) | _ \<Rightarrow> None))"

subsection \<open>The target in the live index\<close>

datatype target_state = TargetInForce | TargetNotInForce | TargetUnknown

text \<open>
  What the index answers. \<^const>\<open>None\<close> in \<open>l_map\<close> is a failed read or a map that is no mapping, in
  \<open>l_get\<close> a failed read or a missing document, in \<open>l_excluded\<close> a failed read or a missing method.
\<close>

record live_index =
  l_map :: "(string, string) dict option"
  l_get :: "string \<Rightarrow> doc_row option"
  l_excluded :: "string \<Rightarrow> string list option"

definition governed_target_state :: "live_index option \<Rightarrow> string \<Rightarrow> string \<Rightarrow> target_state" where
  "governed_target_state idx target today =
     (case idx of None \<Rightarrow> TargetUnknown
      | Some ix \<Rightarrow> (case l_map ix of None \<Rightarrow> TargetUnknown
      | Some m \<Rightarrow> (case List.find (\<lambda>(i, p). p = target) m of None \<Rightarrow> TargetNotInForce
      | Some (i, p) \<Rightarrow> (case l_get ix i of None \<Rightarrow> TargetUnknown
      | Some doc \<Rightarrow>
          (let excluded = (case l_excluded ix today of None \<Rightarrow> [] | Some xs \<Rightarrow> xs)
           in if r_id doc \<in> set excluded then TargetNotInForce
              else if is_in_force (r_status doc) (r_valid_from doc) (r_valid_until doc) today (r_is_inbox doc)
              then TargetInForce else TargetNotInForce)))))"

definition is_target_in_force :: "live_index option \<Rightarrow> string \<Rightarrow> string \<Rightarrow> bool" where
  "is_target_in_force idx target today \<longleftrightarrow> governed_target_state idx target today = TargetInForce"

subsection \<open>The base of the commit\<close>

definition or_none :: "string \<Rightarrow> string option" where
  "or_none s = (if s = [] then None else Some s)"

definition str_or_empty :: "pyval \<Rightarrow> string" where
  "str_or_empty v = (case v of PyStr s \<Rightarrow> s | _ \<Rightarrow> '''')"

definition base_dates :: "frontmatter \<Rightarrow> string \<times> string" where
  "base_dates fm = (case fm_get fm ''validity'' of
      PyDict v \<Rightarrow> (fst (normalize_validity_date (fm_get v ''valid_from'')), fst (normalize_validity_date (fm_get v ''valid_until'')))
    | _ \<Rightarrow> ('''', ''''))"

definition is_base_content_in_force :: "(string \<Rightarrow> pyval option) \<Rightarrow> string option \<Rightarrow> string \<Rightarrow> string \<Rightarrow> string \<Rightarrow> bool" where
  "is_base_content_in_force load inbox_env content target today =
     (let fm = fm_of load content
      in is_in_force (str_or_empty (fm_get fm ''status'')) (or_none (fst (base_dates fm))) (or_none (snd (base_dates fm)))
           today (is_inbox_path inbox_env target))"

subsection \<open>Injection patterns\<close>

definition some_space :: re where
  "some_space = Rep True 1 None (Sat is_space)"

definition up_to :: "nat \<Rightarrow> re" where
  "up_to n = Rep False 0 (Some n) (Sat (\<lambda>c. c \<noteq> newline))"

definition injection_patterns :: "(string \<times> re) list" where
  "injection_patterns =
    [(''ignore_previous_instructions'',
        seqs [litsi ''ignore'', some_space, opt (Seq (litsi ''all'') some_space), litsi ''previous'', some_space,
          any_of [litsi ''instructions'', litsi ''rules'']]),
     (''disregard_policy'',
        seqs [litsi ''disregard'', WordB, up_to 40, WordB, any_of [litsi ''instructions'', litsi ''policy''], WordB]),
     (''imperative_exfiltration'',
        seqs [WordB, any_of [litsi ''send'', litsi ''post'', litsi ''upload''], WordB, up_to 60, WordB,
          litsi ''http'', opt (liti CHR ''s''), lits ''://'']),
     (''base64_like_blob'', seqs [Rep True 80 None (Sat (alnum_or ''+/'')), Rep True 0 (Some 2) (lit CHR ''='')]),
     (''do_not_tell_operator'',
        seqs [litsi ''do'', some_space, litsi ''not'', some_space, litsi ''tell'', some_space, litsi ''the'', some_space,
          any_of [litsi ''user'', litsi ''operator'']])]"

definition scan_for_injection_patterns :: "string \<Rightarrow> secret_match list" where
  "scan_for_injection_patterns s = List.map_filter (\<lambda>(name, r). case re_search r s of None \<Rightarrow> None
     | Some m \<Rightarrow> Some \<lparr>pattern_name = name, line = line_of s (fst m)\<rparr>) injection_patterns"

subsection \<open>The verdict\<close>

datatype demotion = StatusPromotion | GovernedTarget | GovernedTargetUnverified

record lane_verdict =
  demotion_reason :: "demotion option"
  injection_matches :: "secret_match list"

definition evaluate_governed_lane ::
  "(string \<Rightarrow> pyval option) \<Rightarrow> live_index option \<Rightarrow> bool \<Rightarrow> string \<Rightarrow> string \<Rightarrow> string \<Rightarrow> lane_verdict" where
  "evaluate_governed_lane load idx check_target postimage target today =
     (let matches = scan_for_injection_patterns postimage;
          verdict = (\<lambda>r. \<lparr>demotion_reason = r, injection_matches = matches\<rparr>)
      in if check_status_clamp load postimage \<noteq> None then verdict (Some StatusPromotion)
         else if check_target then
           (case governed_target_state idx target today of
              TargetInForce \<Rightarrow> verdict (Some GovernedTarget)
            | TargetUnknown \<Rightarrow> verdict (Some GovernedTargetUnverified)
            | TargetNotInForce \<Rightarrow> verdict None)
         else verdict None)"

definition name_line :: "secret_match \<Rightarrow> string" where
  "name_line m = pattern_name m @ '':'' @ show_nat (line m)"

definition injection_pattern_names :: "lane_verdict \<Rightarrow> string list" where
  "injection_pattern_names v = map name_line (injection_matches v)"

subsection \<open>What the lane guarantees\<close>

lemma not_demoted_iff:
  "demotion_reason (evaluate_governed_lane load idx ck post target today) = None \<longleftrightarrow>
     check_status_clamp load post = None \<and> (ck \<longrightarrow> governed_target_state idx target today = TargetNotInForce)"
  by (auto simp: evaluate_governed_lane_def Let_def split: target_state.split)

lemma clamp_None:
  "check_status_clamp load post = None \<Longrightarrow> str_or_empty (fm_get (fm_of load post) ''status'') \<notin> set IN_FORCE_STATUSES"
  by (auto simp: check_status_clamp_def fm_of_def fm_get_def get_or_def str_or_empty_def IN_FORCE_STATUSES_def split: sum.splits pyval.splits if_splits)


text \<open>A failing read of the exclusions keeps every demotion: exclusion only ever removes protection.\<close>

lemma lost_exclusions_keep_demotions:
  assumes "demotion_reason (evaluate_governed_lane load (Some ix) ck post target today) \<noteq> None"
  shows "demotion_reason (evaluate_governed_lane load (Some (ix\<lparr>l_excluded := \<lambda>t. None\<rparr>)) ck post target today) \<noteq> None"
  using assms unfolding not_demoted_iff by (auto simp: governed_target_state_def Let_def split: option.splits if_splits prod.splits)

end
