(* ===== verification/Capture.thy ===== *)
theory Capture
  imports WriteValidate
begin

text \<open>
  The capture envelope of proposed memories (\<^verbatim>\<open>capture.py\<close>): its validation, its read-side projection
  and its re-attachment when an operator edits a proposal.

  Parameters: \<open>scan\<close> for the secret scan with the configured patterns; \<open>encode\<close> for UTF-8 encoding
  (\<^const>\<open>None\<close> for a text it cannot encode); \<open>hexdigest\<close> for the SHA-256 of bytes in hexadecimal;
  \<open>load\<close> and \<open>dump\<close> for \<^verbatim>\<open>yaml.safe_load\<close> and \<^verbatim>\<open>yaml.safe_dump\<close>.
\<close>

definition RAW_RETENTION :: "string list" where
  "RAW_RETENTION = [''discarded'', ''redacted'', ''retained'']"

definition CLASSIFICATION :: "string list" where
  "CLASSIFICATION = [''fact'', ''decision'', ''preference'', ''task_state'', ''noise'']"

definition REQUIRED_FIELDS :: "string list" where
  "REQUIRED_FIELDS = [''capture_source'', ''capture_event_id'', ''source_event_hash'', ''transformation'', ''raw_retention'']"

definition OPTIONAL_FIELDS :: "string list" where
  "OPTIONAL_FIELDS = [''capture_session'', ''classification'', ''derived_memory_hash'']"

definition FIELDS :: "string list" where
  "FIELDS = REQUIRED_FIELDS @ OPTIONAL_FIELDS"

text \<open>A token: a head, then up to \<open>n\<close> characters of a class.\<close>

definition token :: "(char \<Rightarrow> bool) \<Rightarrow> (char \<Rightarrow> bool) \<Rightarrow> nat \<Rightarrow> string \<Rightarrow> bool" where
  "token first rest n s \<longleftrightarrow> (case s of [] \<Rightarrow> False | c # cs \<Rightarrow> first c \<and> length cs \<le> n \<and> list_all rest cs)"

definition lower_alnum_or :: "string \<Rightarrow> char \<Rightarrow> bool" where
  "lower_alnum_or s c \<longleftrightarrow> is_lower c \<or> ascii_digit c \<or> c \<in> set s"

definition is_hash :: "string \<Rightarrow> bool" where
  "is_hash s \<longleftrightarrow> starts_with ''sha256:'' s \<and> length s = 71 \<and> list_all (\<lambda>c. c \<in> set ''0123456789abcdef'') (drop 7 s)"

definition pattern_ok :: "string \<Rightarrow> string \<Rightarrow> bool" where
  "pattern_ok f v =
     (if f = ''capture_source'' then token (lower_alnum_or '''') (lower_alnum_or ''_.-'') 63 v
      else if f = ''capture_event_id'' \<or> f = ''capture_session'' then token is_alnum (alnum_or ''._:-'') 127 v
      else if f = ''transformation'' then token is_alnum (alnum_or ''._:@/+-'') 127 v
      else is_hash v)"

definition enum_of :: "string \<Rightarrow> string list option" where
  "enum_of f = (if f = ''raw_retention'' then Some RAW_RETENTION
     else if f = ''classification'' then Some CLASSIFICATION else None)"

definition text_hash :: "(string \<Rightarrow> string option) \<Rightarrow> (string \<Rightarrow> string) \<Rightarrow> string \<Rightarrow> string option" where
  "text_hash encode hexdigest text = map_option (\<lambda>bytes. ''sha256:'' @ hexdigest bytes) (encode text)"

type_synonym envelope = "(string \<times> string) list"

datatype capture_reason =
    NotAnObject | EmptyObject | UnexpectedKey | MissingField string | NotAStringField string
  | NotOneOf string "string list" | NotMatching string | NotUtf8 | HashDiffers

datatype capture_check = NotSupplied | Accepted envelope | Refused capture_reason | SecretFound string

definition candidates :: "pyval \<Rightarrow> string list" where
  "candidates v = (case v of PyStr s \<Rightarrow> [s]
     | PyDict m \<Rightarrow> concat (map (\<lambda>(k, x). opt_list (str_val k) @ opt_list (str_val x)) m)
     | _ \<Rightarrow> [])"

fun secret_in :: "(string \<Rightarrow> secret_match option) \<Rightarrow> string list \<Rightarrow> string option" where
  "secret_in scan [] = None"
| "secret_in scan (c # cs) = (case scan c of Some m \<Rightarrow> Some (pattern_name m) | None \<Rightarrow> secret_in scan cs)"

definition field_error :: "frontmatter \<Rightarrow> string \<Rightarrow> capture_reason option" where
  "field_error m f = (case fm_get m f of
      PyNone \<Rightarrow> None
    | PyStr v \<Rightarrow> (case enum_of f of
          Some allowed \<Rightarrow> (if v \<in> set allowed then None else Some (NotOneOf f allowed))
        | None \<Rightarrow> (if pattern_ok f v then None else Some (NotMatching f)))
    | _ \<Rightarrow> Some (NotAStringField f))"

text \<open>The first error of a list of checks.\<close>

fun first_error :: "('a \<Rightarrow> 'e option) \<Rightarrow> 'a list \<Rightarrow> 'e option" where
  "first_error check [] = None"
| "first_error check (x # xs) = (case check x of Some e \<Rightarrow> Some e | None \<Rightarrow> first_error check xs)"

definition shape_error :: "frontmatter \<Rightarrow> capture_reason option" where
  "shape_error m =
     (if m = [] then Some EmptyObject
      else if list_ex (\<lambda>(k, x). k \<notin> PyStr ` set FIELDS) m then Some UnexpectedKey
      else case first_error (\<lambda>f. if fm_get m f = PyNone then Some (MissingField f) else None) REQUIRED_FIELDS of
        Some e \<Rightarrow> Some e
      | None \<Rightarrow> first_error (field_error m) FIELDS)"

definition ordered :: "frontmatter \<Rightarrow> envelope" where
  "ordered m = List.map_filter (\<lambda>f. case fm_get m f of PyStr v \<Rightarrow> Some (f, v) | _ \<Rightarrow> None) FIELDS"

definition validate_capture ::
  "(string \<Rightarrow> secret_match option) \<Rightarrow> (string \<Rightarrow> string option) \<Rightarrow> (string \<Rightarrow> string) \<Rightarrow> string \<Rightarrow> pyval \<Rightarrow> capture_check" where
  "validate_capture scan encode hexdigest text capture =
     (if capture = PyNone then NotSupplied
      else case secret_in scan (candidates capture) of Some n \<Rightarrow> SecretFound n
      | None \<Rightarrow> (case capture of
          PyDict m \<Rightarrow> (case shape_error m of Some e \<Rightarrow> Refused e
            | None \<Rightarrow> (case text_hash encode hexdigest text of None \<Rightarrow> Refused NotUtf8
              | Some h \<Rightarrow> (if fm_get m ''derived_memory_hash'' \<notin> {PyNone, PyStr h} then Refused HashDiffers
                         else Accepted (dset ''derived_memory_hash'' h (ordered m)))))
        | _ \<Rightarrow> Refused NotAnObject))"

definition project_capture :: "pyval \<Rightarrow> envelope option" where
  "project_capture value = (case value of
      PyDict m \<Rightarrow> (if shape_error m \<noteq> None then None
                  else if fm_get m ''derived_memory_hash'' = PyNone then None else Some (ordered m))
    | _ \<Rightarrow> None)"

definition env_value :: "envelope \<Rightarrow> pyval" where
  "env_value e = PyDict (map (\<lambda>(k, v). (PyStr k, PyStr v)) e)"

text \<open>\<open>frontmatter.get("capture") == capture\<close>: equality of mappings, whatever their order.\<close>

definition carries :: "frontmatter \<Rightarrow> envelope \<Rightarrow> bool" where
  "carries fm e \<longleftrightarrow> (case fm_get fm ''capture'' of
      PyDict m \<Rightarrow> length m = length e \<and> list_all (\<lambda>(k, v). dget m (PyStr k) = Some (PyStr v)) e
    | _ \<Rightarrow> False)"

definition with_capture :: "frontmatter \<Rightarrow> envelope \<Rightarrow> frontmatter" where
  "with_capture fm e = dset (PyStr ''capture'') (env_value e) fm"

definition reattach_capture ::
  "(string \<Rightarrow> pyval option) \<Rightarrow> (frontmatter \<Rightarrow> string) \<Rightarrow> string \<Rightarrow> envelope \<Rightarrow> string \<Rightarrow> string" where
  "reattach_capture load dump postimage e original =
     (case parse_frontmatter load postimage of
        Inl err \<Rightarrow> postimage
      | Inr (fm, body) \<Rightarrow>
          (if is_delim_line (hd (lines_of postimage)) then
             (if carries fm e then postimage
              else ''---'' @ [newline] @ dump (with_capture fm e) @ ''---'' @ [newline] @ body)
           else
             (let base = fm_of load original;
                  text = (if ends_with [newline] postimage then postimage else postimage @ [newline])
              in ''---'' @ [newline] @ dump (with_capture base e) @ ''---'' @ [newline] @ [newline] @ text)))"

subsection \<open>Fields in their order\<close>

definition pick :: "(string \<Rightarrow> string option) \<Rightarrow> string list \<Rightarrow> envelope" where
  "pick g fs = List.map_filter (\<lambda>f. map_option (Pair f) (g f)) fs"

lemma pick_simps [simp]: "pick g [] = []" "pick g (f # fs) = (case g f of None \<Rightarrow> pick g fs | Some v \<Rightarrow> (f, v) # pick g fs)"
  by (simp_all add: pick_def map_filter_def split: option.split)

lemma keys_pick: "fst ` set (pick g fs) = {f \<in> set fs. g f \<noteq> None}"
  by (induction fs) (auto split: option.splits)

lemma distinct_pick: "distinct fs \<Longrightarrow> distinct (map fst (pick g fs))"
  using keys_pick[of g] by (induction fs) (auto split: option.split)

lemma dget_pick: "distinct fs \<Longrightarrow> dget (pick g fs) f = (if f \<in> set fs then g f else None)"
  using keys_pick[of g] by (induction fs) (auto split: option.splits simp: map_of_eq_None_iff)

lemma pick_cong: "(\<And>f. f \<in> set fs \<Longrightarrow> g f = h f) \<Longrightarrow> pick g fs = pick h fs"
  by (induction fs) (auto split: option.split)

lemma pick_append: "pick g (fs @ gs) = pick g fs @ pick g gs"
  by (induction fs) (auto split: option.split)

lemma dset_last: "k \<notin> fst ` set xs \<Longrightarrow> dset k v (xs @ ys) = xs @ dset k v ys"
  by (induction xs) auto

lemma ordered_pick: "ordered m = pick (\<lambda>f. str_val (fm_get m f)) FIELDS"
  unfolding ordered_def pick_def by (rule arg_cong[where f = "\<lambda>h. List.map_filter h FIELDS"]) (auto split: pyval.split)

lemma distinct_FIELDS: "distinct FIELDS"
  by code_simp

lemma FIELDS_last: "FIELDS = REQUIRED_FIELDS @ [''capture_session'', ''classification''] @ [''derived_memory_hash'']"
  by code_simp

lemma dset_pick:
  assumes "g ''derived_memory_hash'' \<in> {None, Some h}"
  shows "dset ''derived_memory_hash'' h (pick g FIELDS) = pick (\<lambda>f. if f = ''derived_memory_hash'' then Some h else g f) FIELDS"
proof -
  let ?i = "REQUIRED_FIELDS @ [''capture_session'', ''classification'']" and ?k = "''derived_memory_hash''"
  have k: "?k \<notin> set ?i" by code_simp
  have i: "pick (\<lambda>f. if f = ?k then Some h else g f) ?i = pick g ?i" using k by (intro pick_cong) auto
  have "FIELDS = ?i @ [?k]" by (simp add: FIELDS_last)
  then have "pick g' FIELDS = pick g' ?i @ pick g' [?k]" for g' using pick_append by metis
  moreover have "?k \<notin> fst ` set (pick g ?i)" using k unfolding keys_pick by blast
  ultimately show ?thesis using assms i by (auto simp: dset_last)
qed

definition py_pairs :: "envelope \<Rightarrow> frontmatter" where
  "py_pairs e = map (\<lambda>(k, v). (PyStr k, PyStr v)) e"

lemma dget_py_pairs: "dget (py_pairs e) (PyStr f) = map_option PyStr (dget e f)"
  by (induction e) (auto simp: py_pairs_def)

lemma fm_get_py_pairs: "fm_get (py_pairs e) f = (case dget e f of None \<Rightarrow> PyNone | Some v \<Rightarrow> PyStr v)"
  by (simp add: fm_get_def get_or_def dget_py_pairs split: option.split)

subsection \<open>What a well-formed envelope is\<close>

definition field_ok :: "string \<Rightarrow> string \<Rightarrow> bool" where
  "field_ok f v \<longleftrightarrow> (case enum_of f of Some allowed \<Rightarrow> v \<in> set allowed | None \<Rightarrow> pattern_ok f v)"

lemma first_error_None: "first_error check xs = None \<longleftrightarrow> (\<forall>x \<in> set xs. check x = None)"
  by (induction xs) (auto split: option.split)

lemma or_else_None: "(case a of Some e \<Rightarrow> Some e | None \<Rightarrow> b) = None \<longleftrightarrow> a = None \<and> b = None"
  by (cases a) auto

lemma field_error_None: "field_error m f = None \<longleftrightarrow> fm_get m f = PyNone \<or> (\<exists>v. fm_get m f = PyStr v \<and> field_ok f v)"
  by (auto simp: field_error_def field_ok_def split: pyval.splits option.splits)

lemma shape_ok_iff:
  "shape_error m = None \<longleftrightarrow> m \<noteq> [] \<and> (\<forall>(k, x) \<in> set m. k \<in> PyStr ` set FIELDS) \<and> (\<forall>f \<in> set REQUIRED_FIELDS. fm_get m f \<noteq> PyNone)
     \<and> (\<forall>f \<in> set FIELDS. fm_get m f = PyNone \<or> (\<exists>v. fm_get m f = PyStr v \<and> field_ok f v))"
proof -
  have "(case first_error (\<lambda>f. if fm_get m f = PyNone then Some (MissingField f) else None) REQUIRED_FIELDS of
       Some e \<Rightarrow> Some e | None \<Rightarrow> first_error (field_error m) FIELDS) = None
    \<longleftrightarrow> (\<forall>f \<in> set REQUIRED_FIELDS. fm_get m f \<noteq> PyNone) \<and> (\<forall>f \<in> set FIELDS. field_error m f = None)"
    unfolding or_else_None first_error_None by simp
  moreover have "list_ex (\<lambda>(k, x). k \<notin> PyStr ` set FIELDS) m \<longleftrightarrow> \<not> (\<forall>(k, x) \<in> set m. k \<in> PyStr ` set FIELDS)"
    by (auto simp: list_ex_iff)
  ultimately show ?thesis unfolding shape_error_def field_error_None by simp
qed

lemma pick_pairs_ok:
  assumes "\<And>f v. f \<in> set FIELDS \<Longrightarrow> g f = Some v \<Longrightarrow> field_ok f v" and "\<forall>f \<in> set REQUIRED_FIELDS. g f \<noteq> None"
  shows "shape_error (py_pairs (pick g FIELDS)) = None"
proof -
  have sub: "set REQUIRED_FIELDS \<subseteq> set FIELDS" by (simp add: FIELDS_def)
  have get: "fm_get (py_pairs (pick g FIELDS)) f = (case g f of None \<Rightarrow> PyNone | Some v \<Rightarrow> PyStr v)" if "f \<in> set FIELDS" for f
    using that by (simp add: fm_get_py_pairs dget_pick distinct_FIELDS)
  have r: "''capture_source'' \<in> set REQUIRED_FIELDS" by code_simp
  then have "g ''capture_source'' \<noteq> None" "''capture_source'' \<in> set FIELDS" using assms(2) sub by blast+
  then have "pick g FIELDS \<noteq> []" using keys_pick[of g FIELDS] by fastforce
  moreover have "\<forall>(k, x) \<in> set (py_pairs (pick g FIELDS)). k \<in> PyStr ` set FIELDS"
  proof (clarify)
    fix k x assume "(k, x) \<in> set (py_pairs (pick g FIELDS))"
    then obtain f v where "k = PyStr f" "(f, v) \<in> set (pick g FIELDS)" unfolding py_pairs_def by auto
    moreover from this(2) have "f \<in> fst ` set (pick g FIELDS)" by (rule image_eqI[rotated]) simp
    ultimately show "k \<in> PyStr ` set FIELDS" unfolding keys_pick by blast
  qed
  ultimately show ?thesis
    unfolding shape_ok_iff
  proof (intro conjI ballI)
    fix f assume f: "f \<in> set FIELDS"
    show "fm_get (py_pairs (pick g FIELDS)) f = PyNone \<or> (\<exists>v. fm_get (py_pairs (pick g FIELDS)) f = PyStr v \<and> field_ok f v)"
      unfolding get[OF f] using assms(1)[OF f] by (cases "g f") simp_all
  next
    fix f assume f: "f \<in> set REQUIRED_FIELDS"
    then have "f \<in> set FIELDS" "g f \<noteq> None" using sub assms(2) by blast+
    then show "fm_get (py_pairs (pick g FIELDS)) f \<noteq> PyNone" unfolding get[OF \<open>f \<in> set FIELDS\<close>] by (cases "g f") simp_all
  qed (auto simp: py_pairs_def)
qed

text \<open>C35. What is accepted is well formed and bound to the exact text, and the read side gives it back unchanged, field
  by field in the fixed order.\<close>

theorem accepted_envelope_reads_back:
  assumes "validate_capture scan encode hexdigest text capture = Accepted e" and "\<forall>b. is_hash (''sha256:'' @ hexdigest b)"
  shows "project_capture (env_value e) = Some e \<and> dget e ''derived_memory_hash'' = text_hash encode hexdigest text"
proof -
  let ?k = "''derived_memory_hash''"
  from assms(1) obtain m h where m: "capture = PyDict m" "shape_error m = None" "text_hash encode hexdigest text = Some h"
      "fm_get m ?k \<in> {PyNone, PyStr h}" "e = dset ?k h (ordered m)"
    by (auto simp: validate_capture_def split: if_splits option.splits pyval.splits)
  define g where "g = (\<lambda>f. if f = ?k then Some h else str_val (fm_get m f))"
  have "str_val (fm_get m ?k) \<in> {None, Some h}" using m(4) by auto
  from dset_pick[of "\<lambda>f. str_val (fm_get m f)", OF this] have e: "e = pick g FIELDS"
    unfolding m(5) ordered_pick g_def .
  note ok = m(2)[unfolded shape_ok_iff]
  have kin: "?k \<in> set FIELDS" "?k \<notin> set REQUIRED_FIELDS" by code_simp+
  have hk: "field_ok ?k h" using m(3) assms(2) by (auto simp: text_hash_def field_ok_def enum_of_def pattern_ok_def)
  have s: "shape_error (py_pairs e) = None"
    unfolding e
  proof (rule pick_pairs_ok)
    show "field_ok f v" if "f \<in> set FIELDS" "g f = Some v" for f v
      using that ok hk by (auto simp: g_def split: if_splits)
    have "str_val (fm_get m f) \<noteq> None" if "f \<in> set REQUIRED_FIELDS" for f
      using that ok unfolding FIELDS_def by (metis UnCI is_none_code(2) set_append str_val_Some option.distinct(1))
    then show "\<forall>f \<in> set REQUIRED_FIELDS. g f \<noteq> None" unfolding g_def by simp
  qed
  have get: "fm_get (py_pairs e) f = (case g f of None \<Rightarrow> PyNone | Some v \<Rightarrow> PyStr v)" if "f \<in> set FIELDS" for f
    using that unfolding e by (simp add: fm_get_py_pairs dget_pick distinct_FIELDS)
  have "ordered (py_pairs e) = pick g FIELDS"
    unfolding ordered_pick by (rule pick_cong) (auto simp: get split: option.split)
  moreover have "fm_get (py_pairs e) ?k = PyStr h" using get[OF kin(1)] by (simp add: g_def)
  moreover have "dget e ?k = Some h" unfolding e using kin(1) by (simp add: dget_pick distinct_FIELDS g_def)
  ultimately show ?thesis
    using s m(3) by (simp add: project_capture_def env_value_def flip: py_pairs_def) (simp add: e)
qed

definition sample_capture :: frontmatter where
  "sample_capture = [(PyStr ''capture_source'', PyStr ''hook''), (PyStr ''capture_event_id'', PyStr ''e1''),
     (PyStr ''source_event_hash'', PyStr (''sha256:'' @ replicate 64 CHR ''a'')), (PyStr ''transformation'', PyStr ''v1''),
     (PyStr ''raw_retention'', PyStr ''discarded'')]"

definition sample_envelope :: envelope where
  "sample_envelope = dset ''derived_memory_hash'' (''sha256:'' @ replicate 64 CHR ''0'') (ordered sample_capture)"

lemma sample_capture_accepted:
  "validate_capture (\<lambda>t. None) Some (\<lambda>b. replicate 64 CHR ''0'') ''text'' (PyDict sample_capture) = Accepted sample_envelope"
  by code_simp

theorem accepted_envelope_reads_back_witness:
  "project_capture (env_value sample_envelope) = Some sample_envelope
   \<and> dget sample_envelope ''derived_memory_hash'' = text_hash Some (\<lambda>b. replicate 64 CHR ''0'') ''text''"
proof (rule accepted_envelope_reads_back[OF sample_capture_accepted])
  have "is_hash (''sha256:'' @ replicate 64 CHR ''0'')" by code_simp
  then show "\<forall>b. is_hash (''sha256:'' @ (\<lambda>b. replicate 64 CHR ''0'') b)" by simp
qed

text \<open>A credential anywhere in the envelope, in a key or a value, refuses it before anything is looked at.\<close>

lemma secret_in_None: "secret_in scan cs = None \<longleftrightarrow> (\<forall>c \<in> set cs. scan c = None)"
  by (induction cs) (auto split: option.split)

lemma accepted_has_no_secret:
  "validate_capture scan encode hexdigest text (PyDict m) = Accepted e \<Longrightarrow>
   (k, v) \<in> set m \<Longrightarrow> s \<in> {k, v} \<Longrightarrow> s = PyStr t \<Longrightarrow> scan t = None"
proof -
  assume a: "validate_capture scan encode hexdigest text (PyDict m) = Accepted e" "(k, v) \<in> set m" "s \<in> {k, v}" "s = PyStr t"
  have "t \<in> set (candidates (PyDict m))"
    using a(2-4) by (force simp: candidates_def)
  moreover have "secret_in scan (candidates (PyDict m)) = None"
    using a(1) by (auto simp: validate_capture_def split: option.splits)
  ultimately show ?thesis by (auto simp: secret_in_None)
qed

subsection \<open>The label survives an edit\<close>

lemma dget_env_pairs: "distinct (map fst e) \<Longrightarrow> (k, v) \<in> set e \<Longrightarrow> dget (py_pairs e) (PyStr k) = Some (PyStr v)"
  by (simp add: dget_py_pairs)

lemma carries_with_capture: "distinct (map fst e) \<Longrightarrow> carries (with_capture fm e) e"
  using dget_env_pairs[of e]
  by (auto simp: carries_def with_capture_def env_value_def fm_get_def get_or_def list_all_iff simp flip: py_pairs_def)
    (simp add: py_pairs_def)

text \<open>How \<^verbatim>\<open>yaml\<close> prints a mapping: a text that ends a line, loads to the mapping, and has no line that
  reads as a delimiter.\<close>

definition dumps :: "(string \<Rightarrow> pyval option) \<Rightarrow> (frontmatter \<Rightarrow> string) \<Rightarrow> frontmatter \<Rightarrow> bool" where
  "dumps load dump m \<longleftrightarrow> (\<exists>y. dump m = y @ [newline] \<and> load y = Some (PyDict m) \<and> list_all (\<lambda>l. \<not> is_delim_line l) (lines_of y))"

lemma parse_dumped:
  assumes "dumps load dump m"
  shows "parse_frontmatter load (''---'' @ [newline] @ dump m @ ''---'' @ [newline] @ body) = Inr (m, body)"
    and "is_delim_line (hd (lines_of (''---'' @ [newline] @ dump m @ ''---'' @ [newline] @ body)))"
proof -
  from assms obtain y where y: "dump m = y @ [newline]" "load y = Some (PyDict m)" "list_all (\<lambda>l. \<not> is_delim_line l) (lines_of y)"
    by (auto simp: dumps_def)
  have t: "''---'' @ [newline] @ dump m @ ''---'' @ [newline] @ body = with_block y body"
    by (simp add: y(1) with_block_def)
  show "parse_frontmatter load (''---'' @ [newline] @ dump m @ ''---'' @ [newline] @ body) = Inr (m, body)"
    unfolding t by (rule parse_with_block) (fact y)+
  show "is_delim_line (hd (lines_of (''---'' @ [newline] @ dump m @ ''---'' @ [newline] @ body)))"
    unfolding t lines_of_block by (simp add: delim_plain)
qed

text \<open>Whatever an operator makes of a proposal that still parses, the document that is committed carries the stored
  envelope and ends with the edited body; and attaching it again changes nothing.\<close>

theorem label_survives_edit:
  assumes "parse_frontmatter load post = Inr (fm, body)" and "distinct (map fst e)"
    and "dumps load dump (with_capture fm e)" and "dumps load dump (with_capture (fm_of load original) e)"
  shows "let p = reattach_capture load dump post e original
    in carries (fm_of load p) e \<and> (suffix body p \<or> suffix (body @ [newline]) p) \<and> (\<forall>other. reattach_capture load dump p e other = p)"
proof -
  let ?p = "reattach_capture load dump post e original"
  have key: "carries (fm_of load p) e \<and> (\<forall>other. reattach_capture load dump p e other = p)"
    if "parse_frontmatter load p = Inr (m, b)" "is_delim_line (hd (lines_of p))" "carries m e" for p m b
    using that by (simp add: fm_of_def reattach_capture_def)
  show ?thesis
  proof (cases "is_delim_line (hd (lines_of post))")
    case True
    show ?thesis
    proof (cases "carries fm e")
      case c: True
      then have "?p = post" using assms(1) True by (simp add: reattach_capture_def)
      moreover have "suffix body post" using parse_body_suffix[OF assms(1)] .
      ultimately show ?thesis using key[OF assms(1) True c] by (simp add: Let_def)
    next
      case False
      then have "?p = ''---'' @ [newline] @ dump (with_capture fm e) @ ''---'' @ [newline] @ body"
        using assms(1) True by (simp add: reattach_capture_def)
      then show ?thesis
        using key[OF parse_dumped[OF assms(3)] carries_with_capture[OF assms(2)]] by (simp add: Let_def suffix_def)
    qed
  next
    case False
    then have b: "body = post" using parse_without_block[OF False, of load] assms(1) by simp
    let ?t = "if ends_with [newline] post then post else post @ [newline]"
    have p: "?p = ''---'' @ [newline] @ dump (with_capture (fm_of load original) e) @ ''---'' @ [newline] @ newline # ?t"
      using assms(1) False by (simp add: reattach_capture_def Let_def)
    show ?thesis
      using key[OF parse_dumped[OF assms(4)] carries_with_capture[OF assms(2)]] 
      unfolding p Let_def b by (simp add: suffix_def)
  qed
qed

theorem label_survives_edit_witness:
  "let p = reattach_capture (\<lambda>y. Some (PyDict (with_capture [] sample_envelope))) (\<lambda>m. ''x'' @ [newline]) ''edited'' sample_envelope ''orig''
   in carries (fm_of (\<lambda>y. Some (PyDict (with_capture [] sample_envelope))) p) sample_envelope \<and>
     (suffix ''edited'' p \<or> suffix (''edited'' @ [newline]) p) \<and>
     (\<forall>other. reattach_capture (\<lambda>y. Some (PyDict (with_capture [] sample_envelope))) (\<lambda>m. ''x'' @ [newline]) p sample_envelope other = p)"
proof (rule label_survives_edit[where fm = "[]"])
  let ?load = "\<lambda>y::string. Some (PyDict (with_capture [] sample_envelope))"
  have nd: "\<not> is_delim_line (hd (lines_of ''edited''))" "\<not> is_delim_line (hd (lines_of ''orig''))" by code_simp+
  show "parse_frontmatter ?load ''edited'' = Inr ([], ''edited'')"
    by (rule parse_without_block[OF nd(1)])
  have fm: "fm_of ?load ''orig'' = []"
    by (simp add: fm_of_def parse_without_block[OF nd(2)])
  have l: "list_all (\<lambda>l. \<not> is_delim_line l) (lines_of ''x'')" by code_simp
  show "dumps ?load (\<lambda>m. ''x'' @ [newline]) (with_capture [] sample_envelope)"
    unfolding dumps_def using l by (intro exI[of _ "''x''"]) simp
  then show "dumps ?load (\<lambda>m. ''x'' @ [newline]) (with_capture (fm_of ?load ''orig'') sample_envelope)"
    unfolding fm .
  show "distinct (map fst sample_envelope)" by code_simp
qed

end
