(* ===== verification/Auth.thy ===== *)
theory Auth
  imports Frontmatter EnforcePolicy
begin

text \<open>
  Target paths of writes (\<^verbatim>\<open>auth.py\<close>): the canonical form, the structural rule, containment in the
  worktree, and the operator's block list.

  Parameters: the values of \<^verbatim>\<open>KB_INDEXED_PREFIXES\<close> and, for containment, \<open>realpath\<close> for
  \<^verbatim>\<open>os.path.realpath\<close>.
\<close>

definition slash :: char where "slash = CHR ''/''"

definition DEFAULT_INDEXED_PREFIXES :: "string list" where
  "DEFAULT_INDEXED_PREFIXES = [''universal/'', ''tech-stacks/'', ''projects/'', ''decisions/'', ''workflows/'', ''memory/'',
     ''tooling/'', ''templates/'']"

definition indexed_prefixes :: "string \<Rightarrow> string list" where
  "indexed_prefixes env = (let raw = strip env
     in if raw = [] then DEFAULT_INDEXED_PREFIXES else filter (\<lambda>s. s \<noteq> []) (map strip (split_on CHR '','' raw)))"

definition STRUCTURALLY_EXCLUDED :: "string list" where
  "STRUCTURALLY_EXCLUDED = [''.git'', ''.worktrees'', ''.ruff_cache'', ''__pycache__'', ''to-delete'', ''archive'', ''_archive'',
     ''tools'', ''.pytest_cache'', ''.mypy_cache'', ''node_modules'']"

definition is_control :: "char \<Rightarrow> bool" where
  "is_control c \<longleftrightarrow> (let n = of_char c :: nat in n < 32 \<or> n = 127)"

definition normalize_target_path :: "string \<Rightarrow> string option" where
  "normalize_target_path raw =
     (if strip raw = [] then None
      else if list_ex is_control raw then None
      else if starts_with ''/'' raw \<or> length raw \<ge> 2 \<and> raw ! 1 = CHR '':'' then None
      else let parts = split_on slash (norm_slashes raw)
        in if list_ex (\<lambda>p. p = [] \<or> p = ''.'' \<or> p = ''..'') parts then None
           else if list_ex (\<lambda>p. p \<in> set STRUCTURALLY_EXCLUDED) parts then None
           else Some (join_with ''/'' parts))"

definition is_writable_path :: "string \<Rightarrow> string \<Rightarrow> bool" where
  "is_writable_path prefixes_env target =
     (case normalize_target_path target of None \<Rightarrow> False
      | Some p \<Rightarrow> ends_with ''.md'' p \<and> list_ex (\<lambda>pre. starts_with pre p) (indexed_prefixes prefixes_env))"

definition path_rejection_reason :: "string \<Rightarrow> string" where
  "path_rejection_reason raw = (case normalize_target_path raw of None \<Rightarrow> ''structurally_invalid''
     | Some p \<Rightarrow> if \<not> ends_with ''.md'' p then ''not_markdown'' else ''not_in_indexed_prefixes'')"

text \<open>\<^verbatim>\<open>os.path.join\<close> and \<^verbatim>\<open>os.path.normpath\<close>.\<close>

definition path_join :: "string \<Rightarrow> string \<Rightarrow> string" where
  "path_join a b = (if starts_with ''/'' b then b else if a = [] \<or> ends_with ''/'' a then a @ b else a @ ''/'' @ b)"

fun norm_comps :: "bool \<Rightarrow> string list \<Rightarrow> string list \<Rightarrow> string list" where
  "norm_comps rooted acc [] = rev acc"
| "norm_comps rooted acc (c # cs) =
     (if c = [] \<or> c = ''.'' then norm_comps rooted acc cs
      else if c \<noteq> ''..'' \<or> (\<not> rooted \<and> acc = []) \<or> (acc \<noteq> [] \<and> hd acc = ''..'') then norm_comps rooted (c # acc) cs
      else if acc \<noteq> [] then norm_comps rooted (tl acc) cs else norm_comps rooted acc cs)"

definition normpath :: "string \<Rightarrow> string" where
  "normpath s =
     (if s = [] then ''.''
      else let lead = (if \<not> starts_with ''/'' s then [] else if starts_with ''//'' s \<and> \<not> starts_with ''///'' s then ''//'' else ''/'');
               p = lead @ join_with ''/'' (norm_comps (lead \<noteq> []) [] (split_on slash s))
        in if p = [] then ''.'' else p)"

definition safe_join_under_root :: "(string \<Rightarrow> string) \<Rightarrow> string \<Rightarrow> string \<Rightarrow> string option" where
  "safe_join_under_root realpath base target =
     (let root_real = realpath base; full = path_join base target; real = realpath full;
          expected = normpath (path_join root_real target)
      in if real \<noteq> root_real \<and> starts_with (root_real @ ''/'') real \<and> real = expected then Some full else None)"

record blocklist =
  tier_blocks :: "string list"
  path_blocks :: "string list"

definition path_blocklist :: "string list \<Rightarrow> string list \<Rightarrow> blocklist" where
  "path_blocklist tiers paths = \<lparr>tier_blocks = filter (\<lambda>s. s \<noteq> []) (map strip tiers),
     path_blocks = filter (\<lambda>s. s \<noteq> []) (map strip paths)\<rparr>"

definition blocks :: "blocklist \<Rightarrow> string \<Rightarrow> string \<Rightarrow> bool" where
  "blocks b target tier \<longleftrightarrow> tier \<in> set (tier_blocks b) \<or> list_ex (\<lambda>p. fnmatch p target) (path_blocks b)"

subsection \<open>The canonical form\<close>

text \<open>What a canonical path is: relative segments that are names, none of them excluded.\<close>

definition canonical :: "string \<Rightarrow> bool" where
  "canonical p \<longleftrightarrow> (let parts = split_on slash p in
     list_all (\<lambda>s. s \<noteq> [] \<and> s \<noteq> ''.'' \<and> s \<noteq> ''..'' \<and> s \<notin> set STRUCTURALLY_EXCLUDED) parts)
     \<and> list_all (\<lambda>c. \<not> is_control c \<and> c \<noteq> CHR 0x5C) p"

lemma normalize_eq: "normalize_target_path raw = Some p \<Longrightarrow> p = norm_slashes raw"
  using join_split[of slash "norm_slashes raw"]
  by (auto simp: normalize_target_path_def Let_def slash_def split: if_splits)

lemma norm_slashes_plain: "CHR 0x5C \<notin> set (norm_slashes s)"
  by (auto simp: norm_slashes_def)

lemma norm_slashes_id: "CHR 0x5C \<notin> set s \<Longrightarrow> norm_slashes s = s"
  by (induction s) (auto simp: norm_slashes_def)

lemma control_norm_slashes: "list_ex is_control (norm_slashes s) = list_ex is_control s"
  by (induction s) (auto simp: norm_slashes_def is_control_def)

lemma normalize_canonical:
  assumes "normalize_target_path raw = Some p"
  shows "canonical p"
proof -
  have "\<not> list_ex is_control p"
    using assms normalize_eq[OF assms] control_norm_slashes by (auto simp: normalize_target_path_def split: if_splits)
  then have c: "list_all (\<lambda>c. \<not> is_control c \<and> c \<noteq> CHR 0x5C) p"
    using norm_slashes_plain[of raw] normalize_eq[OF assms] by (auto simp: list_ex_iff list_all_iff)
  have "list_all (\<lambda>s. s \<noteq> [] \<and> s \<noteq> ''.'' \<and> s \<noteq> ''..'' \<and> s \<notin> set STRUCTURALLY_EXCLUDED) (split_on slash (norm_slashes raw))"
    using assms by (auto simp: normalize_target_path_def Let_def list_ex_iff list_all_iff split: if_splits)
  with c show ?thesis using normalize_eq[OF assms] by (simp add: canonical_def Let_def)
qed

lemma strip_Nil_iff: "strip s = [] \<longleftrightarrow> list_all is_space s"
proof -
  have "strip s = [] \<longleftrightarrow> dropWhile is_space (rev (dropWhile is_space s)) = []" by (simp add: strip_def)
  also have "\<dots> \<longleftrightarrow> list_all is_space (dropWhile is_space s)" by (auto simp: dropWhile_eq_Nil_conv list_all_iff)
  also have "\<dots> \<longleftrightarrow> list_all is_space s" by (induction s) auto
  finally show ?thesis .
qed

text \<open>Normalizing gives a canonical path and leaves a canonical path alone, so that validating the canonical form
  and validating what was submitted are the same decision.\<close>

theorem normalize_idempotent:
  assumes "normalize_target_path raw = Some p"
  shows "canonical p \<and> normalize_target_path p = Some p \<and> is_writable_path env p = is_writable_path env raw"
proof -
  have e: "p = norm_slashes raw" and c: "canonical p" using normalize_eq[OF assms] normalize_canonical[OF assms] by auto
  have n: "norm_slashes p = p" unfolding e using norm_slashes_plain by (rule norm_slashes_id)
  have len: "length p = length raw" unfolding e by (simp add: norm_slashes_def)
  have ne: "split_on slash p ! 0 \<noteq> []" using c by (cases "split_on slash p") (auto simp: canonical_def Let_def)
  have s: "\<not> starts_with ''/'' p"
  proof
    assume "starts_with ''/'' p"
    then obtain t where "p = slash # t" by (cases p) (auto simp: starts_with_def slash_def)
    with ne show False by (simp add: split_on_Cons)
  qed
  have col: "\<not> (length p \<ge> 2 \<and> p ! 1 = CHR '':'')"
    using assms len unfolding e by (auto simp: normalize_target_path_def norm_slashes_def split: if_splits)
  have sp: "strip p \<noteq> []"
  proof -
    have "\<exists>ch \<in> set raw. \<not> is_space ch" using assms by (auto simp: normalize_target_path_def strip_Nil_iff list_all_iff split: if_splits)
    then obtain ch where ch: "ch \<in> set raw" "\<not> is_space ch" by blast
    have "\<not> is_space (if ch = CHR 0x5C then CHR ''/'' else ch)" using ch(2) by (simp add: is_space_def)
    moreover have "(if ch = CHR 0x5C then CHR ''/'' else ch) \<in> set p" unfolding e norm_slashes_def using ch(1) by force
    ultimately show ?thesis unfolding strip_Nil_iff list_all_iff by blast
  qed
  have "normalize_target_path p = Some (join_with ''/'' (split_on slash p))"
    using c s col sp unfolding normalize_target_path_def n Let_def canonical_def
    by (simp add: list_ex_iff list_all_iff)
  then have "normalize_target_path p = Some p" using join_split[of slash p] by (simp add: slash_def)
  with c assms show ?thesis by (simp add: is_writable_path_def)
qed

theorem normalize_idempotent_witness:
  "canonical ''decisions/x.md'' \<and> normalize_target_path ''decisions/x.md'' = Some ''decisions/x.md''
   \<and> is_writable_path '''' ''decisions/x.md'' = is_writable_path '''' (''decisions'' @ [CHR 0x5C] @ ''x.md'')"
proof -
  have "normalize_target_path (''decisions'' @ [CHR 0x5C] @ ''x.md'') = Some ''decisions/x.md''" by code_simp
  then show ?thesis by (rule normalize_idempotent)
qed

subsection \<open>Containment\<close>

text \<open>A resolved absolute path: names, without links or dots.\<close>

definition resolved_root :: "string \<Rightarrow> bool" where
  "resolved_root r \<longleftrightarrow> starts_with ''/'' r \<and> tl (split_on slash r) \<noteq> []
     \<and> list_all (\<lambda>c. c \<noteq> [] \<and> c \<noteq> ''.'' \<and> c \<noteq> ''..'') (tl (split_on slash r))"

lemma norm_comps_plain: "list_all (\<lambda>c. c \<noteq> [] \<and> c \<noteq> ''.'' \<and> c \<noteq> ''..'') cs \<Longrightarrow> norm_comps rooted acc cs = rev acc @ cs"
  by (induction cs arbitrary: acc) auto

lemma join_append: "as \<noteq> [] \<Longrightarrow> bs \<noteq> [] \<Longrightarrow> join_with sep (as @ bs) = join_with sep as @ sep @ join_with sep bs"
proof (induction as)
  case (Cons a as)
  then show ?case by (cases as; cases bs) auto
qed simp

lemma split_slash_append: "split_on slash (r @ slash # p) = split_on slash r @ split_on slash p"
  by (induction r) (auto simp: split_on_Cons)

lemma resolved_root_split:
  assumes "resolved_root r"
  obtains cs where "split_on slash r = [] # cs" "cs \<noteq> []" "list_all (\<lambda>c. c \<noteq> [] \<and> c \<noteq> ''.'' \<and> c \<noteq> ''..'') cs"
    "r = ''/'' @ join_with ''/'' cs"
proof -
  obtain t where t: "r = slash # t" using assms by (cases r) (auto simp: resolved_root_def starts_with_def slash_def)
  have s: "split_on slash r = [] # split_on slash t" unfolding t by (simp add: split_on_Cons)
  have "r = ''/'' @ join_with ''/'' (split_on slash t)" using join_split[of slash t] t by (simp add: slash_def)
  with that[OF s] assms s show ?thesis by (simp add: resolved_root_def)
qed

lemma normpath_under:
  assumes "resolved_root r" and "canonical p"
  shows "normpath (path_join r p) = r @ ''/'' @ p"
proof -
  from resolved_root_split[OF assms(1)] obtain cs where cs: "split_on slash r = [] # cs" "cs \<noteq> []"
      "list_all (\<lambda>c. c \<noteq> [] \<and> c \<noteq> ''.'' \<and> c \<noteq> ''..'') cs" "r = ''/'' @ join_with ''/'' cs" .
  have ps: "list_all (\<lambda>c. c \<noteq> [] \<and> c \<noteq> ''.'' \<and> c \<noteq> ''..'') (split_on slash p)"
    using assms(2) by (auto simp: canonical_def Let_def list_all_iff)
  have p0: "\<not> starts_with ''/'' p"
  proof
    assume "starts_with ''/'' p"
    then obtain t where "p = slash # t" by (cases p) (auto simp: starts_with_def slash_def)
    with ps show False by (simp add: split_on_Cons)
  qed
  obtain c cs' where c: "cs = c # cs'" "c \<noteq> []" using cs(2,3) by (cases cs) auto
  obtain ch w where w: "c = ch # w" using c(2) by (cases c) auto
  have "slash \<notin> set c" using split_on_free[of c slash r] cs(1) c(1) by simp
  then have ch: "ch \<noteq> slash" unfolding w by auto
  obtain rest where rest: "join_with ''/'' cs = ch # rest" unfolding c(1) w by (cases cs') simp_all
  have r2: "\<not> starts_with ''//'' (r @ x)" for x
  proof -
    have "r @ x = slash # ch # rest @ x" unfolding cs(4) rest slash_def by simp
    moreover have "\<not> starts_with [slash, slash] (slash # ch # rest @ x)" using ch unfolding starts_with_def by simp
    ultimately show ?thesis unfolding slash_def by simp
  qed
  have "\<not> ends_with ''/'' r"
  proof
    assume "ends_with ''/'' r"
    then obtain u where "r = u @ slash # []" by (auto simp: ends_with_iff_suffix suffix_def slash_def)
    then have "split_on slash r = split_on slash u @ [[]]" by (simp add: split_slash_append)
    then have "[] # cs = split_on slash u @ [[]]" using cs(1) by simp
    from arg_cong[OF this, where f = last] have "last cs = []" using cs(2) by simp
    moreover have "last cs \<in> set cs" using cs(2) by simp
    ultimately show False using cs(3) unfolding list_all_iff by auto
  qed
  then have j: "path_join r p = r @ slash # p" using p0 cs(4) by (simp add: path_join_def slash_def)
  have sp: "split_on slash (r @ slash # p) = [] # cs @ split_on slash p" by (simp add: split_slash_append cs(1))
  have all: "list_all (\<lambda>c. c \<noteq> [] \<and> c \<noteq> ''.'' \<and> c \<noteq> ''..'') (cs @ split_on slash p)" using cs(3) ps by simp
  have "starts_with ''/'' (r @ slash # p)" "r @ slash # p \<noteq> []" by (simp_all add: cs(4) starts_with_def)
  then have "normpath (r @ slash # p) = ''/'' @ join_with ''/'' (cs @ split_on slash p)"
    using r2 norm_comps_plain[OF all] by (simp add: normpath_def Let_def sp)
  also have "\<dots> = r @ ''/'' @ p"
    using join_append[OF cs(2) split_on_not_Nil] join_split[of slash p] by (simp add: cs(4) slash_def)
  finally show ?thesis unfolding j .
qed

text \<open>C36. Containment keeps the policy and the filesystem together: the file that is written is, after every link is
  followed, the canonical path inside the resolved root, and nothing else.\<close>

theorem contained_write_hits_its_path:
  assumes "safe_join_under_root realpath base target = Some full" and "normalize_target_path raw = Some target"
    and "resolved_root (realpath base)"
  shows "realpath full = realpath base @ ''/'' @ target"
  using assms(1) normpath_under[OF assms(3) normalize_canonical[OF assms(2)]]
  by (auto simp: safe_join_under_root_def Let_def split: if_splits)

theorem contained_write_hits_its_path_witness:
  "id (path_join ''/kb/wt'' ''memory/a.md'') = id ''/kb/wt'' @ ''/'' @ ''memory/a.md''"
proof (rule contained_write_hits_its_path[where base = "''/kb/wt''" and realpath = id])
  show "safe_join_under_root id ''/kb/wt'' ''memory/a.md'' = Some (path_join ''/kb/wt'' ''memory/a.md'')" by code_simp
  show "normalize_target_path ''memory/a.md'' = Some ''memory/a.md''" by code_simp
  show "resolved_root (id ''/kb/wt'')" by code_simp
qed

text \<open>What the comment on control characters promises is more than what is checked: a C1 control passes.\<close>

theorem c1_controls_pass:
  "normalize_target_path (''memory/a'' @ [CHR 0x85] @ ''.md'') = Some (''memory/a'' @ [CHR 0x85] @ ''.md'')"
  by code_simp

end
