(* ===== verification/GitOps.thy ===== *)
theory GitOps
  imports WriteGate
begin

text \<open>
  Git as the server uses it (\<^verbatim>\<open>git_ops.py\<close>, \<^verbatim>\<open>audit_trailers.py\<close>): the commit message with its audit trailers,
  the search for the commit that satisfied a claim, the guard on operations that rewrite history, and
  the push with its recovery. What a git command answers is a parameter; the commands that are run are part of
  the result, so that what must not run can be stated.

  A text becomes bytes by \<open>utf8\<close>; the branch for texts that cannot be encoded needs code points outside the model.
\<close>

definition utf8_char :: "char \<Rightarrow> string" where
  "utf8_char c = (let n = of_char c :: nat in if n < 128 then [c] else [char_of (192 + n div 64), char_of (128 + n mod 64)])"

definition utf8 :: "string \<Rightarrow> string" where
  "utf8 s = concat (map utf8_char s)"

subsection \<open>Commit messages\<close>

record commit_info =
  ci_subject :: string
  ci_session :: string
  ci_agent :: string
  ci_confidence :: string \<comment> \<open>with two decimals\<close>
  ci_confirmed :: bool
  ci_type :: string
  ci_tier :: string
  ci_path :: string
  ci_pending :: "string option"

definition LINE_SEPARATORS :: "char list" where
  "LINE_SEPARATORS = [CHR 0x0B, CHR 0x0C, CHR 0x1C, CHR 0x1D, CHR 0x1E, CHR 0x85]"

definition breaks_line :: "string \<Rightarrow> bool" where
  "breaks_line s \<longleftrightarrow> list_ex (\<lambda>c. c = newline \<or> c = CHR 0x0D \<or> c \<in> set LINE_SEPARATORS) s"

definition trailer_values :: "commit_info \<Rightarrow> string list" where
  "trailer_values c = [ci_subject c, ci_session c, ci_agent c, ci_tier c, ci_path c, (case ci_pending c of None \<Rightarrow> [] | Some i \<Rightarrow> i)]"

definition trailers_of :: "commit_info \<Rightarrow> (string \<times> string) list" where
  "trailers_of c = [(''KB-Source-Session'', ci_session c), (''KB-Agent-Identity'', ci_agent c), (''KB-Confidence'', ci_confidence c),
     (''KB-Operator-Confirmed'', if ci_confirmed c then ''yes'' else ''no''), (''KB-Proposal-Type'', ci_type c),
     (''KB-Target-Tier'', ci_tier c), (''KB-Target-Path'', ci_path c)]
     @ (case ci_pending c of None \<Rightarrow> [] | Some i \<Rightarrow> if i = [] then [] else [(''KB-Pending-Id'', i)])"

definition trailer_line :: "string \<times> string \<Rightarrow> string" where
  "trailer_line kv = fst kv @ '': '' @ snd kv"

text \<open>\<^const>\<open>None\<close> is the ValueError for a value that would break a line.\<close>

definition build_commit_message :: "commit_info \<Rightarrow> string option" where
  "build_commit_message c =
     (if list_ex breaks_line (trailer_values c) then None
      else Some (ci_subject c @ [newline, newline] @ join_with [newline] (map trailer_line (trailers_of c)) @ [newline]))"

subsection \<open>Reading trailers\<close>

text \<open>The mapping from what \<^verbatim>\<open>git interpret-trailers --parse\<close> prints: a key that comes twice is dropped.\<close>

definition partition_str :: "char \<Rightarrow> string \<Rightarrow> (string \<times> string) option" where
  "partition_str c s = (if c \<in> set s then Some (partition_at c s) else None)"

definition parse_line :: "string \<Rightarrow> (string \<times> string) option" where
  "parse_line raw = (case partition_str CHR '':'' raw of None \<Rightarrow> None
     | Some (k, v) \<Rightarrow> Some (k, if take 1 v = '' '' then drop 1 v else v))"

definition parse_output :: "string \<Rightarrow> (string, string) dict" where
  "parse_output out =
     (let kvs = List.map_filter parse_line (filter (\<lambda>l. l \<noteq> []) (split_on newline out))
      in filter (\<lambda>(k, v). count_list (map fst kvs) k = 1) kvs)"

text \<open>\<open>interpret\<close>: the output of git within a time limit; \<^const>\<open>None\<close> when it failed or did not finish.\<close>

definition parse_trailers :: "(time \<Rightarrow> string \<Rightarrow> string option) \<Rightarrow> time \<Rightarrow> string \<Rightarrow> (string, string) dict option" where
  "parse_trailers interpret limit message =
     (if \<not> ends_with [newline] message then Some []
      else if limit \<le> 0 then None
      else map_option parse_output (interpret limit message))"

definition blank_bytes :: "string \<Rightarrow> bool" where
  "blank_bytes s \<longleftrightarrow> list_all (\<lambda>c. (of_char c :: nat) \<in> {9, 10, 11, 12, 13, 32}) s"

subsection \<open>The commit of a claim\<close>

text \<open>The scan of the bodies; \<open>remaining n\<close> is the time left when the body at place \<open>n\<close> is reached.\<close>

fun scan_bodies :: "(time \<Rightarrow> string \<Rightarrow> string option) \<Rightarrow> (nat \<Rightarrow> time) \<Rightarrow> string \<Rightarrow> string \<Rightarrow> nat \<Rightarrow> string list \<Rightarrow> bool option" where
  "scan_bodies interpret remaining want_id want_path n [] = Some False"
| "scan_bodies interpret remaining want_id want_path n (m # ms) =
     (if blank_bytes m \<or> \<not> contains ''KB-Pending-Id'' m then scan_bodies interpret remaining want_id want_path (n + 1) ms
      else if remaining n \<le> 0 then None
      else case parse_trailers interpret (remaining n) m of
          None \<Rightarrow> None
        | Some ts \<Rightarrow>
            (if dget ts ''KB-Pending-Id'' \<noteq> Some want_id then scan_bodies interpret remaining want_id want_path (n + 1) ms
             else if want_path \<noteq> [] \<and> dget ts ''KB-Target-Path'' \<noteq> Some want_path
             then scan_bodies interpret remaining want_id want_path (n + 1) ms
             else Some True))"

definition log_bodies :: "string option \<Rightarrow> string list option" where
  "log_bodies stdout = map_option (split_on nul) stdout"

definition find_claim_commit ::
  "(time \<Rightarrow> string \<Rightarrow> string option) \<Rightarrow> (nat \<Rightarrow> time) \<Rightarrow> (string \<Rightarrow> string \<Rightarrow> string option) \<Rightarrow> string \<Rightarrow> string \<Rightarrow> string \<Rightarrow> string \<Rightarrow> bool option" where
  "find_claim_commit interpret remaining git_log ref since pid target =
     (if ref = [] \<or> since = [] \<or> pid = [] then None
      else case log_bodies (git_log since ref) of None \<Rightarrow> None
        | Some bodies \<Rightarrow> scan_bodies interpret remaining (utf8 pid) (utf8 target) 0 bodies)"

subsection \<open>Rewriting history\<close>

text \<open>The guard reconciles the claims on a ref and names those still at risk; \<^const>\<open>None\<close> is a guard that raises.\<close>

datatype guard_verdict = Proceed | Defer "string list"

definition defer_if_claims_at_risk :: "(string \<Rightarrow> string list option) option \<Rightarrow> string \<Rightarrow> guard_verdict" where
  "defer_if_claims_at_risk guard ref =
     (case guard of None \<Rightarrow> Proceed
      | Some g \<Rightarrow> (if ref = [] then Defer [''*'']
          else case g ref of None \<Rightarrow> Defer [''<guard unreadable>'']
            | Some ids \<Rightarrow> (if ids = [] then Proceed else Defer ids)))"

datatype git_cmd = Remote | Fetch | RevParse | Rebase | RebaseAbort | Push | BranchDelete | WorktreeRemove

datatype git_failure = AtRisk "string list" | FetchFailed | RebaseConflict | NonFastForward | PushFailed

text \<open>What the commands of one operation answer: whether they exit with zero, and the text the code looks at.\<close>

record git_answers =
  a_branch :: string \<comment> \<open>empty when unreadable\<close>
  a_has_origin :: bool
  a_fetch_ok :: bool
  a_upstream_sha :: string
  a_rebase_ok :: bool
  a_push1 :: "string option" \<comment> \<open>the standard error of a failed push\<close>
  a_push2 :: "string option"

definition refresh_base_locked :: "git_answers \<Rightarrow> (git_failure + string) \<times> git_cmd list" where
  "refresh_base_locked a =
     (if \<not> a_has_origin a then (Inr [], [Remote])
      else if \<not> a_fetch_ok a then (Inl FetchFailed, [Remote, Fetch])
      else if \<not> a_rebase_ok a then (Inl RebaseConflict, [Remote, Fetch, RevParse, Rebase, RebaseAbort])
      else (Inr (a_upstream_sha a), [Remote, Fetch, RevParse, Rebase]))"

definition refresh_base :: "(string \<Rightarrow> string list option) option \<Rightarrow> git_answers \<Rightarrow> (git_failure + string) \<times> git_cmd list" where
  "refresh_base guard a = (case defer_if_claims_at_risk guard (a_branch a) of
      Defer ids \<Rightarrow> (Inl (AtRisk ids), []) | Proceed \<Rightarrow> refresh_base_locked a)"

definition delete_branch :: "(string \<Rightarrow> string list option) option \<Rightarrow> string \<Rightarrow> (git_failure + unit) \<times> git_cmd list" where
  "delete_branch guard branch = (case defer_if_claims_at_risk guard branch of
      Defer ids \<Rightarrow> (Inl (AtRisk ids), []) | Proceed \<Rightarrow> (Inr (), [BranchDelete]))"

definition worktree_remove_guarded :: "(string \<Rightarrow> string list option) option \<Rightarrow> bool \<Rightarrow> string \<Rightarrow> (git_failure + unit) \<times> git_cmd list" where
  "worktree_remove_guarded guard exists branch = (case defer_if_claims_at_risk guard branch of
      Defer ids \<Rightarrow> (Inl (AtRisk ids), []) | Proceed \<Rightarrow> (Inr (), if exists then [WorktreeRemove] else []))"

definition is_non_fast_forward :: "string \<Rightarrow> bool" where
  "is_non_fast_forward stderr = (let s = lower stderr
     in contains ''non-fast-forward'' s \<or> contains ''fetch first'' s \<or> contains ''updates were rejected'' s
        \<or> contains ''[rejected]'' s \<and> contains ''fetch'' s)"

definition push_with_rebase_recovery :: "(string \<Rightarrow> string list option) option \<Rightarrow> git_answers \<Rightarrow> (git_failure + unit) \<times> git_cmd list" where
  "push_with_rebase_recovery guard a =
     (case a_push1 a of
        None \<Rightarrow> (Inr (), [Push])
      | Some err \<Rightarrow>
          (if \<not> is_non_fast_forward err then (Inl PushFailed, [Push])
           else case refresh_base guard a of
              (Inl e, cs) \<Rightarrow> (Inl e, Push # cs)
            | (Inr sha, cs) \<Rightarrow>
                (case a_push2 a of
                   None \<Rightarrow> (Inr (), Push # cs @ [Push])
                 | Some err2 \<Rightarrow> (Inl (if is_non_fast_forward err2 then NonFastForward else PushFailed), Push # cs @ [Push]))))"

subsection \<open>Following the trunk\<close>

datatype ff_status = Changed | NoChange | NoRemote | FfFetchFailed | FfFailed

record ff_result =
  ff_previous :: string
  ff_current :: string
  ff_changed :: bool
  ff_status :: ff_status
  ff_remote :: "string option"

record ff_answers =
  q_previous :: string
  q_has_origin :: bool
  q_fetch_ok :: bool
  q_remote :: "string option"
  q_merge_ok :: bool
  q_current :: string

definition ff_merge_upstream :: "ff_answers \<Rightarrow> ff_result" where
  "ff_merge_upstream q =
     (let still = (\<lambda>st r. \<lparr>ff_previous = q_previous q, ff_current = q_previous q, ff_changed = False, ff_status = st, ff_remote = r\<rparr>)
      in if \<not> q_has_origin q then still NoRemote None
         else if \<not> q_fetch_ok q then still FfFetchFailed None
         else if \<not> q_merge_ok q then still FfFailed (q_remote q)
         else let changed = q_current q \<noteq> q_previous q
              in \<lparr>ff_previous = q_previous q, ff_current = q_current q, ff_changed = changed,
                  ff_status = (if changed then Changed else NoChange), ff_remote = q_remote q\<rparr>)"

subsection \<open>Encoding\<close>

lemma of_char_less: "(of_char c :: nat) < 256"
  by simp

lemma utf8_ascii: "list_all (\<lambda>c. (of_char c :: nat) < 128) s \<Longrightarrow> utf8 s = s"
  by (induction s) (auto simp: utf8_def utf8_char_def)

lemma utf8_append [simp]: "utf8 (a @ b) = utf8 a @ utf8 b"
  by (simp add: utf8_def)

lemma utf8_Cons: "utf8 (c # s) = utf8_char c @ utf8 s"
  by (simp add: utf8_def)

lemma utf8_Nil [simp]: "utf8 [] = []"
  by (simp add: utf8_def)

lemma char_of_eq_less: "m < 256 \<Longrightarrow> n < 256 \<Longrightarrow> char_of m = (char_of n :: char) \<longleftrightarrow> m = (n :: nat)"
  by (simp add: char_of_eq_iff take_bit_eq_mod)

lemma utf8_char_prefix_free:
  assumes "utf8_char c @ s = utf8_char d @ t"
  shows "c = d \<and> s = t"
proof -
  let ?m = "of_char c :: nat" and ?n = "of_char d :: nat"
  have b: "?m < 256" "?n < 256" by (simp_all add: of_char_less)
  have small: "192 + k div 64 < 256" "128 + k mod 64 < 256" if "k < (256::nat)" for k
    using that by linarith+
  have hd: "c = char_of (192 + k div 64) \<Longrightarrow> 192 \<le> (of_char c :: nat)" if "k < (256::nat)" for c :: char and k
    using small(1)[OF that] by simp
  show ?thesis
  proof (cases "?m < 128"; cases "?n < 128")
    assume "\<not> ?m < 128" "\<not> ?n < 128"
    then have "char_of (192 + ?m div 64) = (char_of (192 + ?n div 64) :: char) \<and> char_of (128 + ?m mod 64) = (char_of (128 + ?n mod 64) :: char) \<and> s = t"
      using assms unfolding utf8_char_def Let_def by (simp only: if_False append.simps list.inject)
    then have "?m div 64 = ?n div 64" "?m mod 64 = ?n mod 64" "s = t"
      unfolding char_of_eq_less[OF small(1)[OF b(1)] small(1)[OF b(2)]] char_of_eq_less[OF small(2)[OF b(1)] small(2)[OF b(2)]] by simp_all
    then have "?m = ?n" by (metis div_mult_mod_eq)
    with \<open>s = t\<close> show ?thesis by simp
  next
    assume a: "?m < 128" "\<not> ?n < 128"
    then have "c = char_of (192 + ?n div 64)" using assms unfolding utf8_char_def Let_def by (simp only: if_False if_True append.simps list.inject)
    with hd[OF b(2), of c] a(1) show ?thesis by simp
  next
    assume a: "\<not> ?m < 128" "?n < 128"
    then have "d = char_of (192 + ?m div 64)" using assms unfolding utf8_char_def Let_def by (simp only: if_False if_True append.simps list.inject)
    with hd[OF b(1), of d] a(2) show ?thesis by simp
  next
    assume "?m < 128" "?n < 128"
    then show ?thesis using assms by (simp add: utf8_char_def)
  qed
qed

lemma utf8_eq [simp]: "utf8 s = utf8 t \<longleftrightarrow> s = t"
proof
  have ne: "utf8_char c \<noteq> []" for c by (simp add: utf8_char_def Let_def)
  show "utf8 s = utf8 t \<Longrightarrow> s = t"
  proof (induction s arbitrary: t)
    case Nil
    then show ?case using ne by (cases t) (simp_all add: utf8_Cons)
  next
    case (Cons c s)
    then obtain d t' where t: "t = d # t'" using ne by (cases t) (simp_all add: utf8_Cons)
    from utf8_char_prefix_free[of c "utf8 s" d "utf8 t'"] Cons show ?case by (simp add: t utf8_Cons)
  qed
qed simp

lemma utf8_char_plain: "x \<in> set (utf8_char c) \<Longrightarrow> (of_char x :: nat) < 128 \<Longrightarrow> x = c"
proof -
  assume a: "x \<in> set (utf8_char c)" "(of_char x :: nat) < 128"
  have "192 + (of_char c :: nat) div 64 < 256" "128 + (of_char c :: nat) mod 64 < 256"
    using of_char_less[of c] by linarith+
  then show ?thesis using a by (auto simp: utf8_char_def Let_def split: if_splits)
qed

lemma utf8_free: "(of_char x :: nat) < 128 \<Longrightarrow> x \<notin> set s \<Longrightarrow> x \<notin> set (utf8 s)"
  unfolding utf8_def by (auto dest: utf8_char_plain)

subsection \<open>The trailers of a built message\<close>

definition from_server :: "commit_info \<Rightarrow> bool" where
  "from_server c \<longleftrightarrow> build_commit_message c \<noteq> None \<and> \<not> breaks_line (ci_confidence c) \<and> \<not> breaks_line (ci_type c)"

definition body_of :: "commit_info \<Rightarrow> string" where
  "body_of c = utf8 (the (build_commit_message c))"

text \<open>How git prints the trailers of a message that ends with a trailer block whose values have no outer white space:
  line by line.\<close>

definition printed_trailers :: "commit_info \<Rightarrow> string" where
  "printed_trailers c = concat (map (\<lambda>kv. utf8 (trailer_line kv) @ [newline]) (trailers_of c))"

lemma value_no_newline:
  assumes "from_server c" and "kv \<in> set (trailers_of c)"
  shows "newline \<notin> set (snd kv)"
proof -
  have "\<not> breaks_line v" if "v \<in> set (trailer_values c)" for v
    using assms(1) that by (auto simp: from_server_def build_commit_message_def list_ex_iff split: if_splits)
  moreover have "snd kv \<in> set (trailer_values c) \<union> {ci_confidence c, ci_type c, ''yes'', ''no''}"
    using assms(2) by (auto simp: trailers_of_def trailer_values_def split: option.splits if_splits)
  moreover have "\<not> breaks_line ''yes''" "\<not> breaks_line ''no''" by code_simp+
  ultimately have "\<not> breaks_line (snd kv)" using assms(1) by (auto simp: from_server_def)
  then show ?thesis by (auto simp: breaks_line_def list_ex_iff)
qed

definition trailer_key :: "string \<Rightarrow> bool" where
  "trailer_key k \<longleftrightarrow> list_all (\<lambda>c. (of_char c :: nat) < 128 \<and> c \<noteq> CHR '':'' \<and> c \<noteq> newline) k"

lemma keys_ok: "kv \<in> set (trailers_of c) \<Longrightarrow> trailer_key (fst kv)"
proof -
  have k: "list_all trailer_key [''KB-Source-Session'', ''KB-Agent-Identity'', ''KB-Confidence'', ''KB-Operator-Confirmed'', ''KB-Proposal-Type'', ''KB-Target-Tier'',
    ''KB-Target-Path'', ''KB-Pending-Id'']" by code_simp
  assume "kv \<in> set (trailers_of c)"
  then have "fst kv \<in> set [''KB-Source-Session'', ''KB-Agent-Identity'', ''KB-Confidence'', ''KB-Operator-Confirmed'', ''KB-Proposal-Type'', ''KB-Target-Tier'',
    ''KB-Target-Path'', ''KB-Pending-Id'']" unfolding trailers_of_def by (auto split: option.splits if_splits)
  with k show ?thesis unfolding list_all_iff by blast
qed

lemma keys_distinct: "distinct (map fst (trailers_of c))"
  by (cases "ci_pending c") (auto simp: trailers_of_def)

lemma utf8_key: "trailer_key k \<Longrightarrow> utf8 k = k"
  by (rule utf8_ascii) (auto simp: trailer_key_def list_all_iff)

lemma parse_trailer_line:
  assumes "trailer_key k"
  shows "parse_line (utf8 (trailer_line (k, v))) = Some (k, utf8 v)"
proof -
  have a: "utf8 '': '' = '': ''" by code_simp
  have e: "utf8 (trailer_line (k, v)) = k @ CHR '':'' # '' '' @ utf8 v"
    unfolding trailer_line_def fst_conv snd_conv utf8_append a utf8_key[OF assms] by simp
  have "CHR '':'' \<notin> set k" using assms by (auto simp: trailer_key_def list_all_iff)
  then show ?thesis unfolding parse_line_def partition_str_def e by simp
qed

lemma split_lines_concat: "list_all (\<lambda>l. newline \<notin> set l) ls \<Longrightarrow> split_on newline (concat (map (\<lambda>l. l @ [newline]) ls)) = ls @ [[]]"
  by (induction ls) (auto simp: split_append_sep)

lemma map_filter_map: "(\<And>x. x \<in> set xs \<Longrightarrow> f (g x) = Some (h x)) \<Longrightarrow> List.map_filter f (map g xs) = map h xs"
  by (induction xs) (auto simp: map_filter_def)

lemma count_distinct: "distinct xs \<Longrightarrow> x \<in> set xs \<Longrightarrow> count_list xs x = 1"
  by (induction xs) (auto simp: count_notin)

lemma parse_printed:
  assumes "from_server c"
  shows "parse_output (printed_trailers c) = map (\<lambda>(k, v). (k, utf8 v)) (trailers_of c)"
proof -
  let ?ls = "map (utf8 \<circ> trailer_line) (trailers_of c)"
  have nl: "(of_char newline :: nat) < 128" by (simp add: newline_def)
  have "newline \<notin> set (trailer_line kv)" if "kv \<in> set (trailers_of c)" for kv
    using keys_ok[OF that] value_no_newline[OF assms that] by (auto simp: trailer_line_def trailer_key_def list_all_iff newline_def)
  then have free: "list_all (\<lambda>l. newline \<notin> set l) ?ls" using utf8_free[OF nl] by (auto simp: list_all_iff)
  have p: "printed_trailers c = concat (map (\<lambda>l. l @ [newline]) ?ls)" by (simp add: printed_trailers_def o_def)
  have ne: "utf8 (trailer_line kv) \<noteq> []" if "kv \<in> set (trailers_of c)" for kv
    using parse_trailer_line[OF keys_ok[OF that], of "snd kv"] by (auto simp: parse_line_def partition_str_def)
  have fl: "filter (\<lambda>l. l \<noteq> []) (?ls @ [[]]) = ?ls" using ne by (auto simp: filter_id_conv)
  have kvs: "List.map_filter parse_line (filter (\<lambda>l. l \<noteq> []) (split_on newline (printed_trailers c))) = map (\<lambda>(k, v). (k, utf8 v)) (trailers_of c)"
    unfolding p split_lines_concat[OF free] fl
  proof (rule map_filter_map)
    fix kv assume "kv \<in> set (trailers_of c)"
    from parse_trailer_line[OF keys_ok[OF this], of "snd kv"]
    show "parse_line ((utf8 \<circ> trailer_line) kv) = Some (case kv of (k, v) \<Rightarrow> (k, utf8 v))" by (simp add: case_prod_beta)
  qed
  have keys: "map fst (map (\<lambda>(k, v). (k, utf8 v)) (trailers_of c)) = map fst (trailers_of c)" by (simp add: case_prod_beta)
  have "count_list (map fst (trailers_of c)) k = 1" if "k \<in> fst ` set (trailers_of c)" for k
    using count_distinct[OF keys_distinct[of c]] that by simp
  then show ?thesis
    unfolding parse_output_def Let_def kvs keys by (force simp: filter_id_conv)
qed

subsection \<open>The evidence of a claim\<close>

definition pending_of :: "commit_info \<Rightarrow> string option" where
  "pending_of c = (case ci_pending c of None \<Rightarrow> None | Some i \<Rightarrow> if i = [] then None else Some i)"

lemma dget_trailers:
  "dget (map (\<lambda>(k, v). (k, utf8 v)) (trailers_of c)) ''KB-Pending-Id'' = map_option utf8 (pending_of c)"
  "dget (map (\<lambda>(k, v). (k, utf8 v)) (trailers_of c)) ''KB-Target-Path'' = Some (utf8 (ci_path c))"
  by (cases "ci_pending c"; simp add: trailers_of_def pending_of_def)+

lemma join_nl_sublist: "l \<in> set ls \<Longrightarrow> sublist l (join_with sep ls)"
proof (induction sep ls rule: join_with.induct)
  case (3 sep x y xs)
  then show ?case by (auto simp: sublist_append intro: sublist_order.order.trans)
qed auto

lemma sublist_utf8: "sublist a b \<Longrightarrow> sublist (utf8 a) (utf8 b)"
  unfolding sublist_def by (elim exE) (intro exI, simp)

lemma body_mentions_claim:
  assumes "from_server c" and "pending_of c \<noteq> None"
  shows "contains ''KB-Pending-Id'' (body_of c)"
proof -
  obtain i where i: "(''KB-Pending-Id'', i) \<in> set (trailers_of c)"
    using assms(2) by (cases "ci_pending c") (auto simp: pending_of_def trailers_of_def split: if_splits)
  then have "sublist (trailer_line (''KB-Pending-Id'', i)) (join_with [newline] (map trailer_line (trailers_of c)))"
    by (intro join_nl_sublist) force
  then have "sublist ''KB-Pending-Id'' (join_with [newline] (map trailer_line (trailers_of c)))"
    using sublist_order.order.trans[of "''KB-Pending-Id''"] by (metis fst_conv sublist_append_rightI trailer_line_def)
  moreover have "sublist (join_with [newline] (map trailer_line (trailers_of c))) (the (build_commit_message c))"
  proof -
    have "sublist m (a @ newline # newline # m @ [newline])" for m a :: string
      unfolding sublist_def by (intro exI[of _ "a @ [newline, newline]"] exI[of _ "[newline]"]) simp
    then show ?thesis using assms(1) by (auto simp: from_server_def build_commit_message_def split: if_splits)
  qed
  ultimately have "sublist ''KB-Pending-Id'' (the (build_commit_message c))" using sublist_order.order.trans by blast
  from sublist_utf8[OF this] have "sublist (utf8 ''KB-Pending-Id'') (body_of c)" by (simp add: body_of_def)
  moreover have "utf8 ''KB-Pending-Id'' = ''KB-Pending-Id''" by code_simp
  ultimately show ?thesis by (simp add: contains_iff_sublist)
qed

lemma contains_not_blank: "contains ''KB-Pending-Id'' m \<Longrightarrow> \<not> blank_bytes m"
proof
  assume a: "contains ''KB-Pending-Id'' m" "blank_bytes m"
  have "CHR ''K'' \<in> set m" using a(1) by (auto simp: contains_iff_sublist sublist_def)
  with a(2) show False by (auto simp: blank_bytes_def list_all_iff)
qed

lemma body_ends_line: "from_server c \<Longrightarrow> ends_with [newline] (body_of c)"
  by (auto simp: body_of_def from_server_def build_commit_message_def utf8_def utf8_char_def newline_def ends_with_iff_suffix suffix_def split: if_splits)

lemma scan_built:
  assumes "\<forall>c \<in> set cs. from_server c" and "\<forall>c \<in> set cs. \<forall>t. interpret t (body_of c) = Some (printed_trailers c)"
    and "\<forall>n. remaining n > 0" and "pid \<noteq> []" and "target \<noteq> []"
  shows "scan_bodies interpret remaining (utf8 pid) (utf8 target) n (map body_of cs @ [[]])
    = Some (\<exists>c \<in> set cs. pending_of c = Some pid \<and> ci_path c = target)"
  using assms(1,2)
proof (induction cs arbitrary: n)
  case (Cons c cs)
  let ?next = "scan_bodies interpret remaining (utf8 pid) (utf8 target) (n + 1) (map body_of cs @ [[]])"
  have c: "from_server c" "interpret (remaining n) (body_of c) = Some (printed_trailers c)" using Cons.prems by auto
  have r: "\<not> remaining n \<le> 0" using assms(3) by (simp add: not_le)
  have tne: "utf8 target \<noteq> []" using assms(5) utf8_eq[of target "[]"] by simp
  have IH: "?next = Some (\<exists>c \<in> set cs. pending_of c = Some pid \<and> ci_path c = target)" using Cons by auto
  show ?case
  proof (cases "blank_bytes (body_of c) \<or> \<not> contains ''KB-Pending-Id'' (body_of c)")
    case True
    then have "pending_of c = None" using body_mentions_claim[OF c(1)] contains_not_blank by blast
    then show ?thesis using True IH by simp
  next
    case False
    have p: "parse_trailers interpret (remaining n) (body_of c) = Some (map (\<lambda>(k, v). (k, utf8 v)) (trailers_of c))"
      using r c(2) body_ends_line[OF c(1)] parse_printed[OF c(1)] by (simp add: parse_trailers_def)
    have e: "map_option utf8 (pending_of c) = Some (utf8 pid) \<longleftrightarrow> pending_of c = Some pid" by (cases "pending_of c") simp_all
    show ?thesis using False r IH tne by (simp add: p dget_trailers e)
  qed
qed (simp add: blank_bytes_def)

text \<open>A message that git stores and reads back as it was built. Git strips white space at the ends of lines and of trailer values, and
  drops leading blank lines, and reads a line of dashes as the end of the message; a text that has none of these is kept.\<close>

definition kept_by_git :: "commit_info \<Rightarrow> bool" where
  "kept_by_git c \<longleftrightarrow> list_all (\<lambda>v. v \<noteq> [] \<and> strip v = v \<and> nul \<notin> set v) (ci_subject c # map snd (trailers_of c)) \<and>
     newline \<notin> set (ci_subject c) \<and> \<not> starts_with ''---'' (ci_subject c)"

lemma not_in_join: "a \<notin> set sep \<Longrightarrow> \<forall>p \<in> set ps. a \<notin> set p \<Longrightarrow> a \<notin> set (join_with sep ps)"
  by (induction sep ps rule: join_with.induct) auto

lemma kept_body_nul: "from_server c \<Longrightarrow> kept_by_git c \<Longrightarrow> nul \<notin> set (body_of c)"
proof -
  assume srv: "from_server c" and k: "kept_by_git c"
  have small: "(of_char nul :: nat) < 128" by (simp add: nul_def)
  have nl: "nul \<noteq> newline" by (simp add: nul_def newline_def)
  have "nul \<notin> set (trailer_line kv)" if "kv \<in> set (trailers_of c)" for kv
  proof -
    have "nul \<notin> set (snd kv)" using k that by (auto simp: kept_by_git_def list_all_iff)
    moreover have "nul \<notin> set (fst kv)"
    proof -
      have "list_all (\<lambda>k. nul \<notin> set k) [''KB-Source-Session'', ''KB-Agent-Identity'', ''KB-Confidence'', ''KB-Operator-Confirmed'', ''KB-Proposal-Type'',
        ''KB-Target-Tier'', ''KB-Target-Path'', ''KB-Pending-Id'']" by code_simp
      moreover have "fst kv \<in> set [''KB-Source-Session'', ''KB-Agent-Identity'', ''KB-Confidence'', ''KB-Operator-Confirmed'', ''KB-Proposal-Type'',
        ''KB-Target-Tier'', ''KB-Target-Path'', ''KB-Pending-Id'']" using that unfolding trailers_of_def by (auto split: option.splits if_splits)
      ultimately show ?thesis unfolding list_all_iff by blast
    qed
    ultimately show ?thesis by (simp add: trailer_line_def nul_def)
  qed
  then have "nul \<notin> set (join_with [newline] (map trailer_line (trailers_of c)))"
    using nl by (intro not_in_join) auto
  moreover have "nul \<notin> set (ci_subject c)" using k by (simp add: kept_by_git_def)
  ultimately have "nul \<notin> set (the (build_commit_message c))"
    using nl srv by (auto simp: from_server_def build_commit_message_def split: if_splits)
  then show ?thesis unfolding body_of_def by (rule utf8_free[OF small])
qed

text \<open>What \<^verbatim>\<open>git log -z --format=%B\<close> prints: each message, ended by a NUL.\<close>

definition log_stdout :: "commit_info list \<Rightarrow> string" where
  "log_stdout cs = concat (map (\<lambda>c. body_of c @ [nul]) cs)"

lemma split_log: "list_all (\<lambda>c. nul \<notin> set (body_of c)) cs \<Longrightarrow> split_on nul (log_stdout cs) = map body_of cs @ [[]]"
  by (induction cs) (auto simp: log_stdout_def split_append_sep)

text \<open>C13. What closes an interrupted decision is exactly its commit: over commits this server wrote, with texts that git keeps as they
  are, the search finds the claim if and only if one of them was built for this pending id and this path, whatever
  agents put in subjects, identities or file names.\<close>

theorem evidence_iff_committed:
  assumes "git_log since ref = Some (log_stdout cs)"
    and "\<forall>c \<in> set cs. from_server c \<and> kept_by_git c"
    and "\<forall>c \<in> set cs. \<forall>t. interpret t (body_of c) = Some (printed_trailers c)"
    and "\<forall>n. remaining n > 0" and "ref \<noteq> []" and "since \<noteq> []" and "pid \<noteq> []" and "target \<noteq> []"
  shows "find_claim_commit interpret remaining git_log ref since pid target
    = Some (\<exists>c \<in> set cs. pending_of c = Some pid \<and> ci_path c = target)"
proof -
  have "split_on nul (log_stdout cs) = map body_of cs @ [[]]"
    using assms(2) kept_body_nul by (intro split_log) (auto simp: list_all_iff)
  then show ?thesis
    using assms scan_built[of cs "interpret" remaining pid target 0]
    by (simp add: find_claim_commit_def log_bodies_def)
qed

definition forged :: commit_info where
  "forged = \<lparr>ci_subject = ''edit: a.md'', ci_session = ''s'', ci_agent = ''x KB-Pending-Id: p1'', ci_confidence = ''0.90'', ci_confirmed = False,
     ci_type = ''edit'', ci_tier = ''T4'', ci_path = ''a.md'', ci_pending = None\<rparr>"

lemma forged_body: "from_server forged" "kept_by_git forged"
  by code_simp+

theorem evidence_iff_committed_witness:
  "find_claim_commit (\<lambda>t m. Some (printed_trailers forged)) (\<lambda>n. 1) (\<lambda>a b. Some (log_stdout [forged])) ''br'' ''c0'' ''p1'' ''a.md''
    = Some (\<exists>c \<in> set [forged]. pending_of c = Some ''p1'' \<and> ci_path c = ''a.md'')"
  by (rule evidence_iff_committed) (use forged_body in \<open>simp_all\<close>)

subsection \<open>Guarded rewrites\<close>

lemma refresh_guarded: "snd (refresh_base guard a) \<noteq> [] \<Longrightarrow> defer_if_claims_at_risk guard (a_branch a) = Proceed"
  by (auto simp: refresh_base_def split: guard_verdict.splits)

lemma proceed_iff: "defer_if_claims_at_risk guard ref = Proceed \<longleftrightarrow> guard = None \<or> (ref \<noteq> [] \<and> (\<exists>g. guard = Some g \<and> g ref = Some []))"
  by (auto simp: defer_if_claims_at_risk_def split: option.splits)

definition destructive :: "git_cmd set" where
  "destructive = {Rebase, BranchDelete, WorktreeRemove}"

text \<open>C29. No rebase, no branch deletion and no worktree removal runs on a branch unless every claim on it has been
  settled: an unreadable guard or an unknown branch defers as well, on the recovery of a push too.\<close>

theorem rewrites_wait_for_claims:
  "(set (snd (refresh_base guard a)) \<inter> destructive = {} \<or> guard = None \<or> (a_branch a \<noteq> [] \<and> (\<exists>g. guard = Some g \<and> g (a_branch a) = Some []))) \<and>
   (set (snd (push_with_rebase_recovery guard a)) \<inter> destructive = {} \<or> guard = None \<or> (a_branch a \<noteq> [] \<and> (\<exists>g. guard = Some g \<and> g (a_branch a) = Some []))) \<and>
   (set (snd (delete_branch guard b)) \<inter> destructive = {} \<or> guard = None \<or> (b \<noteq> [] \<and> (\<exists>g. guard = Some g \<and> g b = Some []))) \<and>
   (set (snd (worktree_remove_guarded guard x b)) \<inter> destructive = {} \<or> guard = None \<or> (b \<noteq> [] \<and> (\<exists>g. guard = Some g \<and> g b = Some [])))"
proof -
  have r: "snd (refresh_base guard a) = [] \<or> defer_if_claims_at_risk guard (a_branch a) = Proceed" using refresh_guarded by blast
  have p: "set (snd (push_with_rebase_recovery guard a)) \<subseteq> insert Push (set (snd (refresh_base guard a)))"
    by (auto simp: push_with_rebase_recovery_def split: option.splits sum.splits prod.splits if_splits)
  then have "set (snd (push_with_rebase_recovery guard a)) \<inter> destructive \<subseteq> set (snd (refresh_base guard a)) \<inter> destructive"
    by (auto simp: destructive_def)
  then show ?thesis
    using r unfolding proceed_iff[symmetric]
    by (auto simp: delete_branch_def worktree_remove_guarded_def split: guard_verdict.splits)
qed

text \<open>A push is reported as done only when its last command was a push that succeeded.\<close>

lemma push_done: "fst (push_with_rebase_recovery guard a) = Inr () \<Longrightarrow>
   last (snd (push_with_rebase_recovery guard a)) = Push \<and> (a_push1 a = None \<or> a_push2 a = None)"
  by (auto simp: push_with_rebase_recovery_def split: option.splits sum.splits prod.splits if_splits)

text \<open>A broken remote never passes for a fresh one.\<close>

lemma ff_status_truthful:
  "ff_status (ff_merge_upstream q) \<in> {Changed, NoChange} \<longleftrightarrow> q_has_origin q \<and> q_fetch_ok q \<and> q_merge_ok q"
  "ff_changed (ff_merge_upstream q) \<longleftrightarrow> ff_status (ff_merge_upstream q) = Changed"
  by (simp_all add: ff_merge_upstream_def Let_def)

end
