(* ===== verification/WritingRules.thy ===== *)
theory WritingRules
  imports Auth WriteGate "HOL-Library.Multiset"
begin

text \<open>
  Writing rules on the lines a write adds (\<^verbatim>\<open>writing_rules.py\<close>), the gate of the write path that applies
  them, and the form in which findings reach the audit log (both in \<^verbatim>\<open>tools_write.py\<close>).

  Parameters: a record \<open>lint\<close> for the vendored linter (its normalisation, its allow marker, and for each raw rule
  the spans that \<^verbatim>\<open>finditer\<close> yields on a line), and \<open>decode\<close> for UTF-8 decoding.
\<close>

definition line_break :: "char \<Rightarrow> bool" where
  "line_break c \<longleftrightarrow> c \<in> {CHR 0x0A, CHR 0x0B, CHR 0x0C, CHR 0x0D, CHR 0x1C, CHR 0x1D, CHR 0x1E, CHR 0x85}"

text \<open>\<open>str.splitlines()\<close>: a carriage return and a line feed together are one break; no last empty line.\<close>

fun splitlines :: "string \<Rightarrow> string list" where
  "splitlines [] = []"
| "splitlines (c # s) =
     (if c = CHR 0x0D then [] # (case s of [] \<Rightarrow> [] | d # t \<Rightarrow> if d = newline then splitlines t else splitlines s)
      else if line_break c then [] # splitlines s
      else case splitlines s of [] \<Rightarrow> [[c]] | l # ls \<Rightarrow> (c # l) # ls)"

record linter =
  normalise :: "string \<Rightarrow> string"
  allow :: "string \<Rightarrow> bool"
  raw_rules :: "(string \<times> (string \<Rightarrow> (nat \<times> nat) list)) list"

datatype rules_mode = Enforce | Warn | Off

definition parse_mode :: "string \<Rightarrow> rules_mode option" where
  "parse_mode raw = (let v = lower (strip raw)
     in if v = ''enforce'' then Some Enforce else if v = ''warn'' then Some Warn else if v = ''off'' then Some Off else None)"

record rules_policy =
  mode :: rules_mode
  exclude_paths :: "string list"

definition excludes :: "rules_policy \<Rightarrow> string \<Rightarrow> bool" where
  "excludes p target \<longleftrightarrow> list_ex (\<lambda>g. fnmatch g target) (exclude_paths p)"

record finding =
  f_line :: nat
  f_rule :: string
  f_excerpt :: string

definition render :: "finding \<Rightarrow> string" where
  "render f = ''line '' @ show_nat (f_line f) @ '': '' @ f_rule f @ '': '' @ f_excerpt f"

definition EXCERPT_RADIUS :: nat where "EXCERPT_RADIUS = 30"

definition excerpt_of :: "string \<Rightarrow> nat \<times> nat \<Rightarrow> string" where
  "excerpt_of l sp = (let start = fst sp - EXCERPT_RADIUS in strip (take (snd sp + EXCERPT_RADIUS - start) (drop start l)))"

definition line_findings :: "linter \<Rightarrow> nat \<Rightarrow> string \<Rightarrow> finding list" where
  "line_findings lint n l =
     concat (map (\<lambda>(name, spans). map (\<lambda>sp. \<lparr>f_line = n, f_rule = name, f_excerpt = excerpt_of l sp\<rparr>) (spans l)) (raw_rules lint))"

fun scan_added :: "linter \<Rightarrow> string list \<Rightarrow> nat \<Rightarrow> string list \<Rightarrow> string list \<Rightarrow> finding list" where
  "scan_added lint before n seen [] = []"
| "scan_added lint before n seen (l # ls) =
     (if count_list (l # seen) l \<le> count_list before l \<or> allow lint l then [] else line_findings lint n l)
     @ scan_added lint before (n + 1) (l # seen) ls"

definition added_line_findings :: "linter \<Rightarrow> string \<Rightarrow> string \<Rightarrow> finding list" where
  "added_line_findings lint preimage postimage =
     scan_added lint (splitlines (normalise lint preimage)) 1 [] (splitlines (normalise lint postimage))"

subsection \<open>The gate of the write path\<close>

text \<open>\<open>current\<close>: the bytes of the target in the worktree, if it is a file.\<close>

definition read_preimage :: "(string \<Rightarrow> string option) \<Rightarrow> string option \<Rightarrow> string option" where
  "read_preimage decode current = (case current of None \<Rightarrow> Some '''' | Some bytes \<Rightarrow> decode bytes)"

definition check_failed :: string where
  "check_failed = ''writing-rule check failed: UnicodeDecodeError''"

datatype rule_rejection = RuleCheckFailed | RuleFindings "string list"

definition writing_rule_gate ::
  "linter \<Rightarrow> (string \<Rightarrow> string option) \<Rightarrow> rules_policy option \<Rightarrow> string \<Rightarrow> string option \<Rightarrow> string \<Rightarrow> rule_rejection + string list" where
  "writing_rule_gate lint decode policy target current postimage =
     (case policy of None \<Rightarrow> Inr []
      | Some p \<Rightarrow>
          (if mode p = Off \<or> excludes p target then Inr []
           else case read_preimage decode current of
               None \<Rightarrow> (if mode p = Enforce then Inl RuleCheckFailed else Inr [check_failed])
             | Some pre \<Rightarrow>
                 (let findings = map render (added_line_findings lint pre postimage)
                  in if findings = [] then Inr []
                     else if mode p = Enforce then Inl (RuleFindings findings) else Inr findings)))"

subsection \<open>Findings in the audit log\<close>

text \<open>The expression \<^verbatim>\<open>(?:[^:]+: )?line (\d+): ([^:\s]+):\<close> at the start of a finding, with its two groups.\<close>

definition parse_mark_body :: "string \<Rightarrow> (string \<times> string) option" where
  "parse_mark_body s =
     (if \<not> starts_with ''line '' s then None
      else let rest = drop 5 s; ds = takeWhile is_digit rest; after = drop (length ds) rest
        in if ds = [] \<or> \<not> starts_with '': '' after then None
           else let r = drop 2 after; name = takeWhile (\<lambda>c. c \<noteq> CHR '':'' \<and> \<not> is_space c) r
             in if name = [] \<or> \<not> starts_with '':'' (drop (length name) r) then None else Some (ds, name))"

definition parse_mark :: "string \<Rightarrow> (string \<times> string) option" where
  "parse_mark s =
     (let pre = takeWhile (\<lambda>c. c \<noteq> CHR '':'') s; rest = drop (length pre) s
      in case (if pre \<noteq> [] \<and> starts_with '': '' rest then parse_mark_body (drop 2 rest) else None) of
           Some m \<Rightarrow> Some m | None \<Rightarrow> parse_mark_body s)"

definition mark_of :: "string \<Rightarrow> string" where
  "mark_of f = (case parse_mark f of None \<Rightarrow> ''check-failed'' | Some (n, name) \<Rightarrow> name @ ''@'' @ n)"

definition rule_audit :: "string list \<Rightarrow> string \<Rightarrow> string option" where
  "rule_audit findings outcome = (if findings = [] then None else Some (outcome @ '':'' @ join_with '','' (map mark_of findings)))"

subsection \<open>Exactly the added lines\<close>

text \<open>A line that the rules object to.\<close>

definition bad_line :: "linter \<Rightarrow> string \<Rightarrow> bool" where
  "bad_line lint l \<longleftrightarrow> \<not> allow lint l \<and> list_ex (\<lambda>(name, spans). spans l \<noteq> []) (raw_rules lint)"

lemma line_findings_Nil: "line_findings lint n l = [] \<longleftrightarrow> \<not> list_ex (\<lambda>(name, spans). spans l \<noteq> []) (raw_rules lint)"
  by (auto simp: line_findings_def list_ex_iff)

lemma scan_added_Nil:
  "scan_added lint before n seen ls = [] \<longleftrightarrow>
     (\<forall>l \<in> set ls. bad_line lint l \<longrightarrow> count_list seen l + count_list ls l \<le> count_list before l)"
proof (induction ls arbitrary: n seen)
  case (Cons l ls)
  have "(count_list (l # seen) l \<le> count_list before l \<or> allow lint l \<or> line_findings lint n l = []) \<longleftrightarrow>
      (bad_line lint l \<longrightarrow> count_list seen l + 1 \<le> count_list before l)"
    by (auto simp: bad_line_def line_findings_Nil)
  then have "scan_added lint before n seen (l # ls) = [] \<longleftrightarrow> (bad_line lint l \<longrightarrow> count_list seen l + 1 \<le> count_list before l) \<and>
      (\<forall>x \<in> set ls. bad_line lint x \<longrightarrow> count_list (l # seen) x + count_list ls x \<le> count_list before x)"
    by (auto simp: Cons)
  also have "\<dots> \<longleftrightarrow> (\<forall>x \<in> set (l # ls). bad_line lint x \<longrightarrow> count_list seen x + count_list (l # ls) x \<le> count_list before x)"
    by (cases "l \<in> set ls") (auto simp: count_notin)
  finally show ?case .
qed simp

lemma count_mset_list: "count (mset xs) x = count_list xs x"
  by (simp add: count_list_eq_length_filter count_mset)

text \<open>The findings are empty exactly when the postimage has every objectionable line at most as often as the
  preimage: moving or deleting text never fails, and one more copy of an offending line always does.\<close>

theorem clean_iff_no_bad_line_added:
  "added_line_findings lint pre post = [] \<longleftrightarrow>
     filter_mset (bad_line lint) (mset (splitlines (normalise lint post)))
       \<subseteq># filter_mset (bad_line lint) (mset (splitlines (normalise lint pre)))"
proof -
  let ?a = "splitlines (normalise lint pre)" and ?b = "splitlines (normalise lint post)"
  have "added_line_findings lint pre post = [] \<longleftrightarrow> (\<forall>l \<in> set ?b. bad_line lint l \<longrightarrow> count_list ?b l \<le> count_list ?a l)"
    by (simp add: added_line_findings_def scan_added_Nil)
  also have "\<dots> \<longleftrightarrow> (\<forall>l. bad_line lint l \<longrightarrow> count_list ?b l \<le> count_list ?a l)" by (metis count_notin le0)
  also have "\<dots> \<longleftrightarrow> filter_mset (bad_line lint) (mset ?b) \<subseteq># filter_mset (bad_line lint) (mset ?a)"
    by (simp add: subseteq_mset_def count_mset_list)
  finally show ?thesis .
qed

text \<open>The gate passes a write in enforce mode only if it adds nothing objectionable to a target it could read.\<close>

lemma enforce_gate_iff:
  assumes "mode p = Enforce" and "\<not> excludes p target"
  shows "writing_rule_gate lint decode (Some p) target current post = Inr ws \<longleftrightarrow>
     ws = [] \<and> (\<exists>pre. read_preimage decode current = Some pre \<and> added_line_findings lint pre post = [])"
  using assms by (auto simp: writing_rule_gate_def Let_def split: option.splits)

text \<open>What the audit log keeps of a finding is its rule and line, whatever the excerpt holds.\<close>

lemma takeWhile_stop: "list_all P xs \<Longrightarrow> \<not> P c \<Longrightarrow> takeWhile P (xs @ c # ys) = xs"
  by (induction xs) auto

lemma list_all_digits_colon: "list_all is_digit ds \<Longrightarrow> list_all (\<lambda>c. c \<noteq> CHR '':'') ds"
  by (auto simp: list_all_iff is_digit_def)

lemma mark_body_plain:
  assumes "list_all (\<lambda>c. c \<noteq> CHR '':'' \<and> \<not> is_space c) name" and "name \<noteq> []"
  shows "parse_mark_body (''line '' @ show_nat n @ '': '' @ name @ '': '' @ e) = Some (show_nat n, name)"
proof -
  have d: "list_all is_digit (show_nat n)" "show_nat n \<noteq> []" using show_nat_digits by (auto simp: show_nat_def)
  have "takeWhile is_digit (show_nat n @ CHR '':'' # CHR '' '' # name @ CHR '':'' # CHR '' '' # e) = show_nat n"
    using d(1) by (intro takeWhile_stop) (simp_all add: is_digit_def)
  moreover have "takeWhile (\<lambda>c. c \<noteq> CHR '':'' \<and> \<not> is_space c) (name @ CHR '':'' # CHR '' '' # e) = name"
    using assms(1) by (intro takeWhile_stop) simp_all
  ultimately show ?thesis
    using d(2) assms(2) by (simp add: parse_mark_body_def Let_def starts_with_def)
qed

lemma no_line_prefix:
  assumes "list_all (\<lambda>c. c \<noteq> CHR '':'' \<and> \<not> is_space c) name"
  shows "\<not> starts_with ''line '' (name @ CHR '':'' # e)"
proof
  assume "starts_with ''line '' (name @ CHR '':'' # e)"
  then obtain t where t: "name @ CHR '':'' # e = ''line '' @ t" by (auto simp: starts_with_iff_prefix prefix_def)
  have "takeWhile (\<lambda>c. c \<noteq> CHR '':'' \<and> \<not> is_space c) (name @ CHR '':'' # e) = name"
    using assms by (intro takeWhile_stop) simp_all
  moreover have "takeWhile (\<lambda>c. c \<noteq> CHR '':'' \<and> \<not> is_space c) (''line'' @ CHR '' '' # t) = ''line''"
    by (intro takeWhile_stop) (simp_all add: is_space_def)
  ultimately have "name = ''line''" using t by simp
  with t show False by simp
qed

lemma mark_render:
  assumes "list_all (\<lambda>c. c \<noteq> CHR '':'' \<and> \<not> is_space c) (f_rule f)" and "f_rule f \<noteq> []"
  shows "mark_of (render f) = f_rule f @ ''@'' @ show_nat (f_line f)"
proof -
  let ?s = "render f"
  have colon: "list_all (\<lambda>c. c \<noteq> CHR '':'') (''line '' @ show_nat (f_line f))"
    using list_all_digits_colon[OF show_nat_digits] by simp
  have s: "?s = (''line '' @ show_nat (f_line f)) @ CHR '':'' # CHR '' '' # f_rule f @ CHR '':'' # CHR '' '' # f_excerpt f"
    by (simp add: render_def)
  have pre: "takeWhile (\<lambda>c. c \<noteq> CHR '':'') ?s = ''line '' @ show_nat (f_line f)"
    unfolding s by (rule takeWhile_stop[OF colon]) simp
  have "parse_mark_body (f_rule f @ CHR '':'' # CHR '' '' # f_excerpt f) = None"
    using no_line_prefix[OF assms(1)] by (simp add: parse_mark_body_def)
  then have "parse_mark ?s = parse_mark_body ?s"
    unfolding parse_mark_def pre Let_def by (subst s) (simp add: starts_with_def split: option.splits)
  also have "\<dots> = Some (show_nat (f_line f), f_rule f)" using mark_body_plain[OF assms] by (simp add: render_def)
  finally show ?thesis by (simp add: mark_of_def)
qed

end
