(* ===== verification/WriteChecks.thy ===== *)
theory WriteChecks
  imports WritingRules Capture GovernedLane Pending
begin

text \<open>
  The checks of the write tools on what a client sends, and what the server renders from it
  (\<^verbatim>\<open>tools_write.py\<close>, first part): identities, evidence, base markers, the two stages of a contest, the
  slug and path of a memory, and its text.

  Parameters as in the theories before: \<open>scan\<close>, \<open>encode\<close>, \<open>dump\<close>; \<open>digest\<close> for the SHA-256 of a text in
  hexadecimal; \<open>py_str\<close> for \<open>str()\<close> of a value that is no string.
\<close>

subsection \<open>Identities and evidence\<close>

datatype encoding_error = MustBeString string | NotEncodable string

fun reject_unencodable_identity :: "(string \<Rightarrow> string option) \<Rightarrow> (string \<times> pyval) list \<Rightarrow> encoding_error option" where
  "reject_unencodable_identity encode [] = None"
| "reject_unencodable_identity encode ((name, v) # fs) =
     (if v = PyNone then reject_unencodable_identity encode fs
      else case str_val v of None \<Rightarrow> Some (MustBeString name)
        | Some s \<Rightarrow> (if encode s = None then Some (NotEncodable name) else reject_unencodable_identity encode fs))"

fun reject_unencodable_text :: "(string \<Rightarrow> string option) \<Rightarrow> (string \<times> pyval) list \<Rightarrow> encoding_error option" where
  "reject_unencodable_text encode [] = None"
| "reject_unencodable_text encode ((name, v) # fs) =
     (case str_val v of Some s \<Rightarrow> (if encode s = None then Some (NotEncodable name) else reject_unencodable_text encode fs)
      | None \<Rightarrow> reject_unencodable_text encode fs)"

definition safe_advisory_text :: "(string \<Rightarrow> string option) \<Rightarrow> string \<Rightarrow> string" where
  "safe_advisory_text encode s = (if encode s = None then ''[reason omitted: not encodable as UTF-8]'' else s)"

datatype evidence_error = EvidenceNotList pyval | EvidenceTooMany nat | EvidenceItemType | EvidenceItemEncoding | EvidenceItemLong nat

fun evidence_items :: "(string \<Rightarrow> string option) \<Rightarrow> pyval list \<Rightarrow> evidence_error option" where
  "evidence_items encode [] = None"
| "evidence_items encode (v # vs) = (case str_val v of
      None \<Rightarrow> Some EvidenceItemType
    | Some s \<Rightarrow> (if encode s = None then Some EvidenceItemEncoding
        else if length s > 500 then Some (EvidenceItemLong (length s)) else evidence_items encode vs))"

definition validate_evidence :: "(string \<Rightarrow> string option) \<Rightarrow> pyval \<Rightarrow> evidence_error option" where
  "validate_evidence encode v = (case v of
      PyList vs \<Rightarrow> (if length vs > 10 then Some (EvidenceTooMany (length vs)) else evidence_items encode vs)
    | _ \<Rightarrow> Some (EvidenceNotList v))"

definition redacted :: "string \<Rightarrow> secret_match \<Rightarrow> string" where
  "redacted what m = ''['' @ what @ '' redacted: secret pattern '' @ [CHR 0x27] @ pattern_name m @ [CHR 0x27] @ '' detected]''"

definition redact_item :: "(string \<Rightarrow> secret_match option) \<Rightarrow> string \<Rightarrow> string \<Rightarrow> string" where
  "redact_item scan what s = (case scan s of None \<Rightarrow> s | Some m \<Rightarrow> redacted what m)"

definition redact_evidence :: "(string \<Rightarrow> secret_match option) \<Rightarrow> string list \<Rightarrow> string list" where
  "redact_evidence scan items = map (redact_item scan ''evidence'') items"

text \<open>Comparison of floats: every comparison with a NaN is false.\<close>

fun float_less :: "pyfloat \<Rightarrow> pyfloat \<Rightarrow> bool" where
  "float_less FNaN b = False"
| "float_less a FNaN = False"
| "float_less (FNum a) (FNum b) = (a < b)"
| "float_less (FNum a) (FInf positive) = positive"
| "float_less (FInf positive) (FNum b) = (\<not> positive)"
| "float_less (FInf p) (FInf q) = (\<not> p \<and> q)"

definition float_le :: "pyfloat \<Rightarrow> pyfloat \<Rightarrow> bool" where
  "float_le a b \<longleftrightarrow> a \<noteq> FNaN \<and> b \<noteq> FNaN \<and> \<not> float_less b a"

subsection \<open>Base markers\<close>

definition lower_hex :: "nat \<Rightarrow> nat \<Rightarrow> string \<Rightarrow> bool" where
  "lower_hex a b s \<longleftrightarrow> a \<le> length s \<and> length s \<le> b \<and> list_all (\<lambda>c. c \<in> set ''0123456789abcdef'') s"

datatype base_error = BadBaseCommit | BadBlobSha | BadFileHash

definition base_commit_ok :: "pyval \<Rightarrow> bool" where
  "base_commit_ok v \<longleftrightarrow> (case v of PyNone \<Rightarrow> True
     | PyStr s \<Rightarrow> s = [] \<or> s = ''HEAD'' \<or> s = ''head'' \<or> lower_hex 7 64 s | _ \<Rightarrow> False)"

definition marker_ok :: "nat \<Rightarrow> pyval \<Rightarrow> bool" where
  "marker_ok n v \<longleftrightarrow> (case v of PyNone \<Rightarrow> True | PyStr s \<Rightarrow> s = [] \<or> lower_hex n n s | _ \<Rightarrow> False)"

definition validate_base_markers :: "pyval \<Rightarrow> pyval \<Rightarrow> pyval \<Rightarrow> base_error option" where
  "validate_base_markers blob file_hash base_commit =
     (if \<not> base_commit_ok base_commit then Some BadBaseCommit
      else if \<not> marker_ok 40 blob then Some BadBlobSha
      else if \<not> marker_ok 64 file_hash then Some BadFileHash else None)"

subsection \<open>Contests\<close>

datatype contest_reason = CNotObject | CUnexpectedKey | CMissing | CNotList | CCount | CItemType | CItemSize | CItemEncoding
  | CDuplicate | CReasonType | CReasonLong | CReasonBlank | CReasonEncoding

datatype contest_check = NoContest | CleanContest "string list" "string option" | ContestSecret string | ContestInvalid contest_reason

fun contest_items :: "(string \<Rightarrow> string option) \<Rightarrow> pyval list \<Rightarrow> contest_reason option" where
  "contest_items encode [] = None"
| "contest_items encode (v # vs) = (case str_val v of
      None \<Rightarrow> Some CItemType
    | Some s \<Rightarrow> (if s = [] \<or> length s > 200 \<or> strip s = [] then Some CItemSize
        else if encode s = None then Some CItemEncoding else contest_items encode vs))"

definition contest_reason_error :: "(string \<Rightarrow> string option) \<Rightarrow> pyval \<Rightarrow> contest_reason option" where
  "contest_reason_error encode r = (case r of
      PyNone \<Rightarrow> None
    | PyStr s \<Rightarrow> (if length s > 500 then Some CReasonLong else if strip s = [] then Some CReasonBlank
        else if encode s = None then Some CReasonEncoding else None)
    | _ \<Rightarrow> Some CReasonType)"

definition contest_secret :: "(string \<Rightarrow> secret_match option) \<Rightarrow> frontmatter \<Rightarrow> string option" where
  "contest_secret scan m = secret_in scan
     ((case fm_get m ''contradicts'' of PyList vs \<Rightarrow> strs_of vs | _ \<Rightarrow> []) @ opt_list (str_val (fm_get m ''reason'')))"

definition validate_contest :: "(string \<Rightarrow> secret_match option) \<Rightarrow> (string \<Rightarrow> string option) \<Rightarrow> pyval \<Rightarrow> contest_check" where
  "validate_contest scan encode contest = (case contest of
      PyNone \<Rightarrow> NoContest
    | PyDict m \<Rightarrow> (case contest_secret scan m of Some n \<Rightarrow> ContestSecret n
        | None \<Rightarrow>
           (if list_ex (\<lambda>(k, x). k \<notin> {PyStr ''contradicts'', PyStr ''reason''}) m then ContestInvalid CUnexpectedKey
            else if \<not> has_key m ''contradicts'' then ContestInvalid CMissing
            else case fm_get m ''contradicts'' of
                PyList vs \<Rightarrow>
                  (if vs = [] \<or> length vs > 10 then ContestInvalid CCount
                   else case contest_items encode vs of Some e \<Rightarrow> ContestInvalid e
                     | None \<Rightarrow>
                        (if \<not> distinct (strs_of vs) then ContestInvalid CDuplicate
                         else case contest_reason_error encode (fm_get m ''reason'') of Some e \<Rightarrow> ContestInvalid e
                           | None \<Rightarrow> CleanContest (strs_of vs) (str_val (fm_get m ''reason''))))
              | _ \<Rightarrow> ContestInvalid CNotList))
    | _ \<Rightarrow> ContestInvalid CNotObject)"

datatype contest_index_error = ContestUnavailable | ContestUnknown | ContestSelf

fun contested_ids :: "(string, string) dict \<Rightarrow> string \<Rightarrow> string list \<Rightarrow> contest_index_error option" where
  "contested_ids m target [] = None"
| "contested_ids m target (i # is) = (case dget m i of None \<Rightarrow> Some ContestUnknown
     | Some p \<Rightarrow> (if p = target then Some ContestSelf else contested_ids m target is))"

definition check_contest_index :: "string list \<Rightarrow> string \<Rightarrow> index_view option \<Rightarrow> contest_index_error option" where
  "check_contest_index ids target idx = (case idx of None \<Rightarrow> Some ContestUnavailable
     | Some v \<Rightarrow> (case id_to_path v of None \<Rightarrow> Some ContestUnavailable | Some m \<Rightarrow> contested_ids m target ids))"

subsection \<open>Memories\<close>

definition slug_char :: "char \<Rightarrow> bool" where
  "slug_char c \<longleftrightarrow> is_lower c \<or> ascii_digit c \<or> c = CHR ''-''"

text \<open>\<^verbatim>\<open>re.sub(r"[^a-z0-9-]+", "-", s)\<close>\<close>

fun hyphenate :: "bool \<Rightarrow> string \<Rightarrow> string" where
  "hyphenate run [] = []"
| "hyphenate run (c # s) = (if slug_char c then c # hyphenate False s
     else if run then hyphenate True s else CHR ''-'' # hyphenate True s)"

definition strip_hyphens :: "string \<Rightarrow> string" where
  "strip_hyphens s = rev (dropWhile (\<lambda>c. c = CHR ''-'') (rev (dropWhile (\<lambda>c. c = CHR ''-'') s)))"

definition slugify :: "string \<Rightarrow> string" where
  "slugify text = (let s = take 50 (strip_hyphens (hyphenate False (lower text))) in if s = [] then ''memory'' else s)"

definition memory_uniquifier :: "(string \<Rightarrow> string) \<Rightarrow> string \<Rightarrow> string \<Rightarrow> string" where
  "memory_uniquifier digest session text = take 6 (digest (session @ [nul] @ text))"

definition memory_slug :: "(string \<Rightarrow> secret_match option) \<Rightarrow> string \<Rightarrow> string" where
  "memory_slug scan text = (if scan text = None then slugify text else ''flagged'')"

definition memory_target :: "(string \<Rightarrow> secret_match option) \<Rightarrow> (string \<Rightarrow> string) \<Rightarrow> string option \<Rightarrow> string \<Rightarrow> string \<Rightarrow> string \<Rightarrow> string" where
  "memory_target scan digest inbox_env today session text =
     memory_inbox_prefix inbox_env @ today @ ''-'' @ memory_slug scan text @ ''-'' @ memory_uniquifier digest session text @ ''.md''"

definition memory_frontmatter ::
  "(pyval \<Rightarrow> string) \<Rightarrow> string \<Rightarrow> string \<Rightarrow> pyval list \<Rightarrow> string \<Rightarrow> string list \<Rightarrow> envelope option \<Rightarrow> frontmatter" where
  "memory_frontmatter py_str actor created_at tags agent evidence capture =
     [(PyStr ''type'', PyStr ''memory''), (PyStr ''status'', PyStr ''proposed''), (PyStr ''created_by'', PyStr agent),
      (PyStr ''created_at'', PyStr created_at),
      (PyStr ''generated'', PyDict [(PyStr ''by'', PyStr actor), (PyStr ''at'', PyStr created_at)])]
     @ (if tags = [] then [] else [(PyStr ''tags'', PyList (map (PyStr \<circ> text_of py_str) tags))])
     @ (if evidence = [] then [] else [(PyStr ''evidence'', PyList (map PyStr evidence))])
     @ (case capture of None \<Rightarrow> [] | Some e \<Rightarrow> [(PyStr ''capture'', env_value e)])"

definition render_memory ::
  "(frontmatter \<Rightarrow> string) \<Rightarrow> (pyval \<Rightarrow> string) \<Rightarrow> string \<Rightarrow> string \<Rightarrow> pyval list \<Rightarrow> string \<Rightarrow> string list \<Rightarrow> envelope option \<Rightarrow> string \<Rightarrow> string" where
  "render_memory dump py_str actor created_at tags agent evidence capture text =
     ''---'' @ [newline] @ dump (memory_frontmatter py_str actor created_at tags agent evidence capture) @ ''---'' @ [newline]
       @ [newline] @ text @ [newline]"

subsection \<open>What the checks admit\<close>

definition item_ok :: "(string \<Rightarrow> string option) \<Rightarrow> string \<Rightarrow> bool" where
  "item_ok encode s \<longleftrightarrow> s \<noteq> [] \<and> length s \<le> 200 \<and> strip s \<noteq> [] \<and> encode s \<noteq> None"

lemma contest_items_None:
  "contest_items encode vs = None \<longleftrightarrow> (\<exists>ids. vs = map PyStr ids \<and> list_all (item_ok encode) ids)"
proof (induction vs)
  case (Cons v vs)
  have "contest_items encode (v # vs) = None \<longleftrightarrow> (\<exists>s. v = PyStr s \<and> item_ok encode s \<and> contest_items encode vs = None)"
    by (cases v) (auto simp: item_ok_def)
  also have "\<dots> \<longleftrightarrow> (\<exists>s ids. v = PyStr s \<and> item_ok encode s \<and> vs = map PyStr ids \<and> list_all (item_ok encode) ids)"
    unfolding Cons by blast
  also have "\<dots> \<longleftrightarrow> (\<exists>ids. v # vs = map PyStr ids \<and> list_all (item_ok encode) ids)"
    by (auto simp: Cons_eq_map_conv intro: exI[of _ "x # xs" for x xs])
  finally show ?case .
qed simp

lemma secret_in_Nil: "secret_in scan xs = None \<longleftrightarrow> list_all (\<lambda>x. scan x = None) xs"
  by (induction xs) (auto split: option.split)

text \<open>A contest is accepted exactly when it names one to ten distinct, well-formed ids and nothing else but an
  optional reason, and no part of it looks like a credential; the accepted contest is what was sent.\<close>

theorem clean_contest_iff:
  "validate_contest scan encode contest = CleanContest ids why \<longleftrightarrow>
     (\<exists>m. contest = PyDict m \<and> fst ` set m \<subseteq> {PyStr ''contradicts'', PyStr ''reason''} \<and> has_key m ''contradicts'' \<and>
        fm_get m ''contradicts'' = PyList (map PyStr ids) \<and> ids \<noteq> [] \<and> length ids \<le> 10 \<and> distinct ids \<and>
        list_all (\<lambda>i. item_ok encode i \<and> scan i = None) ids \<and>
        (why = None \<and> fm_get m ''reason'' = PyNone \<or>
         (\<exists>s. why = Some s \<and> fm_get m ''reason'' = PyStr s \<and> length s \<le> 500 \<and> strip s \<noteq> [] \<and> encode s \<noteq> None \<and> scan s = None)))"
    (is "?L \<longleftrightarrow> ?R")
proof
  assume ?L
  then obtain m where m: "contest = PyDict m" "contest_secret scan m = None" "has_key m ''contradicts''"
      "\<not> list_ex (\<lambda>(k, x). k \<notin> {PyStr ''contradicts'', PyStr ''reason''}) m"
    by (auto simp: validate_contest_def split: pyval.splits option.splits if_splits)
  then obtain vs where vs: "fm_get m ''contradicts'' = PyList vs" "vs \<noteq> []" "length vs \<le> 10" "contest_items encode vs = None"
      "distinct (strs_of vs)" "contest_reason_error encode (fm_get m ''reason'') = None" "ids = strs_of vs"
      "why = str_val (fm_get m ''reason'')"
    using \<open>?L\<close> by (auto simp: validate_contest_def split: pyval.splits option.splits if_splits)
  from vs(4) obtain js where i: "vs = map PyStr js" "list_all (item_ok encode) js" unfolding contest_items_None by blast
  have ids: "js = ids" using vs(7) i(1) by simp
  have keys: "fst ` set m \<subseteq> {PyStr ''contradicts'', PyStr ''reason''}" using m(4) by (auto simp: list_ex_iff)
  have sec: "list_all (\<lambda>x. scan x = None) (ids @ opt_list why)"
    using m(2) unfolding contest_secret_def secret_in_Nil vs(1) i(1) ids vs(8) by simp
  show ?R
    using m(1,3) keys vs(1,2,3,5,6,8) i ids sec
    by (intro exI[of _ m]) (auto simp: contest_reason_error_def list_all_iff split: pyval.splits if_splits)
next
  assume ?R
  then obtain m where m: "contest = PyDict m" "fst ` set m \<subseteq> {PyStr ''contradicts'', PyStr ''reason''}" "has_key m ''contradicts''"
      "fm_get m ''contradicts'' = PyList (map PyStr ids)" "ids \<noteq> []" "length ids \<le> 10" "distinct ids"
      "list_all (\<lambda>i. item_ok encode i \<and> scan i = None) ids"
      "why = None \<and> fm_get m ''reason'' = PyNone \<or>
         (\<exists>s. why = Some s \<and> fm_get m ''reason'' = PyStr s \<and> length s \<le> 500 \<and> strip s \<noteq> [] \<and> encode s \<noteq> None \<and> scan s = None)" by blast
  have e: "\<not> list_ex (\<lambda>(k, x). k \<notin> {PyStr ''contradicts'', PyStr ''reason''}) m" using m(2) by (auto simp: list_ex_iff)
  have i: "contest_items encode (map PyStr ids) = None" unfolding contest_items_None using m(8) by (auto simp: list_all_iff)
  have sec: "contest_secret scan m = None" unfolding contest_secret_def secret_in_Nil m(4) using m(8,9) by (auto simp: list_all_iff)
  have r: "contest_reason_error encode (fm_get m ''reason'') = None" "str_val (fm_get m ''reason'') = why"
    using m(9) by (auto simp: contest_reason_error_def)
  show ?L unfolding validate_contest_def m(1) using m(5-7) e by (simp only: pyval.case sec option.case m(3,4) i r) simp
qed

lemma contested_ids_None: "contested_ids m target ids = None \<longleftrightarrow> list_all (\<lambda>i. \<exists>p. dget m i = Some p \<and> p \<noteq> target) ids"
  by (induction ids) (auto split: option.split)

subsection \<open>What memories can be\<close>

definition name_char :: "char \<Rightarrow> bool" where
  "name_char c \<longleftrightarrow> slug_char c \<or> c = CHR ''.''"

lemma name_char_plain: "name_char c \<Longrightarrow> c \<noteq> slash \<and> c \<noteq> CHR 0x5C \<and> c \<noteq> CHR '':'' \<and> \<not> is_control c"
  by (auto simp: name_char_def slug_char_def is_lower_def ascii_digit_def slash_def is_control_def Let_def)

lemma hyphenate_slug: "list_all slug_char (hyphenate run s)"
  by (induction run s rule: hyphenate.induct) (auto simp: slug_char_def)

lemma slugify_chars: "list_all slug_char (slugify text)"
proof -
  have "set (take 50 (strip_hyphens (hyphenate False (lower text)))) \<subseteq> set (hyphenate False (lower text))"
    by (auto simp: strip_hyphens_def dest!: in_set_takeD set_dropWhileD)
  moreover have "list_all slug_char ''memory''" by code_simp
  ultimately show ?thesis using hyphenate_slug[of False "lower text"] by (auto simp: slugify_def Let_def list_all_iff)
qed

lemma digit_slug: "slug_char (digit n)"
proof -
  have "n mod 10 < 10" by simp
  then have "48 + n mod 10 < 256" "ascii_digit (digit n)" unfolding digit_def ascii_digit_def Let_def by (simp_all add: take_bit_eq_mod)
  then show ?thesis by (simp add: slug_char_def)
qed

lemma isoformat_slug: "list_all slug_char (isoformat d)"
  by (simp add: isoformat_def pad4_def pad2_def digit_slug) (simp add: slug_char_def)

lemma slug_name: "list_all slug_char s \<Longrightarrow> list_all name_char s"
  by (auto simp: list_all_iff name_char_def)

lemma md_not_excluded: "ends_with ''.md'' s \<Longrightarrow> s \<notin> set STRUCTURALLY_EXCLUDED \<union> {[], ''.'', ''..''}"
proof -
  have "list_all (\<lambda>s. \<not> ends_with ''.md'' s) (STRUCTURALLY_EXCLUDED @ [[], ''.'', ''..''])" by code_simp
  then show "ends_with ''.md'' s \<Longrightarrow> s \<notin> set STRUCTURALLY_EXCLUDED \<union> {[], ''.'', ''..''}" by (auto simp: list_all_iff)
qed

lemma inbox_file_canonical:
  assumes "list_all name_char name" and "ends_with ''.md'' name"
  shows "normalize_target_path (''memory/inbox/'' @ name) = Some (''memory/inbox/'' @ name)"
proof -
  let ?t = "''memory/inbox/'' @ name"
  have free: "slash \<notin> set name" "CHR 0x5C \<notin> set name" "\<not> list_ex is_control name"
    using assms(1) name_char_plain by (auto simp: list_all_iff list_ex_iff)
  have n: "norm_slashes ?t = ?t" by (rule norm_slashes_id) (use free(2) in simp)
  have sp: "split_on slash ?t = [''memory'', ''inbox'', name]"
  proof -
    have t: "?t = ''memory'' @ slash # ''inbox'' @ slash # name" by (simp add: slash_def)
    have "split_on slash ''memory'' = [''memory'']" "split_on slash ''inbox'' = [''inbox'']" by code_simp+
    moreover have "split_on slash name = [name]" using free(1) by (rule split_free)
    ultimately show ?thesis unfolding t split_slash_append by simp
  qed
  have ctl: "\<not> list_ex is_control ?t" using free(3) by (simp add: is_control_def)
  have "strip ?t \<noteq> []" unfolding strip_Nil_iff by (simp add: is_space_def)
  moreover have "''memory'' \<notin> set STRUCTURALLY_EXCLUDED" "''inbox'' \<notin> set STRUCTURALLY_EXCLUDED" by code_simp+
  moreover have "name \<noteq> []" "name \<noteq> ''.''" "name \<noteq> ''..''" "name \<notin> set STRUCTURALLY_EXCLUDED"
    using md_not_excluded[OF assms(2)] by auto
  ultimately show ?thesis
    using ctl unfolding normalize_target_path_def n Let_def sp by (simp add: starts_with_def)
qed

text \<open>With the shipped prefixes a memory always lands on a writable canonical path of the inbox, so that, whatever its
  text and tags say, nothing there is in force on any day.\<close>

theorem memory_lands_in_inbox:
  assumes "list_all slug_char (digest (session @ [nul] @ text))"
  shows "let target = memory_target scan digest None (isoformat d) session text
    in normalize_target_path target = Some target \<and> is_writable_path '''' target \<and> is_inbox_path None target
       \<and> \<not> is_base_content_in_force load None content target day"
proof -
  let ?name = "isoformat d @ ''-'' @ memory_slug scan text @ ''-'' @ memory_uniquifier digest session text @ ''.md''"
  let ?t = "memory_target scan digest None (isoformat d) session text"
  have "list_all slug_char ''flagged''" by code_simp
  then have "list_all slug_char (memory_slug scan text)" using slugify_chars by (simp add: memory_slug_def)
  moreover have "list_all slug_char (memory_uniquifier digest session text)"
    using assms by (auto simp: memory_uniquifier_def list_all_iff dest: in_set_takeD)
  ultimately have nc: "list_all name_char ?name"
    using slug_name isoformat_slug by (auto simp: name_char_def slug_char_def is_lower_def)
  have md: "ends_with ''.md'' ?name" by (simp add: ends_with_iff_suffix suffix_def)
  have pre: "memory_inbox_prefix None = ''memory/inbox/''" by code_simp
  have t: "?t = ''memory/inbox/'' @ ?name" by (simp add: memory_target_def pre)
  have norm: "normalize_target_path ?t = Some ?t" unfolding t by (rule inbox_file_canonical[OF nc md])
  have "''memory/'' \<in> set (indexed_prefixes '''')" by code_simp
  moreover have "starts_with ''memory/'' ?t" unfolding t by (simp add: starts_with_def)
  moreover have "ends_with ''.md'' ?t" unfolding t by (simp add: ends_with_iff_suffix suffix_def)
  ultimately have "is_writable_path '''' ?t" using norm by (auto simp: is_writable_path_def list_ex_iff)
  moreover have inbox: "is_inbox_path None ?t"
    unfolding is_inbox_path_def pre normalize_eq[OF norm, symmetric] by (simp add: t starts_with_def)
  moreover have "\<not> is_base_content_in_force load None content ?t day"
    by (simp add: is_base_content_in_force_def Let_def is_in_force_def inbox)
  ultimately show ?thesis using norm by simp
qed

text \<open>What the server renders claims no status of its own choosing: only \<open>proposed\<close>, whatever the text, the tags and the
  agent's name contain.\<close>

lemma memory_claims_no_status:
  assumes "dumps load dump (memory_frontmatter py actor now tags agent evidence capture)"
  shows "let doc = render_memory dump py actor now tags agent evidence capture text
    in check_status_clamp load doc = None \<and> fm_get (fm_of load doc) ''status'' = PyStr ''proposed''
       \<and> fm_get (fm_of load doc) ''id'' = PyNone"
proof -
  let ?m = "memory_frontmatter py actor now tags agent evidence capture"
  have p: "parse_frontmatter load (render_memory dump py actor now tags agent evidence capture text) = Inr (?m, newline # text @ [newline])"
    using parse_dumped(1)[OF assms, of "newline # text @ [newline]"] by (simp add: render_memory_def)
  have "fm_get ?m ''status'' = PyStr ''proposed''" "fm_get ?m ''id'' = PyNone"
    by (auto simp: memory_frontmatter_def fm_get_def get_or_def split: option.splits)
  with p show ?thesis by (simp add: check_status_clamp_def fm_of_def IN_FORCE_STATUSES_def)
qed

end
