(* ===== verification/WritePath.thy ===== *)
theory WritePath
  imports WriteChecks GitOps
begin

text \<open>
  The critical section of a write (\<open>_commit_in_worktree\<close>, \<open>_ClaimRecorder\<close>, \<open>_enqueue_after_commit\<close>,
  \<open>_governed_lane_check\<close> in \<^verbatim>\<open>tools_write.py\<close>): the gates in their order, then the write, the commit and its
  bookkeeping. It runs under the write serializer.

  The world outside answers through a record \<open>env\<close>: whether each command succeeds, what the worktree holds on the
  refreshed base, and also what the code cannot see, whether a commit whose process was killed has
  landed. What the section does to the world is the list of its actions, in order; what it returns or raises is the
  first component of the result.
\<close>

record tools =
  t_scan :: "string \<Rightarrow> secret_match option"
  t_load :: "string \<Rightarrow> pyval option"
  t_dump :: "frontmatter \<Rightarrow> string"
  t_encode :: "string \<Rightarrow> string option"
  t_decode :: "string \<Rightarrow> string option"
  t_sha1 :: "string \<Rightarrow> string"
  t_sha256 :: "string \<Rightarrow> string"
  t_realpath :: "string \<Rightarrow> string"
  t_lint :: linter
  t_policy :: "rules_policy option"
  t_inbox :: "string option"
  t_protected :: bool \<comment> \<open>\<^const>\<open>governed_lane_protection_enabled\<close> of the environment\<close>
  t_today :: string
  t_prefixes :: string
  t_blocklist :: blocklist
  t_two_decimals :: "pyfloat \<Rightarrow> string"
  t_tier :: "string \<Rightarrow> string"
  t_py_str :: "pyval \<Rightarrow> string"

text \<open>How \<^verbatim>\<open>git commit\<close> ends: with exit code zero, with another return code, or unobserved (the call itself raises); and
  in the last two cases whether the commit landed.\<close>

datatype commit_answer = CommitOk | CommitError int bool | CommitUnobserved bool

record env =
  e_lock_free :: bool
  e_worktree :: "string option" \<comment> \<open>the path of the session worktree, or a failure\<close>
  e_refresh :: "string option" \<comment> \<open>the error of a failed refresh\<close>
  e_file :: "string option" \<comment> \<open>the bytes of the target on the base, when it is a file\<close>
  e_git :: git_view
  e_tree :: "snapshot option"
  e_index :: "live_index option"
  e_ref :: string
  e_head :: string
  e_context_ok :: bool
  e_write_ok :: bool
  e_add_ok :: bool
  e_commit :: commit_answer
  e_sha :: "string option"
  e_outcome_ok :: bool
  e_queue :: "bool \<times> bool" \<comment> \<open>whether the first, and the second, attempt to enqueue succeeds\<close>

record write_req =
  w_session :: string
  w_agent :: string
  w_target :: string
  w_postimage :: string
  w_type :: string
  w_subject :: string
  w_tier :: string
  w_confidence :: pyfloat
  w_confirmed :: bool
  w_base_commit :: "string option"
  w_base_blob :: "string option"
  w_file_hash :: "string option"
  w_push_meta :: "(string \<times> string) list"
  w_owner :: "string option"
  w_hold_lock :: bool
  w_override :: bool
  w_governed :: bool
  w_recorder :: "(string \<times> string) option" \<comment> \<open>pending id and claim token\<close>

datatype rejection =
    StaleRefresh string | StaleBase cas_result | SymlinkEscape | SecretInPath secret_match | SecretInText secret_match
  | RuleRejected rule_rejection | InvalidDocument "gate_error list"

datatype failure = TrailerValue | NotUnicode | Unhashable | AddFailed | CommitFailed | FileWriteFailed | NoWorktree | OutcomeNotRecorded

datatype stop = Rejected rejection | WriteDemoted | LockBusy | OutcomeUnknown | ContextUnavailable | Raised failure

datatype action =
    ALock string string | AUnlock string | ARefresh
  | AContext string string | AOutcomeCommitted string | AOutcomeFailed | AOutcomeUnknown | AFinalize
  | AWriteFile string string | AAdd string | ACommit string bool | AReset
  | AEnqueue string "(string \<times> string) list"

type_synonym 'a wr = "(stop + 'a) \<times> action list"

definition wret :: "'a \<Rightarrow> 'a wr" where "wret x = (Inr x, [])"

definition halt :: "stop \<Rightarrow> 'a wr" where "halt e = (Inl e, [])"

definition act :: "action list \<Rightarrow> unit wr" where "act as = (Inr (), as)"

definition wbind :: "'a wr \<Rightarrow> ('a \<Rightarrow> 'b wr) \<Rightarrow> 'b wr" where
  "wbind m f = (case m of (Inl e, as) \<Rightarrow> (Inl e, as)
     | (Inr x, as) \<Rightarrow> (case f x of (r, bs) \<Rightarrow> (r, as @ bs)))"

subsection \<open>Gates\<close>

definition index_view_of :: "live_index option \<Rightarrow> index_view option" where
  "index_view_of idx = map_option (\<lambda>ix. \<lparr>id_to_path = l_map ix\<rparr>) idx"

definition cas_enforceable :: "write_req \<Rightarrow> bool" where
  "cas_enforceable rq \<longleftrightarrow> marker (w_base_blob rq) \<or> marker (w_file_hash rq) \<or> is_enforceable_base_commit (w_base_commit rq)"

definition message_of :: "tools \<Rightarrow> write_req \<Rightarrow> string option" where
  "message_of t rq = build_commit_message \<lparr>ci_subject = w_subject rq, ci_session = w_session rq, ci_agent = w_agent rq,
     ci_confidence = t_two_decimals t (w_confidence rq), ci_confirmed = w_confirmed rq, ci_type = w_type rq, ci_tier = w_tier rq,
     ci_path = w_target rq, ci_pending = map_option fst (w_recorder rq)\<rparr>"

text \<open>The scan of the path and of the text; with the operator's override a match is reported instead.\<close>

definition secret_gate :: "tools \<Rightarrow> write_req \<Rightarrow> rejection + secret_match option" where
  "secret_gate t rq =
     (let p = t_scan t (w_target rq); s = t_scan t (w_postimage rq)
      in if p \<noteq> None \<and> \<not> w_override rq then Inl (SecretInPath (the p))
         else if s \<noteq> None \<and> \<not> w_override rq then Inl (SecretInText (the s))
         else Inr (if p \<noteq> None then p else s))"

definition validation :: "tools \<Rightarrow> env \<Rightarrow> write_req \<Rightarrow> gate_error list result" where
  "validation t env rq = validate_postimage (t_scan t) (t_load t) (t_inbox t) (index_view_of (e_index env))
     (Some \<lparr>isfile = e_file env \<noteq> None, tree = e_tree env\<rparr>) [] (w_target rq) (w_postimage rq)"

text \<open>The backstop on the base: whether the bytes that the commit replaces are in force.\<close>

definition backstop :: "tools \<Rightarrow> env \<Rightarrow> write_req \<Rightarrow> stop option" where
  "backstop t env rq =
     (if \<not> w_governed rq then None
      else case e_file env of None \<Rightarrow> None
        | Some bytes \<Rightarrow> (case t_decode t bytes of None \<Rightarrow> Some (Raised NotUnicode)
          | Some base \<Rightarrow> (if is_base_content_in_force (t_load t) (t_inbox t) base (w_target rq) (t_today t) then Some WriteDemoted else None)))"

record passed =
  g_message :: string
  g_full :: string
  g_override :: "secret_match option"
  g_warnings :: "string list"

definition gates :: "tools \<Rightarrow> env \<Rightarrow> string \<Rightarrow> write_req \<Rightarrow> stop + passed" where
  "gates t env wt rq =
     (if cas_enforceable rq \<and> e_refresh env \<noteq> None then Inl (Rejected (StaleRefresh (the (e_refresh env))))
      else case message_of t rq of None \<Rightarrow> Inl (Raised TrailerValue)
      | Some msg \<Rightarrow> (case safe_join_under_root (t_realpath t) wt (w_target rq) of None \<Rightarrow> Inl (Rejected SymlinkEscape)
      | Some full \<Rightarrow>
          (let cas = check_cas (t_sha1 t) (t_sha256 t) (e_git env) (e_file env) (w_base_commit rq) (w_base_blob rq) (w_file_hash rq)
           in if cas \<noteq> CasOk then Inl (Rejected (StaleBase cas))
              else case secret_gate t rq of Inl r \<Rightarrow> Inl (Rejected r)
              | Inr override \<Rightarrow>
                 (case writing_rule_gate (t_lint t) (t_decode t) (t_policy t) (w_target rq) (e_file env) (w_postimage rq) of
                    Inl r \<Rightarrow> Inl (Rejected (RuleRejected r))
                  | Inr warnings \<Rightarrow>
                      (case validation t env rq of Inl e \<Rightarrow> Inl (Raised Unhashable)
                       | Inr errs \<Rightarrow>
                          (if errs \<noteq> [] then Inl (Rejected (InvalidDocument errs))
                           else case backstop t env rq of Some s \<Rightarrow> Inl s
                             | None \<Rightarrow> Inr \<lparr>g_message = msg, g_full = full, g_override = override, g_warnings = warnings\<rparr>))))))"

subsection \<open>The write\<close>

text \<open>What the claim recorder is told; without a recorder, nothing.\<close>

definition tell :: "write_req \<Rightarrow> action list \<Rightarrow> action list" where
  "tell rq as = (if w_recorder rq = None then [] else as)"

definition write_context :: "env \<Rightarrow> write_req \<Rightarrow> unit wr" where
  "write_context env rq =
     (if w_recorder rq = None then wret ()
      else if e_ref env = [] \<or> e_head env = [] then (Inl ContextUnavailable, [AOutcomeFailed])
      else if \<not> e_context_ok env then (Inl ContextUnavailable, [AContext (e_ref env) (e_head env), AOutcomeFailed])
      else act [AContext (e_ref env) (e_head env)])"

definition write_and_add :: "env \<Rightarrow> write_req \<Rightarrow> unit wr" where
  "write_and_add env rq =
     (if \<not> e_write_ok env then (Inl (Raised FileWriteFailed), [AWriteFile (w_target rq) (w_postimage rq)])
      else if \<not> e_add_ok env
      then (Inl (Raised AddFailed), [AWriteFile (w_target rq) (w_postimage rq), AAdd (w_target rq), AReset] @ tell rq [AOutcomeFailed])
      else act [AWriteFile (w_target rq) (w_postimage rq), AAdd (w_target rq)])"

text \<open>Only a positive exit of git proves that nothing was committed.\<close>

datatype commit_class = ClassFailed | ClassUnknown

definition classify_commit_error :: "int \<Rightarrow> commit_class" where
  "classify_commit_error returncode = (if returncode < 0 then ClassUnknown else ClassFailed)"

definition git_commit :: "env \<Rightarrow> write_req \<Rightarrow> string \<Rightarrow> unit wr" where
  "git_commit env rq msg = (case e_commit env of
      CommitOk \<Rightarrow> act [ACommit msg True]
    | CommitError rc landed \<Rightarrow>
        (if classify_commit_error rc = ClassUnknown then (Inl OutcomeUnknown, [ACommit msg landed, AReset] @ tell rq [AOutcomeUnknown])
         else (Inl (Raised CommitFailed), [ACommit msg landed, AReset] @ tell rq [AOutcomeFailed]))
    | CommitUnobserved landed \<Rightarrow> (Inl OutcomeUnknown, [ACommit msg landed, AReset] @ tell rq [AOutcomeUnknown]))"

definition commit_sha :: "env \<Rightarrow> write_req \<Rightarrow> string wr" where
  "commit_sha env rq = (case e_sha env of None \<Rightarrow> (Inl OutcomeUnknown, tell rq [AOutcomeUnknown]) | Some sha \<Rightarrow> wret sha)"

text \<open>The outcome is recorded and the claim consumed; a failure to record it propagates, one to consume it does not.\<close>

definition record_commit :: "env \<Rightarrow> write_req \<Rightarrow> string \<Rightarrow> unit wr" where
  "record_commit env rq sha =
     (if w_recorder rq = None then wret ()
      else if \<not> e_outcome_ok env then (Inl (Raised OutcomeNotRecorded), [AOutcomeCommitted sha])
      else act [AOutcomeCommitted sha, AFinalize])"

datatype push_state = Queued | RecoveryPending

definition enqueue_after_commit :: "env \<Rightarrow> write_req \<Rightarrow> string \<Rightarrow> push_state wr" where
  "enqueue_after_commit env rq sha =
     (let meta = w_push_meta rq; again = meta @ [(''recovered_in_process'', ''True'')]
      in if fst (e_queue env) then (Inr Queued, [AEnqueue sha meta])
         else if snd (e_queue env) then (Inr Queued, [AEnqueue sha meta, AEnqueue sha again])
         else (Inr RecoveryPending, [AEnqueue sha meta, AEnqueue sha again]))"

record written =
  wr_sha :: string
  wr_state :: push_state
  wr_override :: "secret_match option"
  wr_warnings :: "string list"

definition write_and_commit :: "env \<Rightarrow> write_req \<Rightarrow> passed \<Rightarrow> written wr" where
  "write_and_commit env rq g =
     wbind (write_context env rq) (\<lambda>_. wbind (write_and_add env rq) (\<lambda>_. wbind (git_commit env rq (g_message g)) (\<lambda>_.
       wbind (commit_sha env rq) (\<lambda>sha. wbind (record_commit env rq sha) (\<lambda>_. wbind (enqueue_after_commit env rq sha) (\<lambda>st.
         wret \<lparr>wr_sha = sha, wr_state = st, wr_override = g_override g, wr_warnings = g_warnings g\<rparr>))))))"

definition locked_section :: "tools \<Rightarrow> env \<Rightarrow> write_req \<Rightarrow> written wr" where
  "locked_section t env rq = (case e_worktree env of None \<Rightarrow> halt (Raised NoWorktree)
     | Some wt \<Rightarrow> wbind (act [ARefresh]) (\<lambda>_. case gates t env wt rq of Inl s \<Rightarrow> halt s | Inr g \<Rightarrow> write_and_commit env rq g))"

definition lock_owner :: "write_req \<Rightarrow> string" where
  "lock_owner rq = (case w_owner rq of Some s \<Rightarrow> (if s = [] then ''auto-commit:'' @ w_session rq else s)
     | None \<Rightarrow> ''auto-commit:'' @ w_session rq)"

definition commit_in_worktree :: "tools \<Rightarrow> env \<Rightarrow> write_req \<Rightarrow> written wr" where
  "commit_in_worktree t env rq =
     (if w_hold_lock rq then locked_section t env rq
      else if \<not> e_lock_free env then halt LockBusy
      else (case locked_section t env rq of (r, as) \<Rightarrow> (r, ALock (w_target rq) (lock_owner rq) # as @ [AUnlock (w_target rq)])))"

subsection \<open>The governed lane at the tool layer\<close>

definition would_auto_commit :: "pyfloat \<Rightarrow> pyfloat \<Rightarrow> bool \<Rightarrow> bool" where
  "would_auto_commit confidence threshold can_auto \<longleftrightarrow> float_le threshold confidence \<and> can_auto"

text \<open>The demotion is cancelled when the commit path will refuse the write anyway.\<close>

definition governed_lane_check ::
  "tools \<Rightarrow> live_index option \<Rightarrow> bool \<Rightarrow> pyfloat \<Rightarrow> pyfloat \<Rightarrow> bool \<Rightarrow> string \<Rightarrow> string \<Rightarrow> lane_verdict result" where
  "governed_lane_check t idx check_target confidence threshold can_auto postimage target =
     (if \<not> t_protected t then Inr \<lparr>demotion_reason = None, injection_matches = []\<rparr>
      else let v = evaluate_governed_lane (t_load t) idx check_target postimage target (t_today t)
        in if demotion_reason v \<noteq> None \<and> would_auto_commit confidence threshold can_auto
           then (case validate_postimage (t_scan t) (t_load t) (t_inbox t) (index_view_of idx) None [] target postimage of
               Inl e \<Rightarrow> Inl e
             | Inr errs \<Rightarrow>
                 (if list_ex (\<lambda>e. error_code e \<notin> set SNAPSHOT_DEPENDENT_CODES) errs \<or> t_scan t target \<noteq> None \<or> t_scan t postimage \<noteq> None
                  then Inr (v\<lparr>demotion_reason := None\<rparr>) else Inr v))
           else Inr v)"

subsection \<open>What the section guarantees\<close>

lemma wbind_simps [simp]:
  "wbind (Inl e, as) f = (Inl e, as)"
  "wbind (Inr x, as) f = (fst (f x), as @ snd (f x))"
  by (simp_all add: wbind_def case_prod_beta)

lemma wr_simps [simp]: "wret x = (Inr x, [])" "halt e = (Inl e, [])" "act as = (Inr (), as)"
  by (simp_all add: wret_def halt_def act_def)

lemmas write_steps = write_context_def write_and_add_def git_commit_def commit_sha_def record_commit_def enqueue_after_commit_def
  write_and_commit_def tell_def

fun touches :: "action \<Rightarrow> bool" where
  "touches (ALock p s) = False"
| "touches (AUnlock p) = False"
| "touches ARefresh = False"
| "touches _ = True"

definition landed :: "action list \<Rightarrow> bool" where
  "landed as \<longleftrightarrow> (\<exists>msg. ACommit msg True \<in> set as)"

text \<open>Git lands nothing when it exits with a positive code.\<close>

definition git_sound :: "env \<Rightarrow> bool" where
  "git_sound env \<longleftrightarrow> (\<forall>rc. e_commit env = CommitError rc True \<longrightarrow> rc < 0)"

lemma gates_passed:
  "gates t env wt rq = Inr g \<longleftrightarrow>
     (cas_enforceable rq \<longrightarrow> e_refresh env = None) \<and> message_of t rq = Some (g_message g) \<and>
     safe_join_under_root (t_realpath t) wt (w_target rq) = Some (g_full g) \<and>
     check_cas (t_sha1 t) (t_sha256 t) (e_git env) (e_file env) (w_base_commit rq) (w_base_blob rq) (w_file_hash rq) = CasOk \<and>
     secret_gate t rq = Inr (g_override g) \<and>
     writing_rule_gate (t_lint t) (t_decode t) (t_policy t) (w_target rq) (e_file env) (w_postimage rq) = Inr (g_warnings g) \<and>
     validation t env rq = Inr [] \<and> backstop t env rq = None"
  by (cases g) (auto simp: gates_def Let_def split: option.splits sum.splits if_splits)

lemma section_cases:
  obtains (locked) "\<not> w_hold_lock rq" "\<not> e_lock_free env" "commit_in_worktree t env rq = (Inl LockBusy, [])"
  | (refused) s where "fst (commit_in_worktree t env rq) = Inl s" "list_all (\<lambda>a. \<not> touches a) (snd (commit_in_worktree t env rq))"
      "e_worktree env = None \<and> s = Raised NoWorktree \<or> (\<exists>wt. e_worktree env = Some wt \<and> gates t env wt rq = Inl s)"
  | (written) wt g pre post where "e_worktree env = Some wt" "gates t env wt rq = Inr g" "list_all (\<lambda>a. \<not> touches a) (pre @ post)"
      "commit_in_worktree t env rq = (fst (write_and_commit env rq g), pre @ snd (write_and_commit env rq g) @ post)"
proof (cases "\<not> w_hold_lock rq \<and> \<not> e_lock_free env")
  case True
  then show ?thesis using locked by (simp add: commit_in_worktree_def)
next
  case go: False
  show ?thesis
  proof (cases "e_worktree env")
    case None
    then show ?thesis using go by (intro refused) (auto simp: commit_in_worktree_def locked_section_def)
  next
    case (Some wt)
    show ?thesis
    proof (cases "gates t env wt rq")
      case (Inl s)
      then show ?thesis using go Some by (intro refused) (auto simp: commit_in_worktree_def locked_section_def)
    next
      case (Inr g)
      let ?as = "snd (write_and_commit env rq g)"
      have sec: "locked_section t env rq = (fst (write_and_commit env rq g), ARefresh # ?as)" by (simp add: locked_section_def Some Inr)
      show ?thesis
      proof (cases "w_hold_lock rq")
        case True
        then show ?thesis using Some Inr by (intro written[of wt g "[ARefresh]" "[]"]) (auto simp: commit_in_worktree_def sec)
      next
        case False
        with go show ?thesis using Some Inr
          by (intro written[of wt g "[ALock (w_target rq) (lock_owner rq), ARefresh]" "[AUnlock (w_target rq)]"])
            (auto simp: commit_in_worktree_def sec)
      qed
    qed
  qed
qed

text \<open>C22. Nothing is written, recorded or published unless every gate has passed on the refreshed base.\<close>

theorem nothing_touched_before_gates:
  assumes "a \<in> set (snd (commit_in_worktree t env rq))" and "touches a"
  shows "\<exists>wt g. e_worktree env = Some wt \<and> gates t env wt rq = Inr g \<and> secret_gate t rq = Inr (g_override g) \<and> validation t env rq = Inr []
    \<and> backstop t env rq = None"
  using assms by (cases rule: section_cases[of rq env t]) (auto simp: list_all_iff gates_passed)

definition context_known :: "env \<Rightarrow> write_req \<Rightarrow> bool" where
  "context_known env rq \<longleftrightarrow> w_recorder rq = None \<or> (e_ref env \<noteq> [] \<and> e_head env \<noteq> [] \<and> e_context_ok env)"

definition git_landed :: "env \<Rightarrow> bool" where
  "git_landed env \<longleftrightarrow> (case e_commit env of CommitOk \<Rightarrow> True | CommitError rc l \<Rightarrow> l | CommitUnobserved l \<Rightarrow> l)"

lemma wac_context: "\<not> context_known env rq \<Longrightarrow> fst (write_and_commit env rq g) = Inl ContextUnavailable \<and>
    set (snd (write_and_commit env rq g)) \<subseteq> {AContext (e_ref env) (e_head env), AOutcomeFailed}"
  by (auto simp: context_known_def write_and_commit_def write_context_def)

lemma wac_known: "context_known env rq \<Longrightarrow> write_and_commit env rq g =
    (case wbind (write_and_add env rq) (\<lambda>_. wbind (git_commit env rq (g_message g)) (\<lambda>_. wbind (commit_sha env rq) (\<lambda>sha.
         wbind (record_commit env rq sha) (\<lambda>_. wbind (enqueue_after_commit env rq sha) (\<lambda>st.
         wret \<lparr>wr_sha = sha, wr_state = st, wr_override = g_override g, wr_warnings = g_warnings g\<rparr>)))))
     of (r, as) \<Rightarrow> (r, tell rq [AContext (e_ref env) (e_head env)] @ as))"
  by (auto simp: context_known_def write_and_commit_def write_context_def tell_def case_prod_beta)

lemma wac_unwritten: "context_known env rq \<Longrightarrow> \<not> (e_write_ok env \<and> e_add_ok env) \<Longrightarrow> isl (fst (write_and_commit env rq g)) \<and>
    set (snd (write_and_commit env rq g)) \<subseteq> {AContext (e_ref env) (e_head env), AOutcomeFailed, AReset, AWriteFile (w_target rq) (w_postimage rq), AAdd (w_target rq)}"
  unfolding wac_known by (auto simp: write_and_add_def tell_def)

definition prepared :: "env \<Rightarrow> write_req \<Rightarrow> action list" where
  "prepared env rq = tell rq [AContext (e_ref env) (e_head env)] @ [AWriteFile (w_target rq) (w_postimage rq), AAdd (w_target rq)]"

definition after_commit :: "env \<Rightarrow> write_req \<Rightarrow> passed \<Rightarrow> written wr" where
  "after_commit env rq g = wbind (commit_sha env rq) (\<lambda>sha. wbind (record_commit env rq sha) (\<lambda>_. wbind (enqueue_after_commit env rq sha) (\<lambda>st.
         wret \<lparr>wr_sha = sha, wr_state = st, wr_override = g_override g, wr_warnings = g_warnings g\<rparr>)))"

lemma wac_written:
  assumes "context_known env rq" and "e_write_ok env" and "e_add_ok env"
  shows "write_and_commit env rq g = (case git_commit env rq (g_message g) of
      (Inl s, as) \<Rightarrow> (Inl s, prepared env rq @ as)
    | (Inr _, as) \<Rightarrow> (fst (after_commit env rq g), prepared env rq @ as @ snd (after_commit env rq g)))"
  unfolding wac_known[OF assms(1)]
  by (cases "git_commit env rq (g_message g)"; cases "fst (git_commit env rq (g_message g))")
    (simp_all add: assms write_and_add_def prepared_def after_commit_def)

lemma prepared_actions: "set (prepared env rq) \<subseteq> {AContext (e_ref env) (e_head env), AWriteFile (w_target rq) (w_postimage rq), AAdd (w_target rq)}"
  by (auto simp: prepared_def tell_def)

lemma after_commit_actions:
  "ACommit m l \<notin> set (snd (after_commit env rq g))" "AOutcomeFailed \<notin> set (snd (after_commit env rq g))"
  by (auto simp: after_commit_def commit_sha_def record_commit_def enqueue_after_commit_def tell_def Let_def split: option.splits if_splits)

text \<open>What a returned value says of the queue: the commit that git reports as the new head was offered to it, as that commit and no
  other, and the state says whether one of the two attempts was taken.\<close>

definition handed_over :: "env \<Rightarrow> write_req \<Rightarrow> written \<Rightarrow> action list \<Rightarrow> bool" where
  "handed_over env rq w as \<longleftrightarrow> e_sha env = Some (wr_sha w) \<and> AEnqueue (wr_sha w) (w_push_meta rq) \<in> set as \<and>
     (\<forall>sha meta. AEnqueue sha meta \<in> set as \<longrightarrow> sha = wr_sha w) \<and> (wr_state w = Queued \<longleftrightarrow> fst (e_queue env) \<or> snd (e_queue env))"

lemma after_commit_handed: "fst (after_commit env rq g) = Inr w \<Longrightarrow> handed_over env rq w (snd (after_commit env rq g))"
  by (auto simp: after_commit_def commit_sha_def record_commit_def enqueue_after_commit_def tell_def Let_def handed_over_def
      split: option.splits if_splits)

lemma after_commit_recorded:
  "AOutcomeCommitted sha \<in> set (snd (after_commit env rq g)) \<Longrightarrow> e_sha env = Some sha"
  by (auto simp: after_commit_def commit_sha_def record_commit_def enqueue_after_commit_def tell_def Let_def split: option.splits if_splits)

lemma git_commit_cases:
  obtains (ok) "e_commit env = CommitOk" "git_commit env rq msg = (Inr (), [ACommit msg True])"
  | (exit) rc where "e_commit env = CommitError rc (git_landed env)" "0 \<le> rc"
      "git_commit env rq msg = (Inl (Raised CommitFailed), [ACommit msg (git_landed env), AReset] @ tell rq [AOutcomeFailed])"
  | (unknown) "git_commit env rq msg = (Inl OutcomeUnknown, [ACommit msg (git_landed env), AReset] @ tell rq [AOutcomeUnknown])"
proof (cases "e_commit env")
  case CommitOk
  then show ?thesis by (intro ok) (simp_all add: git_commit_def)
next
  case (CommitError rc l)
  then show ?thesis
    by (cases "rc < 0") (auto simp: git_commit_def git_landed_def classify_commit_error_def intro: exit unknown)
next
  case (CommitUnobserved l)
  then show ?thesis by (intro unknown) (simp add: git_commit_def git_landed_def)
qed

text \<open>What a write leaves behind: a value only with a landed commit that was handed to the push queue; a recorded failure
  only without one; a recorded commit only with one, under the sha git reports.\<close>

lemma handed_over_around:
  assumes "handed_over env rq w as" and "\<forall>a \<in> set pre \<union> set post. \<forall>sha meta. a \<noteq> AEnqueue sha meta"
  shows "handed_over env rq w (pre @ as @ post)"
  using assms by (auto simp: handed_over_def)

lemma wac_truth:
  assumes "git_sound env"
  shows "(fst (write_and_commit env rq g) = Inr w \<longrightarrow> landed (snd (write_and_commit env rq g)) \<and> handed_over env rq w (snd (write_and_commit env rq g))) \<and>
     (AOutcomeFailed \<in> set (snd (write_and_commit env rq g)) \<longrightarrow> \<not> landed (snd (write_and_commit env rq g))) \<and>
     (AOutcomeCommitted sha \<in> set (snd (write_and_commit env rq g)) \<longrightarrow> landed (snd (write_and_commit env rq g)) \<and> e_sha env = Some sha)"
proof (cases "context_known env rq \<and> e_write_ok env \<and> e_add_ok env")
  case True
  then have known: "context_known env rq" "e_write_ok env" "e_add_ok env" by auto
  note w = wac_written[OF known] and p = prepared_actions[of env rq] and a = after_commit_actions
  show ?thesis
  proof (cases rule: git_commit_cases[of env rq "g_message g"])
    case ok
    have "landed (snd (write_and_commit env rq g))" unfolding w ok(2) landed_def by auto
    moreover have "AOutcomeFailed \<notin> set (snd (write_and_commit env rq g))" unfolding w ok(2) using p a(2) by auto
    moreover have "AOutcomeCommitted sha \<in> set (snd (write_and_commit env rq g)) \<Longrightarrow> e_sha env = Some sha"
      using after_commit_recorded[of sha env rq g] p unfolding w ok(2) by auto
    moreover have "handed_over env rq w (snd (write_and_commit env rq g))" if "fst (write_and_commit env rq g) = Inr w"
    proof -
      have "handed_over env rq w (snd (after_commit env rq g))" using that unfolding w ok(2) by (intro after_commit_handed) simp
      from handed_over_around[OF this, of "prepared env rq @ [ACommit (g_message g) True]" "[]"] show ?thesis
        unfolding w ok(2) using p by auto
    qed
    ultimately show ?thesis by blast
  next
    case (exit rc)
    have "\<not> git_landed env" using assms exit(1,2) by (force simp: git_sound_def)
    then show ?thesis unfolding w exit(3) using p by (auto simp: landed_def tell_def)
  next
    case unknown
    then show ?thesis unfolding w unknown using p by (auto simp: landed_def tell_def)
  qed
next
  case False
  then show ?thesis
  proof (cases "context_known env rq")
    case True
    with False wac_unwritten[of env rq g] show ?thesis by (auto simp: landed_def isl_def)
  next
    case False
    from wac_context[OF this, of g] show ?thesis by (auto simp: landed_def)
  qed
qed

text \<open>C5. The result is the truth about git. A value means that the commit landed and that the sha git reports for it, the one the value
  names, was offered to the push queue with its metadata and no other sha was; its state is \<open>Queued\<close> exactly if one of the two
  attempts was taken, and otherwise says that the recovery at the next start has to find the commit. A recorded failure,
  on whose strength the proposal is offered again, means that nothing landed; a recorded commit that it did, under that sha.\<close>

theorem outcomes_truthful:
  assumes "git_sound env"
  shows "(\<forall>w. fst (commit_in_worktree t env rq) = Inr w \<longrightarrow> landed (snd (commit_in_worktree t env rq)) \<and> e_sha env = Some (wr_sha w) \<and>
        AEnqueue (wr_sha w) (w_push_meta rq) \<in> set (snd (commit_in_worktree t env rq)) \<and>
        (\<forall>sha meta. AEnqueue sha meta \<in> set (snd (commit_in_worktree t env rq)) \<longrightarrow> sha = wr_sha w) \<and>
        (wr_state w = Queued \<longleftrightarrow> fst (e_queue env) \<or> snd (e_queue env))) \<and>
     (AOutcomeFailed \<in> set (snd (commit_in_worktree t env rq)) \<longrightarrow> \<not> landed (snd (commit_in_worktree t env rq))) \<and>
     (AOutcomeCommitted sha \<in> set (snd (commit_in_worktree t env rq)) \<longrightarrow> landed (snd (commit_in_worktree t env rq)) \<and> e_sha env = Some sha)"
proof (cases rule: section_cases[of rq env t])
  case (refused s)
  then show ?thesis by (auto simp: landed_def list_all_iff)
next
  case (written wt g pre post)
  let ?w = "write_and_commit env rq g"
  have quiet: "x \<in> set pre \<union> set post \<Longrightarrow> \<not> touches x" for x using written(3) by (auto simp: list_all_iff)
  have none: "ACommit m l \<notin> set pre \<union> set post" for m l using quiet[of "ACommit m l"] by auto
  have noq: "\<forall>a \<in> set pre \<union> set post. \<forall>sha meta. a \<noteq> AEnqueue sha meta" using quiet by force
  have same: "landed (pre @ snd ?w @ post) = landed (snd ?w)"
    using none by (auto simp: landed_def)
  have mem: "AOutcomeFailed \<in> set (pre @ snd ?w @ post) \<longleftrightarrow> AOutcomeFailed \<in> set (snd ?w)"
      "AOutcomeCommitted sha \<in> set (pre @ snd ?w @ post) \<longleftrightarrow> AOutcomeCommitted sha \<in> set (snd ?w)"
    using quiet by (force simp:)+
  have val: "landed (snd ?w) \<and> handed_over env rq w (pre @ snd ?w @ post)" if "fst ?w = Inr w" for w
    using wac_truth[OF assms, of rq g w] that handed_over_around[OF _ noq, of env rq w "snd ?w"] by blast
  show ?thesis
    unfolding written(4) fst_conv snd_conv same mem
    using val[unfolded handed_over_def] wac_truth[OF assms, of rq g _ sha, THEN conjunct2] by blast
qed simp

text \<open>A file that was staged is committed or reset away, so that it cannot ride along with the next commit.\<close>

theorem staged_is_committed_or_reset:
  assumes "AAdd p \<in> set (snd (commit_in_worktree t env rq))"
  shows "AReset \<in> set (snd (commit_in_worktree t env rq)) \<or> e_commit env = CommitOk \<and> landed (snd (commit_in_worktree t env rq))"
proof (cases rule: section_cases[of rq env t])
  case (refused s)
  then show ?thesis using assms by (auto simp: list_all_iff)
next
  case (written wt g pre post)
  have quiet: "x \<in> set pre \<union> set post \<Longrightarrow> \<not> touches x" for x using written(3) by (auto simp: list_all_iff)
  have none: "AAdd p \<notin> set pre \<union> set post" for p using quiet[of "AAdd p"] by auto
  have "AReset \<in> set (snd (write_and_commit env rq g)) \<or> e_commit env = CommitOk \<and> landed (snd (write_and_commit env rq g))"
    if "AAdd p \<in> set (snd (write_and_commit env rq g))" for p
  proof (cases "context_known env rq \<and> e_write_ok env")
    case True
    show ?thesis
    proof (cases "e_add_ok env")
      case False
      then show ?thesis using True wac_known[of env rq g] by (auto simp: write_and_add_def)
    next
      case add: True
      from True add have "context_known env rq" "e_write_ok env" "e_add_ok env" by auto
      note w = wac_written[OF this]
      show ?thesis by (cases rule: git_commit_cases[of env rq "g_message g"]) (auto simp: w landed_def)
    qed
  next
    case False
    then show ?thesis using that wac_context[of env rq g] wac_known[of env rq g]
      by (cases "context_known env rq") (auto simp: write_and_add_def tell_def split: if_splits)
  qed
  then show ?thesis using assms unfolding written(4) using none by (auto simp: landed_def)
qed (use assms in simp)

text \<open>Two failures that the section does not close. A failing write of the file itself leaves the worktree modified, without
  a reset and without an outcome; and when the outcome of a landed commit cannot be recorded, the commit is never
  handed to the push queue.\<close>

definition unwritable :: "env \<Rightarrow> env" where
  "unwritable env = env\<lparr>e_write_ok := False\<rparr>"

definition unrecorded :: "string \<Rightarrow> env \<Rightarrow> env" where
  "unrecorded sha env = env\<lparr>e_write_ok := True, e_add_ok := True, e_commit := CommitOk, e_sha := Some sha, e_outcome_ok := False\<rparr>"

lemma env_ignore [simp]:
  "e_refresh (unwritable env) = e_refresh env" "e_git (unwritable env) = e_git env" "e_file (unwritable env) = e_file env"
  "e_worktree (unwritable env) = e_worktree env" "context_known (unwritable env) rq = context_known env rq"
  "validation t (unwritable env) rq = validation t env rq" "backstop t (unwritable env) rq = backstop t env rq"
  "e_refresh (unrecorded sha env) = e_refresh env" "e_git (unrecorded sha env) = e_git env" "e_file (unrecorded sha env) = e_file env"
  "e_worktree (unrecorded sha env) = e_worktree env" "context_known (unrecorded sha env) rq = context_known env rq"
  "validation t (unrecorded sha env) rq = validation t env rq" "backstop t (unrecorded sha env) rq = backstop t env rq"
  by (simp_all add: unwritable_def unrecorded_def validation_def backstop_def context_known_def)

lemma gates_ignore [simp]:
  "gates t (unwritable env) wt rq = gates t env wt rq" "gates t (unrecorded sha env) wt rq = gates t env wt rq"
  unfolding gates_def env_ignore by (rule refl)+

theorem failures_left_open:
  assumes "e_worktree env = Some wt" and "gates t env wt rq = Inr g" and "w_hold_lock rq" and "w_recorder rq = Some (pid, tok)"
    and "context_known env rq"
  shows "snd (commit_in_worktree t (unwritable env) rq) =
      [ARefresh, AContext (e_ref env) (e_head env), AWriteFile (w_target rq) (w_postimage rq)] \<and>
    snd (commit_in_worktree t (unrecorded sha env) rq) =
      [ARefresh, AContext (e_ref env) (e_head env), AWriteFile (w_target rq) (w_postimage rq), AAdd (w_target rq),
       ACommit (g_message g) True, AOutcomeCommitted sha]"
proof -
  have s: "snd (commit_in_worktree t e rq) = ARefresh # snd (write_and_commit e rq g)"
    if "e_worktree e = Some wt" "gates t e wt rq = Inr g" for e
    using that assms(3) by (simp add: commit_in_worktree_def locked_section_def)
  have w: "snd (write_and_commit (unwritable env) rq g) = [AContext (e_ref env) (e_head env), AWriteFile (w_target rq) (w_postimage rq)]"
    using assms(4,5) by (simp add: wac_known) (simp add: unwritable_def write_and_add_def tell_def)
  have r: "snd (write_and_commit (unrecorded sha env) rq g) = [AContext (e_ref env) (e_head env), AWriteFile (w_target rq) (w_postimage rq),
      AAdd (w_target rq), ACommit (g_message g) True, AOutcomeCommitted sha]"
    using assms(4,5) by (simp add: wac_known) (simp add: unrecorded_def write_and_add_def git_commit_def commit_sha_def record_commit_def tell_def)
  show ?thesis using s[of "unwritable env"] s[of "unrecorded sha env"] assms(1,2) w r by simp
qed

subsection \<open>A write that goes through\<close>

definition sample_tools :: tools where
  "sample_tools = \<lparr>t_scan = (\<lambda>s. None), t_load = (\<lambda>s. None), t_dump = (\<lambda>m. []), t_encode = Some, t_decode = Some, t_sha1 = id, t_sha256 = id,
     t_realpath = id, t_lint = \<lparr>normalise = id, allow = (\<lambda>l. False), raw_rules = []\<rparr>, t_policy = None, t_inbox = None,
     t_protected = True, t_today = ''2026-01-01'', t_prefixes = [], t_blocklist = path_blocklist [] [], t_two_decimals = (\<lambda>r. ''0.90''),
     t_tier = (\<lambda>p. ''T4''), t_py_str = (\<lambda>v. [])\<rparr>"

definition sample_env :: env where
  "sample_env = \<lparr>e_lock_free = True, e_worktree = Some ''/kb/wt'', e_refresh = None, e_file = Some ''old'',
     e_git = \<lparr>commit_exists = (\<lambda>c. False), git_blob_at = (\<lambda>c. [])\<rparr>, e_tree = Some [], e_index = None, e_ref = ''br'', e_head = ''h0'',
     e_context_ok = True, e_write_ok = True, e_add_ok = True, e_commit = CommitOk, e_sha = Some ''c1'', e_outcome_ok = True, e_queue = (True, True)\<rparr>"

definition sample_req :: write_req where
  "sample_req = \<lparr>w_session = ''s'', w_agent = ''a'', w_target = ''memory/a.md'', w_postimage = ''new'', w_type = ''edit'', w_subject = ''edit: memory/a.md'',
     w_tier = ''T4'', w_confidence = FNum 1, w_confirmed = False, w_base_commit = None, w_base_blob = None, w_file_hash = None, w_push_meta = [],
     w_owner = None, w_hold_lock = True, w_override = False, w_governed = True, w_recorder = Some (''p1'', ''t1'')\<rparr>"

lemma sample_gates: "\<exists>g. gates sample_tools sample_env ''/kb/wt'' sample_req = Inr g"
proof -
  have "\<not> isl (gates sample_tools sample_env ''/kb/wt'' sample_req)" by code_simp
  then show ?thesis by (cases "gates sample_tools sample_env ''/kb/wt'' sample_req") auto
qed

theorem nothing_touched_before_gates_witness:
  "\<exists>wt g. e_worktree sample_env = Some wt \<and> gates sample_tools sample_env wt sample_req = Inr g \<and> secret_gate sample_tools sample_req = Inr (g_override g)
    \<and> validation sample_tools sample_env sample_req = Inr [] \<and> backstop sample_tools sample_env sample_req = None"
proof (rule nothing_touched_before_gates)
  show "AEnqueue ''c1'' [] \<in> set (snd (commit_in_worktree sample_tools sample_env sample_req))" by code_simp
  show "touches (AEnqueue ''c1'' [])" by simp
qed

theorem outcomes_truthful_witness:
  "\<exists>w. fst (commit_in_worktree sample_tools sample_env sample_req) = Inr w \<and> landed (snd (commit_in_worktree sample_tools sample_env sample_req)) \<and>
     wr_sha w = ''c1'' \<and> wr_state w = Queued \<and> AEnqueue ''c1'' [] \<in> set (snd (commit_in_worktree sample_tools sample_env sample_req))"
proof -
  have "git_sound sample_env" by (simp add: git_sound_def sample_env_def)
  moreover have "\<not> isl (fst (commit_in_worktree sample_tools sample_env sample_req))" by code_simp
  then obtain w where w: "fst (commit_in_worktree sample_tools sample_env sample_req) = Inr w"
    by (cases "fst (commit_in_worktree sample_tools sample_env sample_req)") auto
  moreover have e: "e_sha sample_env = Some ''c1''" "e_queue sample_env = (True, True)" "w_push_meta sample_req = []"
    by (simp_all add: sample_env_def sample_req_def)
  ultimately have "landed (snd (commit_in_worktree sample_tools sample_env sample_req)) \<and> Some ''c1'' = Some (wr_sha w) \<and>
      AEnqueue (wr_sha w) [] \<in> set (snd (commit_in_worktree sample_tools sample_env sample_req)) \<and> (wr_state w = Queued \<longleftrightarrow> True \<or> True)"
    using outcomes_truthful[of sample_env sample_tools sample_req, THEN conjunct1, THEN spec, of w] unfolding e fst_conv snd_conv by blast
  then show ?thesis using w by (intro exI[of _ w]) simp
qed

theorem staged_is_committed_or_reset_witness:
  "AReset \<in> set (snd (commit_in_worktree sample_tools sample_env sample_req)) \<or> e_commit sample_env = CommitOk
    \<and> landed (snd (commit_in_worktree sample_tools sample_env sample_req))"
proof (rule staged_is_committed_or_reset)
  show "AAdd ''memory/a.md'' \<in> set (snd (commit_in_worktree sample_tools sample_env sample_req))" by code_simp
qed

theorem failures_left_open_witness:
  "\<exists>msg. snd (commit_in_worktree sample_tools (unwritable sample_env) sample_req) =
      [ARefresh, AContext ''br'' ''h0'', AWriteFile ''memory/a.md'' ''new''] \<and>
    snd (commit_in_worktree sample_tools (unrecorded ''c1'' sample_env) sample_req) =
      [ARefresh, AContext ''br'' ''h0'', AWriteFile ''memory/a.md'' ''new'', AAdd ''memory/a.md'', ACommit msg True, AOutcomeCommitted ''c1'']"
proof -
  obtain g where g: "gates sample_tools sample_env ''/kb/wt'' sample_req = Inr g" using sample_gates by blast
  have e: "e_ref sample_env = ''br''" "e_head sample_env = ''h0''" "w_target sample_req = ''memory/a.md''" "w_postimage sample_req = ''new''"
    by (simp_all add: sample_env_def sample_req_def)
  have "snd (commit_in_worktree sample_tools (unwritable sample_env) sample_req) =
      [ARefresh, AContext (e_ref sample_env) (e_head sample_env), AWriteFile (w_target sample_req) (w_postimage sample_req)] \<and>
    snd (commit_in_worktree sample_tools (unrecorded ''c1'' sample_env) sample_req) =
      [ARefresh, AContext (e_ref sample_env) (e_head sample_env), AWriteFile (w_target sample_req) (w_postimage sample_req), AAdd (w_target sample_req),
       ACommit (g_message g) True, AOutcomeCommitted ''c1'']"
    by (rule failures_left_open[OF _ g]) (simp_all add: sample_env_def sample_req_def context_known_def)
  note this[unfolded e]
  then show ?thesis by (rule exI[of _ "g_message g"])
qed

end
