(* ===== verification/Propose.thy ===== *)
theory Propose
  imports WritePath
begin

text \<open>
  The propose tools (\<open>kb_propose_edit_fn\<close>, \<open>kb_propose_memory_fn\<close> in \<^verbatim>\<open>tools_write.py\<close>): every check in its order, the
  decision between committing and parking, the response and the audit events.

  What the outside decides is in a record of answers: the live index the tool layer sees, whether the rate limiter
  admits the request, what the pending queue says, and the environment of the critical section, which has its own,
  possibly newer, index.
\<close>

datatype enqueue_answer = EnqOk string | EnqBusy | EnqFull | EnqError

record answers =
  a_index :: "live_index option"
  a_allow :: bool
  a_enqueue :: enqueue_answer
  a_env :: env

datatype why =
    WEncoding encoding_error | WEvidence evidence_error | WSecretIn string string \<comment> \<open>the pattern and where it matched\<close>
  | WContest contest_reason | WContestIndex contest_index_error | WBase base_error | WCapture capture_reason
  | WPath string | WTier | WText string | WRejection rejection

record response =
  rs_status :: string
  rs_why :: "why option"
  rs_path :: "string option"
  rs_pattern :: "string option"
  rs_pid :: "string option"
  rs_sha :: "string option"
  rs_state :: "push_state option"
  rs_demotion :: "demotion option"
  rs_text :: "string option" \<comment> \<open>the proposal text shown to the operator\<close>
  rs_findings :: "string list"

definition response0 :: response where
  "response0 = \<lparr>rs_status = [], rs_why = None, rs_path = None, rs_pattern = None, rs_pid = None, rs_sha = None, rs_state = None,
     rs_demotion = None, rs_text = None, rs_findings = []\<rparr>"

record audit_event =
  au_type :: string
  au_status :: string
  au_agent :: string
  au_session :: string
  au_path :: "string option"
  au_tier :: "string option"
  au_confidence :: "pyfloat option"
  au_why :: "why option"
  au_pattern :: "string option"
  au_pid :: "string option"
  au_sha :: "string option"
  au_evidence :: "string list"
  au_demotion :: "demotion option"
  au_injection :: bool
  au_rules :: "string option"
  au_override :: bool
  au_capture :: "envelope option"

datatype hact = HRate | HAudit audit_event | HEnqueue proposal | HWrite "action list"

datatype exn = XEncode | XUnhashable | XEnqueue | XStop stop

type_synonym outcome = "(exn + response) \<times> hact list"

definition REDACTED_PATH :: string where
  "REDACTED_PATH = ''[target_path redacted: matched a secret pattern]''"

text \<open>A refusal: a response and its audit event.\<close>

definition refuse :: "audit_event \<Rightarrow> response \<Rightarrow> outcome" where
  "refuse ev r = (Inr r, [HAudit ev])"

definition rejected :: "string \<Rightarrow> why option \<Rightarrow> string option \<Rightarrow> response" where
  "rejected status why path = response0\<lparr>rs_status := status, rs_why := why, rs_path := path\<rparr>"

definition matched :: "response \<Rightarrow> string \<Rightarrow> response" where
  "matched r p = r\<lparr>rs_pattern := Some p\<rparr>"

definition with_status :: "string \<Rightarrow> audit_event \<Rightarrow> audit_event" where
  "with_status s ev = ev\<lparr>au_status := s\<rparr>"

definition because :: "why \<Rightarrow> audit_event \<Rightarrow> audit_event" where
  "because w ev = ev\<lparr>au_why := Some w\<rparr>"

text \<open>The actions of a handler, one after the other.\<close>

definition after_acts :: "hact list \<Rightarrow> outcome \<Rightarrow> outcome" where
  "after_acts as m = (fst m, as @ snd m)"

subsection \<open>What a rejection of the critical section looks like\<close>

definition rejection_status :: "rejection \<Rightarrow> string" where
  "rejection_status r = (case r of StaleRefresh e \<Rightarrow> ''rejected_stale_base'' | StaleBase c \<Rightarrow> ''rejected_stale_base''
     | SymlinkEscape \<Rightarrow> ''rejected_symlink_escape'' | SecretInPath m \<Rightarrow> ''rejected_secret_detected''
     | SecretInText m \<Rightarrow> ''rejected_secret_detected'' | RuleRejected x \<Rightarrow> ''rejected_writing_rule''
     | InvalidDocument es \<Rightarrow> ''rejected_invalid_document'')"

definition rejection_why :: "rejection \<Rightarrow> why option" where
  "rejection_why r = (case r of SymlinkEscape \<Rightarrow> None | _ \<Rightarrow> Some (WRejection r))"

definition rejection_pattern :: "rejection \<Rightarrow> string option" where
  "rejection_pattern r = (case r of SecretInPath m \<Rightarrow> Some (pattern_name m) | SecretInText m \<Rightarrow> Some (pattern_name m) | _ \<Rightarrow> None)"

definition rejection_findings :: "rejection \<Rightarrow> string list" where
  "rejection_findings r = (case r of RuleRejected (RuleFindings fs) \<Rightarrow> fs | _ \<Rightarrow> [])"

definition rejection_response :: "string \<Rightarrow> rejection \<Rightarrow> response" where
  "rejection_response target r = response0\<lparr>rs_status := rejection_status r, rs_why := rejection_why r,
     rs_path := (case r of SecretInPath m \<Rightarrow> None | _ \<Rightarrow> Some target), rs_pattern := rejection_pattern r, rs_findings := rejection_findings r\<rparr>"

text \<open>Its audit event; an edit keeps its own reason where the rejection gives none.\<close>

definition rejection_event :: "audit_event \<Rightarrow> rejection \<Rightarrow> audit_event" where
  "rejection_event ev r = ev\<lparr>au_status := rejection_status r, au_why := (case rejection_why r of None \<Rightarrow> au_why ev | Some w \<Rightarrow> Some w),
     au_pattern := rejection_pattern r, au_rules := rule_audit (rejection_findings r) ''rejected''\<rparr>"

subsection \<open>Parking\<close>

text \<open>The metadata of a parked proposal, never with a value that matched a secret pattern.\<close>

definition opt_str :: "string option \<Rightarrow> pyval" where
  "opt_str s = (case s of None \<Rightarrow> PyNone | Some x \<Rightarrow> PyStr x)"

definition list_or_none :: "string list \<Rightarrow> pyval" where
  "list_or_none xs = (if xs = [] then PyNone else PyList (map PyStr xs))"

definition demotion_text :: "demotion \<Rightarrow> string" where
  "demotion_text d = (case d of StatusPromotion \<Rightarrow> ''status_promotion'' | GovernedTarget \<Rightarrow> ''governed_target''
     | GovernedTargetUnverified \<Rightarrow> ''governed_target_unverified'')"

definition common_meta :: "tools \<Rightarrow> string \<Rightarrow> string \<Rightarrow> string \<Rightarrow> pyfloat \<Rightarrow> string \<Rightarrow> string list \<Rightarrow> demotion option \<Rightarrow> lane_verdict \<Rightarrow> frontmatter" where
  "common_meta t agent session owner confidence postimage safe_evidence d v =
     [(PyStr ''agent_identity'', PyStr agent), (PyStr ''source_session'', PyStr session), (PyStr ''proposer_principal'', PyStr owner),
      (PyStr ''confidence'', PyFloat confidence),
      (PyStr ''secret_scan_flagged'', PyBool (t_scan t postimage \<noteq> None)),
      (PyStr ''matching_pattern'', opt_str (map_option pattern_name (t_scan t postimage))),
      (PyStr ''evidence'', list_or_none safe_evidence),
      (PyStr ''demotion_reason'', opt_str (map_option demotion_text d)),
      (PyStr ''injection_suspect'', PyBool (injection_matches v \<noteq> [])),
      (PyStr ''injection_patterns'', list_or_none (injection_pattern_names v))]"

text \<open>The response of a parked proposal: a flagged text is not shown, a demoted one is named, any other is shown.\<close>

definition park_response :: "tools \<Rightarrow> string \<Rightarrow> string \<Rightarrow> string \<Rightarrow> demotion option \<Rightarrow> response" where
  "park_response t pid postimage shown d =
     (let flagged = map_option pattern_name (t_scan t postimage);
          r = response0\<lparr>rs_status := ''pending_confirmation'', rs_pid := Some pid, rs_demotion := d\<rparr>
      in if flagged \<noteq> None then r\<lparr>rs_pattern := flagged\<rparr> else if d \<noteq> None then r else r\<lparr>rs_text := Some shown\<rparr>)"

definition park ::
  "tools \<Rightarrow> answers \<Rightarrow> audit_event \<Rightarrow> proposal \<Rightarrow> string \<Rightarrow> string list \<Rightarrow> demotion option \<Rightarrow> lane_verdict \<Rightarrow> envelope option \<Rightarrow> outcome" where
  "park t ans base pr shown safe_evidence d v capture =
     after_acts [HEnqueue pr]
      (case a_enqueue ans of
         EnqError \<Rightarrow> (Inl XEnqueue, [])
       | EnqBusy \<Rightarrow> refuse (with_status ''rejected_path_lock_busy'' base) (rejected ''rejected_path_lock_busy'' None (Some (pr_target pr)))
       | EnqFull \<Rightarrow> refuse (with_status ''rejected_pending_queue_full'' base) (rejected ''rejected_pending_queue_full'' None (Some (pr_target pr)))
       | EnqOk pid \<Rightarrow> (Inr (park_response t pid (pr_postimage pr) shown d),
           [HAudit (base\<lparr>au_status := ''pending_confirmation'', au_pid := Some pid,
              au_pattern := map_option pattern_name (t_scan t (pr_postimage pr)), au_evidence := safe_evidence,
              au_demotion := d, au_injection := injection_matches v \<noteq> [], au_capture := capture\<rparr>)]))"

text \<open>What a handler makes of the result of the critical section; \<open>demoted\<close> is what it does with a demotion.\<close>

definition conclude ::
  "audit_event \<Rightarrow> string \<Rightarrow> string list \<Rightarrow> lane_verdict \<Rightarrow> envelope option \<Rightarrow> outcome \<Rightarrow> written wr \<Rightarrow> outcome" where
  "conclude base target safe_evidence v capture demoted w =
     after_acts [HWrite (snd w)]
      (case fst w of
         Inr x \<Rightarrow> (Inr (response0\<lparr>rs_status := ''committed'', rs_sha := Some (wr_sha x), rs_state := Some (wr_state x), rs_findings := wr_warnings x\<rparr>),
           [HAudit (base\<lparr>au_status := ''committed'', au_sha := Some (wr_sha x), au_evidence := safe_evidence,
              au_injection := injection_matches v \<noteq> [], au_rules := rule_audit (wr_warnings x) ''warned'', au_capture := capture\<rparr>)])
       | Inl (Rejected r) \<Rightarrow> refuse (rejection_event base r) (rejection_response target r)
       | Inl LockBusy \<Rightarrow> refuse (with_status ''rejected_path_lock_busy'' base) (rejected ''rejected_path_lock_busy'' None (Some target))
       | Inl WriteDemoted \<Rightarrow> demoted
       | Inl s \<Rightarrow> (Inl (XStop s), []))"

definition too_large :: "tools \<Rightarrow> nat \<Rightarrow> string \<Rightarrow> bool option" where
  "too_large t cap text = (if cap = 0 then Some False else map_option (\<lambda>b. length b > cap) (t_encode t text))"

subsection \<open>Proposing an edit\<close>

record edit_req =
  q_target :: string
  q_postimage :: string
  q_base_commit :: pyval
  q_base_blob :: pyval
  q_file_hash :: pyval
  q_reason :: string
  q_session :: string
  q_agent :: string
  q_confidence :: pyfloat
  q_threshold :: pyfloat
  q_can :: bool
  q_evidence :: pyval
  q_contest :: pyval
  q_principal :: string
  q_max :: nat

definition edit_encoding :: "tools \<Rightarrow> edit_req \<Rightarrow> encoding_error option" where
  "edit_encoding t q =
     (case reject_unencodable_identity (t_encode t) [(''agent_identity'', PyStr (q_agent q)), (''source_session'', PyStr (q_session q)),
          (''target_path'', PyStr (q_target q))] of
        Some e \<Rightarrow> Some e
      | None \<Rightarrow> reject_unencodable_text (t_encode t) [(''base_commit'', q_base_commit q), (''base_blob_sha'', q_base_blob q),
          (''target_file_hash'', q_file_hash q)])"

definition edit_reason :: "tools \<Rightarrow> edit_req \<Rightarrow> string" where
  "edit_reason t q = safe_advisory_text (t_encode t) (redact_item (t_scan t) ''reason'' (q_reason q))"

definition given_evidence :: "pyval \<Rightarrow> pyval" where
  "given_evidence v = (if v = PyNone then PyList [] else v)"

definition evidence_strs :: "pyval \<Rightarrow> string list" where
  "evidence_strs v = (case v of PyList vs \<Rightarrow> strs_of vs | _ \<Rightarrow> [])"

definition edit_event :: "tools \<Rightarrow> edit_req \<Rightarrow> string \<Rightarrow> audit_event" where
  "edit_event t q target = \<lparr>au_type = ''propose_edit'', au_status = [], au_agent = q_agent q, au_session = q_session q, au_path = Some target,
     au_tier = None, au_confidence = Some (q_confidence q), au_why = Some (WText (edit_reason t q)), au_pattern = None, au_pid = None,
     au_sha = None, au_evidence = [], au_demotion = None, au_injection = False, au_rules = None, au_override = False, au_capture = None\<rparr>"

text \<open>A credential-shaped path is refused before anything repeats it.\<close>

definition refuse_path :: "tools \<Rightarrow> edit_req \<Rightarrow> secret_match \<Rightarrow> outcome" where
  "refuse_path t q m =
     (let w = WSecretIn (pattern_name m) ''target_path''
      in refuse ((edit_event t q REDACTED_PATH)\<lparr>au_status := ''rejected_secret_detected'', au_why := Some w, au_pattern := Some (pattern_name m)\<rparr>)
           (matched (rejected ''rejected_secret_detected'' (Some w) None) (pattern_name m)))"

text \<open>The checks before the rate limiter: a refusal, or the canonical path and the contest.\<close>

definition contest_refusal :: "audit_event \<Rightarrow> contest_check \<Rightarrow> outcome option" where
  "contest_refusal ev c = (case c of
      ContestSecret n \<Rightarrow> Some (refuse (because (WSecretIn n ''contest'') (with_status ''rejected_secret_detected'' ev)\<lparr>au_pattern := Some n\<rparr>)
        (matched (rejected ''rejected_secret_detected'' (Some (WSecretIn n ''contest'')) None) n))
    | ContestInvalid e \<Rightarrow> Some (refuse (because (WContest e) (with_status ''rejected_invalid_contest'' ev))
        (rejected ''rejected_invalid_contest'' (Some (WContest e)) None))
    | _ \<Rightarrow> None)"

definition edit_early :: "tools \<Rightarrow> edit_req \<Rightarrow> outcome + string \<times> contest_check" where
  "edit_early t q =
     (let ev = edit_event t q (q_target q); contest = validate_contest (t_scan t) (t_encode t) (q_contest q);
          why_path = WPath (path_rejection_reason (q_target q))
      in case validate_evidence (t_encode t) (given_evidence (q_evidence q)) of
           Some e \<Rightarrow> Inl (refuse (because (WEvidence e) (with_status ''rejected_invalid_evidence'' ev))
             (rejected ''rejected_invalid_evidence'' (Some (WEvidence e)) (Some (q_target q))))
         | None \<Rightarrow> (case contest_refusal ev contest of Some r \<Rightarrow> Inl r
         | None \<Rightarrow> (case validate_base_markers (q_base_blob q) (q_file_hash q) (q_base_commit q) of
             Some e \<Rightarrow> Inl (refuse (because (WBase e) (with_status ''rejected_invalid_base'' ev))
               (rejected ''rejected_invalid_base'' (Some (WBase e)) (Some (q_target q))))
           | None \<Rightarrow> (case normalize_target_path (q_target q) of
               None \<Rightarrow> Inl (refuse (because why_path (with_status ''rejected_path_not_indexable'' ev))
                 (rejected ''rejected_path_not_indexable'' (Some why_path) (Some (q_target q))))
             | Some p \<Rightarrow> (if is_writable_path (t_prefixes t) p then Inr (p, contest)
                 else Inl (refuse (because why_path (with_status ''rejected_path_not_indexable'' ev))
                   (rejected ''rejected_path_not_indexable'' (Some why_path) (Some (q_target q)))))))))"

definition contest_meta :: "contest_check \<Rightarrow> frontmatter" where
  "contest_meta c = (case c of
      CleanContest ids why \<Rightarrow> [(PyStr ''intent'', PyStr ''contest''), (PyStr ''contradicts'', PyList (map PyStr ids))]
        @ (case why of None \<Rightarrow> [] | Some s \<Rightarrow> [(PyStr ''contest_reason'', PyStr s)])
    | _ \<Rightarrow> [])"

definition is_contest :: "contest_check \<Rightarrow> bool" where
  "is_contest c \<longleftrightarrow> (case c of CleanContest _ _ \<Rightarrow> True | _ \<Rightarrow> False)"

text \<open>A validated marker: absent, or a string.\<close>

definition marker_of :: "pyval \<Rightarrow> string option" where
  "marker_of v = str_val v"

definition edit_proposal :: "tools \<Rightarrow> edit_req \<Rightarrow> string \<Rightarrow> contest_check \<Rightarrow> string list \<Rightarrow> demotion option \<Rightarrow> lane_verdict \<Rightarrow> proposal" where
  "edit_proposal t q target c safe_evidence d v = \<lparr>pr_type = ''edit'', pr_target = target, pr_postimage = q_postimage q,
     pr_base_commit = (case marker_of (q_base_commit q) of None \<Rightarrow> [] | Some s \<Rightarrow> s), pr_base_blob = marker_of (q_base_blob q),
     pr_file_hash = marker_of (q_file_hash q),
     pr_meta = common_meta t (q_agent q) (q_session q) (q_principal q) (q_confidence q) (q_postimage q) safe_evidence d v
       @ [(PyStr ''reason'', PyStr (edit_reason t q))] @ contest_meta c\<rparr>"

definition edit_write :: "tools \<Rightarrow> edit_req \<Rightarrow> string \<Rightarrow> write_req" where
  "edit_write t q target = \<lparr>w_session = q_session q, w_agent = q_agent q, w_target = target, w_postimage = q_postimage q, w_type = ''edit'',
     w_subject = ''edit: '' @ target, w_tier = t_tier t target, w_confidence = q_confidence q, w_confirmed = False,
     w_base_commit = marker_of (q_base_commit q), w_base_blob = marker_of (q_base_blob q), w_file_hash = marker_of (q_file_hash q),
     w_push_meta = [(''source_session'', q_session q), (''agent_identity'', q_agent q), (''reason'', edit_reason t q)],
     w_owner = None, w_hold_lock = False, w_override = False, w_governed = t_protected t, w_recorder = None\<rparr>"

definition must_park :: "edit_req \<Rightarrow> lane_verdict \<Rightarrow> contest_check \<Rightarrow> bool" where
  "must_park q v c \<longleftrightarrow> float_less (q_confidence q) (q_threshold q) \<or> \<not> q_can q \<or> demotion_reason v \<noteq> None \<or> is_contest c"

definition park_or_commit :: "tools \<Rightarrow> answers \<Rightarrow> edit_req \<Rightarrow> audit_event \<Rightarrow> string \<Rightarrow> contest_check \<Rightarrow> lane_verdict \<Rightarrow> outcome" where
  "park_or_commit t ans q base target c v =
     (let safe = redact_evidence (t_scan t) (evidence_strs (q_evidence q));
          parked = (\<lambda>d. park t ans base (edit_proposal t q target c safe d v) (q_postimage q) safe d v None)
      in if must_park q v c then parked (demotion_reason v)
         else conclude base target safe v None (parked (Some GovernedTarget)) (commit_in_worktree t (a_env ans) (edit_write t q target)))"

text \<open>After the rate limiter: the contest against the index, the size, the lane.\<close>

definition edit_late :: "tools \<Rightarrow> answers \<Rightarrow> edit_req \<Rightarrow> audit_event \<Rightarrow> string \<Rightarrow> contest_check \<Rightarrow> outcome" where
  "edit_late t ans q base target c =
     (case (case c of CleanContest ids why \<Rightarrow> check_contest_index ids target (index_view_of (a_index ans)) | _ \<Rightarrow> None) of
        Some e \<Rightarrow>
          (let status = (if e = ContestUnavailable then ''rejected_contest_index_unavailable'' else ''rejected_invalid_contest'')
           in refuse (because (WContestIndex e) (with_status status base)) (rejected status (Some (WContestIndex e)) None))
      | None \<Rightarrow> (case too_large t (q_max q) (q_postimage q) of
          None \<Rightarrow> (Inl XEncode, [])
        | Some True \<Rightarrow> refuse (with_status ''rejected_payload_too_large'' base) (rejected ''rejected_payload_too_large'' None (Some target))
        | Some False \<Rightarrow>
            (case governed_lane_check t (a_index ans) True (q_confidence q) (q_threshold q) (q_can q) (q_postimage q) target of
               Inl e \<Rightarrow> (Inl XUnhashable, [])
             | Inr v \<Rightarrow> park_or_commit t ans q base target c v)))"

definition kb_propose_edit :: "tools \<Rightarrow> answers \<Rightarrow> edit_req \<Rightarrow> outcome" where
  "kb_propose_edit t ans q =
     (case edit_encoding t q of
        Some e \<Rightarrow> (Inr (rejected ''rejected_invalid_encoding'' (Some (WEncoding e)) None), [])
      | None \<Rightarrow> (case t_scan t (q_target q) of Some m \<Rightarrow> refuse_path t q m
      | None \<Rightarrow> (case edit_early t q of Inl r \<Rightarrow> r
      | Inr (target, c) \<Rightarrow>
          (let base = (edit_event t q target)\<lparr>au_tier := Some (t_tier t target)\<rparr>
           in if blocks (t_blocklist t) target (t_tier t target)
              then refuse (with_status ''rejected_path_blocked'' base) (rejected ''rejected_path_blocked'' (Some WTier) (Some target))
              else after_acts [HRate]
                (if \<not> a_allow ans then refuse (with_status ''rejected_rate_limited'' base) (rejected ''rejected_rate_limited'' None None)
                 else edit_late t ans q base target c)))))"

subsection \<open>Proposing a memory\<close>

record memory_req =
  m_text :: string
  m_tags :: "pyval list"
  m_session :: string
  m_agent :: string
  m_confidence :: pyfloat
  m_threshold :: pyfloat
  m_can :: bool
  m_evidence :: pyval
  m_capture :: pyval
  m_principal :: string
  m_max :: nat
  m_actor :: string
  m_now :: string

definition memory_path :: "tools \<Rightarrow> memory_req \<Rightarrow> string" where
  "memory_path t q = memory_target (t_scan t) (t_sha256 t) (t_inbox t) (t_today t) (m_session q) (m_text q)"

definition memory_event :: "tools \<Rightarrow> memory_req \<Rightarrow> audit_event" where
  "memory_event t q = \<lparr>au_type = ''propose_memory'', au_status = [], au_agent = m_agent q, au_session = m_session q,
     au_path = Some (memory_path t q), au_tier = None, au_confidence = Some (m_confidence q), au_why = None, au_pattern = None, au_pid = None,
     au_sha = None, au_evidence = [], au_demotion = None, au_injection = False, au_rules = None, au_override = False, au_capture = None\<rparr>"

definition memory_early :: "tools \<Rightarrow> memory_req \<Rightarrow> outcome + envelope option" where
  "memory_early t q =
     (let ev = memory_event t q; path = memory_path t q; why_path = WPath (path_rejection_reason path)
      in case validate_evidence (t_encode t) (given_evidence (m_evidence q)) of
           Some e \<Rightarrow> Inl (refuse (because (WEvidence e) (with_status ''rejected_invalid_evidence'' ev))
             (rejected ''rejected_invalid_evidence'' (Some (WEvidence e)) (Some path)))
         | None \<Rightarrow> (case validate_capture (t_scan t) (t_encode t) (t_sha256 t) (m_text q) (m_capture q) of
             SecretFound n \<Rightarrow> Inl (refuse (because (WSecretIn n ''capture'') (with_status ''rejected_secret_detected'' ev)\<lparr>au_pattern := Some n\<rparr>)
               (matched (rejected ''rejected_secret_detected'' (Some (WSecretIn n ''capture'')) (Some path)) n))
           | Refused e \<Rightarrow> Inl (refuse (because (WCapture e) (with_status ''rejected_invalid_capture'' ev))
               (rejected ''rejected_invalid_capture'' (Some (WCapture e)) (Some path)))
           | c \<Rightarrow> (if \<not> is_writable_path (t_prefixes t) path
               then Inl (refuse (because why_path (with_status ''rejected_path_not_indexable'' ev))
                 (rejected ''rejected_path_not_indexable'' (Some why_path) (Some path)))
               else Inr (case c of Accepted e \<Rightarrow> Some e | _ \<Rightarrow> None))))"

definition memory_postimage :: "tools \<Rightarrow> memory_req \<Rightarrow> envelope option \<Rightarrow> string" where
  "memory_postimage t q capture = render_memory (t_dump t) (t_py_str t) (m_actor q) (m_now q) (m_tags q) (m_agent q)
     (evidence_strs (m_evidence q)) capture (m_text q)"

definition memory_proposal :: "tools \<Rightarrow> memory_req \<Rightarrow> envelope option \<Rightarrow> string list \<Rightarrow> lane_verdict \<Rightarrow> proposal" where
  "memory_proposal t q capture safe_evidence v = \<lparr>pr_type = ''memory'', pr_target = memory_path t q, pr_postimage = memory_postimage t q capture,
     pr_base_commit = ''HEAD'', pr_base_blob = None, pr_file_hash = None,
     pr_meta = (case capture of None \<Rightarrow> [] | Some e \<Rightarrow> [(PyStr ''capture'', env_value e)])
       @ common_meta t (m_agent q) (m_session q) (m_principal q) (m_confidence q) (memory_postimage t q capture) safe_evidence (demotion_reason v) v
       @ [(PyStr ''tags'', PyList (map (\<lambda>x. PyStr (redact_item (t_scan t) ''tag'' (text_of (t_py_str t) x))) (m_tags q)))]\<rparr>"

definition memory_write :: "tools \<Rightarrow> memory_req \<Rightarrow> envelope option \<Rightarrow> write_req" where
  "memory_write t q capture = \<lparr>w_session = m_session q, w_agent = m_agent q, w_target = memory_path t q,
     w_postimage = memory_postimage t q capture, w_type = ''memory'', w_subject = ''propose: '' @ memory_path t q,
     w_tier = t_tier t (memory_path t q), w_confidence = m_confidence q, w_confirmed = False, w_base_commit = None, w_base_blob = None,
     w_file_hash = None, w_push_meta = [(''source_session'', m_session q), (''agent_identity'', m_agent q)], w_owner = None,
     w_hold_lock = False, w_override = False, w_governed = False, w_recorder = None\<rparr>"

definition memory_late :: "tools \<Rightarrow> answers \<Rightarrow> memory_req \<Rightarrow> audit_event \<Rightarrow> envelope option \<Rightarrow> outcome" where
  "memory_late t ans q base capture =
     (let post = memory_postimage t q capture; path = memory_path t q; safe = redact_evidence (t_scan t) (evidence_strs (m_evidence q))
      in case too_large t (m_max q) post of
           None \<Rightarrow> (Inl XEncode, [])
         | Some True \<Rightarrow> refuse (with_status ''rejected_payload_too_large'' base) (rejected ''rejected_payload_too_large'' None (Some path))
         | Some False \<Rightarrow>
             (case governed_lane_check t (a_index ans) False (m_confidence q) (m_threshold q) (m_can q) post path of
                Inl e \<Rightarrow> (Inl XUnhashable, [])
              | Inr v \<Rightarrow>
                  (if float_less (m_confidence q) (m_threshold q) \<or> \<not> m_can q \<or> demotion_reason v \<noteq> None
                   then park t ans base (memory_proposal t q capture safe v) (m_text q) safe (demotion_reason v) v capture
                   else conclude base path safe v capture (Inl (XStop WriteDemoted), [])
                     (commit_in_worktree t (a_env ans) (memory_write t q capture)))))"

definition kb_propose_memory :: "tools \<Rightarrow> answers \<Rightarrow> memory_req \<Rightarrow> outcome" where
  "kb_propose_memory t ans q =
     (case reject_unencodable_identity (t_encode t) [(''agent_identity'', PyStr (m_agent q)), (''source_session'', PyStr (m_session q))] of
        Some e \<Rightarrow> (Inr (rejected ''rejected_invalid_encoding'' (Some (WEncoding e)) None), [])
      | None \<Rightarrow> (case memory_early t q of Inl r \<Rightarrow> r
      | Inr capture \<Rightarrow>
          (let path = memory_path t q; base = (memory_event t q)\<lparr>au_tier := Some (t_tier t path)\<rparr>
           in if blocks (t_blocklist t) path (t_tier t path)
              then refuse (with_status ''rejected_path_blocked'' base) (rejected ''rejected_path_blocked'' (Some WTier) (Some path))
              else after_acts [HRate]
                (if \<not> a_allow ans then refuse (with_status ''rejected_rate_limited'' base) (rejected ''rejected_rate_limited'' None None)
                 else memory_late t ans q base capture))))"

subsection \<open>When an agent's write reaches git\<close>

definition writes :: "outcome \<Rightarrow> action list set" where
  "writes m = {as. HWrite as \<in> set (snd m)}"

lemma writes_simps [simp]:
  "writes (refuse ev r) = {}" "writes (after_acts [HRate] m) = writes m" "writes (after_acts [HEnqueue pr] m) = writes m"
  "writes (after_acts [HWrite as] m) = insert as (writes m)" "writes (x, []) = {}" "writes (x, [HAudit ev]) = {}"
  by (auto simp: writes_def refuse_def after_acts_def)

lemma writes_park [simp]: "writes (park t ans base pr shown safe d v capture) = {}"
  by (simp add: park_def split: enqueue_answer.split)

lemma writes_conclude: "writes demoted = {} \<Longrightarrow> writes (conclude base target safe v capture demoted w) = {snd w}"
  by (simp add: conclude_def split: sum.split stop.split)

text \<open>A refusal changes nothing and is recorded with the status it answers.\<close>

definition refusal :: "outcome \<Rightarrow> bool" where
  "refusal m \<longleftrightarrow> (\<exists>ev x. m = refuse ev x \<and> au_status ev = rs_status x)"

lemma refusal_refuse [simp]: "au_status ev = rs_status x \<Longrightarrow> refusal (refuse ev x)"
  by (auto simp: refusal_def)

lemma record_simps [simp]:
  "au_status (because w ev) = au_status ev" "au_status (with_status s ev) = s" "rs_status (matched r p) = rs_status r"
  "rs_status (rejected s ws shown) = s"
  by (simp_all add: because_def with_status_def matched_def rejected_def)

lemma contest_refused: "contest_refusal ev c = Some r \<Longrightarrow> refusal r"
  by (cases c) (auto simp: contest_refusal_def intro!: refusal_refuse)

lemma early_refused: "edit_early t q = Inl r \<Longrightarrow> refusal r"
  by (auto simp: edit_early_def Let_def split: option.splits if_splits intro!: refusal_refuse dest: contest_refused)

lemma writes_refusal: "refusal m \<Longrightarrow> writes m = {}"
  by (auto simp: refusal_def)

lemma writes_early: "edit_early t q = Inl r \<Longrightarrow> writes r = {}"
  by (rule writes_refusal) (rule early_refused)

lemma early_passed: "edit_early t q = Inr (p, c) \<longleftrightarrow>
    validate_evidence (t_encode t) (given_evidence (q_evidence q)) = None \<and> c = validate_contest (t_scan t) (t_encode t) (q_contest q) \<and>
    contest_refusal (edit_event t q (q_target q)) c = None \<and> validate_base_markers (q_base_blob q) (q_file_hash q) (q_base_commit q) = None \<and>
    normalize_target_path (q_target q) = Some p \<and> is_writable_path (t_prefixes t) p"
  by (auto simp: edit_early_def Let_def split: option.splits if_splits)

text \<open>What has been checked when the critical section starts.\<close>

definition admitted :: "tools \<Rightarrow> answers \<Rightarrow> edit_req \<Rightarrow> string \<Rightarrow> lane_verdict \<Rightarrow> bool" where
  "admitted t ans q p v \<longleftrightarrow> normalize_target_path (q_target q) = Some p \<and> is_writable_path (t_prefixes t) p \<and>
     \<not> blocks (t_blocklist t) p (t_tier t p) \<and> a_allow ans \<and> t_scan t (q_target q) = None \<and>
     edit_encoding t q = None \<and> validate_evidence (t_encode t) (given_evidence (q_evidence q)) = None \<and>
     validate_base_markers (q_base_blob q) (q_file_hash q) (q_base_commit q) = None \<and>
     contest_refusal (edit_event t q (q_target q)) (validate_contest (t_scan t) (t_encode t) (q_contest q)) = None \<and>
     too_large t (q_max q) (q_postimage q) = Some False \<and>
     governed_lane_check t (a_index ans) True (q_confidence q) (q_threshold q) (q_can q) (q_postimage q) p = Inr v \<and>
     \<not> must_park q v (validate_contest (t_scan t) (t_encode t) (q_contest q))"

lemma edit_writes:
  assumes "as \<in> writes (kb_propose_edit t ans q)"
  obtains p v where "admitted t ans q p v" "as = snd (commit_in_worktree t (a_env ans) (edit_write t q p))"
proof -
  from assms obtain p c where e: "edit_early t q = Inr (p, c)" "t_scan t (q_target q) = None" "\<not> blocks (t_blocklist t) p (t_tier t p)" "a_allow ans"
      "edit_encoding t q = None" "as \<in> writes (edit_late t ans q ((edit_event t q p)\<lparr>au_tier := Some (t_tier t p)\<rparr>) p c)"
    by (auto simp: kb_propose_edit_def refuse_path_def Let_def writes_early split: option.splits sum.splits if_splits)
  from e(6) obtain v where v: "too_large t (q_max q) (q_postimage q) = Some False" "governed_lane_check t (a_index ans) True (q_confidence q) (q_threshold q) (q_can q) (q_postimage q) p = Inr v"
      "as \<in> writes (park_or_commit t ans q ((edit_event t q p)\<lparr>au_tier := Some (t_tier t p)\<rparr>) p c v)"
    by (auto simp: edit_late_def Let_def split: option.splits sum.splits bool.splits if_splits)
  from v(3) have "\<not> must_park q v c" "as = snd (commit_in_worktree t (a_env ans) (edit_write t q p))"
    by (auto simp: park_or_commit_def Let_def writes_conclude split: if_splits)
  with e v(1,2) show ?thesis using that[of p v] unfolding admitted_def early_passed by blast
qed

text \<open>C3. A commit that an agent's edit lands has passed everything: the texts can be encoded, evidence and markers are well formed,
  the caller may commit, is not rate limited and not below the threshold, it contests nothing, the size is within the bound,
  the path is canonical, writable, not blocked and resolves below the worktree, neither path nor text looks like a credential,
  the base was refreshed if a marker depends on it and every marker matches, no writing rule is broken, the document is valid
  in the commit, the lane did not demote it, and the bytes it replaces are not in force.\<close>

theorem agent_commit_passed_everything:
  assumes "as \<in> writes (kb_propose_edit t ans q)" and "landed as"
  shows "\<exists>p wt. normalize_target_path (q_target q) = Some p \<and> is_writable_path (t_prefixes t) p \<and> \<not> blocks (t_blocklist t) p (t_tier t p) \<and>
    edit_encoding t q = None \<and> validate_evidence (t_encode t) (given_evidence (q_evidence q)) = None \<and>
    validate_base_markers (q_base_blob q) (q_file_hash q) (q_base_commit q) = None \<and>
    a_allow ans \<and> too_large t (q_max q) (q_postimage q) = Some False \<and>
    \<not> float_less (q_confidence q) (q_threshold q) \<and> q_can q \<and> validate_contest (t_scan t) (t_encode t) (q_contest q) = NoContest \<and>
    (\<exists>v. governed_lane_check t (a_index ans) True (q_confidence q) (q_threshold q) (q_can q) (q_postimage q) p = Inr v \<and> demotion_reason v = None) \<and>
    t_scan t (q_target q) = None \<and> t_scan t p = None \<and> t_scan t (q_postimage q) = None \<and>
    e_worktree (a_env ans) = Some wt \<and> safe_join_under_root (t_realpath t) wt p \<noteq> None \<and>
    (cas_enforceable (edit_write t q p) \<longrightarrow> e_refresh (a_env ans) = None) \<and>
    check_cas (t_sha1 t) (t_sha256 t) (e_git (a_env ans)) (e_file (a_env ans)) (marker_of (q_base_commit q)) (marker_of (q_base_blob q)) (marker_of (q_file_hash q)) = CasOk \<and>
    (\<exists>warnings. writing_rule_gate (t_lint t) (t_decode t) (t_policy t) p (e_file (a_env ans)) (q_postimage q) = Inr warnings) \<and>
    validation t (a_env ans) (edit_write t q p) = Inr [] \<and>
    (t_protected t \<longrightarrow> (\<forall>bytes. e_file (a_env ans) = Some bytes \<longrightarrow>
       (\<exists>base. t_decode t bytes = Some base \<and> \<not> is_base_content_in_force (t_load t) (t_inbox t) base p (t_today t))))"
proof -
  from assms(1) obtain p v where a: "admitted t ans q p v" "as = snd (commit_in_worktree t (a_env ans) (edit_write t q p))"
    by (rule edit_writes)
  from assms(2) obtain msg where "ACommit msg True \<in> set (snd (commit_in_worktree t (a_env ans) (edit_write t q p)))"
    unfolding a(2) by (auto simp: landed_def)
  then obtain wt g where g: "gates t (a_env ans) wt (edit_write t q p) = Inr g" and wt: "e_worktree (a_env ans) = Some wt"
    by (cases rule: section_cases[of "edit_write t q p" "a_env ans" t]) (auto simp: list_all_iff)
  note gp = g[unfolded gates_passed]
  have fields: "w_base_commit (edit_write t q p) = marker_of (q_base_commit q)" "w_base_blob (edit_write t q p) = marker_of (q_base_blob q)"
    "w_file_hash (edit_write t q p) = marker_of (q_file_hash q)" "w_target (edit_write t q p) = p" "w_postimage (edit_write t q p) = q_postimage q"
    by (simp_all add: edit_write_def)
  have clean: "t_scan t p = None" "t_scan t (q_postimage q) = None"
    using gp by (auto simp: secret_gate_def edit_write_def Let_def split: if_splits)
  have base: "t_protected t \<longrightarrow> (\<forall>bytes. e_file (a_env ans) = Some bytes \<longrightarrow>
       (\<exists>base. t_decode t bytes = Some base \<and> \<not> is_base_content_in_force (t_load t) (t_inbox t) base p (t_today t)))"
    using gp by (auto simp: backstop_def edit_write_def split: option.splits if_splits)
  have nc: "validate_contest (t_scan t) (t_encode t) (q_contest q) = NoContest"
    using a(1) by (cases "validate_contest (t_scan t) (t_encode t) (q_contest q)")
      (auto simp: admitted_def must_park_def is_contest_def contest_refusal_def)
  have parked: "\<not> float_less (q_confidence q) (q_threshold q)" "q_can q" "demotion_reason v = None"
    using a(1) by (auto simp: admitted_def must_park_def)
  note ad = a(1)[unfolded admitted_def]
  have late: "safe_join_under_root (t_realpath t) wt p \<noteq> None" "cas_enforceable (edit_write t q p) \<longrightarrow> e_refresh (a_env ans) = None"
    "check_cas (t_sha1 t) (t_sha256 t) (e_git (a_env ans)) (e_file (a_env ans)) (marker_of (q_base_commit q)) (marker_of (q_base_blob q)) (marker_of (q_file_hash q)) = CasOk"
    "\<exists>warnings. writing_rule_gate (t_lint t) (t_decode t) (t_policy t) p (e_file (a_env ans)) (q_postimage q) = Inr warnings"
    "validation t (a_env ans) (edit_write t q p) = Inr []"
    using gp unfolding fields by auto
  show ?thesis
    by (rule exI[of _ p], rule exI[of _ wt]) (intro conjI exI[of _ v]; use ad wt clean base nc parked late in blast)
qed

subsection \<open>Agents never promote\<close>

lemma collision_more: "collision i target idx None = Some p \<Longrightarrow> collision i target idx snap \<noteq> None"
  by (auto simp: collision_def split: option.splits if_splits)

lemma dependent_codes:
  "error_code (MissingStatus p) \<in> set SNAPSHOT_DEPENDENT_CODES"
  by (simp add: SNAPSHOT_DEPENDENT_CODES_def)

text \<open>What the prediction of the tool layer finds, apart from what depends on the committed tree, the commit path
  finds as well, as long as the index answers the same.\<close>

lemma prediction_sound:
  assumes "validate_postimage scan load env idx None [] target post = Inr errs"
    and "list_ex (\<lambda>e. error_code e \<notin> set SNAPSHOT_DEPENDENT_CODES) errs"
  shows "validate_postimage scan load env idx (Some w) tr target post \<noteq> Inr []"
proof (cases "parse_frontmatter load post")
  case (Inl e)
  then show ?thesis by (simp add: validate_postimage_def)
next
  case (Inr fb)
  obtain fm body where fb: "fb = (fm, body)" by (cases fb)
  let ?enums = "if is_reserved target then Inr [] else enum_errors fm [(''type'', TYPES), (''status'', WRITE_STATUSES), (''tier'', TIERS)]"
  obtain enums where e: "?enums = Inr enums"
    using assms(1) Inr fb by (cases ?enums) (auto simp: validate_postimage_def)
  have "enums \<noteq> [] \<or> (\<exists>p. collision (effective_doc_id fm target) target idx None = Some p)"
    using assms Inr fb e dependent_codes
    by (auto simp: validate_postimage_def Let_def split: option.splits if_splits)
  then show ?thesis
    using Inr fb e collision_more[of "effective_doc_id fm target" target idx _ "tree w"]
    by (auto simp: validate_postimage_def Let_def split: option.splits)
qed

text \<open>With protection on, an edit that lands was not demoted: it claims no status that governs, and the index was read and does not
  hold the target in force. The index must say the same at the check and at the commit.\<close>

lemma landed_edit_not_demoted:
  assumes "as \<in> writes (kb_propose_edit t ans q)" and "landed as" and "t_protected t"
    and "index_view_of (e_index (a_env ans)) = index_view_of (a_index ans)"
  shows "check_status_clamp (t_load t) (q_postimage q) = None \<and>
    (\<exists>p. normalize_target_path (q_target q) = Some p \<and> governed_target_state (a_index ans) p (t_today t) = TargetNotInForce)"
proof -
  from assms(1) obtain p v where a: "admitted t ans q p v" "as = snd (commit_in_worktree t (a_env ans) (edit_write t q p))"
    by (rule edit_writes)
  from assms(2) obtain msg where "ACommit msg True \<in> set (snd (commit_in_worktree t (a_env ans) (edit_write t q p)))"
    unfolding a(2) by (auto simp: landed_def)
  then obtain wt g where g: "gates t (a_env ans) wt (edit_write t q p) = Inr g"
    by (cases rule: section_cases[of "edit_write t q p" "a_env ans" t]) (auto simp: list_all_iff)
  have clean: "t_scan t p = None" "t_scan t (q_postimage q) = None"
    using g unfolding gates_passed by (auto simp: secret_gate_def edit_write_def Let_def split: if_splits)
  have valid: "validation t (a_env ans) (edit_write t q p) = Inr []" using g unfolding gates_passed by blast
  have sound: "\<not> list_ex (\<lambda>e. error_code e \<notin> set SNAPSHOT_DEPENDENT_CODES) errs"
    if "validate_postimage (t_scan t) (t_load t) (t_inbox t) (index_view_of (a_index ans)) None [] p (q_postimage q) = Inr errs" for errs
    using prediction_sound[OF that] valid by (auto simp: validation_def edit_write_def assms(4))
  have v: "governed_lane_check t (a_index ans) True (q_confidence q) (q_threshold q) (q_can q) (q_postimage q) p = Inr v"
      "demotion_reason v = None" using a(1) by (auto simp: admitted_def must_park_def)
  have "demotion_reason (evaluate_governed_lane (t_load t) (a_index ans) True (q_postimage q) p (t_today t)) = None"
    using v assms(3) sound clean by (auto simp: governed_lane_check_def Let_def split: sum.splits if_splits)
  then have "check_status_clamp (t_load t) (q_postimage q) = None" "governed_target_state (a_index ans) p (t_today t) = TargetNotInForce"
    unfolding not_demoted_iff by auto
  then show ?thesis using a(1) by (auto simp: admitted_def)
qed

text \<open>Without that condition it fails: a demotion is cancelled because the index still knows the id under another path, the
  index is refreshed before the commit, and the document that claims to govern is committed without an operator.\<close>

definition governing :: pyval where
  "governing = PyDict [(PyStr ''type'', PyStr ''decision''), (PyStr ''status'', PyStr ''active''), (PyStr ''id'', PyStr ''D-1'')]"

definition promote_tools :: tools where
  "promote_tools = sample_tools\<lparr>t_load := (\<lambda>y. Some governing)\<rparr>"

definition stale_index :: live_index where
  "stale_index = \<lparr>l_map = Some [(''D-1'', ''decisions/old.md'')], l_get = (\<lambda>i. None), l_excluded = (\<lambda>d. Some [])\<rparr>"

definition fresh_index :: live_index where
  "fresh_index = \<lparr>l_map = Some [], l_get = (\<lambda>i. None), l_excluded = (\<lambda>d. Some [])\<rparr>"

definition promote_answers :: answers where
  "promote_answers = \<lparr>a_index = Some stale_index, a_allow = True, a_enqueue = EnqBusy,
     a_env = sample_env\<lparr>e_file := None, e_index := Some fresh_index\<rparr>\<rparr>"

definition promote_req :: edit_req where
  "promote_req = \<lparr>q_target = ''decisions/new.md'', q_postimage = ''---'' @ [newline] @ ''x'' @ [newline] @ ''---'' @ [newline], q_base_commit = PyNone,
     q_base_blob = PyNone, q_file_hash = PyNone, q_reason = ''r'', q_session = ''s'', q_agent = ''a'', q_confidence = FNum 1, q_threshold = FNum (17/20),
     q_can = True, q_evidence = PyNone, q_contest = PyNone, q_principal = ''p'', q_max = 0\<rparr>"

lemma edit_writesI:
  assumes "edit_encoding t q = None" and "t_scan t (q_target q) = None" and "edit_early t q = Inr (p, NoContest)"
    and "\<not> blocks (t_blocklist t) p (t_tier t p)" and "a_allow ans" and "q_max q = 0"
    and "governed_lane_check t (a_index ans) True (q_confidence q) (q_threshold q) (q_can q) (q_postimage q) p = Inr v"
    and "\<not> must_park q v NoContest"
  shows "snd (commit_in_worktree t (a_env ans) (edit_write t q p)) \<in> writes (kb_propose_edit t ans q)"
  using assms by (simp add: kb_propose_edit_def edit_late_def park_or_commit_def writes_conclude too_large_def Let_def)

lemma landedI: "list_ex (\<lambda>a. case a of ACommit msg b \<Rightarrow> b | _ \<Rightarrow> False) as \<Longrightarrow> landed as"
proof -
  assume "list_ex (\<lambda>a. case a of ACommit msg b \<Rightarrow> b | _ \<Rightarrow> False) as"
  then obtain a where a: "a \<in> set as" "case a of ACommit msg b \<Rightarrow> b | _ \<Rightarrow> False" by (auto simp: list_ex_iff)
  have "\<exists>msg. a = ACommit msg True" using a(2) by (cases a) auto
  with a(1) show "landed as" by (auto simp: landed_def)
qed

lemma promote_cancelled:
  "\<exists>v. governed_lane_check promote_tools (a_index promote_answers) True (q_confidence promote_req) (q_threshold promote_req) (q_can promote_req)
     (q_postimage promote_req) ''decisions/new.md'' = Inr v \<and> demotion_reason v = None"
proof -
  let ?v = "evaluate_governed_lane (t_load promote_tools) (a_index promote_answers) True (q_postimage promote_req) ''decisions/new.md'' (t_today promote_tools)"
  have clamp: "check_status_clamp (t_load promote_tools) (q_postimage promote_req) \<noteq> None" by code_simp
  then have d: "demotion_reason ?v \<noteq> None" by (simp add: evaluate_governed_lane_def Let_def)
  have w: "would_auto_commit (q_confidence promote_req) (q_threshold promote_req) (q_can promote_req)" "t_protected promote_tools" by code_simp+
  have "case validate_postimage (t_scan promote_tools) (t_load promote_tools) (t_inbox promote_tools) (index_view_of (a_index promote_answers)) None []
      ''decisions/new.md'' (q_postimage promote_req) of Inl e \<Rightarrow> False | Inr errs \<Rightarrow> list_ex (\<lambda>e. error_code e \<notin> set SNAPSHOT_DEPENDENT_CODES) errs"
    by code_simp
  with d w show ?thesis unfolding governed_lane_check_def Let_def by (auto split: sum.splits)
qed

theorem refreshed_index_promotes:
  "\<exists>as. as \<in> writes (kb_propose_edit promote_tools promote_answers promote_req) \<and> landed as \<and> t_protected promote_tools
    \<and> check_status_clamp (t_load promote_tools) (q_postimage promote_req) = Some ''active''"
proof -
  let ?as = "snd (commit_in_worktree promote_tools (a_env promote_answers) (edit_write promote_tools promote_req ''decisions/new.md''))"
  from promote_cancelled obtain v where v: "governed_lane_check promote_tools (a_index promote_answers) True (q_confidence promote_req)
      (q_threshold promote_req) (q_can promote_req) (q_postimage promote_req) ''decisions/new.md'' = Inr v" "demotion_reason v = None" by blast
  have "?as \<in> writes (kb_propose_edit promote_tools promote_answers promote_req)"
  proof (rule edit_writesI[OF _ _ _ _ _ _ v(1)])
    show "edit_encoding promote_tools promote_req = None" by code_simp
    show "t_scan promote_tools (q_target promote_req) = None" by code_simp
    have "edit_early promote_tools promote_req = Inr (''decisions/new.md'', validate_contest (t_scan promote_tools) (t_encode promote_tools) (q_contest promote_req))"
      unfolding early_passed by (intro conjI refl; code_simp)
    then show "edit_early promote_tools promote_req = Inr (''decisions/new.md'', NoContest)" by (simp add: promote_req_def validate_contest_def)
    show "\<not> blocks (t_blocklist promote_tools) ''decisions/new.md'' (t_tier promote_tools ''decisions/new.md'')" by code_simp
    show "a_allow promote_answers" "q_max promote_req = 0" by (simp_all add: promote_answers_def promote_req_def)
    show "\<not> must_park promote_req v NoContest" using v(2) by (simp add: must_park_def promote_req_def is_contest_def)
  qed
  moreover have "landed ?as" by (rule landedI) code_simp
  moreover have "t_protected promote_tools" by (simp add: promote_tools_def sample_tools_def)
  moreover have "check_status_clamp (t_load promote_tools) (q_postimage promote_req) = Some ''active''" by code_simp
  ultimately show ?thesis by blast
qed

definition plain_answers :: answers where
  "plain_answers = \<lparr>a_index = Some fresh_index, a_allow = True, a_enqueue = EnqBusy, a_env = sample_env\<lparr>e_index := Some fresh_index\<rparr>\<rparr>"

definition plain_req :: edit_req where
  "plain_req = promote_req\<lparr>q_target := ''memory/a.md'', q_postimage := ''new''\<rparr>"

definition plain_conf :: "pyfloat \<Rightarrow> edit_req" where
  "plain_conf c = plain_req\<lparr>q_confidence := c\<rparr>"

definition plain_write :: "pyfloat \<Rightarrow> action list" where
  "plain_write c = snd (commit_in_worktree sample_tools (a_env plain_answers) (edit_write sample_tools (plain_conf c) ''memory/a.md''))"

lemma plain_conf_simps [simp]:
  "q_target (plain_conf c) = ''memory/a.md''" "q_postimage (plain_conf c) = ''new''" "q_base_commit (plain_conf c) = PyNone"
  "q_base_blob (plain_conf c) = PyNone" "q_file_hash (plain_conf c) = PyNone" "q_session (plain_conf c) = ''s''" "q_agent (plain_conf c) = ''a''"
  "q_confidence (plain_conf c) = c" "q_threshold (plain_conf c) = FNum (17/20)" "q_can (plain_conf c)" "q_evidence (plain_conf c) = PyNone"
  "q_contest (plain_conf c) = PyNone" "q_max (plain_conf c) = 0"
  by (simp_all add: plain_conf_def plain_req_def promote_req_def)

lemma plain_written:
  assumes "\<not> float_less c (FNum (17/20))"
  shows "plain_write c \<in> writes (kb_propose_edit sample_tools plain_answers (plain_conf c))"
proof -
  let ?v = "evaluate_governed_lane (t_load sample_tools) (a_index plain_answers) True ''new'' ''memory/a.md'' (t_today sample_tools)"
  have "check_status_clamp (t_load sample_tools) ''new'' = None" by code_simp
  moreover have "governed_target_state (a_index plain_answers) ''memory/a.md'' (t_today sample_tools) = TargetNotInForce" by code_simp
  ultimately have d: "demotion_reason ?v = None" unfolding not_demoted_iff by simp
  have p: "t_protected sample_tools" "t_encode sample_tools = Some" by (simp_all add: sample_tools_def)
  have v: "governed_lane_check sample_tools (a_index plain_answers) True (q_confidence (plain_conf c)) (q_threshold (plain_conf c)) (q_can (plain_conf c))
      (q_postimage (plain_conf c)) ''memory/a.md'' = Inr ?v" by (simp add: governed_lane_check_def Let_def p d)
  show ?thesis
    unfolding plain_write_def
  proof (rule edit_writesI[OF _ _ _ _ _ _ v])
    show "edit_encoding sample_tools (plain_conf c) = None" by (simp add: edit_encoding_def p(2))
    show "t_scan sample_tools (q_target (plain_conf c)) = None" by (simp add: sample_tools_def)
    have "validate_evidence (t_encode sample_tools) (given_evidence PyNone) = None" "validate_base_markers PyNone PyNone PyNone = None"
      "normalize_target_path ''memory/a.md'' = Some ''memory/a.md''" "is_writable_path (t_prefixes sample_tools) ''memory/a.md''" by code_simp+
    then show "edit_early sample_tools (plain_conf c) = Inr (''memory/a.md'', NoContest)"
      unfolding early_passed by (simp add: validate_contest_def contest_refusal_def)
    show "\<not> blocks (t_blocklist sample_tools) ''memory/a.md'' (t_tier sample_tools ''memory/a.md'')" by code_simp
    show "a_allow plain_answers" "q_max (plain_conf c) = 0" by (simp_all add: plain_answers_def)
    show "\<not> must_park (plain_conf c) ?v NoContest" using d assms by (simp add: must_park_def is_contest_def)
  qed
qed

lemma plain_lands: "plain_write (FNum 1) \<in> writes (kb_propose_edit sample_tools plain_answers (plain_conf (FNum 1)))" "landed (plain_write (FNum 1))"
  by (rule plain_written, simp) (unfold plain_write_def, rule landedI, code_simp)

theorem agent_commit_passed_everything_witness:
  "\<exists>p. normalize_target_path (q_target (plain_conf (FNum 1))) = Some p \<and> \<not> float_less (q_confidence (plain_conf (FNum 1))) (q_threshold (plain_conf (FNum 1))) \<and>
     validation sample_tools (a_env plain_answers) (edit_write sample_tools (plain_conf (FNum 1)) p) = Inr []"
  using agent_commit_passed_everything[OF plain_lands] by blast

text \<open>A confidence that is not a number is below no threshold: such a proposal is not parked for it.\<close>

theorem nan_confidence_commits:
  "\<exists>as. as \<in> writes (kb_propose_edit sample_tools plain_answers (plain_conf FNaN)) \<and> landed as"
proof (intro exI conjI)
  show "plain_write FNaN \<in> writes (kb_propose_edit sample_tools plain_answers (plain_conf FNaN))" by (rule plain_written) simp
  show "landed (plain_write FNaN)" unfolding plain_write_def by (rule landedI) code_simp
qed

subsection \<open>Every decision is on record\<close>

definition events :: "outcome \<Rightarrow> audit_event list" where
  "events m = List.map_filter (\<lambda>a. case a of HAudit ev \<Rightarrow> Some ev | _ \<Rightarrow> None) (snd m)"

text \<open>A response comes with exactly one event, of the same status; an exception with none.\<close>

definition on_record :: "outcome \<Rightarrow> bool" where
  "on_record m \<longleftrightarrow> (case fst m of Inl e \<Rightarrow> events m = [] | Inr r \<Rightarrow> (\<exists>ev. events m = [ev] \<and> au_status ev = rs_status r))"

lemma on_record_simps [simp]:
  "on_record (after_acts [HRate] m) = on_record m" "on_record (after_acts [HEnqueue pr] m) = on_record m"
  "on_record (after_acts [HWrite as] m) = on_record m" "on_record (Inl e, [])" "au_status ev = rs_status x \<Longrightarrow> on_record (refuse ev x)"
  "on_record (Inr x, [HAudit ev]) = (au_status ev = rs_status x)"
  by (auto simp: on_record_def events_def after_acts_def refuse_def map_filter_simps split: sum.splits)

lemma on_record_refusal: "refusal m \<Longrightarrow> on_record m"
  by (auto simp: refusal_def)

lemma rejection_status_simps [simp]: "au_status (rejection_event ev r) = rs_status (rejection_response target r)"
  by (simp add: rejection_event_def rejection_response_def)

lemma on_record_park [simp]: "on_record (park t ans base pr shown safe d v capture)"
  by (simp add: park_def park_response_def Let_def split: enqueue_answer.split)

lemma on_record_conclude: "on_record demoted \<Longrightarrow> on_record (conclude base target safe v capture demoted w)"
  by (simp add: conclude_def split: sum.split stop.split)

lemma on_record_edit: "edit_encoding t q = None \<Longrightarrow> on_record (kb_propose_edit t ans q)"
  by (auto simp: kb_propose_edit_def refuse_path_def edit_late_def park_or_commit_def Let_def
      intro!: on_record_conclude dest: early_refused[THEN on_record_refusal] split: option.splits sum.splits bool.splits prod.splits)

lemma memory_refused: "memory_early t q = Inl r \<Longrightarrow> refusal r"
  by (auto simp: memory_early_def Let_def split: option.splits if_splits capture_check.splits intro!: refusal_refuse)

lemma on_record_memory: "reject_unencodable_identity (t_encode t) [(''agent_identity'', PyStr (m_agent q)), (''source_session'', PyStr (m_session q))] = None
    \<Longrightarrow> on_record (kb_propose_memory t ans q)"
  unfolding kb_propose_memory_def
  by (auto simp: memory_late_def Let_def
      intro!: on_record_conclude dest: memory_refused[THEN on_record_refusal] split: option.splits sum.splits bool.splits)

text \<open>Whatever an agent proposes, the answer it gets is on record: exactly one audit event, with the status of the answer; an
  exception leaves none. Only an identity that cannot be encoded is turned away unrecorded.\<close>

theorem answers_on_record:
  "(on_record (kb_propose_edit t ans q) \<or>
     (\<exists>e. kb_propose_edit t ans q = (Inr (rejected ''rejected_invalid_encoding'' (Some (WEncoding e)) None), []))) \<and>
   (on_record (kb_propose_memory t ans m) \<or>
     (\<exists>e. kb_propose_memory t ans m = (Inr (rejected ''rejected_invalid_encoding'' (Some (WEncoding e)) None), [])))"
proof
  show "on_record (kb_propose_edit t ans q) \<or>
     (\<exists>e. kb_propose_edit t ans q = (Inr (rejected ''rejected_invalid_encoding'' (Some (WEncoding e)) None), []))"
    using on_record_edit[of t q ans] by (cases "edit_encoding t q") (auto simp: kb_propose_edit_def)
  show "on_record (kb_propose_memory t ans m) \<or>
     (\<exists>e. kb_propose_memory t ans m = (Inr (rejected ''rejected_invalid_encoding'' (Some (WEncoding e)) None), []))"
    using on_record_memory[of t m ans]
    by (cases "reject_unencodable_identity (t_encode t) [(''agent_identity'', PyStr (m_agent m)), (''source_session'', PyStr (m_session m))]")
      (auto simp: kb_propose_memory_def)
qed

subsection \<open>Memories that reach git\<close>

lemma memory_writes:
  assumes "as \<in> writes (kb_propose_memory t ans q)"
  obtains capture where "memory_early t q = Inr capture" "\<not> float_less (m_confidence q) (m_threshold q)" "m_can q" "a_allow ans"
    "as = snd (commit_in_worktree t (a_env ans) (memory_write t q capture))"
  using assms unfolding kb_propose_memory_def memory_late_def
  by (auto simp: Let_def writes_conclude writes_refusal memory_refused split: option.splits sum.splits bool.splits if_splits)

lemma memory_target_in_inbox:
  "CHR 0x5C \<notin> set (memory_inbox_prefix inbox) \<Longrightarrow> is_inbox_path inbox (memory_target scan digest inbox today session content)"
proof -
  assume "CHR 0x5C \<notin> set (memory_inbox_prefix inbox)"
  then have "norm_slashes (memory_inbox_prefix inbox) = memory_inbox_prefix inbox"
    by (auto simp: norm_slashes_def intro!: map_idI)
  then have "norm_slashes (memory_inbox_prefix inbox @ x) = memory_inbox_prefix inbox @ norm_slashes x" for x
    by (simp add: norm_slashes_def)
  then show ?thesis by (simp add: is_inbox_path_def memory_target_def starts_with_def)
qed

text \<open>C25. A memory that lands was proposed by a caller that may commit, its path is one of the inbox of memories, at its path and in
  its text there is nothing that looks like a credential, and the document it adds has the status proposed, so that it is in
  force on no day. (An inbox prefix with a backslash would not be recognised by the reader of paths.)\<close>

theorem landed_memory_is_proposed:
  assumes "as \<in> writes (kb_propose_memory t ans q)" and "landed as"
    and "\<forall>capture. memory_early t q = Inr capture \<longrightarrow> dumps (t_load t) (t_dump t) (memory_frontmatter (t_py_str t) (m_actor q) (m_now q) (m_tags q) (m_agent q)
      (evidence_strs (m_evidence q)) capture)"
    and "CHR 0x5C \<notin> set (memory_inbox_prefix (t_inbox t))"
  shows "\<exists>doc. AWriteFile (memory_path t q) doc \<in> set as \<and> is_inbox_path (t_inbox t) (memory_path t q) \<and> m_can q \<and> \<not> float_less (m_confidence q) (m_threshold q) \<and>
    t_scan t (memory_path t q) = None \<and> t_scan t doc = None \<and> fm_get (fm_of (t_load t) doc) ''status'' = PyStr ''proposed'' \<and>
    \<not> is_base_content_in_force (t_load t) (t_inbox t) doc (memory_path t q) day"
proof -
  from assms(1) obtain capture where m: "\<not> float_less (m_confidence q) (m_threshold q)" "m_can q"
      "as = snd (commit_in_worktree t (a_env ans) (memory_write t q capture))" "memory_early t q = Inr capture" by (rule memory_writes)
  let ?rq = "memory_write t q capture" and ?doc = "memory_postimage t q capture"
  have w: "w_target ?rq = memory_path t q" "w_postimage ?rq = ?doc" "\<not> w_override ?rq" "w_recorder ?rq = None"
    by (simp_all add: memory_write_def)
  have l: "landed (snd (commit_in_worktree t (a_env ans) ?rq))" using assms(2) unfolding m(3) .
  then obtain wt g pre post where g: "gates t (a_env ans) wt ?rq = Inr g" "list_all (\<lambda>a. \<not> touches a) (pre @ post)"
      "as = pre @ snd (write_and_commit (a_env ans) ?rq g) @ post"
    unfolding m(3) by (cases rule: section_cases[of ?rq "a_env ans" t]) (auto simp: landed_def list_all_iff)
  have "t_scan t (memory_path t q) = None" "t_scan t ?doc = None"
    using g(1) w unfolding gates_passed by (auto simp: secret_gate_def Let_def split: if_splits)
  moreover have "AWriteFile (memory_path t q) ?doc \<in> set as"
    unfolding g(3) using w wac_known[of "a_env ans" ?rq g] by (auto simp: context_known_def write_and_add_def)
  moreover have s: "check_status_clamp (t_load t) ?doc = None" "fm_get (fm_of (t_load t) ?doc) ''status'' = PyStr ''proposed''"
    using memory_claims_no_status[OF assms(3)[rule_format, OF m(4)]] by (simp_all add: memory_postimage_def Let_def)
  moreover have "\<not> is_base_content_in_force (t_load t) (t_inbox t) ?doc (memory_path t q) day"
    using clamp_None[OF s(1)] by (simp add: is_base_content_in_force_def Let_def is_in_force_def)
  moreover have "is_inbox_path (t_inbox t) (memory_path t q)"
    unfolding memory_path_def by (rule memory_target_in_inbox[OF assms(4)])
  ultimately show ?thesis using m(1,2) by blast
qed

definition memory_sample :: memory_req where
  "memory_sample = \<lparr>m_text = ''hi'', m_tags = [], m_session = ''s'', m_agent = ''a'', m_confidence = FNum 1, m_threshold = FNum (17/20), m_can = True,
     m_evidence = PyNone, m_capture = PyNone, m_principal = ''p'', m_max = 0, m_actor = ''data-olympus/1'', m_now = ''2026-01-01''\<rparr>"

definition memory_tools :: tools where
  "memory_tools = sample_tools\<lparr>t_sha256 := (\<lambda>s. ''abcdef''), t_dump := (\<lambda>m. ''x'' @ [newline]),
     t_load := (\<lambda>y. Some (PyDict (memory_frontmatter (\<lambda>v. []) ''data-olympus/1'' ''2026-01-01'' [] ''a'' [] None)))\<rparr>"

definition memory_answers :: answers where
  "memory_answers = plain_answers\<lparr>a_env := sample_env\<lparr>e_file := None, e_index := Some fresh_index\<rparr>\<rparr>"

theorem landed_memory_is_proposed_witness:
  "\<exists>as doc. AWriteFile (memory_path memory_tools memory_sample) doc \<in> set as \<and> landed as \<and>
     is_inbox_path (t_inbox memory_tools) (memory_path memory_tools memory_sample) \<and> fm_get (fm_of (t_load memory_tools) doc) ''status'' = PyStr ''proposed''"
proof -
  let ?t = memory_tools and ?q = memory_sample and ?ans = memory_answers
  let ?post = "memory_postimage ?t ?q None" and ?path = "memory_path ?t ?q"
  let ?as = "snd (commit_in_worktree ?t (a_env ?ans) (memory_write ?t ?q None))"
  let ?v = "evaluate_governed_lane (t_load ?t) (a_index ?ans) False ?post ?path (t_today ?t)"
  have "check_status_clamp (t_load ?t) ?post = None" by code_simp
  then have d: "demotion_reason ?v = None" unfolding not_demoted_iff by simp
  have p: "t_protected ?t" by (simp add: memory_tools_def sample_tools_def)
  have v: "governed_lane_check ?t (a_index ?ans) False (m_confidence ?q) (m_threshold ?q) (m_can ?q) ?post ?path = Inr ?v"
    by (simp add: governed_lane_check_def Let_def p d)
  have early: "memory_early ?t ?q = Inr None"
  proof -
    have "validate_evidence (t_encode ?t) (given_evidence (m_evidence ?q)) = None" by code_simp
    moreover have "validate_capture (t_scan ?t) (t_encode ?t) (t_sha256 ?t) (m_text ?q) (m_capture ?q) = NotSupplied" by code_simp
    moreover have "is_writable_path (t_prefixes ?t) ?path" by code_simp
    ultimately show ?thesis by (simp add: memory_early_def Let_def)
  qed
  have "reject_unencodable_identity (t_encode ?t) [(''agent_identity'', PyStr (m_agent ?q)), (''source_session'', PyStr (m_session ?q))] = None" by code_simp
  moreover have "\<not> blocks (t_blocklist ?t) ?path (t_tier ?t ?path)" by code_simp
  moreover have "a_allow ?ans" "m_max ?q = 0" "\<not> float_less (m_confidence ?q) (m_threshold ?q)" "m_can ?q"
    by (simp_all add: memory_answers_def plain_answers_def memory_sample_def)
  ultimately have w: "?as \<in> writes (kb_propose_memory ?t ?ans ?q)"
    using v d by (simp add: kb_propose_memory_def early memory_late_def Let_def too_large_def writes_conclude)
  have l: "landed ?as" by (rule landedI) code_simp
  have "dumps (t_load ?t) (t_dump ?t) (memory_frontmatter (t_py_str ?t) (m_actor ?q) (m_now ?q) (m_tags ?q) (m_agent ?q) (evidence_strs (m_evidence ?q)) None)"
    unfolding dumps_def
  proof (intro exI[of _ "''x''"] conjI)
    show "list_all (\<lambda>l. \<not> is_delim_line l) (lines_of ''x'')" by code_simp
  qed (simp_all add: memory_tools_def sample_tools_def memory_sample_def evidence_strs_def)
  then have "\<forall>capture. memory_early ?t ?q = Inr capture \<longrightarrow> dumps (t_load ?t) (t_dump ?t) (memory_frontmatter (t_py_str ?t) (m_actor ?q) (m_now ?q)
      (m_tags ?q) (m_agent ?q) (evidence_strs (m_evidence ?q)) capture)" using early by simp
  moreover have "CHR 0x5C \<notin> set (memory_inbox_prefix (t_inbox ?t))" by code_simp
  ultimately show ?thesis using landed_memory_is_proposed[OF w l] l by blast
qed

end
