(* ===== verification/Resolve.thy ===== *)
theory Resolve
  imports Propose PendingClaims
begin

text \<open>
  The operator's decision on a parked proposal (\<open>kb_resolve_pending_fn\<close>, \<open>_with_capture_reattached\<close>,
  \<open>kb_get_pending_fn\<close> in \<^verbatim>\<open>tools_write.py\<close>), and its refinement of the protocol of the pending queue: what the resolver does
  to the queue, with the commit it makes, is a sequence of protocol steps.
\<close>

record resolve_req =
  z_pid :: string
  z_decision :: string
  z_edited :: "string option"
  z_session :: string
  z_agent :: string
  z_override :: bool
  z_max :: nat
  z_token :: string \<comment> \<open>the fresh claim token\<close>
  z_now :: time

datatype ract = RCall call | RWrite "action list" | RAudit audit_event

datatype rexn = RStop stop | RPending pending_error | RBadNumber | RNotUtf8

type_synonym resolution = "(rexn + response) \<times> ract list"

text \<open>The text to commit, with the stored envelope kept; \<open>None\<close> leaves the stored text.\<close>

definition with_capture_reattached :: "tools \<Rightarrow> disk \<Rightarrow> string \<Rightarrow> string option \<Rightarrow> string option" where
  "with_capture_reattached t d pid edited = (case fst (get pid d) of
      Inl e \<Rightarrow> edited
    | Inr e \<Rightarrow> (if p_type e \<noteq> ''memory'' then edited
        else case project_capture (fm_get (p_meta e) ''capture'') of None \<Rightarrow> edited
          | Some envelope \<Rightarrow>
              (let base = (case edited of None \<Rightarrow> p_postimage e | Some s \<Rightarrow> s);
                   attached = reattach_capture (t_load t) (t_dump t) base envelope (p_postimage e)
               in if edited = None \<and> attached = p_postimage e then None else Some attached)))"

definition resolve_event :: "resolve_req \<Rightarrow> audit_event" where
  "resolve_event z = \<lparr>au_type = ''resolve'', au_status = [], au_agent = z_agent z, au_session = z_session z, au_path = None, au_tier = None,
     au_confidence = None, au_why = None, au_pattern = None, au_pid = Some (z_pid z), au_sha = None, au_evidence = [], au_demotion = None,
     au_injection = False, au_rules = None, au_override = False, au_capture = None\<rparr>"

definition answer :: "audit_event \<Rightarrow> response \<Rightarrow> resolution" where
  "answer ev r = (Inr r, [RAudit ev])"

definition after_calls :: "ract list \<Rightarrow> resolution \<Rightarrow> resolution" where
  "after_calls as m = (fst m, as @ snd m)"

text \<open>\<open>float(meta.get("confidence", 0.0))\<close> on a number; anything else raises.\<close>

definition meta_confidence :: "frontmatter \<Rightarrow> pyfloat option" where
  "meta_confidence m = (if \<not> has_key m ''confidence'' then Some (FNum 0) else case fm_get m ''confidence'' of
      PyFloat f \<Rightarrow> Some f | PyInt i \<Rightarrow> Some (FNum (of_int i)) | PyBool b \<Rightarrow> Some (FNum (if b then 1 else 0)) | _ \<Rightarrow> None)"

definition meta_text :: "frontmatter \<Rightarrow> string \<Rightarrow> string \<Rightarrow> string" where
  "meta_text m key other = (case fm_get m key of PyStr s \<Rightarrow> s | _ \<Rightarrow> other)"

definition resolve_write :: "tools \<Rightarrow> resolve_req \<Rightarrow> resolved \<Rightarrow> pyfloat \<Rightarrow> write_req" where
  "resolve_write t z r confidence = \<lparr>w_session = meta_text (r_meta r) ''source_session'' (z_session z),
     w_agent = meta_text (r_meta r) ''agent_identity'' (z_agent z), w_target = r_target r, w_postimage = r_postimage r, w_type = r_type r,
     w_subject = ''resolve: '' @ r_target r, w_tier = t_tier t (r_target r), w_confidence = confidence, w_confirmed = True,
     w_base_commit = Some (r_base_commit r), w_base_blob = r_base_blob r, w_file_hash = r_file_hash r, w_push_meta = [],
     w_owner = Some (''resolve:'' @ z_pid z), w_hold_lock = True, w_override = z_override z, w_governed = False,
     w_recorder = Some (z_pid z, r_token r)\<rparr>"

definition claimed_event :: "tools \<Rightarrow> resolve_req \<Rightarrow> resolved \<Rightarrow> audit_event" where
  "claimed_event t z r = (resolve_event z)\<lparr>au_path := Some (if t_scan t (r_target r) = None then r_target r else REDACTED_PATH),
     au_tier := Some (t_tier t (r_target r)), au_confidence := meta_confidence (r_meta r)\<rparr>"

text \<open>What follows the critical section. A refusal restores the proposal; an unknown outcome leaves the claim to
  reconciliation; any other exception restores it only after a recorded failure.\<close>

definition settle :: "resolve_req \<Rightarrow> resolved \<Rightarrow> audit_event \<Rightarrow> written wr \<Rightarrow> resolution" where
  "settle z r ev w =
     (let restore = RCall (Restore (z_pid z) (r_token r))
      in after_calls [RWrite (snd w)]
         (case fst w of
            Inl (Rejected x) \<Rightarrow> (Inr (response0\<lparr>rs_status := rejection_status x, rs_why := rejection_why x, rs_findings := rejection_findings x\<rparr>),
              [restore, RAudit (rejection_event ev x)])
          | Inl OutcomeUnknown \<Rightarrow> (Inl (RStop OutcomeUnknown), [RAudit (with_status ''outcome_unknown_pending_recovery'' ev)])
          | Inl s \<Rightarrow> (Inl (RStop s), if AOutcomeFailed \<in> set (snd w) then [restore] else [])
          | Inr x \<Rightarrow> (Inr (response0\<lparr>rs_status := ''committed'', rs_sha := Some (wr_sha x), rs_state := Some (wr_state x), rs_findings := wr_warnings x\<rparr>),
              (if AFinalize \<in> set (snd w) then [] else [RCall (Finalize (z_pid z) (r_target r) (r_token r))])
              @ [RAudit (ev\<lparr>au_status := ''committed'', au_sha := Some (wr_sha x), au_override := wr_override x \<noteq> None,
                   au_pattern := map_option pattern_name (wr_override x), au_rules := rule_audit (wr_warnings x) ''warned''\<rparr>)])))"

definition approve_claimed :: "tools \<Rightarrow> env \<Rightarrow> resolve_req \<Rightarrow> resolved \<Rightarrow> resolution" where
  "approve_claimed t env z r = (case meta_confidence (r_meta r) of
      None \<Rightarrow> (Inl RBadNumber, [])
    | Some c \<Rightarrow> settle z r (claimed_event t z r) (commit_in_worktree t env (resolve_write t z r c)))"

text \<open>The claim, on the disk of the queue; \<open>sha\<close> is the queue's digest.\<close>

definition approve_pending :: "tools \<Rightarrow> (string \<Rightarrow> string) \<Rightarrow> disk \<Rightarrow> env \<Rightarrow> resolve_req \<Rightarrow> string option \<Rightarrow> resolution" where
  "approve_pending t sha d env z edited =
     (let call = RCall (ClaimResolve (z_pid z) edited (z_token z) (z_now z))
      in case fst (claim_for_resolve sha (z_pid z) edited (z_token z) (z_now z) d) of
           Inl (AlreadyResolved i) \<Rightarrow> after_calls [call] (answer (with_status ''already_resolved'' (resolve_event z)) (rejected ''already_resolved'' None None))
         | Inl e \<Rightarrow> (Inl (RPending e), [call])
         | Inr r \<Rightarrow> after_calls [call] (approve_claimed t env z r))"

definition reject_pending :: "(string \<Rightarrow> string) \<Rightarrow> disk \<Rightarrow> resolve_req \<Rightarrow> resolution" where
  "reject_pending sha d z =
     (let call = RCall (Reject (z_pid z) (z_token z) (z_now z))
      in case fst (reject sha (z_pid z) (z_token z) (z_now z) d) of
           Inl (AlreadyResolved i) \<Rightarrow> after_calls [call] (answer (with_status ''already_resolved'' (resolve_event z)) (rejected ''already_resolved'' None None))
         | Inl e \<Rightarrow> (Inl (RPending e), [call])
         | Inr u \<Rightarrow> after_calls [call] (answer (with_status ''rejected'' (resolve_event z)) (rejected ''rejected'' None None)))"

definition resolve_encoding :: "tools \<Rightarrow> resolve_req \<Rightarrow> encoding_error option" where
  "resolve_encoding t z = reject_unencodable_identity (t_encode t) [(''agent_identity'', PyStr (z_agent z)), (''source_session'', PyStr (z_session z)),
     (''pending_id'', PyStr (z_pid z)), (''edited_text'', opt_str (z_edited z))]"

definition kb_resolve_pending :: "tools \<Rightarrow> (string \<Rightarrow> string) \<Rightarrow> disk \<Rightarrow> env \<Rightarrow> resolve_req \<Rightarrow> resolution" where
  "kb_resolve_pending t sha d env z =
     (case resolve_encoding t z of
        Some e \<Rightarrow> (Inr (rejected ''rejected_invalid_encoding'' (Some (WEncoding e)) None), [])
      | None \<Rightarrow>
         (if z_decision z = ''reject'' then reject_pending sha d z
          else if z_decision z \<noteq> ''approve'' \<and> z_decision z \<noteq> ''edit''
          then answer (with_status ''rejected_bad_decision'' (resolve_event z)) (rejected ''rejected_bad_decision'' None None)
          else let edited = with_capture_reattached t d (z_pid z) (z_edited z)
            in case (case edited of None \<Rightarrow> Some False | Some s \<Rightarrow> too_large t (z_max z) s) of
                 None \<Rightarrow> (Inl RNotUtf8, [])
               | Some True \<Rightarrow> answer (with_status ''rejected_edited_text_too_large'' (resolve_event z)) (rejected ''rejected_edited_text_too_large'' None None)
               | Some False \<Rightarrow>
                   (case (if z_override z then None else case edited of None \<Rightarrow> None | Some s \<Rightarrow> t_scan t s) of
                      Some m \<Rightarrow> answer ((because (WSecretIn (pattern_name m) ''edited text'') (with_status ''rejected_secret_detected'' (resolve_event z)))
                          \<lparr>au_pattern := Some (pattern_name m)\<rparr>)
                        (rejected ''rejected_secret_detected'' (Some (WSecretIn (pattern_name m) ''edited text'')) None)
                    | None \<Rightarrow> approve_pending t sha d env z edited)))"

subsection \<open>Reading back a proposal\<close>

record pending_detail =
  pd_status :: string
  pd_path :: pyval
  pd_postimage :: "string option"
  pd_pattern :: pyval
  pd_reason :: pyval

definition no_detail :: "string \<Rightarrow> pending_detail" where
  "no_detail status = \<lparr>pd_status = status, pd_path = PyNone, pd_postimage = None, pd_pattern = PyNone, pd_reason = PyNone\<rparr>"

text \<open>\<open>meta.get("proposer_principal") or ""\<close>\<close>

definition owner_of :: "frontmatter \<Rightarrow> pyval" where
  "owner_of m = (let v = fm_get m ''proposer_principal'' in if truthy v then v else PyStr [])"

definition kb_get_pending :: "disk \<Rightarrow> string \<Rightarrow> string \<Rightarrow> bool \<Rightarrow> pending_error + pending_detail" where
  "kb_get_pending d pid principal_name can_resolve = (case fst (get pid d) of
      Inl (NotFound i) \<Rightarrow> Inr (no_detail ''not_found'')
    | Inl e \<Rightarrow> Inl e
    | Inr e \<Rightarrow>
        (let m = p_meta e; own = owner_of m
         in if \<not> can_resolve \<and> (\<not> truthy own \<or> own \<noteq> PyStr principal_name) then Inr (no_detail ''forbidden'')
            else if \<not> can_resolve \<and> truthy (fm_get m ''secret_scan_flagged'')
            then Inr ((no_detail ''forbidden_secret_flagged'')\<lparr>pd_pattern := fm_get m ''matching_pattern''\<rparr>)
            else Inr \<lparr>pd_status = ''ok'', pd_path = PyStr (p_target e), pd_postimage = Some (p_postimage e),
                   pd_pattern = fm_get m ''matching_pattern'', pd_reason = fm_get m ''reason''\<rparr>))"

subsection \<open>The resolver in the protocol of the queue\<close>

datatype pevent = PCall call | PCommit

text \<open>The part of the write that concerns the queue: what the recorder tells it, and the commit itself.\<close>

fun queue_part :: "string \<Rightarrow> string \<Rightarrow> string \<Rightarrow> time \<Rightarrow> action \<Rightarrow> pevent list" where
  "queue_part i tok target now (AContext ref base) = [PCall (Context i tok ref base)]"
| "queue_part i tok target now (AOutcomeCommitted sha) = [PCall (Outcome i tok (Some sha) None None now)]"
| "queue_part i tok target now AOutcomeFailed = [PCall (Outcome i tok None (Some ''failed'') None now)]"
| "queue_part i tok target now AOutcomeUnknown = [PCall (Outcome i tok None None (Some ''unknown'') now)]"
| "queue_part i tok target now AFinalize = [PCall (Finalize i target tok)]"
| "queue_part i tok target now (ACommit msg l) = (if l then [PCommit] else [])"
| "queue_part i tok target now _ = []"

definition queue_view :: "string \<Rightarrow> string \<Rightarrow> string \<Rightarrow> time \<Rightarrow> action list \<Rightarrow> pevent list" where
  "queue_view i tok target now as = concat (map (queue_part i tok target now) as)"

lemma queue_view_simps [simp]:
  "queue_view i tok target now [] = []"
  "queue_view i tok target now (a # as) = queue_part i tok target now a @ queue_view i tok target now as"
  "queue_view i tok target now (as @ bs) = queue_view i tok target now as @ queue_view i tok target now bs"
  by (simp_all add: queue_view_def)

fun pevents :: "string \<Rightarrow> string \<Rightarrow> string \<Rightarrow> time \<Rightarrow> ract \<Rightarrow> pevent list" where
  "pevents i tok target now (RCall c) = [PCall c]"
| "pevents i tok target now (RWrite as) = queue_view i tok target now as"
| "pevents i tok target now (RAudit ev) = []"

definition queue_events :: "resolve_req \<Rightarrow> string \<Rightarrow> ract list \<Rightarrow> pevent list" where
  "queue_events z target as = concat (map (pevents (z_pid z) (z_token z) target (z_now z)) as)"

fun play :: "(string \<Rightarrow> string) \<Rightarrow> (pyval \<Rightarrow> string) \<Rightarrow> nat \<Rightarrow> string \<Rightarrow> pevent \<Rightarrow> sys \<Rightarrow> sys" where
  "play sha py cap i (PCall c) s = completed sha py cap c s"
| "play sha py cap i PCommit s = s\<lparr>committed := insert i (committed s)\<rparr>"

fun permitted :: "string \<Rightarrow> string \<Rightarrow> pevent \<Rightarrow> sys \<Rightarrow> bool" where
  "permitted i tok (PCall c) s = allowed s c"
| "permitted i tok PCommit s = ((i, tok) \<in> resolvers s)"

fun legal :: "(string \<Rightarrow> string) \<Rightarrow> (pyval \<Rightarrow> string) \<Rightarrow> nat \<Rightarrow> string \<Rightarrow> string \<Rightarrow> pevent list \<Rightarrow> sys \<Rightarrow> bool" where
  "legal sha py cap i tok [] s = True"
| "legal sha py cap i tok (e # es) s = (permitted i tok e s \<and> legal sha py cap i tok es (play sha py cap i e s))"

lemma play_step: "permitted i tok e s \<Longrightarrow> pstep sha py cap s (play sha py cap i e s)"
  by (cases e) (auto intro: pstep.complete pstep.commit)

text \<open>The order in which a resolver that holds its claim may act.\<close>

datatype phase = Before | After | Stopped

inductive proper :: "string \<Rightarrow> string \<Rightarrow> phase \<Rightarrow> pevent list \<Rightarrow> bool" for i tok :: string where
  p_stop: "proper i tok ph []"
| p_context: "proper i tok Before es \<Longrightarrow> proper i tok Before (PCall (Context i tok ref base) # es)"
| p_commit: "proper i tok After es \<Longrightarrow> proper i tok Before (PCommit # es)"
| p_failed: "proper i tok Stopped es \<Longrightarrow> proper i tok Before (PCall (Outcome i tok None (Some why) None now) # es)"
| p_unknown: "ph \<noteq> Stopped \<Longrightarrow> proper i tok ph es \<Longrightarrow> proper i tok ph (PCall (Outcome i tok None None (Some why) now) # es)"
| p_committed: "proper i tok After es \<Longrightarrow> proper i tok After (PCall (Outcome i tok (Some c) None None now) # es)"
| p_finalize: "proper i tok After [PCall (Finalize i target tok)]"
| p_restore: "ph \<noteq> After \<Longrightarrow> proper i tok ph [PCall (Restore i tok)]"

fun phase_holds :: "string \<Rightarrow> string \<Rightarrow> phase \<Rightarrow> sys \<Rightarrow> bool" where
  "phase_holds i tok Before s = ((i, tok) \<in> resolvers s \<and> i \<notin> committed s)"
| "phase_holds i tok After s = ((i, tok) \<in> resolvers s \<and> i \<in> committed s)"
| "phase_holds i tok Stopped s = ((i, tok) \<in> resolvers s \<union> stopped s \<and> i \<notin> committed s)"

lemma proper_legal: "proper i tok ph es \<Longrightarrow> phase_holds i tok ph s \<Longrightarrow> legal sha py cap i tok es s"
proof (induction arbitrary: s rule: proper.induct)
  case (p_unknown ph es why now)
  then show ?case by (cases ph) (auto simp: completed_def)
next
  case (p_restore ph)
  then show ?case by (cases ph) (auto simp: completed_def)
qed (auto simp: completed_def)

lemma quiet_view: "list_all (\<lambda>a. \<not> touches a) as \<Longrightarrow> queue_view i tok target now as = []"
proof (induction as)
  case (Cons a as)
  then show ?case by (cases a) auto
qed simp

text \<open>The queue sees the actions of the critical section in a proper order, and a restore may follow when nothing landed and
  no claim was consumed.\<close>

lemma wac_proper:
  assumes "w_recorder rq = Some (i, tok)" and "git_sound env"
    and "rest = [] \<or> rest = [PCall (Restore i tok)] \<and> isl (fst (write_and_commit env rq g)) \<and> AOutcomeFailed \<in> set (snd (write_and_commit env rq g))"
  shows "proper i tok Before (queue_view i tok target now (snd (write_and_commit env rq g)) @ rest)"
proof -
  have fail: "proper i tok Stopped rest" using assms(3) by (auto intro: proper.intros)
  show ?thesis
  proof (cases "context_known env rq")
    case False
    then show ?thesis using assms(1) fail
      by (auto simp: context_known_def write_and_commit_def write_context_def intro!: proper.intros)
  next
    case known: True
    show ?thesis
    proof (cases "e_write_ok env \<and> e_add_ok env")
      case False
      then show ?thesis using assms(1,3) fail
        by (auto simp: wac_known[OF known] write_and_add_def tell_def intro!: proper.intros)
    next
      case True
      then have ok: "e_write_ok env" "e_add_ok env" by auto
      note w = wac_written[OF known ok]
      have p: "queue_view i tok target now (prepared env rq) = [PCall (Context i tok (e_ref env) (e_head env))]"
        using assms(1) by (simp add: prepared_def tell_def)
      show ?thesis
      proof (cases rule: git_commit_cases[of env rq "g_message g"])
        case gok: ok
        have none: "rest = []" using assms(3) after_commit_actions(2)[of env rq g] unfolding w gok(2)
          by (auto simp: prepared_def tell_def split: if_splits)
        have "proper i tok After (queue_view i tok target now (snd (after_commit env rq g)))"
          using assms(1) by (auto simp: after_commit_def commit_sha_def record_commit_def enqueue_after_commit_def tell_def Let_def
              split: option.splits intro!: proper.intros)
        then show ?thesis unfolding w gok(2) none by (simp add: p) (intro proper.intros)
      next
        case (exit rc)
        have "\<not> git_landed env" using assms(2) exit(1,2) by (force simp: git_sound_def)
        then show ?thesis unfolding w exit(3) using assms(1) fail by (simp add: p tell_def) (intro proper.intros)
      next
        case unknown
        have none: "rest = []" using assms(1,3) unfolding w unknown by (auto simp: prepared_def tell_def)
        show ?thesis unfolding w unknown none using assms(1)
          by (cases "git_landed env") (auto simp: p tell_def intro!: proper.intros)
      qed
    qed
  qed
qed

lemma wac_not_rejected: "fst (write_and_commit env rq g) \<noteq> Inl (Rejected x)"
  by (auto simp: write_and_commit_def write_context_def write_and_add_def git_commit_def commit_sha_def record_commit_def enqueue_after_commit_def Let_def
      split: option.splits commit_answer.splits if_splits)

lemma wac_finalizes:
  assumes "fst (write_and_commit env rq g) = Inr w" and "w_recorder rq \<noteq> None"
  shows "AFinalize \<in> set (snd (write_and_commit env rq g))"
proof -
  have known: "context_known env rq" "e_write_ok env" "e_add_ok env"
    using assms(1) wac_context[of env rq g] wac_unwritten[of env rq g] by (auto simp: isl_def)
  note w = wac_written[OF known]
  show ?thesis
    using assms unfolding w
    by (cases rule: git_commit_cases[of env rq "g_message g"])
      (auto simp: after_commit_def commit_sha_def record_commit_def enqueue_after_commit_def Let_def split: option.splits if_splits)
qed

lemma settle_proper:
  assumes "git_sound env" and "w_recorder rq = Some (z_pid z, z_token z)" and "r_token r = z_token z" and "w_hold_lock rq"
  shows "proper (z_pid z) (z_token z) Before (queue_events z target (snd (settle z r ev (commit_in_worktree t env rq))))"
proof (cases rule: section_cases[of rq env t])
  case (refused s)
  have n: "queue_view (z_pid z) (z_token z) target (z_now z) (snd (commit_in_worktree t env rq)) = []"
    by (rule quiet_view) (rule refused(2))
  have f: "AOutcomeFailed \<notin> set (snd (commit_in_worktree t env rq))" using refused(2) by (auto simp: list_all_iff)
  show ?thesis
    by (cases s) (auto simp: settle_def Let_def refused(1) after_calls_def queue_events_def n f assms(3) intro!: proper.intros)
next
  case (written wt g pre post)
  let ?w = "write_and_commit env rq g"
  have q: "list_all (\<lambda>a. \<not> touches a) pre" "list_all (\<lambda>a. \<not> touches a) post" using written(3) by auto
  have n: "queue_view (z_pid z) (z_token z) target (z_now z) (pre @ snd ?w @ post) = queue_view (z_pid z) (z_token z) target (z_now z) (snd ?w)"
    by (simp add: quiet_view[OF q(1)] quiet_view[OF q(2)])
  have f: "AOutcomeFailed \<in> set (pre @ snd ?w @ post) \<longleftrightarrow> AOutcomeFailed \<in> set (snd ?w)" using q by (auto simp: list_all_iff)
  have last: "AFinalize \<in> set (pre @ snd ?w @ post)" if "fst ?w = Inr x" for x using wac_finalizes[OF that] assms(2) by auto
  note P = wac_proper[OF assms(2,1), of _ g target "z_now z"]
  have plain: "proper (z_pid z) (z_token z) Before (queue_view (z_pid z) (z_token z) target (z_now z) (snd ?w))" using P[of "[]"] by simp
  have again: "proper (z_pid z) (z_token z) Before (queue_view (z_pid z) (z_token z) target (z_now z) (snd ?w) @ [PCall (Restore (z_pid z) (z_token z))])"
    if "isl (fst ?w)" "AOutcomeFailed \<in> set (snd ?w)" using P[of "[PCall (Restore (z_pid z) (z_token z))]"] that by simp
  show ?thesis
  proof (cases "fst ?w")
    case (Inr x)
    then show ?thesis using last[OF Inr] plain
      unfolding settle_def written(4) Let_def after_calls_def queue_events_def by (simp add: n del: queue_view_simps)
  next
    case (Inl s)
    have nr: "s \<noteq> Rejected y" for y using wac_not_rejected[of env rq g y] Inl by auto
    show ?thesis using Inl nr plain again f assms(3)
      unfolding settle_def written(4) Let_def after_calls_def queue_events_def fst_conv snd_conv
      by (cases s) (auto simp: n simp del: queue_view_simps)
  qed
qed (use assms(4) in simp)

lemma claim_inversion:
  assumes "fst (claim_for_resolve sha i edited tok now d) = Inr r"
  shows "valid_pid i \<and> (\<exists>e. dget (live d) i = Some (Doc e)) \<and> r_token r = tok"
proof -
  have p: "valid_pid i" "dget (live d) i \<noteq> None"
  proof -
    have "\<not> (\<not> valid_pid i \<or> dget (live d) i = None)"
    proof
      assume "\<not> valid_pid i \<or> dget (live d) i = None"
      from claim_absent[OF this] assms show False by (simp add: claim_for_resolve_def andthen_def)
    qed
    then show "valid_pid i" "dget (live d) i \<noteq> None" by auto
  qed
  then obtain doc where doc: "dget (live d) i = Some doc" by auto
  show ?thesis
  proof (cases doc)
    case (Doc e)
    with assms show ?thesis using doc p(1) claim_present[OF p(1), of d e tok now]
      by (auto simp: claim_for_resolve_def andthen_def to_resolved_def stamped_def done_op_def emit_def split: option.splits)
  next
    case DamagedDoc
    with assms doc p(1) show ?thesis
      by (simp add: claim_for_resolve_def andthen_def claim_def claim_rename_def stamp_claim_def raise_def)
  qed
qed

text \<open>C6. From every reachable state of the queue, a resolution does only what the protocol allows, in an order the protocol
  allows, whatever git answers: so what is proved of the protocol holds with this resolver in it.\<close>

theorem resolution_follows_protocol:
  assumes "reachable sha py cap s" and "z_token z \<notin> minted s" and "git_sound env"
  shows "legal sha py cap (z_pid z) (z_token z) (queue_events z target (snd (kb_resolve_pending t sha (dsk s) env z))) s"
proof -
  let ?ev = "queue_events z target" and ?L = "\<lambda>es. legal sha py cap (z_pid z) (z_token z) es s"
  have quiet: "?L (?ev (snd (answer ev x)))" for ev x by (simp add: answer_def queue_events_def)
  have rej: "?L (?ev (snd (reject_pending sha (dsk s) z)))"
    using assms(2) by (auto simp: reject_pending_def Let_def after_calls_def answer_def queue_events_def split: sum.splits pending_error.splits)
  have app: "?L (?ev (snd (approve_pending t sha (dsk s) env z edited)))" for edited
  proof (cases "fst (claim_for_resolve sha (z_pid z) edited (z_token z) (z_now z) (dsk s))")
    case (Inl e)
    then show ?thesis using assms(2)
      by (cases e) (simp_all add: approve_pending_def Let_def after_calls_def answer_def queue_events_def)
  next
    case (Inr r)
    from claim_inversion[OF Inr] obtain e where e: "dget (live (dsk s)) (z_pid z) = Some (Doc e)" "r_token r = z_token z" by blast
    let ?c = "ClaimResolve (z_pid z) edited (z_token z) (z_now z)"
    have "z_pid z \<notin> committed s"
      using reachable_inv[OF assms(1)] e(1) by (auto simp: sys_inv_def disk_inv_def live_ok_def)
    moreover have "\<not> isl (fst (run sha py cap ?c (dsk s)))" using Inr by (simp add: ignoring_ok)
    ultimately have "phase_holds (z_pid z) (z_token z) Before (completed sha py cap ?c s)" by (simp add: completed_def)
    moreover have "proper (z_pid z) (z_token z) Before (?ev (snd (approve_claimed t env z r)))"
    proof (cases "meta_confidence (r_meta r)")
      case None
      then show ?thesis by (simp add: approve_claimed_def queue_events_def proper.intros)
    next
      case (Some c)
      show ?thesis unfolding approve_claimed_def Some option.case
        by (rule settle_proper[OF assms(3)]) (simp_all add: resolve_write_def e(2))
    qed
    ultimately have "legal sha py cap (z_pid z) (z_token z) (?ev (snd (approve_claimed t env z r))) (completed sha py cap ?c s)"
      by (intro proper_legal)
    then show ?thesis using assms(2)
      by (simp add: approve_pending_def Let_def Inr after_calls_def queue_events_def)
  qed
  show ?thesis
    unfolding kb_resolve_pending_def Let_def
    using quiet rej app by (auto simp: queue_events_def split: option.split bool.split)
qed

definition demo_resolve :: resolve_req where
  "demo_resolve = \<lparr>z_pid = demo_id, z_decision = ''approve'', z_edited = None, z_session = ''op'', z_agent = ''operator'', z_override = False,
     z_max = 0, z_token = ''tok'', z_now = 3\<rparr>"

theorem resolution_follows_protocol_witness:
  "legal demo_sha demo_py 0 demo_id ''tok'' (queue_events demo_resolve ''a.md'' (snd (kb_resolve_pending sample_tools demo_sha (dsk demo_pending) sample_env demo_resolve)))
     demo_pending"
proof -
  have "z_token demo_resolve \<notin> minted demo_pending" by (simp add: demo_resolve_def demo_pending_eq)
  moreover have "git_sound sample_env" by (simp add: git_sound_def sample_env_def)
  ultimately show ?thesis
    using resolution_follows_protocol[OF demo_pending_reachable, of demo_resolve sample_env "''a.md''" sample_tools]
    by (simp add: demo_resolve_def)
qed

text \<open>An approval can stick. An agent's name may hold a line break, which only the commit message refuses: the approval raises
  after the claim, with nothing written, no outcome recorded and no restore, so that reconciliation finds neither an
  outcome nor a branch to search.\<close>

definition stick_entry :: entry where
  "stick_entry = demo_entry\<lparr>p_meta := [(PyStr ''agent_identity'', PyStr [newline])]\<rparr>"

definition stick_disk :: disk where
  "stick_disk = empty_disk\<lparr>live := [(demo_id, Doc stick_entry)]\<rparr>"

lemma stick_message: "message_of sample_tools (resolve_write sample_tools demo_resolve (to_resolved demo_id (stamped ''tok'' 3 stick_entry) None) c) = None"
  by (simp add: message_of_def build_commit_message_def trailer_values_def resolve_write_def to_resolved_def stick_entry_def stamped_def
      meta_text_def fm_get_def get_or_def breaks_line_def)

theorem approval_can_stick:
  "fst (kb_resolve_pending sample_tools demo_sha stick_disk sample_env demo_resolve) = Inl (RStop (Raised TrailerValue)) \<and>
   queue_events demo_resolve ''a.md'' (snd (kb_resolve_pending sample_tools demo_sha stick_disk sample_env demo_resolve))
     = [PCall (ClaimResolve demo_id None ''tok'' 3)]"
proof -
  let ?r = "to_resolved demo_id (stamped ''tok'' 3 stick_entry) None"
  have d: "dget (live stick_disk) demo_id = Some (Doc stick_entry)" by (simp add: stick_disk_def)
  have g: "fst (get demo_id stick_disk) = Inr stick_entry" by (simp add: get_def demo_id_valid d)
  have e: "with_capture_reattached sample_tools stick_disk demo_id None = None"
    by (simp add: with_capture_reattached_def g) (simp add: stick_entry_def demo_entry_def new_entry_def demo_proposal_def)
  have c: "fst (claim_for_resolve demo_sha demo_id None ''tok'' 3 stick_disk) = Inr ?r"
    by (simp add: claim_for_resolve_def andthen_def claim_present[OF demo_id_valid d])
  have m: "meta_confidence (r_meta ?r) = Some (FNum 0)"
    by (simp add: to_resolved_def stamped_def stick_entry_def meta_confidence_def has_key_def)
  have w: "commit_in_worktree sample_tools sample_env (resolve_write sample_tools demo_resolve ?r (FNum 0)) = (Inl (Raised TrailerValue), [ARefresh])"
    using stick_message[of "FNum 0"]
    by (simp add: commit_in_worktree_def locked_section_def gates_def sample_env_def resolve_write_def)
  have enc: "resolve_encoding sample_tools demo_resolve = None" by (simp add: resolve_encoding_def demo_resolve_def opt_str_def sample_tools_def)
  have z: "z_pid demo_resolve = demo_id" "z_decision demo_resolve = ''approve''" "z_edited demo_resolve = None" "z_override demo_resolve = False"
    "z_token demo_resolve = ''tok''" "z_now demo_resolve = 3" by (simp_all add: demo_resolve_def)
  show ?thesis
    by (simp add: kb_resolve_pending_def enc z e approve_pending_def c approve_claimed_def m settle_def w after_calls_def queue_events_def Let_def)
qed

subsection \<open>Who may read, and what is on record\<close>

text \<open>The text of a parked proposal reaches exactly those who could approve it and the principal that made it, and the latter
  only when nothing in it looks like a credential.\<close>

theorem drafts_stay_private:
  "(\<exists>r. kb_get_pending d pid me can = Inr r \<and> pd_postimage r = Some text) \<longleftrightarrow>
     valid_pid pid \<and> (\<exists>e. dget (live d) pid = Some (Doc e) \<and> text = p_postimage e \<and>
       (can \<or> (me \<noteq> [] \<and> fm_get (p_meta e) ''proposer_principal'' = PyStr me \<and> \<not> truthy (fm_get (p_meta e) ''secret_scan_flagged''))))"
proof (cases "fst (get pid d)")
  case (Inl e)
  then have "\<not> (valid_pid pid \<and> (\<exists>e. dget (live d) pid = Some (Doc e)))" by (auto simp: get_def split: if_splits)
  then show ?thesis using Inl by (cases e) (auto simp: kb_get_pending_def no_detail_def)
next
  case (Inr e)
  then have v: "valid_pid pid" "dget (live d) pid = Some (Doc e)"
    by (auto simp: get_def split: if_splits option.splits entry_doc.splits)
  have own: "truthy (owner_of m) \<and> owner_of m = PyStr me \<longleftrightarrow> me \<noteq> [] \<and> fm_get m ''proposer_principal'' = PyStr me" for m
    by (auto simp: owner_of_def Let_def)
  show ?thesis
    using v own[of "p_meta e"] by (auto simp: kb_get_pending_def Inr no_detail_def Let_def)
qed

definition resolve_events :: "resolution \<Rightarrow> audit_event list" where
  "resolve_events m = List.map_filter (\<lambda>a. case a of RAudit ev \<Rightarrow> Some ev | _ \<Rightarrow> None) (snd m)"

definition decided_on_record :: "resolution \<Rightarrow> bool" where
  "decided_on_record m \<longleftrightarrow> (case fst m of
      Inr r \<Rightarrow> (\<exists>ev. resolve_events m = [ev] \<and> au_status ev = rs_status r)
    | Inl (RStop OutcomeUnknown) \<Rightarrow> (\<exists>ev. resolve_events m = [ev] \<and> au_status ev = ''outcome_unknown_pending_recovery'')
    | Inl e \<Rightarrow> resolve_events m = [])"

lemma decided_simps [simp]:
  "decided_on_record (after_calls [RCall c] m) = decided_on_record m" "decided_on_record (after_calls [RWrite as] m) = decided_on_record m"
  "au_status ev = rs_status r \<Longrightarrow> decided_on_record (answer ev r)"
  by (auto simp: decided_on_record_def resolve_events_def after_calls_def answer_def map_filter_simps split: sum.splits rexn.splits stop.splits)

lemma settle_on_record: "decided_on_record (settle z r ev w)"
proof (cases "fst w")
  case (Inl s)
  then show ?thesis
    by (cases s) (auto simp: settle_def Let_def decided_on_record_def resolve_events_def after_calls_def map_filter_simps
        rejection_event_def with_status_def)
qed (auto simp: settle_def Let_def decided_on_record_def resolve_events_def after_calls_def map_filter_simps)

text \<open>A decision that is answered is on record with its status, a decision of unknown outcome as such, and a decision that
  raises otherwise is not on record.\<close>

theorem decisions_on_record:
  "decided_on_record (kb_resolve_pending t sha d env z) \<or>
     (\<exists>e. kb_resolve_pending t sha d env z = (Inr (rejected ''rejected_invalid_encoding'' (Some (WEncoding e)) None), []))"
proof (cases "resolve_encoding t z")
  case None
  have a: "decided_on_record (approve_pending t sha d env z edited)" for edited
  proof (cases "fst (claim_for_resolve sha (z_pid z) edited (z_token z) (z_now z) d)")
    case (Inl e)
    then show ?thesis
      by (cases e) (auto simp: approve_pending_def Let_def decided_on_record_def resolve_events_def map_filter_simps after_calls_def answer_def)
  next
    case (Inr r)
    then show ?thesis
      by (cases "meta_confidence (r_meta r)")
        (auto simp: approve_pending_def Let_def approve_claimed_def settle_on_record, auto simp: decided_on_record_def resolve_events_def map_filter_simps)
  qed
  have r: "decided_on_record (reject_pending sha d z)"
  proof (cases "fst (reject sha (z_pid z) (z_token z) (z_now z) d)")
    case (Inl e)
    then show ?thesis
      by (cases e) (auto simp: reject_pending_def Let_def decided_on_record_def resolve_events_def map_filter_simps after_calls_def answer_def)
  qed (auto simp: reject_pending_def Let_def)
  have u: "decided_on_record (Inl RNotUtf8, [])" by (simp add: decided_on_record_def resolve_events_def map_filter_simps)
  show ?thesis
    using a r u by (auto simp: kb_resolve_pending_def None Let_def split: option.split bool.split)
next
  case (Some e)
  then show ?thesis by (auto simp: kb_resolve_pending_def)
qed

end
