(* ===== verification/AuditChain.thy ===== *)
theory AuditChain
  imports WritePath
begin

text \<open>
  The audit log (\<^verbatim>\<open>audit_log.py\<close>): an append-only file of JSON lines in a hash chain, its rotation into
  segments, the verification of the chain and the filtered read. Every operation holds the log's lock, so a history is a
  sequence of operations.

  Parameters: a record \<open>codec\<close> for the digest (SHA-256, or HMAC under a key), the canonical text of an event and the
  JSON printer and parser. A clock reading is given in UTC, broken down, as \<^verbatim>\<open>time.gmtime\<close> does. The files are those of the
  directory of the log, by path. A file that cannot be written is not modelled.
\<close>

record codec =
  c_digest :: "string \<Rightarrow> string"
  c_canonical :: "frontmatter \<Rightarrow> string" \<comment> \<open>\<^verbatim>\<open>json.dumps(body, sort_keys=True, ensure_ascii=False)\<close>\<close>
  c_dumps :: "frontmatter \<Rightarrow> string"
  c_loads :: "string \<Rightarrow> pyval option"

record audit =
  a_files :: "string dir"
  a_path :: string
  a_last :: pyval
  a_max :: nat

definition GENESIS :: pyval where "GENESIS = PyStr []"

text \<open>Reading lines in text mode: a line feed, a carriage return and both together end a line. The ends are left out, since
  every use strips them.\<close>

fun readlines :: "string \<Rightarrow> string list" where
  "readlines [] = []"
| "readlines (c # s) =
     (if c = CHR 0x0D then [] # (case s of [] \<Rightarrow> [] | d # t \<Rightarrow> if d = newline then readlines t else readlines s)
      else if c = newline then [] # readlines s
      else case readlines s of [] \<Rightarrow> [[c]] | l # ls \<Rightarrow> (c # l) # ls)"

text \<open>\<open>os.path.splitext\<close>: the last dot of the last component, unless only dots come before it there.\<close>

definition splitext :: "string \<Rightarrow> string \<times> string" where
  "splitext p =
     (let e = takeWhile (\<lambda>c. c \<noteq> CHR ''.'' \<and> c \<noteq> slash) (rev p); rest = drop (length e) (rev p)
      in case rest of [] \<Rightarrow> (p, [])
         | c # front \<Rightarrow> (if c = CHR ''.'' \<and> list_ex (\<lambda>d. d \<noteq> CHR ''.'') (takeWhile (\<lambda>d. d \<noteq> slash) front)
             then (rev front, c # rev e) else (p, [])))"

definition canonical_body :: "frontmatter \<Rightarrow> frontmatter" where
  "canonical_body ev = filter (\<lambda>(k, v). k \<noteq> PyStr ''hash'') ev"

definition event_digest :: "codec \<Rightarrow> frontmatter \<Rightarrow> pyval" where
  "event_digest c ev = PyStr (c_digest c (c_canonical c (canonical_body ev)))"

text \<open>An event of the chain: an object with a hash.\<close>

definition hashed_event :: "codec \<Rightarrow> string \<Rightarrow> frontmatter option" where
  "hashed_event c raw = (case c_loads c (strip raw) of
     Some (PyDict ev) \<Rightarrow> (if truthy (fm_get ev ''hash'') then Some ev else None) | _ \<Rightarrow> None)"

subsection \<open>Segments\<close>

definition rotated_paths :: "audit \<Rightarrow> string list" where
  "rotated_paths a = (let (front, ext) = splitext (a_path a)
     in filter (\<lambda>p. p \<noteq> a_path a \<and> starts_with (front @ ''-'') p \<and> ends_with ext p \<and> length front + 1 + length ext \<le> length p)
          (listdir (a_files a)))"

definition segments :: "audit \<Rightarrow> string list" where
  "segments a = concat (map (\<lambda>p. case dget (a_files a) p of None \<Rightarrow> [] | Some s \<Rightarrow> readlines s) (rotated_paths a @ [a_path a]))"

fun last_hash :: "codec \<Rightarrow> pyval \<Rightarrow> string list \<Rightarrow> pyval" where
  "last_hash c prev [] = prev"
| "last_hash c prev (l # ls) = (if strip l = [] then last_hash c prev ls
     else case hashed_event c l of None \<Rightarrow> last_hash c prev ls | Some ev \<Rightarrow> last_hash c (fm_get ev ''hash'') ls)"

definition load_last_hash :: "codec \<Rightarrow> audit \<Rightarrow> pyval" where
  "load_last_hash c a = last_hash c GENESIS (segments a)"

definition open_log :: "codec \<Rightarrow> string dir \<Rightarrow> string \<Rightarrow> nat \<Rightarrow> audit" where
  "open_log c fs path cap = (let a = \<lparr>a_files = fs, a_path = path, a_last = GENESIS, a_max = cap\<rparr> in a\<lparr>a_last := load_last_hash c a\<rparr>)"

subsection \<open>Rotation\<close>

record instant =
  i_date :: date
  i_second :: nat \<comment> \<open>of the day\<close>
  i_micro :: nat

definition stamp :: "instant \<Rightarrow> string" where
  "stamp i = pad4 (d_year (i_date i)) @ pad2 (d_month (i_date i)) @ pad2 (d_day (i_date i)) @ ''T''
     @ pad2 (i_second i div 3600) @ pad2 (i_second i div 60 mod 60) @ pad2 (i_second i mod 60)
     @ pad2 (i_micro i div 10000) @ pad4 (i_micro i mod 10000)"

text \<open>The loop that looks for a free name; it is written as the code has it, and returns by the theorem below.\<close>

definition numbered :: "string \<Rightarrow> string \<Rightarrow> nat \<Rightarrow> string" where
  "numbered base ext n = base @ ''-'' @ show_nat n @ ext"

partial_function (option) free_name :: "string dir \<Rightarrow> string \<Rightarrow> string \<Rightarrow> nat \<Rightarrow> string option" where
  "free_name fs base ext n =
     (if dget fs (numbered base ext n) = None then Some (numbered base ext n) else free_name fs base ext (n + 1))"

definition rotated_path_for :: "audit \<Rightarrow> instant \<Rightarrow> string option" where
  "rotated_path_for a now = (let (front, ext) = splitext (a_path a); base = front @ ''-'' @ stamp now
     in if dget (a_files a) (base @ ext) = None then Some (base @ ext) else free_name (a_files a) base ext 1)"

definition maybe_rotate :: "audit \<Rightarrow> instant \<Rightarrow> audit" where
  "maybe_rotate a now = (case dget (a_files a) (a_path a) of None \<Rightarrow> a
     | Some content \<Rightarrow>
         (if a_max a = 0 \<or> length (utf8 content) < a_max a then a
          else case rotated_path_for a now of None \<Rightarrow> a
            | Some dst \<Rightarrow> a\<lparr>a_files := dset dst content (dpop (a_path a) (a_files a))\<rparr>))"

subsection \<open>Append\<close>

definition chained :: "codec \<Rightarrow> pyval \<Rightarrow> string \<Rightarrow> frontmatter \<Rightarrow> frontmatter" where
  "chained c prev eid ev = (let ev2 = dset (PyStr ''prev_hash'') prev (dset (PyStr ''event_id'') (PyStr eid) ev)
     in dset (PyStr ''hash'') (event_digest c ev2) ev2)"

definition append_event :: "codec \<Rightarrow> audit \<Rightarrow> instant \<Rightarrow> string \<Rightarrow> frontmatter \<Rightarrow> audit" where
  "append_event c a now eid ev =
     (let r = maybe_rotate a now; e = chained c (a_last r) eid ev
      in r\<lparr>a_files := dset (a_path r) (get_or [] (a_files r) (a_path r) @ c_dumps c e @ [newline]) (a_files r),
           a_last := fm_get e ''hash''\<rparr>)"

subsection \<open>Verification\<close>

fun verify_lines :: "codec \<Rightarrow> pyval \<Rightarrow> bool \<Rightarrow> nat \<Rightarrow> string list \<Rightarrow> nat option" where
  "verify_lines c prev seen i [] = None"
| "verify_lines c prev seen i (raw # rest) =
     (if strip raw = [] then verify_lines c prev seen (i + 1) rest
      else if c_loads c (strip raw) = None then Some i
      else case hashed_event c raw of
          None \<Rightarrow> (if seen then Some i else verify_lines c prev seen (i + 1) rest)
        | Some ev \<Rightarrow>
            (if fm_get ev ''prev_hash'' \<noteq> prev \<or> event_digest c ev \<noteq> fm_get ev ''hash'' then Some i
             else verify_lines c (fm_get ev ''hash'') True (i + 1) rest))"

text \<open>The index of the first offending line, or none.\<close>

definition verify :: "codec \<Rightarrow> audit \<Rightarrow> nat option" where
  "verify c a = verify_lines c GENESIS False 0 (segments a)"

subsection \<open>Filtered reading\<close>

record audit_filter =
  f_since :: "pyfloat option"
  f_agent :: "string option"
  f_status :: "string option"
  f_rotated :: bool
  f_cap :: "nat option"

fun number :: "pyval \<Rightarrow> pyfloat option" where
  "number (PyInt i) = Some (FNum (of_int i))"
| "number (PyFloat f) = Some f"
| "number _ = None"

definition event_ts :: "frontmatter \<Rightarrow> pyfloat option" where
  "event_ts ev = number (get_or (PyInt 0) ev (PyStr ''ts''))"

definition asked_for :: "audit_filter \<Rightarrow> frontmatter \<Rightarrow> bool" where
  "asked_for f ev \<longleftrightarrow> (case f_agent f of None \<Rightarrow> True | Some s \<Rightarrow> fm_get ev ''agent_identity'' = PyStr s)
     \<and> (case f_status f of None \<Rightarrow> True | Some s \<Rightarrow> fm_get ev ''status'' = PyStr s)"

fun scan_back :: "codec \<Rightarrow> audit_filter \<Rightarrow> nat \<Rightarrow> string list \<Rightarrow> pyval list" where
  "scan_back c f n [] = []"
| "scan_back c f n (l # ls) =
     (if (case f_cap f of None \<Rightarrow> False | Some m \<Rightarrow> m \<le> n) then []
      else if strip l = [] then scan_back c f n ls
      else case c_loads c (strip l) of
          None \<Rightarrow> scan_back c f (n + 1) ls
        | Some (PyDict ev) \<Rightarrow>
            (case f_since f of
               None \<Rightarrow> (if asked_for f ev then [PyDict ev] else []) @ scan_back c f (n + 1) ls
             | Some low \<Rightarrow> (case event_ts ev of
                 None \<Rightarrow> scan_back c f (n + 1) ls
               | Some ts \<Rightarrow> (if float_less ts low then []
                   else (if asked_for f ev then [PyDict ev] else []) @ scan_back c f (n + 1) ls)))
        | Some v \<Rightarrow> (if f_since f = None \<and> f_agent f = None \<and> f_status f = None then [v] else []) @ scan_back c f (n + 1) ls)"

definition iter_filtered :: "codec \<Rightarrow> audit \<Rightarrow> audit_filter \<Rightarrow> pyval list" where
  "iter_filtered c a f = scan_back c f 0
     (if f_rotated f then rev (segments a) else rev (case dget (a_files a) (a_path a) of None \<Rightarrow> [] | Some s \<Rightarrow> readlines s))"

subsection \<open>The loop for a free name returns\<close>

lemma free_name_Some: "dget fs (numbered base ext (n + k)) = None \<Longrightarrow>
    \<exists>name. free_name fs base ext n = Some name \<and> dget fs name = None"
proof (induction k arbitrary: n)
  case (Suc k)
  then show ?case by (subst free_name.simps) (auto simp: Suc.IH[of "n + 1"])
qed (simp add: free_name.simps)

lemma numbered_inj: "numbered base ext m = numbered base ext n \<Longrightarrow> m = n"
  by (simp add: numbered_def) (metis nat_of_show_nat)

lemma free_name_returns:
  "\<exists>m. free_name fs base ext n = Some (numbered base ext m) \<and> dget fs (numbered base ext m) = None"
proof -
  have "finite (numbered base ext -` dom (map_of fs))"
    by (intro finite_vimageI finite_dom_map_of injI) (rule numbered_inj)
  then obtain b where "\<forall>m \<in> numbered base ext -` dom (map_of fs). m < b" by (meson finite_nat_set_iff_bounded)
  then have "n + b \<notin> numbered base ext -` dom (map_of fs)" by force
  then have "dget fs (numbered base ext (n + b)) = None" by (simp add: domIff)
  then obtain k where "dget fs (numbered base ext (n + k)) = None" by (metis le_iff_add)
  then show ?thesis
  proof (induction k arbitrary: n)
    case 0
    then show ?case by (intro exI[of _ n]) (simp add: free_name.simps)
  next
    case (Suc k)
    show ?case
    proof (cases "dget fs (numbered base ext n)")
      case None
      then show ?thesis by (intro exI[of _ n]) (simp add: free_name.simps)
    next
      case (Some x)
      with Suc.IH[of "n + 1"] Suc.prems show ?thesis by (subst free_name.simps) simp
    qed
  qed
qed

lemma splitext_append: "fst (splitext p) @ snd (splitext p) = p"
proof -
  define e where "e = takeWhile (\<lambda>c. c \<noteq> CHR ''.'' \<and> c \<noteq> slash) (rev p)"
  define rest where "rest = drop (length e) (rev p)"
  have "rev p = e @ rest" unfolding e_def rest_def by (simp add: dropWhile_eq_drop[symmetric])
  then have "rev (rev p) = rev (e @ rest)" by (rule arg_cong)
  then have "p = rev rest @ rev e" by simp
  then show ?thesis
    unfolding splitext_def Let_def e_def[symmetric] rest_def[symmetric] by (cases rest) auto
qed

text \<open>C16. The search for a name of a rotated segment ends, with a name that no file has and that the listing of segments will
  find.\<close>

theorem rotation_finds_free_name:
  "\<exists>dst mid. rotated_path_for a now = Some dst \<and> dget (a_files a) dst = None \<and>
     dst = fst (splitext (a_path a)) @ ''-'' @ stamp now @ mid @ snd (splitext (a_path a))"
proof (cases "splitext (a_path a)")
  case (Pair front ext)
  show ?thesis
  proof (cases "dget (a_files a) ((front @ ''-'' @ stamp now) @ ext)")
    case None
    then show ?thesis using Pair by (intro exI[of _ "(front @ ''-'' @ stamp now) @ ext"] exI[of _ "[]"]) (simp add: rotated_path_for_def)
  next
    case (Some x)
    obtain m where "free_name (a_files a) (front @ ''-'' @ stamp now) ext 1 = Some (numbered (front @ ''-'' @ stamp now) ext m)"
        "dget (a_files a) (numbered (front @ ''-'' @ stamp now) ext m) = None"
      using free_name_returns by blast
    then show ?thesis using Pair Some
      by (intro exI[of _ "numbered (front @ ''-'' @ stamp now) ext m"] exI[of _ "''-'' @ show_nat m"])
        (simp add: rotated_path_for_def numbered_def)
  qed
qed

subsection \<open>Lines\<close>

definition one_line :: "string \<Rightarrow> bool" where
  "one_line l \<longleftrightarrow> list_all (\<lambda>c. c \<noteq> newline \<and> c \<noteq> CHR 0x0D) l"

definition whole :: "string \<Rightarrow> bool" where
  "whole s \<longleftrightarrow> s = [] \<or> last s = newline"

lemma readlines_line: "one_line l \<Longrightarrow> readlines (l @ newline # t) = l # readlines t"
  by (induction l) (auto simp: one_line_def newline_def)

lemma readlines_whole: "whole s \<Longrightarrow> readlines (s @ t) = readlines s @ readlines t"
proof (induction "length s" arbitrary: s rule: less_induct)
  case less
  show ?case
  proof (cases s)
    case (Cons c u)
    have IH: "readlines (u @ t) = readlines u @ readlines t" if "whole u" using less.hyps[of u] that Cons by simp
    have IH2: "readlines (tl u @ t) = readlines (tl u) @ readlines t" if "whole (tl u)" using less.hyps[of "tl u"] that Cons by simp
    have w: "u = [] \<Longrightarrow> c = newline" "u \<noteq> [] \<Longrightarrow> whole u" using less.prems Cons by (auto simp: whole_def)
    show ?thesis
    proof (cases u)
      case Nil
      then show ?thesis using w(1) Cons by (simp add: newline_def)
    next
      case (Cons d v)
      then have u: "whole u" "u = d # v" using w(2) by auto
      have v: "d = newline \<Longrightarrow> readlines (v @ t) = readlines v @ readlines t"
        using IH2 u by (cases v) (auto simp: whole_def)
      obtain l ls where r: "readlines u = l # ls" by (cases "readlines u") (auto simp: u(2) split: if_splits list.splits)
      show ?thesis using IH[OF u(1)] v r unfolding \<open>s = c # u\<close> by (auto simp: u(2) split: if_splits)
    qed
  qed simp
qed

lemma whole_line [simp]: "whole (s @ [newline])"
  by (simp add: whole_def)

lemma readlines_append: "whole s \<Longrightarrow> one_line l \<Longrightarrow> readlines (s @ l @ [newline]) = readlines s @ [l]"
  using readlines_line[of l "[]"] by (simp add: readlines_whole)

lemma last_hash_append [simp]: "last_hash c prev (xs @ ys) = last_hash c (last_hash c prev xs) ys"
  by (induction xs arbitrary: prev) (auto split: option.split)

lemma hashed_event_loads: "hashed_event c l = Some ev \<Longrightarrow> c_loads c (strip l) = Some (PyDict ev) \<and> truthy (fm_get ev ''hash'')"
  by (auto simp: hashed_event_def split: option.splits pyval.splits if_splits)

lemma verify_append:
  "verify_lines c prev seen i xs = None \<Longrightarrow> strip l \<noteq> [] \<Longrightarrow> hashed_event c l = Some ev \<Longrightarrow>
     fm_get ev ''prev_hash'' = last_hash c prev xs \<Longrightarrow> event_digest c ev = fm_get ev ''hash'' \<Longrightarrow>
     verify_lines c prev seen i (xs @ [l]) = None"
proof (induction c prev seen i xs rule: verify_lines.induct)
  case (1 c prev seen i)
  then show ?case using hashed_event_loads[OF 1(3)] by simp
next
  case (2 c prev seen i raw rest)
  then show ?case by (auto split: if_splits option.splits)
qed

subsection \<open>Events\<close>

lemma filter_update: "\<not> P k \<Longrightarrow> filter (\<lambda>(x, v). P x) (AList.update k w d) = filter (\<lambda>(x, v). P x) d"
  by (induction d) auto

lemma body_hash [simp]: "canonical_body (dset (PyStr ''hash'') v ev) = canonical_body ev"
  unfolding canonical_body_def by (rule filter_update) simp

lemma chained_fields:
  "fm_get (chained c prev eid ev) ''hash'' = event_digest c (chained c prev eid ev)"
  "fm_get (chained c prev eid ev) ''prev_hash'' = prev"
  by (simp_all add: chained_def Let_def fm_get_def get_or_def event_digest_def)

text \<open>What the printer and the parser owe the log for one event: it reads back, from one line, and its digest is not empty.\<close>

definition faithful :: "codec \<Rightarrow> frontmatter \<Rightarrow> bool" where
  "faithful c ev \<longleftrightarrow> c_loads c (c_dumps c ev) = Some (PyDict ev) \<and> one_line (c_dumps c ev) \<and> c_dumps c ev \<noteq> []
     \<and> strip (c_dumps c ev) = c_dumps c ev \<and> event_digest c ev \<noteq> PyStr []"

lemma faithful_hashed:
  assumes "faithful c (chained c prev eid ev)"
  shows "hashed_event c (c_dumps c (chained c prev eid ev)) = Some (chained c prev eid ev)"
  using assms chained_fields(1)[of c prev eid ev] unfolding faithful_def hashed_event_def
  by (simp add: event_digest_def)

subsection \<open>Segments after an operation\<close>

definition segment_name :: "audit \<Rightarrow> string \<Rightarrow> bool" where
  "segment_name a p \<longleftrightarrow> p \<noteq> a_path a \<and> starts_with (fst (splitext (a_path a)) @ ''-'') p \<and> ends_with (snd (splitext (a_path a))) p
     \<and> length (fst (splitext (a_path a))) + 1 + length (snd (splitext (a_path a))) \<le> length p"

lemma rotated_paths_eq: "rotated_paths a = filter (segment_name a) (listdir (a_files a))"
  by (simp add: rotated_paths_def segment_name_def[abs_def] Let_def split_beta)

lemma set_rotated: "set (rotated_paths a) = {p. segment_name a p \<and> dget (a_files a) p \<noteq> None}"
  by (auto simp: rotated_paths_eq set_listdir)

lemma rotated_sorted: "sorted (rotated_paths a)" "distinct (rotated_paths a)"
  by (simp_all add: rotated_paths_eq sorted_listdir distinct_listdir sorted_wrt_filter)

lemma rotated_unique:
  "a_path b = a_path a \<Longrightarrow> sorted ps \<Longrightarrow> distinct ps \<Longrightarrow> set ps = {p. segment_name a p \<and> dget (a_files b) p \<noteq> None} \<Longrightarrow> rotated_paths b = ps"
  by (intro sorted_distinct_set_unique rotated_sorted) (simp_all add: set_rotated segment_name_def)

lemma not_segment [simp]: "\<not> segment_name a (a_path a)"
  by (simp add: segment_name_def)

definition seg_lines :: "audit \<Rightarrow> string \<Rightarrow> string list" where
  "seg_lines a p = (case dget (a_files a) p of None \<Rightarrow> [] | Some s \<Rightarrow> readlines s)"

lemma segments_eq: "segments a = concat (map (seg_lines a) (rotated_paths a)) @ seg_lines a (a_path a)"
  by (simp add: segments_def seg_lines_def[abs_def])

lemma seg_lines_cong: "(\<And>p. p \<in> set ps \<Longrightarrow> dget (a_files b) p = dget (a_files a) p) \<Longrightarrow>
    concat (map (seg_lines b) ps) = concat (map (seg_lines a) ps)"
  by (intro arg_cong[where f = concat] map_cong) (auto simp: seg_lines_def)

text \<open>Writing the live file leaves the other segments alone.\<close>

lemma segments_write:
  assumes "whole (get_or [] (a_files a) (a_path a))" and "one_line l"
    and "b = a\<lparr>a_files := dset (a_path a) (get_or [] (a_files a) (a_path a) @ l @ [newline]) (a_files a), a_last := h\<rparr>"
  shows "segments b = segments a @ [l]" and "rotated_paths b = rotated_paths a"
proof -
  show r: "rotated_paths b = rotated_paths a"
    by (rule rotated_unique) (use assms(3) rotated_sorted in \<open>auto simp: set_rotated\<close>)
  have "concat (map (seg_lines b) (rotated_paths a)) = concat (map (seg_lines a) (rotated_paths a))"
    by (rule seg_lines_cong) (auto simp: assms(3) set_rotated)
  moreover have "seg_lines b (a_path a) = seg_lines a (a_path a) @ [l]"
    using readlines_append[OF assms(1,2)] by (auto simp: seg_lines_def assms(3) get_or_def split: option.splits)
  moreover have "a_path b = a_path a" by (simp add: assms(3))
  ultimately show "segments b = segments a @ [l]" unfolding segments_eq r by simp
qed

text \<open>Renaming the live file to the last name of all keeps the sequence of lines.\<close>

lemma segments_rotate:
  assumes "dget (a_files a) (a_path a) = Some s" and "segment_name a dst" and "dget (a_files a) dst = None"
    and "\<And>p. p \<in> set (rotated_paths a) \<Longrightarrow> p < dst"
    and "b = a\<lparr>a_files := dset dst s (dpop (a_path a) (a_files a))\<rparr>"
  shows "segments b = segments a" and "rotated_paths b = rotated_paths a @ [dst]"
proof -
  have ne: "dst \<noteq> a_path a" using assms(2) by (auto simp: segment_name_def)
  show r: "rotated_paths b = rotated_paths a @ [dst]"
  proof (rule rotated_unique[of b a])
    show "sorted (rotated_paths a @ [dst])"
      using rotated_sorted(1)[of a] assms(4) by (auto simp: sorted_append intro: less_imp_le)
    show "distinct (rotated_paths a @ [dst])" using rotated_sorted(2)[of a] assms(4) by auto
    show "set (rotated_paths a @ [dst]) = {p. segment_name a p \<and> dget (a_files b) p \<noteq> None}"
      using assms(2) by (auto simp: assms(5) set_rotated)
  qed (simp add: assms(5))
  have "concat (map (seg_lines b) (rotated_paths a)) = concat (map (seg_lines a) (rotated_paths a))"
    using assms(3) by (intro seg_lines_cong) (auto simp: assms(5) set_rotated)
  moreover have "seg_lines b dst = seg_lines a (a_path a)" "seg_lines b (a_path a) = []"
    using ne assms(1) by (auto simp: seg_lines_def assms(5))
  moreover have "a_path b = a_path a" by (simp add: assms(5))
  ultimately show "segments b = segments a" unfolding segments_eq r by simp
qed
subsection \<open>The clock\<close>

definition valid_instant :: "instant \<Rightarrow> bool" where
  "valid_instant i \<longleftrightarrow> valid_date (i_date i) \<and> i_second i < 86400 \<and> i_micro i < 1000000"

definition instant_key :: "instant \<Rightarrow> nat list" where
  "instant_key i = [d_year (i_date i), d_month (i_date i), d_day (i_date i), i_second i, i_micro i]"

definition earlier :: "instant \<Rightarrow> instant \<Rightarrow> bool" where
  "earlier i j \<longleftrightarrow> instant_key i < instant_key j"

lemma length_stamp [simp]: "length (stamp i) = 21"
  by (simp add: stamp_def)

lemma clock_split:
  assumes "s < 86400" and "t < (86400 :: nat)"
  shows "pad2 (s div 3600) @ pad2 (s div 60 mod 60) @ pad2 (s mod 60) @ us < pad2 (t div 3600) @ pad2 (t div 60 mod 60) @ pad2 (t mod 60) @ vs
    \<longleftrightarrow> s < t \<or> s = t \<and> us < vs"
proof -
  have b: "s div 3600 < 100" "t div 3600 < 100" "s div 60 mod 60 < 100" "t div 60 mod 60 < 100" "s mod 60 < 100" "t mod 60 < 100"
    using assms by auto
  have h: "s div 3600 = s div 60 div 60" "t div 3600 = t div 60 div 60" by (simp_all add: div_mult2_eq[symmetric])
  have m: "s div 60 < t div 60 \<longleftrightarrow> s div 3600 < t div 3600 \<or> s div 3600 = t div 3600 \<and> s div 60 mod 60 < t div 60 mod 60"
    unfolding h by (simp add: div_mod_less)
  have e: "s div 60 = t div 60 \<longleftrightarrow> s div 3600 = t div 3600 \<and> s div 60 mod 60 = t div 60 mod 60"
    unfolding h by (simp add: div_mod_eq)
  have l: "s < t \<longleftrightarrow> s div 60 < t div 60 \<or> s div 60 = t div 60 \<and> s mod 60 < t mod 60" by (simp add: div_mod_less)
  have q: "s = t \<longleftrightarrow> s div 60 = t div 60 \<and> s mod 60 = t mod 60" by (simp add: div_mod_eq)
  show ?thesis
    unfolding l q m e using b by (simp add: append_less_iff pad2_less) blast
qed

lemma micro_less:
  assumes "u < 1000000" and "v < (1000000 :: nat)"
  shows "pad2 (u div 10000) @ pad4 (u mod 10000) < pad2 (v div 10000) @ pad4 (v mod 10000) \<longleftrightarrow> u < v"
proof -
  have "u div 10000 < 100" "v div 10000 < 100" "u mod 10000 < 10000" "v mod 10000 < 10000" using assms by auto
  then show ?thesis by (simp add: append_less_iff pad2_less pad4_less div_mod_less)
qed

lemma stamp_less:
  assumes "valid_instant i" and "valid_instant j"
  shows "stamp i < stamp j \<longleftrightarrow> earlier i j"
proof -
  have v: "valid_date (i_date i)" "valid_date (i_date j)" "i_second i < 86400" "i_second j < 86400" "i_micro i < 1000000" "i_micro j < 1000000"
    using assms by (auto simp: valid_instant_def)
  note d = valid_date_bounds[OF v(1)] valid_date_bounds[OF v(2)]
  have T: "''T'' @ (xs :: string) < ''T'' @ ys \<longleftrightarrow> xs < ys" for xs ys by simp
  show ?thesis
    unfolding stamp_def earlier_def instant_key_def
    using d by (simp only: append_less_iff length_pad2 length_pad4 pad4_less pad2_less T clock_split[OF v(3,4)] micro_less[OF v(5,6)] Cons_less_Cons) simp
qed

subsection \<open>Histories of the log\<close>

text \<open>A log that starts in a directory without segments; events are appended at later and later instants, and the process may
  restart, with another size limit, at any point.\<close>

inductive logged :: "codec \<Rightarrow> instant \<Rightarrow> audit \<Rightarrow> bool" for c :: codec where
  l_start: "dget fs path = None \<Longrightarrow> rotated_paths (open_log c fs path cap) = [] \<Longrightarrow> valid_instant t \<Longrightarrow> logged c t (open_log c fs path cap)"
| l_append: "logged c t a \<Longrightarrow> earlier t now \<Longrightarrow> valid_instant now \<Longrightarrow> faithful c (chained c (a_last a) eid ev) \<Longrightarrow>
    logged c now (append_event c a now eid ev)"
| l_restart: "logged c t a \<Longrightarrow> logged c t (open_log c (a_files a) (a_path a) cap)"

definition stamped :: "audit \<Rightarrow> instant \<Rightarrow> string" where
  "stamped a i = (fst (splitext (a_path a)) @ ''-'' @ stamp i) @ snd (splitext (a_path a))"

definition log_inv :: "codec \<Rightarrow> instant \<Rightarrow> audit \<Rightarrow> bool" where
  "log_inv c t a \<longleftrightarrow> valid_instant t \<and> verify c a = None \<and> a_last a = load_last_hash c a \<and> whole (get_or [] (a_files a) (a_path a)) \<and>
     (\<forall>p \<in> set (rotated_paths a). \<exists>i. valid_instant i \<and> p = stamped a i \<and> \<not> earlier t i)"

lemma earlier_trans: "\<not> earlier t i \<Longrightarrow> earlier t now \<Longrightarrow> earlier i now"
  unfolding earlier_def by (meson less_linear order_less_trans not_less order_le_less_trans)

lemma stamped_less: "valid_instant i \<Longrightarrow> valid_instant j \<Longrightarrow> earlier i j \<Longrightarrow> stamped a i < stamped a j"
  by (simp add: stamped_def append_less_iff stamp_less)

lemma stamped_segment: "segment_name a (stamped a i)"
proof -
  have "stamped a i \<noteq> a_path a"
  proof
    assume "stamped a i = a_path a"
    then have "length (stamped a i) = length (fst (splitext (a_path a)) @ snd (splitext (a_path a)))" by (simp add: splitext_append)
    then show False by (simp add: stamped_def)
  qed
  then show ?thesis by (simp add: segment_name_def stamped_def starts_with_def ends_with_def)
qed

lemma rotate_inv:
  assumes "log_inv c t a" and "earlier t now" and "valid_instant now"
  shows "segments (maybe_rotate a now) = segments a" and "a_path (maybe_rotate a now) = a_path a" and "a_last (maybe_rotate a now) = a_last a"
    and "whole (get_or [] (a_files (maybe_rotate a now)) (a_path a))"
    and "\<forall>p \<in> set (rotated_paths (maybe_rotate a now)). \<exists>i. valid_instant i \<and> p = stamped a i \<and> \<not> earlier now i"
proof -
  have old: "\<exists>i. valid_instant i \<and> p = stamped a i \<and> earlier i now" if p: "p \<in> set (rotated_paths a)" for p
  proof -
    obtain i where "valid_instant i" "p = stamped a i" "\<not> earlier t i" using assms(1) p by (auto simp: log_inv_def)
    then show ?thesis using earlier_trans[OF _ assms(2), of i] by blast
  qed
  have older: "p < stamped a now" if "p \<in> set (rotated_paths a)" for p
    using old[OF that] stamped_less[OF _ assms(3)] by blast
  have free: "dget (a_files a) (stamped a now) = None"
    using older[of "stamped a now"] stamped_segment[of a now] by (cases "dget (a_files a) (stamped a now)") (simp_all add: set_rotated)
  have asym: "earlier i now \<Longrightarrow> \<not> earlier now i" for i unfolding earlier_def by (rule less_not_sym)
  have old: "\<forall>p \<in> set (rotated_paths a). \<exists>i. valid_instant i \<and> p = stamped a i \<and> \<not> earlier now i"
    using old asym by blast
  have dst: "rotated_path_for a now = Some (stamped a now)"
    using free by (simp add: rotated_path_for_def stamped_def Let_def split_beta)
  consider (same) "maybe_rotate a now = a"
    | (moved) s where "dget (a_files a) (a_path a) = Some s"
        "maybe_rotate a now = a\<lparr>a_files := dset (stamped a now) s (dpop (a_path a) (a_files a))\<rparr>"
  proof (cases "dget (a_files a) (a_path a)")
    case None
    then show ?thesis by (intro same) (simp add: maybe_rotate_def)
  next
    case (Some s)
    show ?thesis
    proof (cases "a_max a = 0 \<or> length (utf8 s) < a_max a")
      case True
      with Some show ?thesis by (intro same) (simp add: maybe_rotate_def)
    next
      case False
      with Some show ?thesis by (intro moved) (simp_all add: maybe_rotate_def dst)
    qed
  qed
  then have "segments (maybe_rotate a now) = segments a \<and> a_path (maybe_rotate a now) = a_path a \<and> a_last (maybe_rotate a now) = a_last a
      \<and> whole (get_or [] (a_files (maybe_rotate a now)) (a_path a))
      \<and> (\<forall>p \<in> set (rotated_paths (maybe_rotate a now)). \<exists>i. valid_instant i \<and> p = stamped a i \<and> \<not> earlier now i)"
  proof cases
    case same
    then show ?thesis using assms(1) old by (simp add: log_inv_def)
  next
    case moved
    note r = segments_rotate[OF moved(1) stamped_segment free older moved(2)]
    have "\<not> earlier now now" by (simp add: earlier_def)
    then show ?thesis using r old assms(3) stamped_segment[of a now]
      by (auto simp: moved(2) get_or_def whole_def segment_name_def)
  qed
  then show "segments (maybe_rotate a now) = segments a" "a_path (maybe_rotate a now) = a_path a" "a_last (maybe_rotate a now) = a_last a"
    "whole (get_or [] (a_files (maybe_rotate a now)) (a_path a))"
    "\<forall>p \<in> set (rotated_paths (maybe_rotate a now)). \<exists>i. valid_instant i \<and> p = stamped a i \<and> \<not> earlier now i" by blast+
qed

lemma append_inv:
  assumes "log_inv c t a" and "earlier t now" and "valid_instant now" and "faithful c (chained c (a_last a) eid ev)"
  shows "log_inv c now (append_event c a now eid ev)"
proof -
  let ?r = "maybe_rotate a now"
  define e where "e = chained c (a_last a) eid ev"
  note r = rotate_inv[OF assms(1-3)]
  have e: "faithful c e" "hashed_event c (c_dumps c e) = Some e" "fm_get e ''hash'' = event_digest c e" "fm_get e ''prev_hash'' = a_last a"
    using assms(4) faithful_hashed[OF assms(4)] chained_fields[of c "a_last a" eid ev] by (simp_all add: e_def)
  have b: "append_event c a now eid ev = ?r\<lparr>a_files := dset (a_path ?r) (get_or [] (a_files ?r) (a_path ?r) @ c_dumps c e @ [newline]) (a_files ?r),
      a_last := fm_get e ''hash''\<rparr>"
    by (simp add: append_event_def e_def r(3) Let_def)
  have one: "one_line (c_dumps c e)" using e(1) by (simp add: faithful_def)
  have w: "whole (get_or [] (a_files ?r) (a_path ?r))" using r(4) r(2) by simp
  note s = segments_write[OF w one b]
  have ls: "a_last a = last_hash c GENESIS (segments a)" and v: "verify_lines c GENESIS False 0 (segments a) = None"
    using assms(1) by (auto simp: log_inv_def load_last_hash_def verify_def)
  have "strip (c_dumps c e) \<noteq> []" using e(1) by (simp add: faithful_def)
  then have "verify_lines c GENESIS False 0 (segments a @ [c_dumps c e]) = None"
      "last_hash c GENESIS (segments a @ [c_dumps c e]) = fm_get e ''hash''"
    using verify_append[OF v _ e(2)] e(3,4) ls e(2) by auto
  moreover have "stamped (append_event c a now eid ev) = stamped a"
    by (rule ext) (simp add: b stamped_def r(2))
  ultimately show ?thesis
    using s r(5) r(2) assms(3) unfolding log_inv_def verify_def load_last_hash_def
    by (simp add: b r(1) get_or_def) (metis whole_line append_assoc)
qed

lemma open_fields [simp]: "a_files (open_log c fs path cap) = fs" "a_path (open_log c fs path cap) = path"
  by (simp_all add: open_log_def Let_def)

lemma rotated_cong: "a_files b = a_files a \<Longrightarrow> a_path b = a_path a \<Longrightarrow> rotated_paths b = rotated_paths a \<and> segments b = segments a"
  by (simp add: rotated_paths_def segments_def Let_def split_beta)

lemma open_last: "a_last (open_log c fs path cap) = load_last_hash c (open_log c fs path cap)"
  by (simp add: open_log_def Let_def load_last_hash_def segments_def rotated_paths_def)

lemma logged_inv: "logged c t a \<Longrightarrow> log_inv c t a"
proof (induction rule: logged.induct)
  case (l_start fs path cap t)
  then have "segments (open_log c fs path cap) = []" by (simp add: segments_eq seg_lines_def)
  then show ?case using l_start open_last[of c fs path cap]
    by (simp add: log_inv_def verify_def get_or_def whole_def)
next
  case (l_append t a now eid ev)
  then show ?case using append_inv by blast
next
  case (l_restart t a cap)
  have "rotated_paths (open_log c (a_files a) (a_path a) cap) = rotated_paths a" "segments (open_log c (a_files a) (a_path a) cap) = segments a"
    using rotated_cong[of "open_log c (a_files a) (a_path a) cap" a] by auto
  moreover have "stamped (open_log c (a_files a) (a_path a) cap) = stamped a" by (rule ext) (simp add: stamped_def)
  ultimately show ?case using l_restart.IH open_last[of c "a_files a" "a_path a" cap] by (simp add: log_inv_def verify_def)
qed

text \<open>C10. Whatever is appended, and however often the log is rotated or the process restarted, the whole log verifies, and the
  next event will be chained to its true end, as long as the clock moves forward.\<close>

theorem logged_log_verifies:
  assumes "logged c t a"
  shows "verify c a = None \<and> a_last a = load_last_hash c a"
  using logged_inv[OF assms] by (simp add: log_inv_def)

subsection \<open>What the chain protects\<close>

definition chain_events :: "codec \<Rightarrow> string list \<Rightarrow> frontmatter list" where
  "chain_events c ls = List.map_filter (hashed_event c) (filter (\<lambda>l. strip l \<noteq> []) ls)"

lemma chain_events_simps [simp]:
  "chain_events c [] = []"
  "chain_events c (l # ls) = (if strip l = [] then [] else opt_list (hashed_event c l)) @ chain_events c ls"
  by (auto simp: chain_events_def List.map_filter_def split: option.split)

fun chain_ok :: "codec \<Rightarrow> pyval \<Rightarrow> frontmatter list \<Rightarrow> bool" where
  "chain_ok c prev [] = True"
| "chain_ok c prev (e # es) = (fm_get e ''prev_hash'' = prev \<and> event_digest c e = fm_get e ''hash'' \<and> chain_ok c (fm_get e ''hash'') es)"

lemma verify_chain_ok: "verify_lines c prev seen i ls = None \<Longrightarrow> chain_ok c prev (chain_events c ls)"
  by (induction c prev seen i ls rule: verify_lines.induct) (auto split: if_splits option.splits)

lemma last_hash_chain: "last_hash c prev ls = last (prev # map (\<lambda>e. fm_get e ''hash'') (chain_events c ls))"
  by (induction c prev ls rule: last_hash.induct) (auto split: option.split)

lemma chain_ok_snoc: "chain_ok c prev (es @ [e]) \<longleftrightarrow>
    chain_ok c prev es \<and> fm_get e ''prev_hash'' = last (prev # map (\<lambda>e. fm_get e ''hash'') es) \<and> event_digest c e = fm_get e ''hash''"
  by (induction es arbitrary: prev) auto

definition body_text :: "codec \<Rightarrow> frontmatter \<Rightarrow> string" where
  "body_text c e = c_canonical c (canonical_body e)"

lemma event_digest_text: "event_digest c e = PyStr (c_digest c (body_text c e))"
  by (simp add: event_digest_def body_text_def)

lemma chain_unique:
  assumes "chain_ok c GENESIS xs" and "chain_ok c GENESIS ys"
    and "last (GENESIS # map (\<lambda>e. fm_get e ''hash'') xs) = last (GENESIS # map (\<lambda>e. fm_get e ''hash'') ys)"
    and "inj_on (c_digest c) (body_text c ` (E :: frontmatter set))" and "set xs \<subseteq> E" and "set ys \<subseteq> E"
    and "\<And>e f. e \<in> E \<Longrightarrow> f \<in> E \<Longrightarrow> body_text c e = body_text c f \<Longrightarrow> fm_get e ''prev_hash'' = fm_get f ''prev_hash''"
    and "\<And>s. c_digest c s \<noteq> []"
  shows "map (body_text c) xs = map (body_text c) ys"
  using assms(1-3,5,6)
proof (induction xs arbitrary: ys rule: rev_induct)
  case Nil
  show ?case
  proof (cases ys rule: rev_cases)
    case (snoc zs y)
    with Nil.prems have "PyStr (c_digest c (body_text c y)) = PyStr []" by (simp add: chain_ok_snoc event_digest_text GENESIS_def)
    then show ?thesis using assms(8) by simp
  qed simp
next
  case (snoc x xs)
  note prems = snoc.prems
  show ?case
  proof (cases ys rule: rev_cases)
    case Nil
    then show ?thesis using prems assms(8) by (auto simp: chain_ok_snoc event_digest_text GENESIS_def)
  next
    case (snoc zs y)
    have h: "fm_get x ''hash'' = fm_get y ''hash''" "x \<in> E" "y \<in> E" using prems snoc by auto
    have "PyStr (c_digest c (body_text c x)) = fm_get x ''hash''" "PyStr (c_digest c (body_text c y)) = fm_get y ''hash''"
      using prems snoc by (simp_all add: chain_ok_snoc event_digest_text)
    then have "c_digest c (body_text c x) = c_digest c (body_text c y)" using h(1) by (metis pyval.inject(4))
    then have t: "body_text c x = body_text c y" using assms(4) h(2,3) by (meson imageI inj_onD)
    then have "fm_get x ''prev_hash'' = fm_get y ''prev_hash''" using assms(7) h by blast
    then have "map (body_text c) xs = map (body_text c) zs"
      using prems snoc by (intro snoc.IH) (auto simp: chain_ok_snoc)
    with t snoc show ?thesis by simp
  qed
qed

text \<open>C20. Two logs that both verify and end in the same hash record the same events, as long as no two of their texts collide
  and the canonical text determines the field that links an event to its predecessor: nothing in the past of a known hash can
  be edited, removed, inserted or reordered.\<close>

theorem same_end_same_history:
  assumes "verify_lines c GENESIS False 0 xs = None" and "verify_lines c GENESIS False 0 ys = None"
    and "last_hash c GENESIS xs = last_hash c GENESIS ys"
    and "inj_on (c_digest c) (body_text c ` (set (chain_events c xs) \<union> set (chain_events c ys)))"
    and "\<And>e f. e \<in> set (chain_events c xs) \<union> set (chain_events c ys) \<Longrightarrow> f \<in> set (chain_events c xs) \<union> set (chain_events c ys) \<Longrightarrow>
       body_text c e = body_text c f \<Longrightarrow> fm_get e ''prev_hash'' = fm_get f ''prev_hash''"
    and "\<And>s. c_digest c s \<noteq> []"
  shows "map (body_text c) (chain_events c xs) = map (body_text c) (chain_events c ys)"
proof (rule chain_unique[where E = "set (chain_events c xs) \<union> set (chain_events c ys)"])
  show "last (GENESIS # map (\<lambda>e. fm_get e ''hash'') (chain_events c xs)) = last (GENESIS # map (\<lambda>e. fm_get e ''hash'') (chain_events c ys))"
    using assms(3) unfolding last_hash_chain .
  show "chain_ok c GENESIS (chain_events c xs)" "chain_ok c GENESIS (chain_events c ys)"
    using verify_chain_ok[OF assms(1)] verify_chain_ok[OF assms(2)] .
qed (simp_all add: assms(4,6), erule (2) assms(5)[unfolded Un_iff])

text \<open>The hash of the end is not kept anywhere, so a log from which the last lines are cut off verifies as well.\<close>

theorem truncated_log_verifies:
  assumes "verify_lines c GENESIS False 0 ls = None"
  shows "verify_lines c GENESIS False 0 (take n ls) = None"
proof -
  have "verify_lines c prev seen i ls = None \<Longrightarrow> verify_lines c prev seen i (take n ls) = None" for prev seen i
  proof (induction ls arbitrary: prev seen i n)
    case (Cons l ls)
    show ?case
    proof (cases n)
      case (Suc m)
      show ?thesis using Cons.prems unfolding Suc take_Suc_Cons
        by (cases "strip l = []"; cases "hashed_event c l") (auto simp: Cons.IH split: if_split_asm)
    qed simp
  qed simp
  then show ?thesis using assms by blast
qed

subsection \<open>The filtered read\<close>

definition dict_events :: "codec \<Rightarrow> string list \<Rightarrow> frontmatter list" where
  "dict_events c ls = List.map_filter (\<lambda>l. case c_loads c (strip l) of Some (PyDict ev) \<Rightarrow> Some ev | _ \<Rightarrow> None) (filter (\<lambda>l. strip l \<noteq> []) ls)"

lemma dict_events_Cons:
  "dict_events c (l # ls) = (if strip l = [] then [] else case c_loads c (strip l) of Some (PyDict ev) \<Rightarrow> [ev] | _ \<Rightarrow> []) @ dict_events c ls"
  by (auto simp: dict_events_def List.map_filter_def split: option.split pyval.split)

definition wanted :: "audit_filter \<Rightarrow> pyfloat \<Rightarrow> frontmatter \<Rightarrow> bool" where
  "wanted f low ev \<longleftrightarrow> asked_for f ev \<and> (\<exists>t. event_ts ev = Some t \<and> \<not> float_less t low)"

lemma float_less_trans: "\<not> float_less x y \<Longrightarrow> float_less x low \<Longrightarrow> x \<noteq> FNaN \<Longrightarrow> y \<noteq> FNaN \<Longrightarrow> float_less y low"
  by (cases x; cases y; cases low) auto

lemma scan_back_ordered:
  assumes "f_cap f = None" and "f_since f = Some low"
  shows "sorted_wrt (\<lambda>x y. \<not> float_less x y) (List.map_filter event_ts (dict_events c ls)) \<Longrightarrow>
    FNaN \<notin> set (List.map_filter event_ts (dict_events c ls)) \<Longrightarrow>
    scan_back c f n ls = map PyDict (filter (wanted f low) (dict_events c ls))"
proof (induction ls arbitrary: n)
  case Nil
  then show ?case by (simp add: dict_events_def List.map_filter_def)
next
  case (Cons l ls)
  have mf: "List.map_filter event_ts (e # es) = opt_list (event_ts e) @ List.map_filter event_ts es" for e es
    by (auto simp: List.map_filter_def split: option.split)
  have set_mf: "set (List.map_filter event_ts es) = {t. \<exists>e \<in> set es. event_ts e = Some t}" for es
    by (force simp: List.map_filter_def)
  show ?case
  proof (cases "strip l = []")
    case True
    then show ?thesis using Cons assms by (simp add: dict_events_Cons)
  next
    case False
    show ?thesis
    proof (cases "\<exists>ev. c_loads c (strip l) = Some (PyDict ev)")
      case no: False
      then have "dict_events c (l # ls) = dict_events c ls" by (auto simp: dict_events_Cons False split: option.split pyval.split)
      moreover have "scan_back c f n (l # ls) = scan_back c f (n + 1) ls"
        using no False assms by (auto split: option.split pyval.split)
      ultimately show ?thesis using Cons by simp
    next
      case True
      then obtain ev where ev: "c_loads c (strip l) = Some (PyDict ev)" by blast
      have d: "dict_events c (l # ls) = ev # dict_events c ls" by (simp add: dict_events_Cons False ev)
      have rest: "scan_back c f m ls = map PyDict (filter (wanted f low) (dict_events c ls))" for m
        using Cons.prems by (intro Cons.IH) (auto simp: d mf sorted_wrt_append split: option.splits)
      show ?thesis
      proof (cases "event_ts ev")
        case None
        then have "\<not> wanted f low ev" by (simp add: wanted_def)
        then show ?thesis using rest None False ev assms by (simp add: d)
      next
        case (Some t)
        show ?thesis
        proof (cases "float_less t low")
          case less: True
          have "\<not> wanted f low e" if "e \<in> set (dict_events c ls)" for e
          proof
            assume "wanted f low e"
            then obtain u where u: "event_ts e = Some u" "\<not> float_less u low" by (auto simp: wanted_def)
            then have "u \<in> set (List.map_filter event_ts (dict_events c ls))" using that set_mf by blast
            then have "\<not> float_less t u" "u \<noteq> FNaN" "t \<noteq> FNaN" using Cons.prems Some by (auto simp: d mf sorted_wrt_append)
            with float_less_trans[OF _ less] u(2) show False by blast
          qed
          then show ?thesis using less Some False ev assms by (auto simp: d wanted_def filter_empty_conv)
        next
          case notless: False
          then have "wanted f low ev \<longleftrightarrow> asked_for f ev" using Some by (simp add: wanted_def)
          then show ?thesis using rest notless Some False ev assms by (simp add: d)
        qed
      qed
    qed
  qed
qed

lemma rev_dict_events: "dict_events c (rev ls) = rev (dict_events c ls)"
  by (simp add: dict_events_def List.map_filter_def rev_map rev_filter)

text \<open>On a log whose time stamps do not go back, a query for the events since an instant returns exactly those that match,
  newest first, although it stops at the first older one.\<close>

theorem recent_events_complete:
  assumes "f_cap f = None" and "f_since f = Some low" and "f_rotated f"
    and "sorted_wrt (\<lambda>x y. \<not> float_less y x) (List.map_filter event_ts (dict_events c (segments a)))"
    and "FNaN \<notin> set (List.map_filter event_ts (dict_events c (segments a)))"
  shows "iter_filtered c a f = rev (map PyDict (filter (wanted f low) (dict_events c (segments a))))"
proof -
  have r: "List.map_filter event_ts (rev es) = rev (List.map_filter event_ts es)" for es
    by (simp add: List.map_filter_def rev_map rev_filter)
  have "iter_filtered c a f = map PyDict (filter (wanted f low) (dict_events c (rev (segments a))))"
    unfolding iter_filtered_def using assms(3)
    by (simp only: if_True) (rule scan_back_ordered[OF assms(1,2)], use assms(4,5) in \<open>simp_all add: rev_dict_events r sorted_wrt_rev\<close>)
  then show ?thesis by (simp add: rev_dict_events rev_map rev_filter)
qed

subsection \<open>A clock that steps back, and witnesses\<close>

text \<open>A small log: three events, whose lines are their identifiers.\<close>

definition demo_codec0 :: codec where
  "demo_codec0 = \<lparr>c_digest = (\<lambda>s. CHR ''h'' # s), c_canonical = (\<lambda>ev. case fm_get ev ''event_id'' of PyStr s \<Rightarrow> s | _ \<Rightarrow> []),
     c_dumps = (\<lambda>ev. case fm_get ev ''event_id'' of PyStr s \<Rightarrow> s | _ \<Rightarrow> []), c_loads = (\<lambda>s. None)\<rparr>"

definition demo_a :: frontmatter where "demo_a = chained demo_codec0 GENESIS ''a'' [(PyStr ''ts'', PyInt 1)]"
definition demo_b :: frontmatter where "demo_b = chained demo_codec0 (PyStr ''ha'') ''b'' [(PyStr ''ts'', PyInt 2)]"
definition demo_c :: frontmatter where "demo_c = chained demo_codec0 (PyStr ''hb'') ''c'' [(PyStr ''ts'', PyInt 3)]"

definition demo_codec :: codec where
  "demo_codec = demo_codec0\<lparr>c_loads := (\<lambda>s. if s = ''a'' then Some (PyDict demo_a) else if s = ''b'' then Some (PyDict demo_b)
     else if s = ''c'' then Some (PyDict demo_c) else None)\<rparr>"

definition tick :: "nat \<Rightarrow> instant" where
  "tick s = \<lparr>i_date = Date 1 1 1, i_second = s, i_micro = 0\<rparr>"

definition demo_log :: "nat \<Rightarrow> nat \<Rightarrow> nat \<Rightarrow> audit" where
  "demo_log s t u = append_event demo_codec (append_event demo_codec (append_event demo_codec (open_log demo_codec [] ''/l/e.log'' 1)
     (tick s) ''a'' [(PyStr ''ts'', PyInt 1)]) (tick t) ''b'' [(PyStr ''ts'', PyInt 2)]) (tick u) ''c'' [(PyStr ''ts'', PyInt 3)]"

lemma demo_logged: "logged demo_codec (tick 3) (demo_log 1 2 3)"
proof -
  have v: "valid_instant (tick 1)" "valid_instant (tick 2)" "valid_instant (tick 3)" "valid_instant (tick 0)"
    by (simp_all add: valid_instant_def tick_def valid_date_def days_in_month_def)
  have e: "earlier (tick 0) (tick 1)" "earlier (tick 1) (tick 2)" "earlier (tick 2) (tick 3)"
    by (simp_all add: earlier_def instant_key_def tick_def)
  let ?s0 = "open_log demo_codec [] ''/l/e.log'' 1"
  let ?s1 = "append_event demo_codec ?s0 (tick 1) ''a'' [(PyStr ''ts'', PyInt 1)]"
  let ?s2 = "append_event demo_codec ?s1 (tick 2) ''b'' [(PyStr ''ts'', PyInt 2)]"
  have "logged demo_codec (tick 0) ?s0" by (rule l_start) (use v in \<open>simp_all add: rotated_paths_def listdir_def split_beta\<close>)
  then have "logged demo_codec (tick 1) ?s1"
    by (rule l_append) (rule e, rule v, code_simp)
  then have "logged demo_codec (tick 2) ?s2"
    by (rule l_append) (rule e, rule v, code_simp)
  then show ?thesis
    unfolding demo_log_def by (rule l_append) (rule e, rule v, code_simp)
qed

theorem logged_log_verifies_witness:
  "verify demo_codec (demo_log 1 2 3) = None \<and> a_last (demo_log 1 2 3) = load_last_hash demo_codec (demo_log 1 2 3)
    \<and> length (a_files (demo_log 1 2 3)) = 3"
proof -
  have "length (a_files (demo_log 1 2 3)) = 3" by code_simp
  then show ?thesis using logged_log_verifies[OF demo_logged] by simp
qed

text \<open>When the clock steps back between two rotations the newer segment sorts first: an intact log fails to verify, and a
  process that restarts after one more rotation could chain to the wrong end.\<close>

theorem clock_step_fails_intact_log:
  "verify demo_codec (demo_log 1 5 2) = Some 0"
  by code_simp

theorem same_end_same_history_witness:
  "map (body_text demo_codec) (chain_events demo_codec [''a'', ''b'']) = map (body_text demo_codec) (chain_events demo_codec ['' a'', '''', ''b''])"
proof (rule same_end_same_history)
  have t: "chain_events demo_codec [''a'', ''b''] = [demo_a, demo_b]" "chain_events demo_codec ['' a'', '''', ''b''] = [demo_a, demo_b]" by code_simp+
  have b: "body_text demo_codec demo_a = ''a''" "body_text demo_codec demo_b = ''b''" by code_simp+
  show "verify_lines demo_codec GENESIS False 0 [''a'', ''b''] = None" "verify_lines demo_codec GENESIS False 0 ['' a'', '''', ''b''] = None"
    "last_hash demo_codec GENESIS [''a'', ''b''] = last_hash demo_codec GENESIS ['' a'', '''', ''b'']" by code_simp+
  show "c_digest demo_codec s \<noteq> []" for s by (simp add: demo_codec_def demo_codec0_def)
  show "inj_on (c_digest demo_codec) (body_text demo_codec ` (set (chain_events demo_codec [''a'', ''b'']) \<union> set (chain_events demo_codec ['' a'', '''', ''b''])))"
    by (auto simp: inj_on_def demo_codec_def demo_codec0_def)
  show "fm_get e ''prev_hash'' = fm_get f ''prev_hash''"
    if "e \<in> set (chain_events demo_codec [''a'', ''b'']) \<union> set (chain_events demo_codec ['' a'', '''', ''b''])"
      "f \<in> set (chain_events demo_codec [''a'', ''b'']) \<union> set (chain_events demo_codec ['' a'', '''', ''b''])"
      "body_text demo_codec e = body_text demo_codec f" for e f
    using that b unfolding t by auto
qed

theorem truncated_log_verifies_witness: "verify_lines demo_codec GENESIS False 0 (take 1 [''a'', ''b'']) = None"
  by (rule truncated_log_verifies) code_simp

definition since2 :: audit_filter where
  "since2 = \<lparr>f_since = Some (FNum 2), f_agent = None, f_status = None, f_rotated = True, f_cap = None\<rparr>"

theorem recent_events_complete_witness:
  "iter_filtered demo_codec (demo_log 1 2 3) since2 =
    rev (map PyDict (filter (wanted since2 (FNum 2)) (dict_events demo_codec (segments (demo_log 1 2 3)))))"
proof (rule recent_events_complete)
  have t: "List.map_filter event_ts (dict_events demo_codec (segments (demo_log 1 2 3))) = [FNum 1, FNum 2, FNum 3]" by code_simp
  show "sorted_wrt (\<lambda>x y. \<not> float_less y x) (List.map_filter event_ts (dict_events demo_codec (segments (demo_log 1 2 3))))"
    "FNaN \<notin> set (List.map_filter event_ts (dict_events demo_codec (segments (demo_log 1 2 3))))" unfolding t by simp_all
qed (simp_all add: since2_def)

end
