(* ===== verification/Maintenance.thy ===== *)
theory Maintenance
  imports Capture Auth Pending "HOL-Library.Product_Lexorder"
begin

text \<open>
  The maintenance ledger (\<^verbatim>\<open>maintenance.py\<close>): the audit of the corpus that every index build computes, its
  form in the frontmatter of the ledger document, and the step that commits the ledger when what it says has
  changed. \<open>load\<close> and \<open>dump\<close> are \<^verbatim>\<open>yaml.safe_load\<close> and \<^verbatim>\<open>yaml.safe_dump\<close>, \<open>py_str\<close> is \<^verbatim>\<open>str()\<close> of a value that is no
  string, \<open>commit\<close> what the commit path does with a rendered ledger: the hash of the commit or the error it raises.
\<close>

subsection \<open>Adding days to a date\<close>

definition next_day :: "date \<Rightarrow> date option" where
  "next_day d =
     (let y = d_year d; m = d_month d
      in if d_day d < days_in_month y m then Some (Date y m (d_day d + 1))
         else if m < 12 then Some (Date y (m + 1) 1)
         else if y < 9999 then Some (Date (y + 1) 1 1) else None)"

definition prev_day :: "date \<Rightarrow> date option" where
  "prev_day d =
     (let y = d_year d; m = d_month d
      in if 1 < d_day d then Some (Date y m (d_day d - 1))
         else if 1 < m then Some (Date y (m - 1) (days_in_month y (m - 1)))
         else if 1 < y then Some (Date (y - 1) 12 31) else None)"

fun walk_days :: "(date \<Rightarrow> date option) \<Rightarrow> nat \<Rightarrow> date \<Rightarrow> date option" where
  "walk_days step 0 d = Some d"
| "walk_days step (Suc n) d = (case step d of None \<Rightarrow> None | Some e \<Rightarrow> walk_days step n e)"

text \<open>\<open>date + timedelta(days=n)\<close>, with \<^const>\<open>None\<close> for the OverflowError outside the years 1 to 9999.\<close>

definition date_plus :: "date \<Rightarrow> int \<Rightarrow> date option" where
  "date_plus d n = (if n \<ge> 0 then walk_days next_day (nat n) d else walk_days prev_day (nat (- n)) d)"

definition add_days :: "string \<Rightarrow> int \<Rightarrow> string option" where
  "add_days today n =
     (case date_fromisoformat today of None \<Rightarrow> None | Some d \<Rightarrow> map_option isoformat (date_plus d n))"

subsection \<open>The audit\<close>

definition LEDGER_ID :: string where "LEDGER_ID = ''maintenance-ledger''"

definition CAP :: nat where "CAP = 50"

record audit_row =
  mr_path :: string
  mr_id :: string
  mr_status :: string
  mr_valid_until :: string
  mr_reserved :: bool

record expiry_item =
  x_id :: string
  x_path :: string
  x_until :: string

record maint_state =
  st_present :: bool
  st_missing :: "string list"
  st_missing_n :: int
  st_recent :: "expiry_item list"
  st_recent_n :: int
  st_soon :: "expiry_item list"
  st_soon_n :: int

definition is_dirty :: "maint_state \<Rightarrow> bool" where
  "is_dirty s \<longleftrightarrow> \<not> st_present s \<or> st_recent_n s > 0 \<or> st_soon_n s > 0"

definition item_of :: "audit_row \<Rightarrow> expiry_item" where
  "item_of r = \<lparr>x_id = mr_id r, x_path = mr_path r, x_until = mr_valid_until r\<rparr>"

definition missing_status :: "string \<Rightarrow> audit_row list \<Rightarrow> string list" where
  "missing_status ledger rows = [mr_path r. r \<leftarrow> rows, mr_path r \<noteq> ledger, \<not> mr_reserved r \<and> mr_status r = []]"

definition recently_expired :: "string \<Rightarrow> string \<Rightarrow> string \<Rightarrow> audit_row list \<Rightarrow> expiry_item list" where
  "recently_expired ledger today cutoff rows =
     [item_of r. r \<leftarrow> rows, mr_path r \<noteq> ledger, mr_valid_until r \<noteq> [],
        is_expired (Some (mr_valid_until r)) today, mr_valid_until r \<ge> cutoff]"

definition expiring_soon :: "string \<Rightarrow> string \<Rightarrow> string \<Rightarrow> audit_row list \<Rightarrow> expiry_item list" where
  "expiring_soon ledger today cutoff rows =
     [item_of r. r \<leftarrow> rows, mr_path r \<noteq> ledger, mr_valid_until r \<noteq> [],
        \<not> is_expired (Some (mr_valid_until r)) today, mr_valid_until r \<le> cutoff]"

definition item_key :: "expiry_item \<Rightarrow> string \<times> string" where
  "item_key i = (x_until i, x_path i)"

definition compute_maintenance_state ::
  "string \<Rightarrow> int \<Rightarrow> int \<Rightarrow> nat \<Rightarrow> string \<Rightarrow> audit_row list \<Rightarrow> maint_state option" where
  "compute_maintenance_state ledger recent_days soon_days cap today rows =
     (case (add_days today (- recent_days), add_days today soon_days) of
        (Some recently_cutoff, Some soon_cutoff) \<Rightarrow>
          (let missing = sort (missing_status ledger rows);
               recent = sort_key item_key (recently_expired ledger today recently_cutoff rows);
               soon = sort_key item_key (expiring_soon ledger today soon_cutoff rows)
           in Some \<lparr>st_present = (missing = []), st_missing = take cap missing, st_missing_n = int (length missing),
                st_recent = take cap recent, st_recent_n = int (length recent),
                st_soon = take cap soon, st_soon_n = int (length soon)\<rparr>)
      | _ \<Rightarrow> None)"

subsection \<open>The ledger's mapping\<close>

definition item_to_dict :: "expiry_item \<Rightarrow> pyval" where
  "item_to_dict i = PyDict [(PyStr ''id'', PyStr (x_id i)), (PyStr ''path'', PyStr (x_path i)),
     (PyStr ''valid_until'', PyStr (x_until i))]"

definition state_to_dict :: "maint_state \<Rightarrow> frontmatter" where
  "state_to_dict s =
     [(PyStr ''status_present_in_all_kb_entries'', PyBool (st_present s)),
      (PyStr ''missing_status'', PyDict [(PyStr ''count'', PyInt (st_missing_n s)),
         (PyStr ''paths'', PyList (map PyStr (st_missing s)))]),
      (PyStr ''recently_expired'', PyDict [(PyStr ''count'', PyInt (st_recent_n s)),
         (PyStr ''items'', PyList (map item_to_dict (st_recent s)))]),
      (PyStr ''expiring_soon'', PyDict [(PyStr ''count'', PyInt (st_soon_n s)),
         (PyStr ''items'', PyList (map item_to_dict (st_soon s)))])]"

text \<open>
  Reading it back from a document that anyone may have edited: an operation that raises is \<^const>\<open>None\<close>.
  \<open>int_literal\<close> is the text that \<^verbatim>\<open>int()\<close> accepts, once stripped.
\<close>

definition int_literal :: "string \<Rightarrow> int option" where
  "int_literal s =
     (let (neg, r) = (case s of [] \<Rightarrow> (False, []) | c # cs \<Rightarrow>
            if c = CHR ''-'' then (True, cs) else if c = CHR ''+'' then (False, cs) else (False, s));
          groups = split_on CHR ''_'' r;
          digits = concat groups
      in if list_all (\<lambda>g. g \<noteq> [] \<and> list_all is_digit g) groups \<and> length digits \<le> 4300
         then Some ((if neg then - 1 else 1) * foldl (\<lambda>n c. 10 * n + int (digit_val c)) 0 digits) else None)"

definition ascii_strip :: "string \<Rightarrow> string" where
  "ascii_strip s = (let sp = (\<lambda>c. c \<in> {CHR '' '', CHR 0x09, CHR 0x0A, CHR 0x0B, CHR 0x0C, CHR 0x0D})
     in rev (dropWhile sp (rev (dropWhile sp s))))"

fun py_int :: "pyval \<Rightarrow> int option" where
  "py_int (PyBool b) = Some (of_bool b)"
| "py_int (PyInt i) = Some i"
| "py_int (PyFloat (FNum r)) = Some (if r < 0 then - \<lfloor>- r\<rfloor> else \<lfloor>r\<rfloor>)"
| "py_int (PyStr s) = int_literal (strip s)"
| "py_int (PyBytes s) = int_literal (ascii_strip s)"
| "py_int _ = None"

fun iterate :: "pyval \<Rightarrow> pyval list option" where
  "iterate (PyList xs) = Some xs"
| "iterate (PyTuple xs) = Some xs"
| "iterate (PySet xs) = Some xs"
| "iterate (PyDict d) = Some (map fst d)"
| "iterate (PyStr s) = Some (map (\<lambda>c. PyStr [c]) s)"
| "iterate (PyBytes s) = Some (map (\<lambda>c. PyInt (int (of_char c))) s)"
| "iterate _ = None"

fun get_default :: "pyval \<Rightarrow> string \<Rightarrow> pyval \<Rightarrow> pyval option" where
  "get_default (PyDict d) k v = Some (get_or v d (PyStr k))"
| "get_default _ k v = None"

definition or_empty :: "pyval \<Rightarrow> pyval" where
  "or_empty v = (if truthy v then v else PyDict [])"

definition item_from_dict :: "(pyval \<Rightarrow> string) \<Rightarrow> pyval \<Rightarrow> expiry_item option" where
  "item_from_dict py_str v =
     (case (get_default v ''id'' (PyStr []), get_default v ''path'' (PyStr []), get_default v ''valid_until'' (PyStr [])) of
        (Some i, Some p, Some u) \<Rightarrow>
          Some \<lparr>x_id = text_of py_str i, x_path = text_of py_str p, x_until = text_of py_str u\<rparr>
      | _ \<Rightarrow> None)"

definition items_of :: "(pyval \<Rightarrow> string) \<Rightarrow> pyval \<Rightarrow> expiry_item list option" where
  "items_of py_str section =
     Option.bind (get_default section ''items'' (PyList [])) (\<lambda>v.
     Option.bind (iterate v) (\<lambda>xs. those (map (item_from_dict py_str) xs)))"

definition count_of :: "pyval \<Rightarrow> int option" where
  "count_of section = Option.bind (get_default section ''count'' (PyInt 0)) py_int"

definition state_from_dict :: "(pyval \<Rightarrow> string) \<Rightarrow> frontmatter \<Rightarrow> maint_state option" where
  "state_from_dict py_str data =
     (let missing = or_empty (fm_get data ''missing_status'');
          recently = or_empty (fm_get data ''recently_expired'');
          soon = or_empty (fm_get data ''expiring_soon'');
          present = truthy (get_or (PyBool True) data (PyStr ''status_present_in_all_kb_entries''))
      in Option.bind (Option.bind (get_default missing ''paths'' (PyList [])) iterate) (\<lambda>paths.
         Option.bind (count_of missing) (\<lambda>nm.
         Option.bind (items_of py_str recently) (\<lambda>ri.
         Option.bind (count_of recently) (\<lambda>nr.
         Option.bind (items_of py_str soon) (\<lambda>si.
         Option.bind (count_of soon) (\<lambda>ns.
           Some \<lparr>st_present = present, st_missing = map (text_of py_str) paths, st_missing_n = nm,
             st_recent = ri, st_recent_n = nr, st_soon = si, st_soon_n = ns\<rparr>)))))))"

subsection \<open>The ledger document\<close>

fun decimal_nat :: "nat \<Rightarrow> string" where
  "decimal_nat n = (if n < 10 then [digit n] else decimal_nat (n div 10) @ [digit n])"

definition decimal :: "int \<Rightarrow> string" where
  "decimal i = (if i < 0 then CHR ''-'' # decimal_nat (nat (- i)) else decimal_nat (nat i))"

definition ledger_frontmatter :: "maint_state \<Rightarrow> string \<Rightarrow> frontmatter" where
  "ledger_frontmatter s computed_at =
     [(PyStr ''id'', PyStr LEDGER_ID), (PyStr ''type'', PyStr ''reference''), (PyStr ''status'', PyStr ''active''),
      (PyStr ''tier'', PyStr ''meta''), (PyStr ''title'', PyStr ''Data Olympus Maintenance Ledger''),
      (PyStr ''description'', PyStr (''Auto-generated corpus maintenance ledger, regenerated on every ''
         @ ''index build when the computed state changes. Do not edit by hand.'')),
      (PyStr ''tags'', PyList [PyStr ''maintenance'', PyStr ''auto-generated'']),
      (PyStr ''maintenance'', PyDict ((PyStr ''computed_at'', PyStr computed_at) # state_to_dict s))]"

definition ledger_lines :: "maint_state \<Rightarrow> string list" where
  "ledger_lines s =
     [''# Data Olympus Maintenance Ledger'', [],
      ''Auto-generated by data-olympus at every index build; do not edit by '' @ ''hand (edits are overwritten the next time the computed state ''
        @ ''changes). See docs/operations.md.'', []]
     @ (if st_present s then [''- `status` is present on every indexed document.'']
        else [''- '' @ decimal (st_missing_n s) @ '' document(s) are missing a '' @ ''`status` field (showing up to ''
                @ decimal (int (length (st_missing s))) @ '').''])
     @ (if st_recent_n s \<noteq> 0 then [''- '' @ decimal (st_recent_n s) @ '' document(s) recently expired.''] else [])
     @ (if st_soon_n s \<noteq> 0 then [''- '' @ decimal (st_soon_n s) @ '' document(s) are expiring soon.''] else [])
     @ (if is_dirty s then [[], ''Run an audit session to review and remediate the open item(s) above.''] else [])"

definition render_ledger_markdown :: "(frontmatter \<Rightarrow> string) \<Rightarrow> maint_state \<Rightarrow> string \<Rightarrow> string" where
  "render_ledger_markdown dump s computed_at =
     ''---'' @ [newline] @ dump (ledger_frontmatter s computed_at) @ ''---'' @ [newline]
       @ ([newline] @ join_lines (ledger_lines s) @ [newline])"

definition parse_ledger_state ::
  "(string \<Rightarrow> pyval option) \<Rightarrow> (pyval \<Rightarrow> string) \<Rightarrow> string option \<Rightarrow> maint_state option" where
  "parse_ledger_state load py_str content =
     (case content of None \<Rightarrow> None
      | Some text \<Rightarrow> if text = [] then None else
         (case parse_frontmatter load text of Inl e \<Rightarrow> None
          | Inr (fm, body) \<Rightarrow> (case fm_get fm ''maintenance'' of PyDict d \<Rightarrow> state_from_dict py_str d | _ \<Rightarrow> None)))"

datatype pending_action = MissingStatus int | RecentlyExpired int | ExpiringSoon int

definition pending_actions_for :: "maint_state option \<Rightarrow> pending_action list option" where
  "pending_actions_for state =
     (case state of None \<Rightarrow> None
      | Some s \<Rightarrow> if \<not> is_dirty s then None
         else Some ((if \<not> st_present s then [MissingStatus (st_missing_n s)] else [])
                @ (if st_recent_n s \<noteq> 0 then [RecentlyExpired (st_recent_n s)] else [])
                @ (if st_soon_n s \<noteq> 0 then [ExpiringSoon (st_soon_n s)] else [])))"

subsection \<open>Committing it\<close>

datatype ledger_event = SkippedBadPath string | CommitFailed string | LedgerCommitted string

text \<open>\<open>indexed\<close> and \<open>worktree\<close> are the ledger's text in the served index and at the head of the system session's
  worktree, \<open>prev\<close> the state that this process committed last. The result is the new commit, the new \<open>prev\<close>, and
  the audit events.\<close>

definition maybe_update_ledger ::
  "(string \<Rightarrow> pyval option) \<Rightarrow> (pyval \<Rightarrow> string) \<Rightarrow> (frontmatter \<Rightarrow> string) \<Rightarrow> string \<Rightarrow> string \<Rightarrow> string
   \<Rightarrow> string option \<Rightarrow> string option \<Rightarrow> (string \<Rightarrow> string + string)
   \<Rightarrow> maint_state option \<Rightarrow> maint_state option \<Rightarrow> string option \<times> maint_state option \<times> ledger_event list" where
  "maybe_update_ledger load py_str dump prefixes_env ledger_path computed_at indexed worktree commit state prev =
     (case state of None \<Rightarrow> (None, prev, [])
      | Some s \<Rightarrow>
         if prev = Some s then (None, prev, [])
         else if parse_ledger_state load py_str indexed = Some s then (None, Some s, [])
         else if \<not> is_writable_path prefixes_env ledger_path
           then (None, prev, [SkippedBadPath (path_rejection_reason ledger_path)])
         else if parse_ledger_state load py_str worktree = Some s then (None, Some s, [])
         else (case commit (render_ledger_markdown dump s computed_at) of
                 Inl err \<Rightarrow> (None, prev, [CommitFailed (take 400 err)])
               | Inr sha \<Rightarrow> (Some sha, Some s, [LedgerCommitted sha])))"

subsection \<open>Days\<close>

lemma next_day_ordinal:
  assumes "valid_date d" and "next_day d = Some e"
  shows "valid_date e \<and> ordinal e = ordinal d + 1"
proof -
  obtain y m n where d: "d = Date y m n" by (cases d)
  have v: "1 \<le> y" "y \<le> 9999" "1 \<le> m" "m \<le> 12" "1 \<le> n" "n \<le> days_in_month y m"
    using assms(1) by (simp_all add: d valid_date_def)
  consider (day) "n < days_in_month y m" | (month) "n = days_in_month y m" "m < 12" | (year) "n = days_in_month y m" "m = 12"
    using v by linarith
  then show ?thesis
  proof cases
    case day
    then show ?thesis using assms(2) v by (auto simp: d next_day_def valid_date_def ordinal_def)
  next
    case month
    then obtain k where k: "m = Suc k" using v by (cases m) auto
    have e: "e = Date y (m + 1) 1" using assms(2) month by (simp add: d next_day_def)
    have "1 \<le> days_in_month y (m + 1)" by (simp add: days_in_month_def)
    moreover have "days_before_month y (m + 1) = days_before_month y m + n" by (simp add: k month(1))
    ultimately show ?thesis using v month(2) by (simp add: d e valid_date_def ordinal_def)
  next
    case year
    have n: "days_before_month y 12 + n = (if is_leap y then 366 else 365)"
      using days_before_month_12[of y] year by (simp add: days_in_month_def)
    have e: "e = Date (y + 1) 1 1" "y < 9999" using assms(2) year by (auto simp: d next_day_def split: if_splits)
    have "ordinal e = days_before_year (Suc y) + 1" by (simp add: e ordinal_def)
    moreover have "ordinal d = days_before_year y + (if is_leap y then 366 else 365)"
      using n unfolding ordinal_def d year(2) by (simp split: if_splits)
    ultimately show ?thesis using days_before_year_Suc[OF v(1)] e v by (auto simp: valid_date_def days_in_month_def)
  qed
qed

lemma prev_day_next:
  assumes "valid_date d" and "prev_day d = Some e"
  shows "valid_date e \<and> next_day e = Some d"
proof -
  obtain y m n where d: "d = Date y m n" by (cases d)
  have v: "1 \<le> y" "y \<le> 9999" "1 \<le> m" "m \<le> 12" "1 \<le> n" "n \<le> days_in_month y m"
    using assms(1) by (simp_all add: d valid_date_def)
  have pos: "1 \<le> days_in_month y k" "days_in_month y 12 = 31" "days_in_month (y - 1) 12 = 31" for k
    by (simp_all add: days_in_month_def)
  consider (day) "1 < n" | (month) "n = 1" "1 < m" | (year) "n = 1" "m = 1" using v by linarith
  then show ?thesis
  proof cases
    case day
    then have "e = Date y m (n - 1)" using assms(2) by (simp add: d prev_day_def)
    with day v show ?thesis by (auto simp: d valid_date_def next_day_def)
  next
    case month
    then have "e = Date y (m - 1) (days_in_month y (m - 1))" using assms(2) by (simp add: d prev_day_def)
    with month v pos(1) show ?thesis by (auto simp: d valid_date_def next_day_def Let_def)
  next
    case year
    then have "1 < y" "e = Date (y - 1) 12 31" using assms(2) by (simp_all add: d prev_day_def split: if_splits)
    with year v pos show ?thesis by (auto simp: d valid_date_def next_day_def Let_def)
  qed
qed

lemma prev_day_ordinal:
  assumes "valid_date d" and "prev_day d = Some e"
  shows "valid_date e \<and> ordinal e = ordinal d - 1"
proof -
  note p = prev_day_next[OF assms]
  with next_day_ordinal[of e d] show ?thesis by simp
qed

lemma walk_ordinal:
  assumes "\<And>d e. valid_date d \<Longrightarrow> step d = Some e \<Longrightarrow> valid_date e \<and> ordinal e = ordinal d + k"
  shows "valid_date d \<Longrightarrow> walk_days step n d = Some e \<Longrightarrow> valid_date e \<and> ordinal e = ordinal d + int n * k"
proof (induction n arbitrary: d)
  case (Suc n)
  then obtain c where c: "step d = Some c" "walk_days step n c = Some e" by (auto split: option.splits)
  with assms[OF Suc.prems(1) c(1)] Suc.IH[of c] show ?case by (simp add: algebra_simps)
qed simp

lemma date_plus_ordinal:
  assumes "valid_date d" and "date_plus d n = Some e"
  shows "valid_date e \<and> ordinal e = ordinal d + n"
proof (cases "n \<ge> 0")
  case True
  with assms(2) have "walk_days next_day (nat n) d = Some e" by (simp add: date_plus_def)
  from walk_ordinal[of next_day 1, OF next_day_ordinal assms(1) this] True show ?thesis by simp
next
  case False
  with assms(2) have "walk_days prev_day (nat (- n)) d = Some e" by (simp add: date_plus_def)
  from walk_ordinal[of prev_day "- 1", OF _ assms(1) this] prev_day_ordinal False show ?thesis by simp
qed

lemma add_days_iso:
  assumes "valid_date t" and "add_days (isoformat t) n = Some s"
  obtains e where "valid_date e" "s = isoformat e" "ordinal e = ordinal t + n"
  using assms by (auto simp: add_days_def date_fromisoformat_isoformat dest: date_plus_ordinal)

subsection \<open>What the audit counts\<close>

definition due_within :: "string \<Rightarrow> date \<Rightarrow> int \<Rightarrow> int \<Rightarrow> audit_row list \<Rightarrow> int" where
  "due_within ledger t lo hi rows = int (length (filter (\<lambda>r. mr_path r \<noteq> ledger \<and>
     (case date_fromisoformat (mr_valid_until r) of None \<Rightarrow> False
      | Some d \<Rightarrow> ordinal t + lo \<le> ordinal d \<and> ordinal d \<le> ordinal t + hi)) rows))"

lemma isoformat_le: "valid_date a \<Longrightarrow> valid_date b \<Longrightarrow> isoformat a \<le> isoformat b \<longleftrightarrow> ordinal a \<le> ordinal b"
  using isoformat_order[of b a] by (simp add: not_less[symmetric])

lemma date_of_empty [simp]: "date_fromisoformat [] = None"
  by (simp add: date_fromisoformat_def parse_iso_date_def)

lemma length_comprehension: "length [f r. r \<leftarrow> rows, P r] = length (filter P rows)"
  by (induction rows) auto

text \<open>The audit's windows are calendar windows: with the validity dates of the rows ISO dates or absent, the documents
  counted as recently expired are those whose last valid day lies between the configured number of days ago and
  yesterday, those counted as expiring soon have theirs between today and the configured number of days ahead; the
  ledger itself is never counted.\<close>

theorem audit_windows:
  assumes "valid_date t" and "\<forall>r \<in> set rows. mr_valid_until r = [] \<or> is_iso (mr_valid_until r)"
    and "compute_maintenance_state ledger recent_days soon_days cap (isoformat t) rows = Some st"
  shows "st_recent_n st = due_within ledger t (- recent_days) (- 1) rows \<and> st_soon_n st = due_within ledger t 0 soon_days rows"
proof -
  obtain rc sc where c: "add_days (isoformat t) (- recent_days) = Some rc" "add_days (isoformat t) soon_days = Some sc"
    and st: "st_recent_n st = int (length (recently_expired ledger (isoformat t) rc rows))"
      "st_soon_n st = int (length (expiring_soon ledger (isoformat t) sc rows))"
    using assms(3) by (auto simp: compute_maintenance_state_def Let_def split: option.splits)
  obtain r where r: "valid_date r" "rc = isoformat r" "ordinal r = ordinal t - recent_days"
    using add_days_iso[OF assms(1) c(1)] by auto
  obtain s where s: "valid_date s" "sc = isoformat s" "ordinal s = ordinal t + soon_days"
    using add_days_iso[OF assms(1) c(2)] by auto
  have "recently_expired ledger (isoformat t) rc rows = [item_of x. x \<leftarrow> rows, mr_path x \<noteq> ledger \<and> (mr_valid_until x \<noteq> [] \<and>
      is_expired (Some (mr_valid_until x)) (isoformat t) \<and> mr_valid_until x \<ge> rc)]"
    unfolding recently_expired_def by (intro arg_cong[where f = concat] map_cong refl) auto
  moreover have "(mr_valid_until x \<noteq> [] \<and> is_expired (Some (mr_valid_until x)) (isoformat t) \<and> mr_valid_until x \<ge> rc) =
      (case date_fromisoformat (mr_valid_until x) of None \<Rightarrow> False
      | Some d \<Rightarrow> ordinal t + - recent_days \<le> ordinal d \<and> ordinal d \<le> ordinal t + - 1)" if "x \<in> set rows" for x
    using assms(1,2) that r
    by (auto simp: is_iso_def is_expired_def date_fromisoformat_isoformat isoformat_order isoformat_le)
  moreover have "expiring_soon ledger (isoformat t) sc rows = [item_of x. x \<leftarrow> rows, mr_path x \<noteq> ledger \<and> (mr_valid_until x \<noteq> [] \<and>
      \<not> is_expired (Some (mr_valid_until x)) (isoformat t) \<and> mr_valid_until x \<le> sc)]"
    unfolding expiring_soon_def by (intro arg_cong[where f = concat] map_cong refl) auto
  moreover have "(mr_valid_until x \<noteq> [] \<and> \<not> is_expired (Some (mr_valid_until x)) (isoformat t) \<and> mr_valid_until x \<le> sc) =
      (case date_fromisoformat (mr_valid_until x) of None \<Rightarrow> False
      | Some d \<Rightarrow> ordinal t + 0 \<le> ordinal d \<and> ordinal d \<le> ordinal t + soon_days)" if "x \<in> set rows" for x
    using assms(1,2) that s
    by (auto simp: is_iso_def is_expired_def date_fromisoformat_isoformat isoformat_order isoformat_le not_less)
  ultimately show ?thesis
    unfolding st due_within_def by (simp add: length_comprehension cong: filter_cong conj_cong)
qed

theorem audit_windows_witness:
  "\<exists>st. compute_maintenance_state [] 1 1 CAP (isoformat (Date 2026 6 1))
       [\<lparr>mr_path = ''a.md'', mr_id = ''a'', mr_status = ''active'', mr_valid_until = isoformat (Date 2026 5 31), mr_reserved = False\<rparr>] = Some st
     \<and> st_recent_n st = 1 \<and> st_soon_n st = 0"
proof -
  let ?r = "\<lparr>mr_path = ''a.md'', mr_id = ''a'', mr_status = ''active'', mr_valid_until = isoformat (Date 2026 5 31), mr_reserved = False\<rparr>"
  have v: "valid_date (Date 2026 6 1)" "valid_date (Date 2026 5 31)" by (simp_all add: valid_date_def days_in_month_def)
  have "add_days (isoformat (Date 2026 6 1)) (- 1) \<noteq> None" "add_days (isoformat (Date 2026 6 1)) 1 \<noteq> None"
    using v by (simp_all add: add_days_def date_fromisoformat_isoformat date_plus_def next_day_def prev_day_def days_in_month_def)
  then have "compute_maintenance_state [] 1 1 CAP (isoformat (Date 2026 6 1)) [?r] \<noteq> None"
    by (auto simp: compute_maintenance_state_def Let_def split: option.splits)
  then obtain st where st: "compute_maintenance_state [] 1 1 CAP (isoformat (Date 2026 6 1)) [?r] = Some st" by blast
  have "next_day (Date 2026 5 31) = Some (Date 2026 6 1)" by (simp add: next_day_def days_in_month_def)
  from next_day_ordinal[OF v(2) this] have "ordinal (Date 2026 6 1) = ordinal (Date 2026 5 31) + 1" by simp
  then have "due_within [] (Date 2026 6 1) (- 1) (- 1) [?r] = 1" "due_within [] (Date 2026 6 1) 0 1 [?r] = 0"
    using v by (simp_all add: due_within_def date_fromisoformat_isoformat)
  then show ?thesis using audit_windows[OF v(1) _ st] st v(2) by (auto simp: is_iso_def)
qed

subsection \<open>The ledger reads back\<close>

lemma those_map: "\<forall>x \<in> set xs. f (g x) = Some x \<Longrightarrow> those (map f (map g xs)) = Some xs"
  by (induction xs) auto

lemma item_from_to [simp]: "item_from_dict py (item_to_dict i) = Some i"
  by (simp add: item_from_dict_def item_to_dict_def get_or_def text_of_def)

lemma items_of_dict [simp]: "items_of py (PyDict [(PyStr ''count'', n), (PyStr ''items'', PyList (map item_to_dict is))]) = Some is"
  using those_map[of "is" "item_from_dict py" item_to_dict] by (simp add: items_of_def get_or_def)

lemma state_from_to: "state_from_dict py ((PyStr ''computed_at'', v) # state_to_dict s) = Some s"
  by (simp add: state_from_dict_def state_to_dict_def Let_def or_empty_def get_or_def fm_get_def count_of_def text_of_def o_def)

text \<open>The ledger is its own record: parsing the document that a state was rendered to gives back that state, whatever
  it lists.\<close>

theorem ledger_reads_back:
  assumes "dumps load dump (ledger_frontmatter s computed_at)"
  shows "parse_ledger_state load py_str (Some (render_ledger_markdown dump s computed_at)) = Some s"
proof -
  have "fm_get (ledger_frontmatter s computed_at) ''maintenance'' = PyDict ((PyStr ''computed_at'', PyStr computed_at) # state_to_dict s)"
    by (simp add: ledger_frontmatter_def fm_get_def get_or_def)
  moreover have "render_ledger_markdown dump s computed_at \<noteq> []" by (simp add: render_ledger_markdown_def)
  ultimately show ?thesis
    unfolding parse_ledger_state_def using parse_dumped(1)[OF assms] by (simp add: render_ledger_markdown_def state_from_to)
qed

definition demo_state :: maint_state where
  "demo_state = \<lparr>st_present = False, st_missing = [''a.md''], st_missing_n = 1, st_recent = [], st_recent_n = 0, st_soon = [], st_soon_n = 0\<rparr>"

lemma demo_dumps: "dumps (\<lambda>s. Some (PyDict m)) (\<lambda>x. ''k'' @ [newline]) m"
  by (auto simp: dumps_def intro!: exI[of _ "''k''"]) code_simp

theorem ledger_reads_back_witness:
  "parse_ledger_state (\<lambda>s. Some (PyDict (ledger_frontmatter demo_state ''t''))) (\<lambda>v. [])
     (Some (render_ledger_markdown (\<lambda>x. ''k'' @ [newline]) demo_state ''t'')) = Some demo_state"
  by (rule ledger_reads_back[OF demo_dumps])

text \<open>One change of the audit makes at most one commit: once the ledger has been committed, later ticks on the same state
  do nothing, whether the process remembers the commit or has restarted and finds it in the session's worktree, even
  while the served index still shows an older ledger.\<close>

theorem ledger_commit_settles:
  assumes "maybe_update_ledger load py_str dump prefixes_env pth now indexed worktree commit (Some s) prev = (Some sha, prev', events)"
    and "dumps load dump (ledger_frontmatter s now)"
    and "restarted \<in> {prev', None}" and "is_writable_path prefixes_env pth"
  shows "maybe_update_ledger load py_str dump prefixes_env pth later indexed' (Some (render_ledger_markdown dump s now)) commit'
      (Some s) restarted = (None, Some s, [])"
proof -
  have "prev' = Some s" using assms(1) by (auto simp: maybe_update_ledger_def split: if_splits sum.splits)
  then show ?thesis
    using assms(3,4) ledger_reads_back[OF assms(2)] by (auto simp: maybe_update_ledger_def)
qed

theorem ledger_commit_settles_witness:
  "maybe_update_ledger (\<lambda>s. Some (PyDict (ledger_frontmatter demo_state ''t''))) (\<lambda>v. []) (\<lambda>x. ''k'' @ [newline]) [] ''tooling/l.md'' ''u'' None
     (Some (render_ledger_markdown (\<lambda>x. ''k'' @ [newline]) demo_state ''t'')) (\<lambda>s. Inr ''sha2'') (Some demo_state) None = (None, Some demo_state, [])"
proof (rule ledger_commit_settles[where prev = None and prev' = "Some demo_state" and sha = "''sha1''" and indexed = None
      and worktree = None and commit = "\<lambda>s. Inr ''sha1''" and events = "[LedgerCommitted ''sha1'']" and now = "''t''"])
  show w: "is_writable_path [] ''tooling/l.md''" by code_simp
  show "maybe_update_ledger (\<lambda>s. Some (PyDict (ledger_frontmatter demo_state ''t''))) (\<lambda>v. []) (\<lambda>x. ''k'' @ [newline]) [] ''tooling/l.md'' ''t'' None
      None (\<lambda>s. Inr ''sha1'') (Some demo_state) None = (Some ''sha1'', Some demo_state, [LedgerCommitted ''sha1''])"
    using w by (simp add: maybe_update_ledger_def parse_ledger_state_def)
  show "dumps (\<lambda>s. Some (PyDict (ledger_frontmatter demo_state ''t''))) (\<lambda>x. ''k'' @ [newline]) (ledger_frontmatter demo_state ''t'')"
    by (rule demo_dumps)
qed simp

end
