(* ===== verification/IndexBuild.thy ===== *)
theory IndexBuild
  imports Maintenance
begin

text \<open>
  Building the index (\<^verbatim>\<open>markdown_parse.py\<close> and \<^verbatim>\<open>Index.build\<close> of \<^verbatim>\<open>index.py\<close>): the lenient parse of a
  document, the rows and edges it contributes, the counters and the audit taken on the way, and the step that
  replaces the served index or leaves it alone. A document is the parts of its path below the bundle with its text,
  \<^const>\<open>None\<close> for one that cannot be read. \<open>load\<close> is \<^verbatim>\<open>yaml.safe_load\<close>, \<open>py_str\<close> \<^verbatim>\<open>str()\<close> of a value that is no string,
  \<open>mtime\<close> the modification time of a file in ISO form, \<open>embed_many\<close> the embedding model.
\<close>

subsection \<open>The lenient parse\<close>

record parsed_doc =
  p_id :: string
  p_tier :: string
  p_category :: string
  p_tags :: "string list"
  p_title :: string
  p_body :: string
  p_remote :: "string option"
  p_status :: string
  p_type :: string
  p_applies :: "string list"
  p_description :: string
  p_supersedes :: "string list"
  p_superseded_by :: "string option"
  p_contradicts :: "string list"
  p_derived_from :: "string list"
  p_window :: validity_window
  p_source :: string

fun as_str_list :: "(pyval \<Rightarrow> string) \<Rightarrow> pyval \<Rightarrow> string list" where
  "as_str_list py_str (PyList vs) = map (text_of py_str) vs"
| "as_str_list py_str _ = []"

fun index_id_list :: "(pyval \<Rightarrow> string) \<Rightarrow> pyval \<Rightarrow> string list" where
  "index_id_list py_str (PyList vs) = map (text_of py_str) vs"
| "index_id_list py_str (PyStr s) = (if strip s \<noteq> [] then [s] else [])"
| "index_id_list py_str _ = []"

fun nonblank :: "pyval \<Rightarrow> string option" where
  "nonblank (PyStr s) = (if strip s \<noteq> [] then Some s else None)"
| "nonblank _ = None"

fun id_value :: "pyval \<Rightarrow> string" where
  "id_value (PyStr s) = (if CHR '':'' \<in> set s then [] else s)"
| "id_value _ = []"

text \<open>\<open>str(fm.get(key, ''))\<close>\<close>

definition str_field :: "(pyval \<Rightarrow> string) \<Rightarrow> frontmatter \<Rightarrow> string \<Rightarrow> string" where
  "str_field py_str fm k = text_of py_str (get_or (PyStr []) fm (PyStr k))"

definition verification_source :: "(pyval \<Rightarrow> string) \<Rightarrow> pyval \<Rightarrow> string" where
  "verification_source py_str validity =
     (case validity of
        PyDict v \<Rightarrow> (if v_malformed (parse_validity validity) then []
           else case fm_get v ''verification_source'' of PyNone \<Rightarrow> [] | x \<Rightarrow> text_of py_str x)
      | _ \<Rightarrow> [])"

definition doc_of_fm :: "(pyval \<Rightarrow> string) \<Rightarrow> frontmatter \<Rightarrow> string \<Rightarrow> parsed_doc" where
  "doc_of_fm py_str fm body =
     \<lparr>p_id = id_value (get_or (PyStr []) fm (PyStr ''id'')),
      p_tier = str_field py_str fm ''tier'', p_category = str_field py_str fm ''category'',
      p_tags = as_str_list py_str (get_or (PyList []) fm (PyStr ''tags'')),
      p_title = str_field py_str fm ''title'', p_body = body,
      p_remote = nonblank (fm_get fm ''git_remote_url''),
      p_status = str_field py_str fm ''status'', p_type = str_field py_str fm ''type'',
      p_applies = as_str_list py_str (get_or (PyList []) fm (PyStr ''applies_when'')),
      p_description = (case fm_get fm ''description'' of PyNone \<Rightarrow> [] | v \<Rightarrow> text_of py_str v),
      p_supersedes = index_id_list py_str (fm_get fm ''supersedes''),
      p_superseded_by = nonblank (fm_get fm ''superseded_by''),
      p_contradicts = index_id_list py_str (fm_get fm ''contradicts''),
      p_derived_from = index_id_list py_str (fm_get fm ''derived_from''),
      p_window = parse_validity (fm_get fm ''validity''),
      p_source = verification_source py_str (fm_get fm ''validity'')\<rparr>"

definition parse_text_checked :: "(string \<Rightarrow> pyval option) \<Rightarrow> (pyval \<Rightarrow> string) \<Rightarrow> string \<Rightarrow> parsed_doc \<times> bool" where
  "parse_text_checked load py_str text =
     (case parse_frontmatter load text of
        Inr (fm, body) \<Rightarrow> (doc_of_fm py_str fm body, False)
      | Inl e \<Rightarrow> (doc_of_fm py_str [] text, starts_with ''---'' (lstrip text)))"

subsection \<open>The taxonomy in use\<close>

fun path_rule_of :: "(pyval \<Rightarrow> string) \<Rightarrow> pyval \<Rightarrow> path_rule option" where
  "path_rule_of py_str (PyList [a, b, c]) = Some (text_of py_str a, text_of py_str b, text_of py_str c)"
| "path_rule_of py_str (PyTuple [a, b, c]) = Some (text_of py_str a, text_of py_str b, text_of py_str c)"
| "path_rule_of py_str _ = None"

text \<open>\<open>env\<close> is \<^verbatim>\<open>KB_TAXONOMY_PATH\<close>, \<open>read_json\<close> what the file holds, \<^const>\<open>None\<close> where reading it raises.\<close>

definition load_path_rules :: "(pyval \<Rightarrow> string) \<Rightarrow> string \<Rightarrow> (string \<Rightarrow> pyval option) \<Rightarrow> path_rule list option" where
  "load_path_rules py_str env read_json =
     (if strip env = [] then Some DEFAULT_PATH_RULES
      else case read_json (strip env) of Some (PyList rs) \<Rightarrow> those (map (path_rule_of py_str) rs) | _ \<Rightarrow> None)"

subsection \<open>Times of the last change\<close>

definition GIT_LOG_MARK :: char where "GIT_LOG_MARK = CHR 0x01"

fun scan_log :: "string \<Rightarrow> (string, string) dict \<Rightarrow> string list \<Rightarrow> (string, string) dict" where
  "scan_log stamp out [] = out"
| "scan_log stamp out (r # rs) =
     (if r = [] then scan_log stamp out rs
      else if starts_with [GIT_LOG_MARK] r then scan_log (strip (tl r)) out rs
      else let pth = (if starts_with [newline] r then tl r else r)
           in scan_log stamp (if pth \<noteq> [] \<and> stamp \<noteq> [] \<and> dget out pth = None then out @ [(pth, stamp)] else out) rs)"

text \<open>The output of the one \<^verbatim>\<open>git log\<close>, \<^const>\<open>None\<close> where git failed.\<close>

definition git_last_modified_map :: "string option \<Rightarrow> (string, string) dict" where
  "git_last_modified_map output =
     (case output of None \<Rightarrow> [] | Some s \<Rightarrow> scan_log [] [] (split_on (CHR 0x00) s))"

definition resolve_last_modified :: "(string \<Rightarrow> string) \<Rightarrow> (string, string) dict \<Rightarrow> string \<Rightarrow> string \<times> string" where
  "resolve_last_modified mtime git rel =
     (case dget git rel of Some stamp \<Rightarrow> (if stamp \<noteq> [] then (stamp, ''git'') else (mtime rel, ''mtime''))
      | None \<Rightarrow> (mtime rel, ''mtime''))"

subsection \<open>Rows\<close>

record index_row = doc_row +
  r_path :: string
  r_tier :: string
  r_category :: string
  r_type :: string
  r_applies_when :: string
  r_description :: string
  r_title :: string
  r_tags :: string
  r_content :: string
  r_last_modified :: string
  r_lm_source :: string
  r_remote :: "string option"
  r_last_verified :: "string option"
  r_source :: "string option"

record fts_row =
  t_id :: string
  t_title :: string
  t_tags :: string
  t_applies :: string
  t_description :: string
  t_body :: string

record parsed_file =
  pf_rel :: "string list"
  pf_id :: string
  pf_doc :: parsed_doc
  pf_text :: string
  pf_malformed :: bool

definition rel_str :: "string list \<Rightarrow> string" where "rel_str parts = join_with ''/'' parts"

definition or_null :: "string \<Rightarrow> string option" where
  "or_null s = (if s = [] then None else Some s)"

definition or_else :: "string \<Rightarrow> string \<Rightarrow> string" where
  "or_else s t = (if s = [] then t else s)"

record build_env =
  b_load :: "string \<Rightarrow> pyval option"
  b_py_str :: "pyval \<Rightarrow> string"
  b_inbox_env :: "string option"
  b_autofill :: bool
  b_trigram :: bool
  b_mtime :: "string \<Rightarrow> string"
  b_git_log :: "string option"
  b_rules :: "path_rule list option"
  b_ledger_path :: string
  b_recent_days :: int
  b_soon_days :: int
  b_today :: string
  b_embed_many :: "(string list \<Rightarrow> real list list option) option" \<comment> \<open>set when embeddings are on\<close>
  b_store_ok :: bool \<comment> \<open>no statement of the store raises and its integrity check passes\<close>

definition DEFAULT_AUTOFILL_STATUS :: string where "DEFAULT_AUTOFILL_STATUS = ''active''"

definition indexed_status :: "bool \<Rightarrow> parsed_file \<Rightarrow> string" where
  "indexed_status autofill pf =
     (if autofill \<and> p_status (pf_doc pf) = [] \<and> last (pf_rel pf) \<notin> set RESERVED then DEFAULT_AUTOFILL_STATUS
      else p_status (pf_doc pf))"

definition doc_entry :: "build_env \<Rightarrow> path_rule list \<Rightarrow> (string, string) dict \<Rightarrow> parsed_file \<Rightarrow> index_row" where
  "doc_entry e rules git pf =
     (let d = pf_doc pf; rel = rel_str (pf_rel pf);
          (path_tier, path_category) = classify_by_path rel rules;
          (modified, src) = resolve_last_modified (b_mtime e) git rel;
          w = p_window d
      in \<lparr>r_id = pf_id pf, r_status = indexed_status (b_autofill e) pf,
          r_valid_from = or_null (v_from w), r_valid_until = or_null (v_until w), r_recheck_by = or_null (v_recheck_by w),
          r_is_inbox = is_inbox_path (b_inbox_env e) rel,
          r_path = rel, r_tier = or_else (p_tier d) path_tier, r_category = or_else (p_category d) path_category,
          r_type = p_type d, r_applies_when = join_with '' '' (p_applies d), r_description = p_description d,
          r_title = p_title d, r_tags = join_with '' '' (p_tags d), r_content = pf_text pf,
          r_last_modified = modified, r_lm_source = src, r_remote = p_remote d,
          r_last_verified = or_null (v_last_verified w), r_source = or_null (p_source d)\<rparr>)"

definition fts_entry :: "parsed_file \<Rightarrow> fts_row" where
  "fts_entry pf = (let d = pf_doc pf in
     \<lparr>t_id = pf_id pf, t_title = p_title d, t_tags = join_with '' '' (p_tags d), t_applies = join_with '' '' (p_applies d),
      t_description = p_description d, t_body = p_body d\<rparr>)"

definition doc_edges :: "parsed_file \<Rightarrow> (string \<times> string \<times> string) list" where
  "doc_edges pf = (let d = pf_doc pf; i = pf_id pf in
     map (\<lambda>t. (i, ''supersedes'', t)) (p_supersedes d)
     @ (case p_superseded_by d of None \<Rightarrow> [] | Some t \<Rightarrow> if t = [] then [] else [(i, ''superseded_by'', t)])
     @ map (\<lambda>t. (i, ''contradicts'', t)) (p_contradicts d)
     @ map (\<lambda>t. (i, ''derived_from'', t)) (p_derived_from d))"

definition audit_entry :: "parsed_file \<Rightarrow> audit_row" where
  "audit_entry pf = \<lparr>mr_path = rel_str (pf_rel pf), mr_id = pf_id pf, mr_status = p_status (pf_doc pf),
     mr_valid_until = v_until (p_window (pf_doc pf)), mr_reserved = (last (pf_rel pf) \<in> set RESERVED)\<rparr>"

definition EMBED_TEXT_MAX_CHARS :: nat where "EMBED_TEXT_MAX_CHARS = 4000"

definition embed_text :: "parsed_file \<Rightarrow> string" where
  "embed_text pf = (let d = pf_doc pf in
     take EMBED_TEXT_MAX_CHARS (join_lines (filter (\<lambda>p. p \<noteq> [])
       [p_title d, join_with '' '' (p_applies d), join_with '' '' (p_tags d), p_description d, p_body d])))"

subsection \<open>The build\<close>

record database =
  db_docs :: "index_row list"
  db_fts :: "fts_row list"
  db_trigram :: "fts_row list"
  db_edges :: "edge_row list"
  db_vectors :: "(string, real list) dict"
  db_commit :: string
  db_total :: nat
  db_malformed :: nat
  db_malformed_validity :: nat
  db_maintenance :: maint_state

datatype build_error = NotADirectory | Unreadable string | DuplicateId "(string \<times> string list) list"
  | BadTaxonomy | DateOverflow | EmbeddingFailed | StoreFailed

text \<open>\<open>sorted(kb_root.rglob('*.md'))\<close>, reading as it goes: the first file that cannot be read ends the build.\<close>

fun read_corpus :: "build_env \<Rightarrow> (string list \<times> string option) list \<Rightarrow> build_error + parsed_file list" where
  "read_corpus e [] = Inr []"
| "read_corpus e ((rel, content) # fs) =
     (if is_excluded rel then read_corpus e fs
      else case content of None \<Rightarrow> Inl (Unreadable (rel_str rel))
           | Some text \<Rightarrow>
              (case read_corpus e fs of Inl err \<Rightarrow> Inl err
               | Inr pfs \<Rightarrow>
                  (let (d, malformed) = parse_text_checked (b_load e) (b_py_str e) text
                   in Inr (\<lparr>pf_rel = rel, pf_id = or_else (p_id d) (derive_id_from_path rel), pf_doc = d,
                            pf_text = text, pf_malformed = malformed\<rparr> # pfs))))"

definition seen_ids :: "parsed_file list \<Rightarrow> (string \<times> string list) list" where
  "seen_ids pfs = map (\<lambda>i. (i, [rel_str (pf_rel pf). pf \<leftarrow> pfs, pf_id pf = i])) (rev (remdups (rev (map pf_id pfs))))"

definition conflicts :: "parsed_file list \<Rightarrow> (string \<times> string list) list" where
  "conflicts pfs = filter (\<lambda>(i, ps). length ps > 1) (seen_ids pfs)"

definition edges_of :: "parsed_file list \<Rightarrow> edge_row list" where
  "edges_of pfs = map (\<lambda>(s, r, t). \<lparr>e_source = s, e_rel = r, e_target = t\<rparr>) (sort (remdups (concat (map doc_edges pfs))))"

definition vectors_of :: "build_env \<Rightarrow> parsed_file list \<Rightarrow> (string, real list) dict option" where
  "vectors_of e pfs =
     (case b_embed_many e of None \<Rightarrow> Some []
      | Some emb \<Rightarrow> if pfs = [] then Some []
          else (case emb (map embed_text pfs) of None \<Rightarrow> None
                | Some vs \<Rightarrow> if length vs = length pfs then Some (zip (map pf_id pfs) vs) else None))"

definition build_database ::
  "build_env \<Rightarrow> bool \<Rightarrow> (string list \<times> string option) list \<Rightarrow> string \<Rightarrow> build_error + database" where
  "build_database e is_dir found commit =
     (if \<not> is_dir then Inl NotADirectory
      else case read_corpus e (sort_key fst found) of Inl err \<Rightarrow> Inl err
      | Inr pfs \<Rightarrow>
         if conflicts pfs \<noteq> [] then Inl (DuplicateId (conflicts pfs))
         else (case b_rules e of None \<Rightarrow> Inl BadTaxonomy
         | Some rules \<Rightarrow>
            (case vectors_of e pfs of None \<Rightarrow> Inl EmbeddingFailed
             | Some vectors \<Rightarrow>
                (case compute_maintenance_state (b_ledger_path e) (b_recent_days e) (b_soon_days e) CAP (b_today e)
                        (map audit_entry pfs) of
                   None \<Rightarrow> Inl DateOverflow
                 | Some audit \<Rightarrow>
                    if \<not> b_store_ok e then Inl StoreFailed
                    else Inr \<lparr>db_docs = map (doc_entry e rules (git_last_modified_map (b_git_log e))) pfs,
                          db_fts = map fts_entry pfs, db_trigram = (if b_trigram e then map fts_entry pfs else []),
                          db_edges = edges_of pfs, db_vectors = vectors, db_commit = commit, db_total = length pfs,
                          db_malformed = length (filter pf_malformed pfs),
                          db_malformed_validity = length (filter (\<lambda>pf. v_malformed (p_window (pf_doc pf))) pfs),
                          db_maintenance = audit\<rparr>))))"

text \<open>The served index: the database file, and what the process publishes beside it.\<close>

record index_state =
  ix_db :: "database option"
  ix_malformed :: nat
  ix_malformed_validity :: nat
  ix_maintenance :: "maint_state option"
  ix_last_committed :: "maint_state option"
  ix_health :: "(int \<times> nat) option" \<comment> \<open>when the cached health was read, and how many documents it counted\<close>

definition build :: "build_env \<Rightarrow> bool \<Rightarrow> (string list \<times> string option) list \<Rightarrow> string \<Rightarrow> index_state
    \<Rightarrow> (build_error + nat) \<times> index_state" where
  "build e is_dir found commit st =
     (case build_database e is_dir found commit of
        Inl err \<Rightarrow> (Inl err, st)
      | Inr db \<Rightarrow> (Inr (db_total db), st\<lparr>ix_db := Some db, ix_malformed := db_malformed db,
          ix_malformed_validity := db_malformed_validity db, ix_maintenance := Some (db_maintenance db), ix_health := None\<rparr>))"

subsection \<open>What a build holds\<close>

lemma read_corpus_Inr:
  "read_corpus e fs = Inr pfs \<Longrightarrow> map pf_rel pfs = filter (\<lambda>p. \<not> is_excluded p) (map fst fs) \<and>
     (\<forall>pf \<in> set pfs. (pf_rel pf, Some (pf_text pf)) \<in> set fs \<and>
        (pf_doc pf, pf_malformed pf) = parse_text_checked (b_load e) (b_py_str e) (pf_text pf) \<and>
        pf_id pf = or_else (p_id (pf_doc pf)) (derive_id_from_path (pf_rel pf)))"
proof (induction e fs arbitrary: pfs rule: read_corpus.induct)
  case (2 e rel content fs)
  show ?case
  proof (cases "is_excluded rel")
    case True
    then show ?thesis using 2 by auto
  next
    case False
    then obtain raw qs where q: "content = Some raw" "read_corpus e fs = Inr qs"
      using "2.prems" by (auto split: option.splits sum.splits)
    obtain d m where dm: "parse_text_checked (b_load e) (b_py_str e) raw = (d, m)" by fastforce
    have "pfs = \<lparr>pf_rel = rel, pf_id = or_else (p_id d) (derive_id_from_path rel), pf_doc = d, pf_text = raw, pf_malformed = m\<rparr> # qs"
      using "2.prems" False q dm by simp
    with "2.IH"(2)[OF False q(1,2)] False dm q(1) show ?thesis by auto
  qed
qed simp

lemma length_with_id: "length [f x. x \<leftarrow> xs, g x = i] = count_list (map g xs) i"
  by (induction xs) auto

lemma distinct_count: "distinct xs \<longleftrightarrow> (\<forall>x. count_list xs x \<le> 1)"
proof
  assume d: "distinct xs"
  show "\<forall>x. count_list xs x \<le> 1"
  proof
    fix x show "count_list xs x \<le> 1" using d by (induction xs) (auto simp: count_notin)
  qed
next
  assume "\<forall>x. count_list xs x \<le> 1"
  then show "distinct xs"
  proof (induction xs)
    case (Cons a xs)
    have "count_list xs a = 0" using Cons.prems[rule_format, of a] by simp
    moreover have "count_list xs x \<le> 1" for x using Cons.prems[rule_format, of x] by (simp split: if_splits)
    ultimately show ?case using Cons.IH by (simp add: count_list_0_iff)
  qed simp
qed

lemma in_conflicts:
  "(i, ps) \<in> set (conflicts pfs) \<longleftrightarrow> ps = [rel_str (pf_rel pf). pf \<leftarrow> pfs, pf_id pf = i] \<and> count_list (map pf_id pfs) i > 1"
proof -
  have "count_list (map pf_id pfs) i > 1 \<Longrightarrow> i \<in> pf_id ` set pfs"
    using count_notin[of i "map pf_id pfs"] by (cases "i \<in> set (map pf_id pfs)") auto
  then show ?thesis by (auto simp: conflicts_def seen_ids_def length_with_id)
qed

lemma conflicts_Nil: "conflicts pfs = [] \<longleftrightarrow> distinct (map pf_id pfs)"
proof -
  have "conflicts pfs = [] \<longleftrightarrow> (\<forall>i ps. (i, ps) \<notin> set (conflicts pfs))" by (cases "conflicts pfs") auto
  also have "\<dots> \<longleftrightarrow> (\<forall>i. \<not> count_list (map pf_id pfs) i > 1)" unfolding in_conflicts by blast
  finally show ?thesis by (simp add: distinct_count not_less)
qed

lemma build_database_Inr:
  assumes "build_database e is_dir found commit = Inr db"
  obtains pfs rules vectors audit where "read_corpus e (sort_key fst found) = Inr pfs" "conflicts pfs = []" "b_rules e = Some rules"
    "compute_maintenance_state (b_ledger_path e) (b_recent_days e) (b_soon_days e) CAP (b_today e) (map audit_entry pfs) = Some audit"
    "db = \<lparr>db_docs = map (doc_entry e rules (git_last_modified_map (b_git_log e))) pfs,
       db_fts = map fts_entry pfs, db_trigram = (if b_trigram e then map fts_entry pfs else []),
       db_edges = edges_of pfs, db_vectors = vectors, db_commit = commit, db_total = length pfs,
       db_malformed = length (filter pf_malformed pfs),
       db_malformed_validity = length (filter (\<lambda>pf. v_malformed (p_window (pf_doc pf))) pfs),
       db_maintenance = audit\<rparr>"
  using assms by (auto simp: build_database_def split: if_splits sum.splits option.splits)

lemma doc_entry_id [simp]: "r_id (doc_entry e rules git pf) = pf_id pf" "r_path (doc_entry e rules git pf) = rel_str (pf_rel pf)"
  by (simp_all add: doc_entry_def Let_def split: prod.splits)

lemma doc_entry_row_ok: "row_ok (doc_row.truncate (doc_entry e rules git pf))"
  by (simp add: row_ok_def doc_entry_def doc_row.truncate_def or_null_def Let_def split: prod.splits)

subsection \<open>A small index\<close>

definition demo_load :: "string \<Rightarrow> pyval option" where
  "demo_load s = Some (PyDict (if s = ''a''
     then [(PyStr ''id'', PyStr ''DEC-1''), (PyStr ''status'', PyStr ''active''),
           (PyStr ''validity'', PyDict [(PyStr ''valid_until'', PyDate (Date 2020 1 1))])]
     else [(PyStr ''id'', PyStr ''DEC-2''), (PyStr ''status'', PyStr ''active''), (PyStr ''tags'', PyList [PyStr ''auth''])]))"

definition demo_build :: build_env where
  "demo_build = \<lparr>b_load = demo_load, b_py_str = (\<lambda>v. []), b_inbox_env = None, b_autofill = True, b_trigram = False,
     b_mtime = (\<lambda>p. []), b_git_log = None, b_rules = Some [], b_ledger_path = [], b_recent_days = 0, b_soon_days = 0,
     b_today = ''2026-06-01'', b_embed_many = None, b_store_ok = True\<rparr>"

definition demo_row :: "string \<Rightarrow> string \<Rightarrow> string \<Rightarrow> string option \<Rightarrow> string \<Rightarrow> index_row" where
  "demo_row i name tag until content =
     \<lparr>r_id = i, r_status = ''active'', r_valid_from = None, r_valid_until = until, r_recheck_by = None, r_is_inbox = False,
      r_path = name, r_tier = ''meta'', r_category = ''meta'', r_type = [], r_applies_when = [], r_description = [], r_title = [],
      r_tags = tag, r_content = content, r_last_modified = [], r_lm_source = ''mtime'', r_remote = None, r_last_verified = None,
      r_source = None\<rparr>"

definition demo_fts :: "string \<Rightarrow> string \<Rightarrow> fts_row" where
  "demo_fts i tag = \<lparr>t_id = i, t_title = [], t_tags = tag, t_applies = [], t_description = [], t_body = []\<rparr>"

definition demo_db :: database where
  "demo_db = \<lparr>db_docs = [demo_row ''DEC-1'' ''a.md'' [] (Some ''2020-01-01'') (with_block ''a'' []),
                demo_row ''DEC-2'' ''b.md'' ''auth'' None (with_block ''b'' [])],
     db_fts = [demo_fts ''DEC-1'' [], demo_fts ''DEC-2'' ''auth''], db_trigram = [], db_edges = [], db_vectors = [], db_commit = [],
     db_total = 2, db_malformed = 0, db_malformed_validity = 0,
     db_maintenance = \<lparr>st_present = True, st_missing = [], st_missing_n = 0, st_recent = [], st_recent_n = 0,
       st_soon = [], st_soon_n = 0\<rparr>\<rparr>"

definition demo_found :: "(string list \<times> string option) list" where
  "demo_found = [([''a.md''], Some (with_block ''a'' [])), ([''b.md''], Some (with_block ''b'' []))]"

lemma demo_built: "build_database demo_build True demo_found [] = Inr demo_db"
  by code_simp

subsection \<open>What a build guarantees\<close>

text \<open>C23. A finished build holds one row per readable document outside the excluded directories, in path order, and no two
  rows share an id.\<close>

theorem built_rows:
  assumes "build_database e is_dir found commit = Inr db"
  shows "distinct (map r_id (db_docs db)) \<and>
    map r_path (db_docs db) = map rel_str (filter (\<lambda>p. \<not> is_excluded p) (map fst (sort_key fst found)))"
proof (rule build_database_Inr[OF assms])
  fix pfs rules vectors audit
  assume b: "read_corpus e (sort_key fst found) = Inr pfs" "conflicts pfs = []"
    "db = \<lparr>db_docs = map (doc_entry e rules (git_last_modified_map (b_git_log e))) pfs,
       db_fts = map fts_entry pfs, db_trigram = (if b_trigram e then map fts_entry pfs else []),
       db_edges = edges_of pfs, db_vectors = vectors, db_commit = commit, db_total = length pfs,
       db_malformed = length (filter pf_malformed pfs),
       db_malformed_validity = length (filter (\<lambda>pf. v_malformed (p_window (pf_doc pf))) pfs),
       db_maintenance = audit\<rparr>"
  have "map rel_str (map pf_rel pfs) = map rel_str (filter (\<lambda>p. \<not> is_excluded p) (map fst (sort_key fst found)))"
    using read_corpus_Inr[OF b(1)] by simp
  then show ?thesis using b(2) unfolding b(3) by (simp add: conflicts_Nil o_def)
qed

theorem built_rows_witness:
  "distinct (map r_id (db_docs demo_db)) \<and> map r_path (db_docs demo_db) = [''a.md'', ''b.md'']"
proof -
  have "map rel_str (filter (\<lambda>p. \<not> is_excluded p) (map fst (sort_key fst demo_found))) = [''a.md'', ''b.md'']" by code_simp
  then show ?thesis using built_rows[OF demo_built] by simp
qed

text \<open>Ids decide whether a corpus can be indexed: once every file has been read, the build is refused for duplicates
  exactly when two documents resolve to one id, and the refusal names every such id with all its paths, nothing else.\<close>

theorem duplicates_refused:
  assumes "read_corpus e (sort_key fst found) = Inr pfs"
  shows "build_database e True found commit = Inl (DuplicateId cs) \<longleftrightarrow>
    \<not> distinct (map pf_id pfs) \<and> cs = conflicts pfs \<and>
    (\<forall>i ps. (i, ps) \<in> set cs \<longleftrightarrow> ps = [rel_str (pf_rel pf). pf \<leftarrow> pfs, pf_id pf = i] \<and> count_list (map pf_id pfs) i > 1)"
proof -
  have "build_database e True found commit = Inl (DuplicateId cs) \<longleftrightarrow> conflicts pfs \<noteq> [] \<and> cs = conflicts pfs"
    using assms by (auto simp: build_database_def split: option.splits)
  then show ?thesis by (auto simp: conflicts_Nil in_conflicts)
qed

theorem duplicates_refused_witness:
  "\<exists>cs. build_database demo_build True [([''x.md''], Some (with_block ''b'' [])), ([''y.md''], Some (with_block ''b'' []))] [] = Inl (DuplicateId cs)"
proof -
  let ?found = "[([''x.md''], Some (with_block ''b'' [])), ([''y.md''], Some (with_block ''b'' []))]"
  have "case read_corpus demo_build (sort_key fst ?found) of Inl err \<Rightarrow> False | Inr pfs \<Rightarrow> \<not> distinct (map pf_id pfs)" by code_simp
  then obtain pfs where p: "read_corpus demo_build (sort_key fst ?found) = Inr pfs" "\<not> distinct (map pf_id pfs)"
    by (auto split: sum.splits)
  have "build_database demo_build True ?found [] = Inl (DuplicateId (conflicts pfs))"
    by (rule duplicates_refused[OF p(1), THEN iffD2]) (use p(2) in_conflicts in blast)
  then show ?thesis by blast
qed

lemma built_row_ok: "build_database e is_dir found commit = Inr db \<Longrightarrow> r \<in> set (db_docs db) \<Longrightarrow> row_ok (doc_row.truncate r)"
  by (erule build_database_Inr) (auto simp: doc_entry_row_ok)

text \<open>On every row a build stores, whatever the frontmatter held, the filter of the search and the Python predicate
  agree on what is in force.\<close>

theorem built_rows_agree:
  assumes "build_database e is_dir found commit = Inr db" and "r \<in> set (db_docs db)"
  shows "sql_admits today (doc_row.truncate r) \<longleftrightarrow> is_in_force (r_status r) (r_valid_from r) (r_valid_until r) today (r_is_inbox r)"
  using sql.admits_iff[OF built_row_ok[OF assms]] by (simp add: doc_row.truncate_def)

theorem built_rows_agree_witness:
  "\<exists>r \<in> set (db_docs demo_db). \<not> is_in_force (r_status r) (r_valid_from r) (r_valid_until r) ''2026-06-01'' (r_is_inbox r)"
proof (rule bexI)
  let ?r = "db_docs demo_db ! 0"
  show m: "?r \<in> set (db_docs demo_db)" by (simp add: demo_db_def)
  have "\<not> sql_admits ''2026-06-01'' (doc_row.truncate ?r)"
    by (simp add: demo_db_def demo_row_def doc_row.truncate_def sql_admits_def in_force_sql_def null_or_def)
  then show "\<not> is_in_force (r_status ?r) (r_valid_from ?r) (r_valid_until ?r) ''2026-06-01'' (r_is_inbox ?r)"
    using built_rows_agree[OF demo_built m] by blast
qed

subsection \<open>A status left empty\<close>

text \<open>\<open>status:\<close> with nothing behind it is not a missing status: it is the string \<open>None\<close>, so autofill leaves it, the
  document is never in force, and the maintenance ledger does not list it; without the key the document is active.\<close>

theorem null_status_not_autofilled:
  assumes "parse_frontmatter load text = Inr (fm, body)" and "dget fm (PyStr ''status'') = Some PyNone"
    and "py_str PyNone = ''None''" and "pf_doc pf = fst (parse_text_checked load py_str text)"
  shows "indexed_status True pf = ''None'' \<and> \<not> is_in_force (indexed_status True pf) valid_from valid_until today inbox
    \<and> missing_status ledger [audit_entry pf] = []"
proof -
  have s: "p_status (pf_doc pf) = ''None''"
    using assms by (simp add: parse_text_checked_def doc_of_fm_def str_field_def get_or_def text_of_def)
  then have "indexed_status True pf = ''None''" by (simp add: indexed_status_def)
  then show ?thesis using s by (simp add: is_in_force_def IN_FORCE_STATUSES_def missing_status_def audit_entry_def)
qed

theorem null_status_not_autofilled_witness:
  "indexed_status True \<lparr>pf_rel = [''a.md''], pf_id = ''a'', pf_doc = doc_of_fm (\<lambda>v. ''None'') [(PyStr ''status'', PyNone)] ''b'',
     pf_text = [], pf_malformed = False\<rparr> = ''None''
   \<and> indexed_status True \<lparr>pf_rel = [''a.md''], pf_id = ''a'', pf_doc = doc_of_fm (\<lambda>v. ''None'') [] ''b'',
     pf_text = [], pf_malformed = False\<rparr> = ''active''"
proof -
  let ?load = "\<lambda>s. Some (PyDict [(PyStr ''status'', PyNone)])" and ?py = "\<lambda>v. ''None''"
  have p: "parse_frontmatter ?load (with_block ''s'' ''b'') = Inr ([(PyStr ''status'', PyNone)], ''b'')" by code_simp
  have "indexed_status True \<lparr>pf_rel = [''a.md''], pf_id = ''a'', pf_doc = doc_of_fm (\<lambda>v. ''None'') [(PyStr ''status'', PyNone)] ''b'',
     pf_text = [], pf_malformed = False\<rparr> = ''None''"
    using null_status_not_autofilled[OF p, of ?py] by (simp add: parse_text_checked_def p)
  moreover have "indexed_status True \<lparr>pf_rel = [''a.md''], pf_id = ''a'', pf_doc = doc_of_fm (\<lambda>v. ''None'') [] ''b'',
     pf_text = [], pf_malformed = False\<rparr> = ''active''" by code_simp
  ultimately show ?thesis by blast
qed

subsection \<open>Times from one log\<close>

text \<open>What \<^verbatim>\<open>git log -z --name-only\<close> prints for commits, newest first, each a time with the paths it touched.\<close>

definition log_records :: "(string \<times> string list) list \<Rightarrow> string list" where
  "log_records commits = concat (map (\<lambda>(stamp, ps). (GIT_LOG_MARK # stamp) #
     (case ps of [] \<Rightarrow> [] | p # ps \<Rightarrow> (newline # p) # ps)) commits)"

definition log_output :: "(string \<times> string list) list \<Rightarrow> string" where
  "log_output commits = concat (map (\<lambda>r. r @ [CHR 0x00]) (log_records commits))"

definition log_path :: "string \<Rightarrow> bool" where
  "log_path p \<longleftrightarrow> p \<noteq> [] \<and> CHR 0x00 \<notin> set p \<and> hd p \<noteq> GIT_LOG_MARK \<and> hd p \<noteq> newline"

definition log_commit :: "string \<times> string list \<Rightarrow> bool" where
  "log_commit c \<longleftrightarrow> fst c \<noteq> [] \<and> strip (fst c) = fst c \<and> CHR 0x00 \<notin> set (fst c) \<and> list_all log_path (snd c)"

lemma split_terminated: "list_all (\<lambda>r. c \<notin> set r) rs \<Longrightarrow> split_on c (concat (map (\<lambda>r. r @ [c]) rs)) = rs @ [[]]"
  by (induction rs) (simp_all add: split_append_sep)

lemma starts_with_single: "starts_with [c] s \<longleftrightarrow> s \<noteq> [] \<and> hd s = c"
  by (cases s) (auto simp: starts_with_def)

lemma scan_paths:
  assumes "stamp \<noteq> []"
  shows "list_all log_path ps \<Longrightarrow> \<exists>out'. scan_log stamp out (ps @ rs) = scan_log stamp out' rs \<and>
    (\<forall>p. dget out' p = (case dget out p of Some v \<Rightarrow> Some v | None \<Rightarrow> if p \<in> set ps then Some stamp else None))"
proof (induction ps arbitrary: out)
  case Nil
  show ?case by (rule exI[of _ out]) (auto split: option.split)
next
  case (Cons q ps)
  let ?out = "if dget out q = None then out @ [(q, stamp)] else out"
  have q: "log_path q" "list_all log_path ps" using Cons.prems by auto
  have step: "scan_log stamp out ((q # ps) @ rs) = scan_log stamp ?out (ps @ rs)"
    using q(1) assms by (simp add: log_path_def starts_with_single)
  obtain out' where out': "scan_log stamp ?out (ps @ rs) = scan_log stamp out' rs"
    "\<And>p. dget out' p = (case dget ?out p of Some v \<Rightarrow> Some v | None \<Rightarrow> if p \<in> set ps then Some stamp else None)"
    using Cons.IH[OF q(2), of ?out] by blast
  show ?case unfolding step out'(1)
    by (rule exI[of _ out']) (auto simp: out'(2) map_add_def split: option.split)
qed

lemma scan_commit:
  assumes "log_commit (stamp, ps)"
  shows "\<exists>out'. scan_log old out (log_records [(stamp, ps)] @ rs) = scan_log stamp out' rs \<and>
    (\<forall>p. dget out' p = (case dget out p of Some v \<Rightarrow> Some v | None \<Rightarrow> if p \<in> set ps then Some stamp else None))"
proof -
  have s: "stamp \<noteq> []" "strip stamp = stamp" "list_all log_path ps" using assms by (auto simp: log_commit_def)
  have "scan_log old out (log_records [(stamp, ps)] @ rs) = scan_log stamp out (ps @ rs)"
  proof (cases ps)
    case (Cons q qs)
    have "q \<noteq> []" "hd q \<noteq> newline" "hd q \<noteq> GIT_LOG_MARK" using s(3) Cons by (auto simp: log_path_def)
    moreover have "newline \<noteq> GIT_LOG_MARK" by (simp add: newline_def GIT_LOG_MARK_def)
    ultimately show ?thesis using s by (simp add: Cons log_records_def starts_with_single)
  qed (use s in \<open>simp add: log_records_def starts_with_single\<close>)
  then show ?thesis using scan_paths[OF s(1,3)] by simp
qed

lemma scan_commits:
  "list_all log_commit cs \<Longrightarrow> dget (scan_log stamp out (log_records cs @ [[]])) p =
     (case dget out p of Some v \<Rightarrow> Some v | None \<Rightarrow> map_of (concat (map (\<lambda>(s, ps). map (\<lambda>p. (p, s)) ps) cs)) p)"
proof (induction cs arbitrary: stamp out)
  case Nil
  show ?case by (simp add: log_records_def split: option.split)
next
  case (Cons c cs)
  obtain s ps where c: "c = (s, ps)" by fastforce
  have split: "log_records (c # cs) @ [[]] = log_records [(s, ps)] @ (log_records cs @ [[]])" by (simp add: log_records_def c)
  obtain out' where o: "scan_log stamp out (log_records [(s, ps)] @ (log_records cs @ [[]])) = scan_log s out' (log_records cs @ [[]])"
    "\<And>p. dget out' p = (case dget out p of Some v \<Rightarrow> Some v | None \<Rightarrow> if p \<in> set ps then Some s else None)"
    using scan_commit[of s ps stamp out "log_records cs @ [[]]"] Cons.prems c by auto
  have m: "map_of (map (\<lambda>p. (p, s)) ps) p = (if p \<in> set ps then Some s else None)" by (induction ps) auto
  have "list_all log_commit cs" using Cons.prems by simp
  from Cons.IH[OF this, of s out'] show ?case
    unfolding split o(1) by (auto simp: o(2) c map_add_def m split: option.split)
qed

text \<open>One pass over the log gives every file the time of its newest commit: for well-formed commits, newest first, a path
  is mapped to the time of the first commit that names it, and a path no commit names is not in the map.\<close>

theorem git_times_newest:
  assumes "list_all log_commit commits"
  shows "dget (git_last_modified_map (Some (log_output commits))) p =
    map_of (concat (map (\<lambda>(stamp, ps). map (\<lambda>q. (q, stamp)) ps) commits)) p"
proof -
  have "list_all (\<lambda>r. CHR 0x00 \<notin> set r) (log_records commits)"
    using assms by (auto simp: list_all_iff log_records_def log_commit_def log_path_def GIT_LOG_MARK_def newline_def split: list.splits)
  then have "split_on (CHR 0x00) (log_output commits) = log_records commits @ [[]]"
    unfolding log_output_def by (rule split_terminated)
  then show ?thesis using scan_commits[OF assms] by (simp add: git_last_modified_map_def)
qed

theorem git_times_newest_witness:
  "dget (git_last_modified_map (Some (log_output [(''t2'', [''a'']), (''t1'', [''b'', ''a''])]))) ''a'' = Some ''t2''"
proof -
  have "list_all log_commit [(''t2'', [''a'']), (''t1'', [''b'', ''a''])]" by code_simp
  from git_times_newest[OF this, of "''a''"] show ?thesis by simp
qed

end
