(* ===== verification/IndexSearch.thy ===== *)
theory IndexSearch
  imports IndexBuild
begin

text \<open>
  Searching the index (\<open>Index.search\<close> and its stages in \<^verbatim>\<open>index.py\<close>, \<^verbatim>\<open>trigram.py\<close>, the rerankers of
  \<^verbatim>\<open>embeddings.py\<close> and \<^verbatim>\<open>search_shortcut.py\<close>, \<^verbatim>\<open>search_gate.py\<close>) and the search tool over it. The full-text engine is a
  parameter: the ids it matches for an expression, each with its score and snippet, \<^const>\<open>None\<close> where the store raises;
  so is the embedding of a query. Scores are reals; a tie of the engine keeps the engine's order.
\<close>

subsection \<open>Text\<close>

text \<open>\<open>s.split()\<close>, \<^verbatim>\<open>list(dict.fromkeys(xs))\<close>, \<^verbatim>\<open>s.replace('"', '""')\<close>.\<close>

definition words :: "string \<Rightarrow> string list" where
  "words s = filter (\<lambda>w. w \<noteq> []) (split_on CHR '' '' (map (\<lambda>c. if is_space c then CHR '' '' else c) s))"

definition uniq :: "'a list \<Rightarrow> 'a list" where
  "uniq xs = rev (remdups (rev xs))"

definition dquote :: char where "dquote = CHR 0x22"

definition double_quotes :: "string \<Rightarrow> string" where
  "double_quotes s = concat (map (\<lambda>c. if c = dquote then [dquote, dquote] else [c]) s)"

definition phrase :: "string \<Rightarrow> string" where
  "phrase t = dquote # double_quotes t @ [dquote]"

definition or_phrases :: "string list \<Rightarrow> string" where
  "or_phrases ts = join_with '' OR '' (map phrase ts)"

definition FTS_MATCH_COLUMNS :: "string list" where
  "FTS_MATCH_COLUMNS = [''title'', ''tags'', ''applies_when'', ''description'', ''body'']"

datatype search_error = UnknownColumns "string list" | UnknownValidityState | DaysNotInteger | NegativeDays | DateRange

definition build_match_expr :: "string list \<Rightarrow> string list \<Rightarrow> search_error + string" where
  "build_match_expr terms columns =
     (if columns = [] then Inr (or_phrases terms)
      else let unknown = filter (\<lambda>c. c \<notin> set FTS_MATCH_COLUMNS) columns
           in if unknown \<noteq> [] then Inl (UnknownColumns unknown)
              else Inr (''{'' @ join_with '' '' columns @ ''} : ('' @ or_phrases terms @ '')''))"

subsection \<open>Trigrams\<close>

definition MAX_TRIGRAM_TOKEN_CHARS :: nat where "MAX_TRIGRAM_TOKEN_CHARS = 64"
definition MAX_TRIGRAM_PHRASES :: nat where "MAX_TRIGRAM_PHRASES = 256"

definition windows :: "string \<Rightarrow> string list" where
  "windows w = map (\<lambda>i. take 3 (drop i w)) [0 ..< length w - 2]"

text \<open>The inner loop, and the early return at the cap.\<close>

fun collect_grams :: "nat \<Rightarrow> string list \<Rightarrow> string list \<Rightarrow> string list" where
  "collect_grams cap grams [] = grams"
| "collect_grams cap grams (g # gs) =
     (if g \<in> set grams then collect_grams cap grams gs
      else if length grams + 1 \<ge> cap then grams @ [g] else collect_grams cap (grams @ [g]) gs)"

definition query_trigrams :: "string \<Rightarrow> string list" where
  "query_trigrams query = collect_grams MAX_TRIGRAM_PHRASES []
     (concat (map (\<lambda>w. windows (take MAX_TRIGRAM_TOKEN_CHARS w)) (words (lower query))))"

definition build_trigram_match_expr :: "string \<Rightarrow> string option" where
  "build_trigram_match_expr query = (case query_trigrams query of [] \<Rightarrow> None | grams \<Rightarrow> Some (or_phrases grams))"

definition trigram_fallback_enabled :: "string option \<Rightarrow> bool" where
  "trigram_fallback_enabled env \<longleftrightarrow> lower (strip (case env of None \<Rightarrow> ''off'' | Some v \<Rightarrow> v)) = ''on''"

definition DEFAULT_FALLBACK_THRESHOLD :: int where "DEFAULT_FALLBACK_THRESHOLD = 3"

definition trigram_fallback_threshold :: "string option \<Rightarrow> int" where
  "trigram_fallback_threshold env =
     (let raw = strip (case env of None \<Rightarrow> [] | Some v \<Rightarrow> v)
      in if raw = [] then DEFAULT_FALLBACK_THRESHOLD
         else case int_literal raw of None \<Rightarrow> DEFAULT_FALLBACK_THRESHOLD
              | Some v \<Rightarrow> if v \<ge> 0 then v else DEFAULT_FALLBACK_THRESHOLD)"

subsection \<open>Hits\<close>

datatype rank_class = Primary | Backfill

fun rank_no :: "rank_class \<Rightarrow> nat" where "rank_no Primary = 0" | "rank_no Backfill = 1"

record hit =
  h_id :: string
  h_path :: string
  h_title :: string
  h_snippet :: string
  h_score :: real
  h_minus_inf :: bool \<comment> \<open>the score is \<^verbatim>\<open>float('-inf')\<close>, not \<open>h_score\<close>\<close>
  h_status :: string
  h_type :: string
  h_rank :: rank_class
  h_from :: string
  h_until :: string
  h_recheck :: string
  h_verified :: string
  h_inbox :: bool
  h_superseded_by :: "string list"

definition coalesce :: "string option \<Rightarrow> string" where
  "coalesce x = (case x of None \<Rightarrow> [] | Some s \<Rightarrow> s)"

definition hit_of :: "index_row \<Rightarrow> string \<Rightarrow> real \<Rightarrow> rank_class \<Rightarrow> hit" where
  "hit_of r snippet score rank =
     \<lparr>h_id = r_id r, h_path = r_path r, h_title = r_title r, h_snippet = snippet, h_score = score, h_minus_inf = False,
      h_status = r_status r, h_type = r_type r, h_rank = rank, h_from = coalesce (r_valid_from r),
      h_until = coalesce (r_valid_until r), h_recheck = coalesce (r_recheck_by r),
      h_verified = coalesce (r_last_verified r), h_inbox = r_is_inbox r, h_superseded_by = []\<rparr>"

subsection \<open>The facet filters\<close>

record facets =
  fa_tier :: string
  fa_category :: string
  fa_status :: string
  fa_in_force :: bool
  fa_type :: string
  fa_include_expired :: bool
  fa_validity :: string

datatype validity_state = AllExpired | AllStale | ExpiringWithin int

definition parse_validity_state :: "string \<Rightarrow> search_error + validity_state" where
  "parse_validity_state v =
     (if CHR '':'' \<in> set v then
        (let kind = takeWhile (\<lambda>c. c \<noteq> CHR '':'') v; rest = tl (dropWhile (\<lambda>c. c \<noteq> CHR '':'') v)
         in if kind \<noteq> ''expiring_within'' then Inl UnknownValidityState
            else case int_literal (strip rest) of None \<Rightarrow> Inl DaysNotInteger
                 | Some n \<Rightarrow> if n < 0 then Inl NegativeDays else Inr (ExpiringWithin n))
      else if v = ''expired'' then Inr AllExpired
      else if v = ''stale'' then Inr AllStale
      else if v = ''expiring_within'' then Inr (ExpiringWithin 0)
      else Inl UnknownValidityState)"

definition row_of_doc :: "index_row \<Rightarrow> doc_row" where
  "row_of_doc r = doc_row.truncate r"

definition excluded_ids :: "database \<Rightarrow> string \<Rightarrow> string list" where
  "excluded_ids db today = graph_excluded_ids_sql (map row_of_doc (db_docs db)) (db_edges db) today"

definition non_null_and :: "(string \<Rightarrow> bool) \<Rightarrow> string option \<Rightarrow> bool" where
  "non_null_and P x \<longleftrightarrow> (case x of None \<Rightarrow> False | Some v \<Rightarrow> P v)"

definition validity_filter :: "string \<Rightarrow> facets \<Rightarrow> search_error + (index_row \<Rightarrow> bool)" where
  "validity_filter today fa =
     (if fa_validity fa \<noteq> [] then
        (case parse_validity_state (fa_validity fa) of
           Inl e \<Rightarrow> Inl e
         | Inr AllExpired \<Rightarrow> Inr (\<lambda>r. non_null_and (\<lambda>v. v < today) (r_valid_until r))
         | Inr AllStale \<Rightarrow> Inr (\<lambda>r. non_null_and (\<lambda>v. v < today) (r_recheck_by r))
         | Inr (ExpiringWithin n) \<Rightarrow>
             (case add_days today n of None \<Rightarrow> Inl DateRange
              | Some cutoff \<Rightarrow> Inr (\<lambda>r. non_null_and (\<lambda>v. v \<ge> today \<and> v \<le> cutoff) (r_valid_until r))))
      else if \<not> fa_include_expired fa then Inr (\<lambda>r. not_expired_sql today (row_of_doc r))
      else Inr (\<lambda>r. True))"

definition facet_filters :: "database \<Rightarrow> string \<Rightarrow> facets \<Rightarrow> search_error + (index_row \<Rightarrow> bool)" where
  "facet_filters db today fa =
     (case validity_filter today fa of Inl e \<Rightarrow> Inl e
      | Inr window \<Rightarrow>
         (let out = excluded_ids db today
          in Inr (\<lambda>r. (fa_tier fa = [] \<or> r_tier r = fa_tier fa) \<and> (fa_category fa = [] \<or> r_category r = fa_category fa)
            \<and> (fa_status fa = [] \<or> r_status r = fa_status fa)
            \<and> (\<not> fa_in_force fa \<or> (r_status r \<in> set IN_FORCE_STATUSES \<and> in_force_sql today (row_of_doc r)
                 \<and> not_inbox_sql (row_of_doc r) \<and> r_id r \<notin> set out))
            \<and> (fa_type fa = [] \<or> r_type r = fa_type fa) \<and> window r)))"

subsection \<open>The stages\<close>

type_synonym fts_result = "(string \<times> real \<times> string) list option"

text \<open>\<open>FROM fts JOIN docs ... WHERE ... ORDER BY score LIMIT\<close>\<close>

definition joined :: "database \<Rightarrow> (index_row \<Rightarrow> bool) \<Rightarrow> nat \<Rightarrow> (string \<times> real \<times> string) list \<Rightarrow> (index_row \<times> real \<times> string) list" where
  "joined db keep limit rows =
     take limit (sort_key (\<lambda>(d, score, snip). score)
       (concat (map (\<lambda>(i, score, snip). map (\<lambda>d. (d, score, snip)) (filter (\<lambda>d. r_id d = i \<and> keep d) (db_docs db))) rows)))"

definition worst_score :: "hit list \<Rightarrow> real" where
  "worst_score hs = (case hs of [] \<Rightarrow> 0 | h # hs \<Rightarrow> fold max (map h_score hs) (h_score h))"

text \<open>Hits not seen yet are appended as backfill, each scored one worse than the one before.\<close>

fun backfill :: "string list \<Rightarrow> real \<Rightarrow> hit list \<Rightarrow> hit list" where
  "backfill seen score [] = []"
| "backfill seen score (h # hs) =
     (if h_id h \<in> set seen then backfill seen score hs
      else h\<lparr>h_score := score, h_rank := Backfill\<rparr> # backfill (h_id h # seen) (score + 1) hs)"

definition append_backfill :: "hit list \<Rightarrow> hit list \<Rightarrow> hit list" where
  "append_backfill primary found = primary @ backfill (map h_id primary) (worst_score primary + 1) found"

record search_env =
  s_db :: database
  s_fts :: "string \<Rightarrow> real list \<Rightarrow> fts_result"
  s_trigram_fts :: "string \<Rightarrow> fts_result"
  s_expander :: "(string list \<Rightarrow> string list) option"
  s_reranker :: "(string \<Rightarrow> hit list \<Rightarrow> hit list) option"
  s_trigram_on :: bool
  s_threshold :: int
  s_embed :: "(string \<Rightarrow> real list option) option" \<comment> \<open>set when embeddings are configured\<close>
  s_dense_count :: nat
  s_min_cosine :: real

definition DEFAULT_BM25_WEIGHTS :: "real list" where "DEFAULT_BM25_WEIGHTS = [0, 10, 5, 10, 4, 1]"

text \<open>A stage: it can raise, and it can find that the store raised (\<^const>\<open>None\<close>).\<close>

definition fts_match :: "search_env \<Rightarrow> string list \<Rightarrow> string list \<Rightarrow> real list \<Rightarrow> (index_row \<Rightarrow> bool) \<Rightarrow> nat
    \<Rightarrow> search_error + hit list option" where
  "fts_match e terms columns weights keep limit =
     (case build_match_expr terms columns of Inl err \<Rightarrow> Inl err
      | Inr expr \<Rightarrow> Inr (case s_fts e expr weights of None \<Rightarrow> None
          | Some rows \<Rightarrow> Some (map (\<lambda>(d, score, snip). hit_of d snip score Primary) (joined (s_db e) keep limit rows))))"

definition expansion_backfill :: "search_env \<Rightarrow> string list \<Rightarrow> hit list \<Rightarrow> string list \<Rightarrow> real list
    \<Rightarrow> (index_row \<Rightarrow> bool) \<Rightarrow> nat \<Rightarrow> search_error + hit list option" where
  "expansion_backfill e expansion primary columns weights keep limit =
     (case fts_match e expansion columns weights keep limit of Inl err \<Rightarrow> Inl err | Inr None \<Rightarrow> Inr None
      | Inr (Some found) \<Rightarrow> Inr (Some (if found = [] then primary else append_backfill primary found)))"

definition trigram_backfill :: "search_env \<Rightarrow> string \<Rightarrow> hit list \<Rightarrow> (index_row \<Rightarrow> bool) \<Rightarrow> nat \<Rightarrow> hit list option" where
  "trigram_backfill e query primary keep limit =
     (case build_trigram_match_expr query of None \<Rightarrow> Some primary
      | Some expr \<Rightarrow> (case s_trigram_fts e expr of None \<Rightarrow> None
          | Some rows \<Rightarrow> Some (append_backfill primary
              (map (\<lambda>(d, score, snip). hit_of d (r_description d) score Backfill) (joined (s_db e) keep limit rows)))))"

definition cosine :: "real list \<Rightarrow> real list \<Rightarrow> real" where
  "cosine a b =
     (let dot = sum_list (map2 (*) a b); na = sum_list (map (\<lambda>x. x * x) a); nb = sum_list (map (\<lambda>x. x * x) b)
      in if na = 0 \<or> nb = 0 then 0 else dot / (sqrt na * sqrt nb))"

definition dense_candidates :: "search_env \<Rightarrow> string \<Rightarrow> (index_row \<Rightarrow> bool) \<Rightarrow> hit list" where
  "dense_candidates e query keep =
     (case s_embed e of None \<Rightarrow> []
      | Some emb \<Rightarrow>
         if s_dense_count e = 0 \<or> strip query = [] then []
         else (case emb query of None \<Rightarrow> []
           | Some q \<Rightarrow> if q = [] then []
              else take (s_dense_count e) (sort_key (\<lambda>h. - h_score h)
                [hit_of d (r_description d) (cosine q v) Primary.
                   d \<leftarrow> db_docs (s_db e), keep d,
                   v \<leftarrow> opt_list (dget (db_vectors (s_db e)) (r_id d)), length v = length q, cosine q v \<ge> s_min_cosine e])))"

definition union_dense_candidates :: "search_env \<Rightarrow> string \<Rightarrow> hit list \<Rightarrow> (index_row \<Rightarrow> bool) \<Rightarrow> hit list" where
  "union_dense_candidates e query hits keep =
     hits @ map (\<lambda>h. h\<lparr>h_score := worst_score hits\<rparr>)
       (filter (\<lambda>h. h_id h \<notin> h_id ` set hits) (dense_candidates e query keep))"

subsection \<open>Who supersedes whom\<close>

definition edges_from :: "database \<Rightarrow> string \<Rightarrow> string \<Rightarrow> string list" where
  "edges_from db rel i = [e_target x. x \<leftarrow> db_edges db, e_rel x = rel \<and> e_source x = i \<and> e_target x \<in> r_id ` set (db_docs db)]"

definition edges_targeting :: "database \<Rightarrow> string \<Rightarrow> string \<Rightarrow> string list" where
  "edges_targeting db rel i = [e_source x. x \<leftarrow> db_edges db, e_rel x = rel \<and> e_target x = i \<and> e_source x \<in> r_id ` set (db_docs db)]"

definition superseders :: "database \<Rightarrow> string \<Rightarrow> string list" where
  "superseders db i = sort (remdups (edges_from db ''superseded_by'' i @ edges_targeting db ''supersedes'' i))"

definition attach_superseded_by :: "database \<Rightarrow> hit list \<Rightarrow> hit list" where
  "attach_superseded_by db hits =
     map (\<lambda>h. if superseders db (h_id h) \<noteq> [] then h\<lparr>h_superseded_by := superseders db (h_id h)\<rparr> else h) hits"

subsection \<open>The search\<close>

definition MAX_QUERY_TERMS :: nat where "MAX_QUERY_TERMS = 64"

definition expansion_terms :: "string list \<Rightarrow> string list \<Rightarrow> string list" where
  "expansion_terms primary expanded =
     foldl (\<lambda>acc t. if lower t \<in> lower ` set primary \<or> lower t \<in> lower ` set acc then acc else acc @ [t]) [] expanded"

definition candidate_limit :: "search_env \<Rightarrow> nat \<Rightarrow> nat" where
  "candidate_limit e limit =
     (case s_reranker e of None \<Rightarrow> limit | Some rr \<Rightarrow> max limit (min (max (limit * 5) 50) 200))"

text \<open>The hits before embeddings and reranking; \<^const>\<open>None\<close> where the store raised.\<close>

definition lexical_hits :: "search_env \<Rightarrow> string list \<Rightarrow> string list \<Rightarrow> string list \<Rightarrow> real list
    \<Rightarrow> (index_row \<Rightarrow> bool) \<Rightarrow> nat \<Rightarrow> search_error + hit list option" where
  "lexical_hits e primary expansion columns weights keep cand =
     (case fts_match e primary columns weights keep cand of Inl err \<Rightarrow> Inl err | Inr None \<Rightarrow> Inr None
      | Inr (Some hits) \<Rightarrow>
         (case (if expansion = [] then Inr (Some hits) else expansion_backfill e expansion hits columns weights keep cand) of
            Inl err \<Rightarrow> Inl err | Inr None \<Rightarrow> Inr None
          | Inr (Some hits) \<Rightarrow>
             Inr (if s_trigram_on e \<and> int (length hits) \<le> s_threshold e
                  then trigram_backfill e (join_with '' '' primary) hits keep cand else Some hits)))"

definition search :: "search_env \<Rightarrow> string \<Rightarrow> string \<Rightarrow> nat \<Rightarrow> facets \<Rightarrow> string list \<Rightarrow> real list
    \<Rightarrow> search_error + hit list" where
  "search e today query limit fa columns weights =
     (let primary = take MAX_QUERY_TERMS (uniq (words query))
      in if primary = [] then Inr []
         else let expanded = map_option (\<lambda>f. f primary) (s_expander e)
         in if expanded = Some [] then Inr []
         else let expansion = (case expanded of None \<Rightarrow> [] | Some ts \<Rightarrow> expansion_terms primary ts)
         in case facet_filters (s_db e) today fa of Inl err \<Rightarrow> Inl err
            | Inr keep \<Rightarrow>
               (case lexical_hits e primary expansion columns weights keep (candidate_limit e limit) of
                  Inl err \<Rightarrow> Inl err | Inr None \<Rightarrow> Inr []
                | Inr (Some hits) \<Rightarrow>
                   (let pool = (if s_embed e = None then hits else union_dense_candidates e query hits keep);
                        ranked = (case s_reranker e of None \<Rightarrow> pool | Some rr \<Rightarrow> rr query pool)
                    in Inr (attach_superseded_by (s_db e) (take limit ranked)))))"

end
