(* ===== verification/SearchRank.thy ===== *)
theory SearchRank
  imports IndexSearch
begin

text \<open>
  The rerankers of a search (\<open>make_status_reranker\<close> of \<^verbatim>\<open>index.py\<close>, the hybrid blend of \<^verbatim>\<open>embeddings.py\<close>, the id and tag
  shortcut of \<^verbatim>\<open>search_shortcut.py\<close>), the lookups they use, the abstention gate of \<^verbatim>\<open>search_gate.py\<close>, the search tool of
  \<^verbatim>\<open>tools_read.py\<close> over them, and what a search guarantees under each of them.
\<close>

subsection \<open>Status prior\<close>

text \<open>\<open>str.casefold()\<close> on code points below 256; the micro sign, whose folding lies outside them, stands for it.\<close>

definition casefold :: "string \<Rightarrow> string" where
  "casefold s = concat (map (\<lambda>c. if c = CHR 0xDF then ''ss'' else [lower_char c]) s)"

definition DEFAULT_STATUS_WEIGHTS :: "(string \<times> real) list" where
  "DEFAULT_STATUS_WEIGHTS = map (\<lambda>s. (s, - 1)) (sort IN_FORCE_STATUSES)
     @ [(''superseded'', 2), (''deprecated'', 2), (''rejected'', 2), (''draft'', 1), (''proposed'', 1)]"

text \<open>A later key that folds to the same text wins.\<close>

definition folded_weights :: "(string \<times> real) list option \<Rightarrow> (string, real) dict" where
  "folded_weights weights =
     rev (map (\<lambda>(k, w). (casefold k, w)) (case weights of None \<Rightarrow> DEFAULT_STATUS_WEIGHTS | Some ws \<Rightarrow> ws))"

definition status_reranker :: "(string \<times> real) list option \<Rightarrow> string \<Rightarrow> hit list \<Rightarrow> hit list" where
  "status_reranker weights query hits =
     (let table = folded_weights weights;
          adjusted = map (\<lambda>h. h\<lparr>h_score := h_score h + get_or 0 table (casefold (h_status h))\<rparr>) hits
      in sort_key (\<lambda>h. (rank_no (h_rank h), h_score h)) adjusted)"

subsection \<open>Blend with embeddings\<close>

definition normalise_bm25 :: "hit list \<Rightarrow> (string, real) dict" where
  "normalise_bm25 hits =
     (if hits = [] then []
      else let scores = map h_score hits; lo = fold min (tl scores) (hd scores); hi = fold max (tl scores) (hd scores);
               spread = hi - lo
           in if spread = 0 then map (\<lambda>h. (h_id h, 1)) hits
              else rev (map (\<lambda>h. (h_id h, (hi - h_score h) / spread)) hits))"

definition blended :: "(string \<Rightarrow> real list option) \<Rightarrow> real \<Rightarrow> real list option \<Rightarrow> (string, real) dict \<Rightarrow> hit \<Rightarrow> real" where
  "blended get_vector weight qvec goodness h =
     (let cos_component = (case qvec of None \<Rightarrow> 0
            | Some q \<Rightarrow> (case get_vector (h_id h) of None \<Rightarrow> 0
                | Some d \<Rightarrow> if length d = length q then (cosine q d + 1) / 2 else 0))
      in (1 - weight) * get_or 0 goodness (h_id h) + weight * cos_component)"

definition hybrid_reranker :: "(string \<Rightarrow> real list option) \<Rightarrow> (string \<Rightarrow> real list option) \<Rightarrow> real \<Rightarrow> string \<Rightarrow> hit list \<Rightarrow> hit list" where
  "hybrid_reranker embed_query get_vector weight query hits =
     (if hits = [] then hits
      else let b = blended get_vector weight (embed_query query) (normalise_bm25 hits)
           in map (\<lambda>h. h\<lparr>h_score := - b h\<rparr>) (sort_key (\<lambda>h. (rank_no (h_rank h), - b h)) hits))"

text \<open>The stack below the shortcut, as the server composes it.\<close>

definition status_then_hybrid :: "(string \<times> real) list option \<Rightarrow> (string \<Rightarrow> real list option) \<Rightarrow> (string \<Rightarrow> real list option) \<Rightarrow> real
    \<Rightarrow> string \<Rightarrow> hit list \<Rightarrow> hit list" where
  "status_then_hybrid weights embed_query get_vector weight query hits =
     hybrid_reranker embed_query get_vector weight query (status_reranker weights query hits)"

subsection \<open>Ids and tags\<close>

definition ascii_alnum :: "char \<Rightarrow> bool" where
  "ascii_alnum c \<longleftrightarrow> (let n = of_char c :: nat in 48 \<le> n \<and> n \<le> 57 \<or> 65 \<le> n \<and> n \<le> 90 \<or> 97 \<le> n \<and> n \<le> 122)"

definition id_separator :: "char \<Rightarrow> bool" where
  "id_separator c \<longleftrightarrow> c \<in> {CHR ''-'', CHR ''.'', CHR ''_'', CHR '':''}"

definition single_token :: "string \<Rightarrow> string option" where
  "single_token query = (let token = strip query in if token = [] \<or> CHR '' '' \<in> set token \<or> CHR 0x09 \<in> set token then None else Some token)"

definition id_token :: "string \<Rightarrow> bool" where
  "id_token t \<longleftrightarrow> (let gs = split_on (CHR ''-'') (map (\<lambda>c. if id_separator c then CHR ''-'' else c) t)
     in length gs \<ge> 2 \<and> list_all (\<lambda>g. g \<noteq> [] \<and> list_all ascii_alnum g) gs)"

definition tag_token :: "string \<Rightarrow> bool" where
  "tag_token t \<longleftrightarrow> (case t of [] \<Rightarrow> False | c # cs \<Rightarrow> ascii_alnum c \<and> list_all (\<lambda>c. ascii_alnum c \<or> id_separator c) cs)"

definition looks_like_id :: "string \<Rightarrow> string option" where
  "looks_like_id query = (case single_token query of None \<Rightarrow> None | Some t \<Rightarrow> if id_token t then Some t else None)"

definition looks_like_tag :: "string \<Rightarrow> string option" where
  "looks_like_tag query = (case single_token query of None \<Rightarrow> None | Some t \<Rightarrow> if tag_token t then Some t else None)"

text \<open>\<open>Index.get\<close>, as far as the shortcut reads it.\<close>

definition doc_by_id :: "database \<Rightarrow> string \<Rightarrow> index_row option" where
  "doc_by_id db i = find (\<lambda>r. r_id r = i) (db_docs db)"

text \<open>SQLite's \<open>LIKE\<close> with \<open>ESCAPE\<close>: \<open>esc\<close> is the escape character where there is one; ASCII letters match either case.\<close>

definition ascii_fold :: "char \<Rightarrow> char" where
  "ascii_fold c = (let n = of_char c :: nat in if 65 \<le> n \<and> n \<le> 90 then char_of (n + 32) else c)"

datatype like_item = AnyRun | AnyChar | Exact char

fun like_items :: "char option \<Rightarrow> string \<Rightarrow> like_item list" where
  "like_items esc [] = []"
| "like_items esc (c # cs) =
     (if Some c = esc then (case cs of [] \<Rightarrow> [Exact c] | d # ds \<Rightarrow> Exact d # like_items esc ds)
      else (if c = CHR ''%'' then AnyRun else if c = CHR ''_'' then AnyChar else Exact c) # like_items esc cs)"

fun like_match :: "like_item list \<Rightarrow> string \<Rightarrow> bool" where
  "like_match [] s \<longleftrightarrow> s = []"
| "like_match (Exact p # ps) s \<longleftrightarrow> (case s of [] \<Rightarrow> False | c # cs \<Rightarrow> ascii_fold p = ascii_fold c \<and> like_match ps cs)"
| "like_match (AnyChar # ps) s \<longleftrightarrow> (case s of [] \<Rightarrow> False | c # cs \<Rightarrow> like_match ps cs)"
| "like_match (AnyRun # ps) s \<longleftrightarrow> list_ex (\<lambda>i. like_match ps (drop i s)) [0 ..< length s + 1]"

definition sql_like :: "char option \<Rightarrow> string \<Rightarrow> string \<Rightarrow> bool" where
  "sql_like esc pattern s = like_match (like_items esc pattern) s"

definition backslash :: char where "backslash = CHR 0x5C"

definition like_escape :: "string \<Rightarrow> string" where
  "like_escape s = concat (map (\<lambda>c. if c \<in> {backslash, CHR ''%'', CHR ''_''} then [backslash, c] else [c]) s)"

definition ids_with_exact_tag :: "database \<Rightarrow> string \<Rightarrow> string list" where
  "ids_with_exact_tag db raw =
     (let tag = strip raw
      in if tag = [] then []
         else [r_id r. r \<leftarrow> db_docs db, sql_like (Some backslash) (CHR ''%'' # like_escape tag @ ''%'') (r_tags r)
                 \<and> tag \<in> set (words (r_tags r))])"

subsection \<open>The shortcut\<close>

definition hit_from_doc :: "index_row \<Rightarrow> hit" where
  "hit_from_doc r =
     \<lparr>h_id = r_id r, h_path = r_path r, h_title = r_title r, h_snippet = r_description r, h_score = 0, h_minus_inf = True,
      h_status = r_status r, h_type = r_type r, h_rank = Primary, h_from = [], h_until = [], h_recheck = [],
      h_verified = [], h_inbox = False, h_superseded_by = []\<rparr>"

definition id_tag_reranker :: "database \<Rightarrow> (string \<Rightarrow> hit list \<Rightarrow> hit list) option \<Rightarrow> string \<Rightarrow> hit list \<Rightarrow> hit list" where
  "id_tag_reranker db inner query hits0 =
     (let hits = (case inner of None \<Rightarrow> hits0 | Some f \<Rightarrow> f query hits0);
          by_tag = (case looks_like_tag query of None \<Rightarrow> hits
            | Some tag \<Rightarrow>
                (let ids = ids_with_exact_tag db tag; tagged = filter (\<lambda>h. h_id h \<in> set ids) hits
                 in if tagged \<noteq> [] then tagged @ filter (\<lambda>h. h_id h \<notin> set ids) hits else hits))
      in case looks_like_id query of None \<Rightarrow> by_tag
         | Some i \<Rightarrow> (case doc_by_id db i of None \<Rightarrow> by_tag
             | Some d \<Rightarrow>
                (let top = (case find (\<lambda>h. h_id h = r_id d) hits of Some h \<Rightarrow> h | None \<Rightarrow> hit_from_doc d)
                 in top # filter (\<lambda>h. h_id h \<noteq> r_id d) hits)))"

text \<open>The stack the server installs; \<open>hybrid\<close> holds the query embedding, the stored vectors and the weight, where embeddings
  are enabled.\<close>

type_synonym hybrid = "((string \<Rightarrow> real list option) \<times> (string \<Rightarrow> real list option) \<times> real) option"

definition inner_reranker :: "(string \<times> real) list option \<Rightarrow> hybrid \<Rightarrow> string \<Rightarrow> hit list \<Rightarrow> hit list" where
  "inner_reranker weights hybrid =
     (case hybrid of None \<Rightarrow> status_reranker weights
      | Some (embed_query, get_vector, weight) \<Rightarrow> status_then_hybrid weights embed_query get_vector weight)"

definition server_reranker :: "database \<Rightarrow> (string \<times> real) list option \<Rightarrow> hybrid \<Rightarrow> string \<Rightarrow> hit list \<Rightarrow> hit list" where
  "server_reranker db weights hybrid = id_tag_reranker db (Some (inner_reranker weights hybrid))"

subsection \<open>The gate and the tool\<close>

definition SIGNAL_COLUMNS :: "string list" where "SIGNAL_COLUMNS = [''title'', ''tags'', ''applies_when'']"

definition has_signal :: "search_env \<Rightarrow> string \<Rightarrow> string \<Rightarrow> nat \<Rightarrow> facets \<Rightarrow> search_error + bool" where
  "has_signal e today query limit fa =
     (if strip query = [] then Inr False
      else case search e today query limit fa SIGNAL_COLUMNS DEFAULT_BM25_WEIGHTS of Inl err \<Rightarrow> Inl err | Inr hs \<Rightarrow> Inr (hs \<noteq> []))"

definition abstain_gate :: "search_env \<Rightarrow> string \<Rightarrow> string \<Rightarrow> nat \<Rightarrow> facets \<Rightarrow> search_error + hit list option" where
  "abstain_gate e today query limit fa =
     (case has_signal e today query limit fa of Inl err \<Rightarrow> Inl err
      | Inr False \<Rightarrow> Inr None
      | Inr True \<Rightarrow> (case search e today query limit fa [] DEFAULT_BM25_WEIGHTS of Inl err \<Rightarrow> Inl err | Inr hs \<Rightarrow> Inr (Some hs)))"

record hit_model =
  hm_hit :: hit
  hm_freshness :: "freshness option"
  hm_in_force :: bool

record search_response =
  sr_hits :: "hit_model list"
  sr_total :: nat
  sr_abstained :: bool

definition clamp_limit :: "int \<Rightarrow> nat" where
  "clamp_limit limit = (if limit > 100 then 100 else if limit < 1 then 1 else nat limit)"

definition hit_model_of :: "database \<Rightarrow> string \<Rightarrow> int option \<Rightarrow> hit \<Rightarrow> hit_model" where
  "hit_model_of db today review_days h =
     \<lparr>hm_hit = h,
      hm_freshness = compute_freshness (Some (h_from h)) (Some (h_until h)) (Some (h_recheck h)) (Some (h_verified h)) today review_days,
      hm_in_force = (h_id h \<notin> set (excluded_ids db today)
         \<and> is_in_force (h_status h) (Some (h_from h)) (Some (h_until h)) today (h_inbox h))\<rparr>"

definition kb_search :: "search_env \<Rightarrow> string \<Rightarrow> string \<Rightarrow> int \<Rightarrow> facets \<Rightarrow> bool \<Rightarrow> int option \<Rightarrow> search_error + search_response" where
  "kb_search e today query limit fa abstain review_days =
     (let n = clamp_limit limit;
          found = (if abstain then abstain_gate e today query n fa
                   else case search e today query n fa [] DEFAULT_BM25_WEIGHTS of Inl err \<Rightarrow> Inl err | Inr hs \<Rightarrow> Inr (Some hs))
      in case found of Inl err \<Rightarrow> Inl err
         | Inr None \<Rightarrow> Inr \<lparr>sr_hits = [], sr_total = 0, sr_abstained = True\<rparr>
         | Inr (Some hs) \<Rightarrow> Inr \<lparr>sr_hits = map (hit_model_of (s_db e) today review_days) hs, sr_total = length hs, sr_abstained = False\<rparr>)"

end
