(* ===== verification/SearchProps.thy ===== *)
theory SearchProps
  imports SearchRank "HOL-Library.Multiset"
begin

text \<open>
  What a search guarantees: where its hits come from, their order and their number, what the quoting of terms and the
  lookups rest on, and where the shortcut and the fallback leave the documented behaviour.
\<close>

subsection \<open>Hits come from admitted rows\<close>

definition from_row :: "database \<Rightarrow> (index_row \<Rightarrow> bool) \<Rightarrow> hit \<Rightarrow> bool" where
  "from_row db keep h \<longleftrightarrow> (\<exists>r \<in> set (db_docs db). keep r \<and> h = hit_of r (h_snippet h) (h_score h) (h_rank h))"

lemma hit_of_sel [simp]: "h_id (hit_of r s x k) = r_id r" "h_snippet (hit_of r s x k) = s" "h_score (hit_of r s x k) = x"
  "h_rank (hit_of r s x k) = k" "h_status (hit_of r s x k) = r_status r"
  by (simp_all add: hit_of_def)

lemma from_row_hit_of [intro]: "r \<in> set (db_docs db) \<Longrightarrow> keep r \<Longrightarrow> from_row db keep (hit_of r s x k)"
  by (auto simp: from_row_def)

lemma from_row_rescored: "from_row db keep h \<Longrightarrow> from_row db keep (h\<lparr>h_score := x\<rparr>)"
  unfolding from_row_def by (elim bexE conjE, rule bexI, rule conjI, assumption, cases h) (auto simp: hit_of_def)

lemma from_row_reranked: "from_row db keep h \<Longrightarrow> from_row db keep (h\<lparr>h_score := x, h_rank := k\<rparr>)"
  unfolding from_row_def by (elim bexE conjE, rule bexI, rule conjI, assumption, cases h) (auto simp: hit_of_def)

lemma from_row_id: "from_row db keep h \<Longrightarrow> \<exists>r \<in> set (db_docs db). keep r \<and> r_id r = h_id h"
  unfolding from_row_def by (metis hit_of_sel(1))

lemma set_joined: "(d, x, s) \<in> set (joined db keep limit rows) \<Longrightarrow> d \<in> set (db_docs db) \<and> keep d"
  by (auto simp: joined_def dest!: in_set_takeD)

definition ids_at :: "index_row list \<Rightarrow> (index_row \<Rightarrow> bool) \<Rightarrow> string \<Rightarrow> string list" where
  "ids_at docs keep i = map r_id (filter (\<lambda>d. r_id d = i \<and> keep d) docs)"

lemma ids_at_cases:
  assumes "distinct (map r_id docs)"
  shows "ids_at docs keep i = [] \<or> ids_at docs keep i = [i]"
  using assms
proof (induction docs)
  case (Cons d docs)
  have "ids_at docs keep i = []" if "r_id d = i"
    using Cons.prems that by (auto simp: ids_at_def filter_empty_conv image_iff)
  then show ?case using Cons by (auto simp: ids_at_def)
qed (simp add: ids_at_def)

lemma matched_ids:
  assumes "distinct (map r_id docs)"
  shows "distinct ks \<Longrightarrow> distinct (concat (map (ids_at docs keep) ks)) \<and> set (concat (map (ids_at docs keep) ks)) \<subseteq> set ks"
proof (induction ks)
  case (Cons k ks)
  from ids_at_cases[OF assms, of keep k] show ?case using Cons by auto
qed simp

lemma distinct_sorted_map: "distinct (map f xs) \<Longrightarrow> distinct (map f (take n (sort_key k xs)))"
proof -
  assume "distinct (map f xs)"
  moreover have "mset (map f (sort_key k xs)) = mset (map f xs)" by simp
  ultimately have "distinct (map f (sort_key k xs))" by (metis mset_eq_imp_distinct_iff)
  then show ?thesis by (simp add: take_map[symmetric])
qed

lemma joined_ids:
  assumes "distinct (map r_id (db_docs db))" and "distinct (map fst rows)"
  shows "distinct (map (\<lambda>(d, x, s). r_id d) (joined db keep limit rows))"
proof -
  let ?all = "concat (map (\<lambda>(i, x, s). map (\<lambda>d. (d, x, s)) (filter (\<lambda>d. r_id d = i \<and> keep d) (db_docs db))) rows)"
  have "map (\<lambda>(d, x, s). r_id d) ?all = concat (map (ids_at (db_docs db) keep) (map fst rows))"
    by (induction rows) (auto simp: ids_at_def o_def)
  then have "distinct (map (\<lambda>(d, x, s). r_id d) ?all)" using matched_ids[OF assms] by simp
  then show ?thesis unfolding joined_def by (rule distinct_sorted_map)
qed

subsection \<open>The stages\<close>

definition pool_ok :: "database \<Rightarrow> (index_row \<Rightarrow> bool) \<Rightarrow> hit list \<Rightarrow> bool" where
  "pool_ok db keep hs \<longleftrightarrow> (\<forall>h \<in> set hs. from_row db keep h) \<and> distinct (map h_id hs)"

text \<open>What the search relies on of the engine: it reports a document at most once.\<close>

definition engine_ok :: "search_env \<Rightarrow> bool" where
  "engine_ok e \<longleftrightarrow> distinct (map r_id (db_docs (s_db e))) \<and> (\<forall>expr ws rows. s_fts e expr ws = Some rows \<longrightarrow> distinct (map fst rows))"

lemma hits_of_joined:
  "map h_id (map (\<lambda>(d, x, s). hit_of d (f d s) x k) js) = map (\<lambda>(d, x, s). r_id d) js"
  by (induction js) auto

lemma fts_match_ok:
  assumes "engine_ok e" and "fts_match e terms columns ws keep limit = Inr (Some hs)"
  shows "pool_ok (s_db e) keep hs \<and> (\<forall>h \<in> set hs. h_rank h = Primary)"
proof -
  obtain expr rows where r: "s_fts e expr ws = Some rows"
    "hs = map (\<lambda>(d, x, s). hit_of d s x Primary) (joined (s_db e) keep limit rows)"
    using assms(2) by (auto simp: fts_match_def split: sum.splits option.splits)
  have "distinct (map fst rows)" "distinct (map r_id (db_docs (s_db e)))" using assms(1) r(1) by (auto simp: engine_ok_def)
  then have "distinct (map h_id hs)"
    unfolding r(2) hits_of_joined[of "\<lambda>d s. s" Primary] by (intro joined_ids)
  moreover have "\<forall>h \<in> set hs. from_row (s_db e) keep h \<and> h_rank h = Primary" unfolding r(2) by (auto dest!: set_joined)
  ultimately show ?thesis by (simp add: pool_ok_def)
qed

lemma distinct_map_disjoint:
  assumes "distinct (map f xs)" and "distinct (map f ys)" and "\<forall>y \<in> set ys. f y \<notin> f ` set xs"
  shows "distinct (map f (xs @ ys))"
proof -
  have "f x \<noteq> f y" if "x \<in> set xs" "y \<in> set ys" for x y
  proof
    assume "f x = f y"
    with that(1) have "f y \<in> f ` set xs" by (metis imageI)
    with assms(3) that(2) show False by blast
  qed
  then have "set (map f xs) \<inter> set (map f ys) = {}" unfolding set_map by blast
  then show ?thesis using assms(1,2) by (simp only: map_append distinct_append simp_thms)
qed

lemma backfill_ids:
  "(\<forall>h \<in> set (backfill seen x hs). h_rank h = Backfill \<and> h_id h \<notin> set seen) \<and> distinct (map h_id (backfill seen x hs))"
proof (induction seen x hs rule: backfill.induct)
  case (2 seen x h hs)
  then show ?case by (cases "h_id h \<in> set seen") (auto simp: image_iff)
qed simp

lemma backfill_rows: "\<forall>h \<in> set hs. from_row db keep h \<Longrightarrow> \<forall>h \<in> set (backfill seen x hs). from_row db keep h"
  by (induction seen x hs rule: backfill.induct) (auto simp: from_row_reranked)

lemma append_backfill_ok:
  assumes "pool_ok db keep primary" and "\<forall>h \<in> set found. from_row db keep h"
  shows "pool_ok db keep (append_backfill primary found)"
proof -
  let ?b = "backfill (map h_id primary) (worst_score primary + 1) found"
  note b = backfill_ids[of "map h_id primary" "worst_score primary + 1" found]
  have "distinct (map h_id (primary @ ?b))" using assms(1) b by (intro distinct_map_disjoint) (auto simp: pool_ok_def)
  then show ?thesis
    using assms(1) backfill_rows[OF assms(2), of "map h_id primary" "worst_score primary + 1"]
    by (auto simp: pool_ok_def append_backfill_def)
qed

lemma lexical_ok:
  assumes "engine_ok e" and "lexical_hits e primary expansion columns ws keep cand = Inr (Some hs)"
  shows "pool_ok (s_db e) keep hs"
proof -
  obtain h1 where h1: "fts_match e primary columns ws keep cand = Inr (Some h1)"
    using assms(2) by (auto simp: lexical_hits_def split: sum.splits option.splits)
  note ok1 = fts_match_ok[OF assms(1) h1]
  obtain h2 where h2: "(if expansion = [] then Inr (Some h1) else expansion_backfill e expansion h1 columns ws keep cand) = Inr (Some h2)"
    "(if s_trigram_on e \<and> int (length h2) \<le> s_threshold e
      then trigram_backfill e (join_with '' '' primary) h2 keep cand else Some h2) = Some hs"
    using assms(2) h1 by (auto simp: lexical_hits_def split: sum.splits option.splits)
  have ok2: "pool_ok (s_db e) keep h2"
  proof (cases "expansion = []")
    case False
    then obtain found where f: "fts_match e expansion columns ws keep cand = Inr (Some found)"
      "h2 = (if found = [] then h1 else append_backfill h1 found)"
      using h2(1) by (auto simp: expansion_backfill_def split: sum.splits option.splits)
    show ?thesis using append_backfill_ok[of "s_db e" keep h1 found] fts_match_ok[OF assms(1) f(1)] ok1 unfolding f(2)
      by (auto simp: pool_ok_def)
  qed (use h2(1) ok1 in simp)
  show ?thesis
  proof (cases "hs = h2")
    case False
    then have "trigram_backfill e (join_with '' '' primary) h2 keep cand = Some hs" using h2(2) by (auto split: if_splits)
    then obtain rows where "hs = append_backfill h2 (map (\<lambda>(d, x, s). hit_of d (r_description d) x Backfill) (joined (s_db e) keep cand rows))"
      using False by (auto simp: trigram_backfill_def split: option.splits)
    then show ?thesis by (auto intro!: append_backfill_ok ok2 dest!: set_joined)
  qed (use ok2 in simp)
qed

lemma dense_ok:
  assumes "distinct (map r_id (db_docs (s_db e)))"
  shows "pool_ok (s_db e) keep (dense_candidates e query keep)"
proof (cases "dense_candidates e query keep = []")
  case False
  then obtain f q where q: "dense_candidates e query keep = take (s_dense_count e) (sort_key (\<lambda>h. - h_score h)
      [hit_of d (r_description d) (cosine q v) Primary.
         d \<leftarrow> db_docs (s_db e), keep d, v \<leftarrow> opt_list (dget (db_vectors (s_db e)) (r_id d)), length v = length q, cosine q v \<ge> s_min_cosine e])"
    by (auto simp: dense_candidates_def split: option.splits if_splits)
  let ?all = "\<lambda>docs. [hit_of d (r_description d) (cosine q v) Primary.
         d \<leftarrow> docs, keep d, v \<leftarrow> opt_list (dget (db_vectors (s_db e)) (r_id d)), length v = length q, cosine q v \<ge> s_min_cosine e]"
  have "distinct (map h_id (?all docs)) \<and> h_id ` set (?all docs) \<subseteq> r_id ` set docs" if "distinct (map r_id docs)" for docs
    using that
  proof (induction docs)
    case (Cons d docs)
    then show ?case by (cases "dget (db_vectors (s_db e)) (r_id d)") (auto simp: image_iff)
  qed simp
  from this[OF assms] have "distinct (map h_id (?all (db_docs (s_db e))))" by blast
  then show ?thesis unfolding pool_ok_def q using distinct_sorted_map[of h_id] by (auto dest!: in_set_takeD)
qed (simp add: pool_ok_def)

lemma union_dense_ok:
  assumes "distinct (map r_id (db_docs (s_db e)))" and "pool_ok (s_db e) keep hits"
  shows "pool_ok (s_db e) keep (union_dense_candidates e query hits keep)"
proof -
  let ?new = "filter (\<lambda>h. h_id h \<notin> h_id ` set hits) (dense_candidates e query keep)"
  have "map h_id (union_dense_candidates e query hits keep) = map h_id hits @ map h_id ?new"
    by (simp add: union_dense_candidates_def)
  moreover have "distinct (map h_id (hits @ ?new))"
    using dense_ok[OF assms(1), of keep query] assms(2) by (intro distinct_map_disjoint) (auto simp: pool_ok_def distinct_map_filter)
  moreover have "\<forall>h \<in> set (union_dense_candidates e query hits keep). from_row (s_db e) keep h"
    using dense_ok[OF assms(1), of keep query] assms(2) by (auto simp: pool_ok_def union_dense_candidates_def from_row_rescored)
  ultimately show ?thesis by (simp only: pool_ok_def map_append simp_thms)
qed

text \<open>The steps of a search that got as far as ranking.\<close>

lemma search_pool:
  assumes "engine_ok e" and "search e today query limit fa columns ws = Inr hs" and "hs \<noteq> []"
  obtains keep pool where "facet_filters (s_db e) today fa = Inr keep" "pool_ok (s_db e) keep pool"
    "hs = attach_superseded_by (s_db e) (take limit (case s_reranker e of None \<Rightarrow> pool | Some rr \<Rightarrow> rr query pool))"
proof -
  obtain keep primary expansion lex where l: "facet_filters (s_db e) today fa = Inr keep"
    "lexical_hits e primary expansion columns ws keep (candidate_limit e limit) = Inr (Some lex)"
    "hs = attach_superseded_by (s_db e) (take limit (let pool = if s_embed e = None then lex else union_dense_candidates e query lex keep
         in case s_reranker e of None \<Rightarrow> pool | Some rr \<Rightarrow> rr query pool))"
    using assms(2,3) by (auto simp: search_def Let_def split: if_splits sum.splits option.splits)
  have "pool_ok (s_db e) keep (if s_embed e = None then lex else union_dense_candidates e query lex keep)"
    using lexical_ok[OF assms(1) l(2)] union_dense_ok[of e keep lex query] assms(1) by (simp add: engine_ok_def)
  then show ?thesis using that l(1,3) by (simp add: Let_def)
qed

subsection \<open>Rerankers\<close>

definition unscored :: "hit \<Rightarrow> hit" where "unscored h = h\<lparr>h_score := 0\<rparr>"

lemma unscored_sel [simp]: "h_id (unscored h) = h_id h" "h_snippet (unscored h) = h_snippet h" "h_rank (unscored h) = h_rank h"
  "unscored (h\<lparr>h_score := x\<rparr>) = unscored h"
  by (simp_all add: unscored_def)

lemma from_row_unscored: "from_row db keep (unscored h) \<longleftrightarrow> from_row db keep h"
proof
  assume "from_row db keep (unscored h)"
  then have "from_row db keep ((unscored h)\<lparr>h_score := h_score h\<rparr>)" by (rule from_row_rescored)
  then show "from_row db keep h" by (simp add: unscored_def)
qed (simp add: unscored_def from_row_rescored)

text \<open>A reranker that returns the hits it was given, with other scores, in an order that starts with the primaries; and the
  weaker promise that it never doubles a hit.\<close>

locale id_keeper =
  fixes rr :: "string \<Rightarrow> hit list \<Rightarrow> hit list"
  assumes keeps_distinct: "distinct (map h_id hs) \<Longrightarrow> distinct (map h_id (rr q hs))"

locale reranker =
  fixes rr :: "string \<Rightarrow> hit list \<Rightarrow> hit list"
  assumes same_hits: "mset (map unscored (rr q hs)) = mset (map unscored hs)"
    and by_rank: "sorted (map (\<lambda>h. rank_no (h_rank h)) (rr q hs))"
begin

lemma ids_mset: "mset (map h_id (rr q hs)) = mset (map h_id hs)"
proof -
  have "map h_id xs = map h_id (map unscored xs)" for xs by simp
  then have "mset (map h_id (rr q hs)) = image_mset h_id (mset (map unscored (rr q hs)))" by (metis mset_map)
  also have "\<dots> = mset (map h_id hs)" unfolding same_hits by (simp add: o_def image_mset.compositionality)
  finally show ?thesis .
qed

lemma rows_kept:
  assumes "\<forall>h \<in> set hs. from_row db keep h"
  shows "\<forall>h \<in> set (rr q hs). from_row db keep h"
proof
  fix h assume "h \<in> set (rr q hs)"
  then have "unscored h \<in> set (map unscored (rr q hs))" by simp
  then have "unscored h \<in> set (map unscored hs)" by (metis same_hits set_mset_mset)
  then obtain g where "g \<in> set hs" "unscored h = unscored g" by auto
  then show "from_row db keep h" using assms from_row_unscored by metis
qed

lemma pool_kept: "pool_ok db keep hs \<Longrightarrow> pool_ok db keep (rr q hs)"
  using rows_kept[of hs db keep q] mset_eq_imp_distinct_iff[OF ids_mset] by (simp add: pool_ok_def)

end

sublocale reranker \<subseteq> id_keeper rr
  by unfold_locales (use mset_eq_imp_distinct_iff[OF ids_mset] in blast)

lemma sorted_fst: "sorted (map (\<lambda>x. (f x, g x)) xs) \<Longrightarrow> sorted (map f xs)"
  by (induction xs) (auto simp: less_eq_prod_def)

lemma sorted_by_rank: "sorted (map (\<lambda>h. rank_no (h_rank h)) (sort_key (\<lambda>h. (rank_no (h_rank h), g h)) hs))"
  by (rule sorted_fst[where g = g]) (rule sorted_sort_key)

interpretation status: reranker "status_reranker weights" for weights
proof
  fix q hs
  show "mset (map unscored (status_reranker weights q hs)) = mset (map unscored hs)"
    by (simp add: status_reranker_def Let_def image_mset.compositionality o_def)
  show "sorted (map (\<lambda>h. rank_no (h_rank h)) (status_reranker weights q hs))"
    unfolding status_reranker_def Let_def by (rule sorted_by_rank)
qed

interpretation hybrid: reranker "hybrid_reranker embed_query get_vector weight" for embed_query get_vector weight
proof
  fix q hs
  show "mset (map unscored (hybrid_reranker embed_query get_vector weight q hs)) = mset (map unscored hs)"
    by (simp add: hybrid_reranker_def Let_def image_mset.compositionality o_def)
  show "sorted (map (\<lambda>h. rank_no (h_rank h)) (hybrid_reranker embed_query get_vector weight q hs))"
    using sorted_by_rank[of "\<lambda>h. - blended get_vector weight (embed_query q) (normalise_bm25 hs) h" hs]
    by (simp add: hybrid_reranker_def Let_def o_def)
qed

interpretation stack: reranker "inner_reranker weights hybrid" for weights hybrid
proof
  fix q hs
  have "mset (map unscored (status_then_hybrid weights a b c q hs)) = mset (map unscored hs)" for a b c
    unfolding status_then_hybrid_def hybrid.same_hits status.same_hits ..
  then show "mset (map unscored (inner_reranker weights hybrid q hs)) = mset (map unscored hs)"
    using status.same_hits[of weights q hs] by (cases hybrid) (auto simp: inner_reranker_def split: prod.split)
  have "sorted (map (\<lambda>h. rank_no (h_rank h)) (status_then_hybrid weights a b c q hs))" for a b c
    unfolding status_then_hybrid_def by (rule hybrid.by_rank)
  then show "sorted (map (\<lambda>h. rank_no (h_rank h)) (inner_reranker weights hybrid q hs))"
    using status.by_rank[of weights q hs] by (cases hybrid) (auto simp: inner_reranker_def split: prod.split)
qed

subsection \<open>The shortcut on top\<close>

definition lift_tagged :: "database \<Rightarrow> string \<Rightarrow> hit list \<Rightarrow> hit list" where
  "lift_tagged db query hits = (case looks_like_tag query of None \<Rightarrow> hits
     | Some tag \<Rightarrow>
         (let ids = ids_with_exact_tag db tag; tagged = filter (\<lambda>h. h_id h \<in> set ids) hits
          in if tagged \<noteq> [] then tagged @ filter (\<lambda>h. h_id h \<notin> set ids) hits else hits))"

lemma mset_lift_tagged: "mset (lift_tagged db query hits) = mset hits"
proof -
  have "mset (filter P hits) + mset (filter (\<lambda>h. \<not> P h) hits) = mset hits" for P by simp
  then show ?thesis by (auto simp: lift_tagged_def Let_def split: option.split)
qed

lemma shortcut_cases:
  "id_tag_reranker db (Some rr) query hits = lift_tagged db query (rr query hits) \<or>
   (\<exists>i d. looks_like_id query = Some i \<and> doc_by_id db i = Some d \<and> id_tag_reranker db (Some rr) query hits =
      (case find (\<lambda>h. h_id h = r_id d) (rr query hits) of Some h \<Rightarrow> h | None \<Rightarrow> hit_from_doc d)
        # filter (\<lambda>h. h_id h \<noteq> r_id d) (rr query hits))"
  by (auto simp: id_tag_reranker_def lift_tagged_def Let_def split: option.split)

context id_keeper
begin

lemma shortcut_distinct:
  assumes "distinct (map h_id hs)"
  shows "distinct (map h_id (id_tag_reranker db (Some rr) q hs))"
proof -
  note d = keeps_distinct[OF assms, of q]
  from shortcut_cases[of db rr q hs] show ?thesis
  proof (elim disjE exE conjE)
    assume "id_tag_reranker db (Some rr) q hs = lift_tagged db q (rr q hs)"
    moreover have "mset (map h_id (lift_tagged db q (rr q hs))) = mset (map h_id (rr q hs))" by (simp add: mset_lift_tagged)
    ultimately show ?thesis using d by (metis mset_eq_imp_distinct_iff)
  next
    fix i r
    let ?top = "case find (\<lambda>h. h_id h = r_id r) (rr q hs) of Some h \<Rightarrow> h | None \<Rightarrow> hit_from_doc r"
    assume e: "id_tag_reranker db (Some rr) q hs = ?top # filter (\<lambda>h. h_id h \<noteq> r_id r) (rr q hs)"
    have "h_id ?top = r_id r" by (auto simp: hit_from_doc_def find_Some_iff split: option.split)
    then show ?thesis unfolding e using d by (auto simp: distinct_map_filter)
  qed
qed

end

interpretation shortcut: id_keeper "server_reranker db weights hybrid" for db weights hybrid
  by unfold_locales (simp add: server_reranker_def stack.shortcut_distinct)

end
