(* ===== verification/SearchClaims.thy ===== *)
theory SearchClaims
  imports SearchProps
begin

text \<open>
  The guarantees of a search as the server runs it: what is in force stays the only answer to a filtered search, the
  order of primaries and backfill, the bounds of a result; how terms are quoted for the engine; the exact tag lookup;
  and the behaviours that differ from what the code says of them.
\<close>

subsection \<open>A search over the small index\<close>

definition demo_env :: "string \<Rightarrow> search_env" where
  "demo_env i = \<lparr>s_db = demo_db, s_fts = (\<lambda>expr ws. Some [(i, 0, [])]), s_trigram_fts = (\<lambda>expr. Some [(i, 0, [])]), s_expander = None,
     s_reranker = Some (server_reranker demo_db None None), s_trigram_on = False, s_threshold = 3, s_embed = None,
     s_dense_count = 0, s_min_cosine = 0\<rparr>"

definition governed :: facets where
  "governed = \<lparr>fa_tier = [], fa_category = [], fa_status = [], fa_in_force = True, fa_type = [], fa_include_expired = False, fa_validity = []\<rparr>"

lemma demo_engine: "engine_ok (demo_env i)"
proof -
  have "distinct (map r_id (db_docs demo_db))" by (simp add: demo_db_def demo_row_def)
  then show ?thesis by (simp add: engine_ok_def demo_env_def)
qed

lemma lexical_simple:
  assumes "s_trigram_on e = False" and "s_fts e (or_phrases primary) ws = Some rows"
  shows "lexical_hits e primary [] [] ws keep cand =
    Inr (Some (map (\<lambda>(d, x, s). hit_of d s x Primary) (joined (s_db e) keep cand rows)))"
  using assms by (simp add: lexical_hits_def fts_match_def build_match_expr_def)

lemma demo_facets:
  obtains keep where "facet_filters demo_db ''2026-06-01'' governed = Inr keep" "keep (db_docs demo_db ! 1)" "\<not> keep (db_docs demo_db ! 0)"
    "excluded_ids demo_db ''2026-06-01'' = []"
proof -
  have x: "excluded_ids demo_db ''2026-06-01'' = []" by (simp add: excluded_ids_def graph_excluded_ids_sql_def demo_db_def)
  define K where "K = (case facet_filters demo_db ''2026-06-01'' governed of Inr k \<Rightarrow> k | Inl err \<Rightarrow> undefined)"
  have f: "facet_filters demo_db ''2026-06-01'' governed = Inr K"
    by (simp add: K_def facet_filters_def validity_filter_def governed_def)
  have "K r \<longleftrightarrow> r_status r \<in> set IN_FORCE_STATUSES \<and> in_force_sql ''2026-06-01'' (row_of_doc r) \<and> not_inbox_sql (row_of_doc r)
      \<and> not_expired_sql ''2026-06-01'' (row_of_doc r)" for r
    by (simp add: K_def facet_filters_def validity_filter_def governed_def x)
  then have "K (db_docs demo_db ! 1)" "\<not> K (db_docs demo_db ! 0)"
    by (simp_all add: demo_db_def demo_row_def row_of_doc_def doc_row.truncate_def in_force_sql_def not_inbox_sql_def
        not_expired_sql_def null_or_def IN_FORCE_STATUSES_def)
  with f x show ?thesis using that by blast
qed

lemma demo_search:
  assumes "looks_like_id query = None" and "looks_like_tag query = None" and "take MAX_QUERY_TERMS (uniq (words query)) \<noteq> []" and "limit > 0"
  shows "search (demo_env ''DEC-2'') ''2026-06-01'' query limit governed [] ws =
    Inr [(hit_of (db_docs demo_db ! 1) [] 0 Primary)\<lparr>h_score := - 1\<rparr>]"
proof (rule demo_facets)
  fix keep
  assume k: "facet_filters demo_db ''2026-06-01'' governed = Inr keep" "keep (db_docs demo_db ! 1)"
  let ?h = "hit_of (db_docs demo_db ! 1) [] 0 Primary"
  obtain a b where ab: "db_docs demo_db = [a, b]" by (simp add: demo_db_def)
  have ids: "r_id b = ''DEC-2''" "r_id a = ''DEC-1''" using ab by (auto simp: demo_db_def demo_row_def)
  have j: "joined demo_db keep n [(''DEC-2'', 0, [])] = [(db_docs demo_db ! 1, 0, [])]" if "n > 0" for n
    using ids k(2) that by (cases n) (auto simp: joined_def ab)
  have "candidate_limit (demo_env ''DEC-2'') limit > 0" using assms(4) by (simp add: candidate_limit_def demo_env_def)
  from j[OF this] have "lexical_hits (demo_env ''DEC-2'') (take MAX_QUERY_TERMS (uniq (words query))) [] [] ws keep (candidate_limit (demo_env ''DEC-2'') limit) = Inr (Some [?h])"
    by (simp add: lexical_simple[where rows = "[(''DEC-2'', 0, [])]"] demo_env_def)
  moreover have "server_reranker demo_db None None query [?h] = [?h\<lparr>h_score := - 1\<rparr>]"
    using assms(1,2) by (simp add: server_reranker_def id_tag_reranker_def inner_reranker_def status_reranker_def Let_def
        folded_weights_def DEFAULT_STATUS_WEIGHTS_def IN_FORCE_STATUSES_def get_or_def hit_of_def demo_db_def demo_row_def casefold_def lower_char_def)
  moreover have "superseders demo_db i = []" for i by (simp add: superseders_def edges_from_def edges_targeting_def demo_db_def)
  ultimately show ?thesis
    using assms(3,4) k(1) by (cases limit) (simp_all add: search_def demo_env_def attach_superseded_by_def)
qed

lemma demo_query: "looks_like_id ''auth flow'' = None" "looks_like_tag ''auth flow'' = None"
  "take MAX_QUERY_TERMS (uniq (words ''auth flow'')) \<noteq> []"
  by code_simp+

subsection \<open>Filtered searches\<close>

lemma attached_ids: "map h_id (attach_superseded_by db hs) = map h_id hs"
  by (induction hs) (auto simp: attach_superseded_by_def)

lemma attached_ranks: "map (\<lambda>h. f (h_rank h)) (attach_superseded_by db hs) = map (\<lambda>h. f (h_rank h)) hs"
  by (induction hs) (auto simp: attach_superseded_by_def)

lemma attached_hit: "h \<in> set (attach_superseded_by db hs) \<Longrightarrow> \<exists>g \<in> set hs. \<exists>s. h = g\<lparr>h_superseded_by := s\<rparr>"
  by (auto simp: attach_superseded_by_def split: if_splits) (metis hit.surjective hit.update_convs(15))+

lemma is_in_force_coalesced:
  "is_in_force st (Some (coalesce a)) (Some (coalesce b)) today i \<longleftrightarrow> is_in_force st a b today i"
  by (cases a; cases b) (simp_all add: coalesce_def is_in_force_def is_expired_def is_upcoming_def)

lemma hit_model_in_force:
  assumes "h = (hit_of r s x k)\<lparr>h_superseded_by := us\<rparr>"
  shows "hm_in_force (hit_model_of db today days h) \<longleftrightarrow>
    r_id r \<notin> set (excluded_ids db today) \<and> is_in_force (r_status r) (r_valid_from r) (r_valid_until r) today (r_is_inbox r)"
  using assms by (simp add: hit_model_of_def hit_of_def is_in_force_coalesced)

lemma filtered_row:
  assumes "facet_filters db today fa = Inr keep" and "fa_in_force fa" and "keep r"
  shows "sql_admits today (doc_row.truncate r) \<and> r_id r \<notin> set (excluded_ids db today)"
  using assms by (auto simp: facet_filters_def sql_admits_def row_of_doc_def Let_def doc_row.truncate_def split: sum.splits)

lemma search_from_rows:
  assumes "engine_ok e" and "s_reranker e = Some (server_reranker (s_db e) weights hybrid)" and "looks_like_id query = None"
    and "search e today query limit fa columns ws = Inr hs" and "h \<in> set hs"
  shows "\<exists>keep r s x k us. facet_filters (s_db e) today fa = Inr keep \<and> r \<in> set (db_docs (s_db e)) \<and> keep r
    \<and> h = (hit_of r s x k)\<lparr>h_superseded_by := us\<rparr>"
proof -
  have "hs \<noteq> []" using assms(5) by auto
  then obtain keep pool where p: "facet_filters (s_db e) today fa = Inr keep" "pool_ok (s_db e) keep pool"
    "hs = attach_superseded_by (s_db e) (take limit (server_reranker (s_db e) weights hybrid query pool))"
    using search_pool[OF assms(1,4)] assms(2) by (metis option.case(2))
  obtain g us where g: "g \<in> set (server_reranker (s_db e) weights hybrid query pool)" "h = g\<lparr>h_superseded_by := us\<rparr>"
    using attached_hit[of h] assms(5) p(3) by (metis in_set_takeD)
  have "server_reranker (s_db e) weights hybrid query pool = lift_tagged (s_db e) query (inner_reranker weights hybrid query pool)"
    using shortcut_cases[of "s_db e" "inner_reranker weights hybrid" query pool] assms(3) by (simp add: server_reranker_def)
  then have "g \<in> set (inner_reranker weights hybrid query pool)" using g(1) mset_lift_tagged by (metis set_mset_mset)
  then have "from_row (s_db e) keep g" using stack.pool_kept[OF p(2)] by (simp add: pool_ok_def)
  then show ?thesis using p(1) g(2) unfolding from_row_def by metis
qed

text \<open>C7. A governed search governs: over an index that a build produced, with the reranking the server installs, a search
  restricted to what is in force answers every query that is not shaped like an id with documents that are in force
  today and not superseded by another in-force document, and says so of each of them.\<close>

theorem governed_search_in_force:
  assumes "build_database b True found commit = Inr (s_db e)"
    and "\<forall>expr ws rows. s_fts e expr ws = Some rows \<longrightarrow> distinct (map fst rows)"
    and "s_reranker e = Some (server_reranker (s_db e) weights hybrid)" and "looks_like_id query = None"
    and "fa_in_force fa" and "kb_search e today query limit fa abstain days = Inr resp" and "m \<in> set (sr_hits resp)"
  shows "hm_in_force m \<and> (\<exists>r \<in> set (db_docs (s_db e)). r_id r = h_id (hm_hit m) \<and>
     is_in_force (r_status r) (r_valid_from r) (r_valid_until r) today (r_is_inbox r) \<and> r_id r \<notin> set (excluded_ids (s_db e) today))"
proof -
  have ok: "engine_ok e" using built_rows[OF assms(1)] assms(2) by (simp add: engine_ok_def)
  obtain hs where hs: "search e today query (clamp_limit limit) fa [] DEFAULT_BM25_WEIGHTS = Inr hs"
    "sr_hits resp = map (hit_model_of (s_db e) today days) hs"
    using assms(6,7) by (auto simp: kb_search_def abstain_gate_def Let_def split: if_splits sum.splits option.splits bool.splits)
  then obtain h where h: "h \<in> set hs" "m = hit_model_of (s_db e) today days h" using assms(7) by auto
  obtain keep r s x k us where r: "facet_filters (s_db e) today fa = Inr keep" "r \<in> set (db_docs (s_db e))" "keep r"
    "h = (hit_of r s x k)\<lparr>h_superseded_by := us\<rparr>"
    using search_from_rows[OF ok assms(3,4) hs(1) h(1)] by blast
  have f: "is_in_force (r_status r) (r_valid_from r) (r_valid_until r) today (r_is_inbox r)" "r_id r \<notin> set (excluded_ids (s_db e) today)"
    using filtered_row[OF r(1) assms(5) r(3)] built_rows_agree[OF assms(1) r(2)] by blast+
  then have "hm_in_force m" unfolding h(2) using hit_model_in_force[OF r(4)] by blast
  moreover have "r_id r = h_id (hm_hit m)" by (simp add: h(2) hit_model_of_def r(4) hit_of_def)
  ultimately show ?thesis using r(2) f by blast
qed

theorem governed_search_in_force_witness:
  "\<exists>resp. kb_search (demo_env ''DEC-2'') ''2026-06-01'' ''auth flow'' 5 governed False None = Inr resp
     \<and> sr_hits resp \<noteq> [] \<and> list_all hm_in_force (sr_hits resp)"
proof -
  let ?h = "(hit_of (db_docs demo_db ! 1) [] 0 Primary)\<lparr>h_score := - 1\<rparr>"
  have s: "search (demo_env ''DEC-2'') ''2026-06-01'' ''auth flow'' 5 governed [] DEFAULT_BM25_WEIGHTS = Inr [?h]"
    by (rule demo_search[OF demo_query]) simp
  then obtain resp where r: "kb_search (demo_env ''DEC-2'') ''2026-06-01'' ''auth flow'' 5 governed False None = Inr resp"
    "sr_hits resp = [hit_model_of demo_db ''2026-06-01'' None ?h]"
    by (simp add: kb_search_def clamp_limit_def demo_env_def)
  have db: "s_db (demo_env ''DEC-2'') = demo_db" by (simp add: demo_env_def)
  have "hm_in_force (hit_model_of demo_db ''2026-06-01'' None ?h)"
    by (rule governed_search_in_force[where b = demo_build and found = demo_found and commit = "[]" and weights = None and hybrid = None, THEN conjunct1,
          OF _ _ _ demo_query(1) _ r(1)])
      (simp_all add: demo_built demo_env_def governed_def r(2))
  then show ?thesis using r by simp
qed

text \<open>Where the shortcut finds nothing to lift, the reranking is that of the inner stack.\<close>

lemma server_reranker_unlifted:
  assumes "\<forall>i. looks_like_id query = Some i \<longrightarrow> doc_by_id db i = None"
    and "\<forall>tag. looks_like_tag query = Some tag \<longrightarrow> ids_with_exact_tag db tag = []"
  shows "server_reranker db weights hybrid query hs = inner_reranker weights hybrid query hs"
  using assms by (auto simp: server_reranker_def id_tag_reranker_def Let_def split: option.split)

text \<open>C30. Backfill never outranks what the user typed, unless the shortcut lifts it: for a query that is not the id of a document
  and not a tag that some document carries, every primary hit of the result stands before every backfill hit, whatever the
  status weights and the embeddings do to the scores.\<close>

theorem primaries_before_backfill:
  assumes "s_reranker e = Some (server_reranker (s_db e) weights hybrid)"
    and "\<forall>i. looks_like_id query = Some i \<longrightarrow> doc_by_id (s_db e) i = None"
    and "\<forall>tag. looks_like_tag query = Some tag \<longrightarrow> ids_with_exact_tag (s_db e) tag = []"
    and "search e today query limit fa columns ws = Inr hs"
  shows "sorted (map (\<lambda>h. rank_no (h_rank h)) hs)"
proof (cases "hs = []")
  case False
  obtain pool where "hs = attach_superseded_by (s_db e) (take limit (server_reranker (s_db e) weights hybrid query pool))"
    using assms(4) False assms(1) by (auto simp: search_def Let_def split: if_splits sum.splits option.splits)
  then show ?thesis
    using stack.by_rank[of weights hybrid query pool] server_reranker_unlifted[OF assms(2,3), of weights hybrid pool]
    by (simp add: attached_ranks take_map[symmetric] sorted_wrt_take)
qed simp

theorem primaries_before_backfill_witness:
  "\<exists>hs. search (demo_env ''DEC-2'') ''2026-06-01'' ''auth flow'' 5 governed [] [] = Inr hs \<and> hs \<noteq> [] \<and> sorted (map (\<lambda>h. rank_no (h_rank h)) hs)"
proof -
  have s: "search (demo_env ''DEC-2'') ''2026-06-01'' ''auth flow'' 5 governed [] [] = Inr [(hit_of (db_docs demo_db ! 1) [] 0 Primary)\<lparr>h_score := - 1\<rparr>]"
    by (rule demo_search[OF demo_query]) simp
  show ?thesis
    using s primaries_before_backfill[OF _ _ _ s, of None None] demo_query(1,2) by (simp add: demo_env_def)
qed

lemma hit_from_doc_row: "doc_by_id db i = Some d \<Longrightarrow> d \<in> set (db_docs db) \<and> h_id (hit_from_doc d) = r_id d \<and> h_path (hit_from_doc d) = r_path d
    \<and> h_title (hit_from_doc d) = r_title d \<and> h_status (hit_from_doc d) = r_status d"
  by (auto simp: doc_by_id_def find_Some_iff hit_from_doc_def)

definition shows_row :: "database \<Rightarrow> hit \<Rightarrow> bool" where
  "shows_row db h \<longleftrightarrow> (\<exists>r \<in> set (db_docs db). h_id h = r_id r \<and> h_path h = r_path r \<and> h_title h = r_title r \<and> h_status h = r_status r)"

lemma from_row_shows: "from_row db keep h \<Longrightarrow> shows_row db h"
proof -
  assume "from_row db keep h"
  then obtain r where "r \<in> set (db_docs db)" "h = hit_of r (h_snippet h) (h_score h) (h_rank h)" by (auto simp: from_row_def)
  then show ?thesis unfolding shows_row_def by (metis (no_types, lifting) hit.select_convs(1-3,7) hit_of_def)
qed

lemma server_reranker_shows:
  assumes "pool_ok db keep pool" and "h \<in> set (server_reranker db weights hybrid query pool)"
  shows "shows_row db h"
proof -
  let ?in = "inner_reranker weights hybrid query pool"
  have rows: "shows_row db g" if "g \<in> set ?in" for g
    using stack.pool_kept[OF assms(1), of weights hybrid query] that from_row_shows[of db keep g] by (auto simp: pool_ok_def)
  from shortcut_cases[of db "inner_reranker weights hybrid" query pool] show ?thesis
  proof (elim disjE exE conjE)
    assume "id_tag_reranker db (Some (inner_reranker weights hybrid)) query pool = lift_tagged db query ?in"
    then have "h \<in> set (lift_tagged db query ?in)" using assms(2) by (simp add: server_reranker_def)
    then show ?thesis using rows mset_lift_tagged by (metis set_mset_mset)
  next
    fix i d
    let ?top = "case find (\<lambda>h. h_id h = r_id d) ?in of Some h \<Rightarrow> h | None \<Rightarrow> hit_from_doc d"
    assume d: "doc_by_id db i = Some d"
      and e: "id_tag_reranker db (Some (inner_reranker weights hybrid)) query pool = ?top # filter (\<lambda>h. h_id h \<noteq> r_id d) ?in"
    have "shows_row db (hit_from_doc d)" unfolding shows_row_def using hit_from_doc_row[OF d] by blast
    then have "shows_row db ?top" using rows by (auto simp: find_Some_iff split: option.split)
    then show ?thesis using assms(2) e rows by (auto simp: server_reranker_def)
  qed
qed

text \<open>C37. A search returns at most the requested number of hits, no document twice, and only documents of the index, each under
  its own path, title and status, with any stages switched on and also for the queries that take the id or tag shortcut.\<close>

theorem search_bounded:
  assumes "engine_ok e" and "s_reranker e \<in> {None, Some (server_reranker (s_db e) weights hybrid)}"
    and "search e today query limit fa columns ws = Inr hs"
  shows "length hs \<le> limit \<and> distinct (map h_id hs) \<and> (\<forall>h \<in> set hs. \<exists>r \<in> set (db_docs (s_db e)).
    h_id h = r_id r \<and> h_path h = r_path r \<and> h_title h = r_title r \<and> h_status h = r_status r)"
proof (cases "hs = []")
  case False
  then obtain keep pool where p: "pool_ok (s_db e) keep pool"
    "hs = attach_superseded_by (s_db e) (take limit (case s_reranker e of None \<Rightarrow> pool | Some rr \<Rightarrow> rr query pool))"
    using search_pool[OF assms(1,3)] by metis
  let ?ranked = "case s_reranker e of None \<Rightarrow> pool | Some rr \<Rightarrow> rr query pool"
  have "distinct (map h_id ?ranked)"
    using assms(2) p(1) shortcut.keeps_distinct[of pool] by (auto simp: pool_ok_def)
  then have "length hs \<le> limit \<and> distinct (map h_id hs)"
    unfolding p(2) by (simp add: attached_ids take_map[symmetric]) (simp add: attach_superseded_by_def)
  moreover have "shows_row (s_db e) h" if "h \<in> set hs" for h
  proof -
    have "h \<in> set (attach_superseded_by (s_db e) (take limit ?ranked))" using that unfolding p(2) .
    from attached_hit[OF this] obtain g us where t: "g \<in> set (take limit ?ranked)" and g2: "h = g\<lparr>h_superseded_by := us\<rparr>" by blast
    note g = in_set_takeD[OF t] g2
    have "shows_row (s_db e) g"
    proof (cases "s_reranker e")
      case None
      then show ?thesis using g(1) p(1) from_row_shows[of "s_db e" keep g] by (auto simp: pool_ok_def)
    next
      case (Some rr)
      then have "g \<in> set (server_reranker (s_db e) weights hybrid query pool)" using g(1) assms(2) by simp
      then show ?thesis by (rule server_reranker_shows[OF p(1)])
    qed
    then show ?thesis using g(2) by (simp add: shows_row_def)
  qed
  ultimately show ?thesis unfolding shows_row_def by blast
qed simp

theorem search_bounded_witness:
  "\<exists>hs. search (demo_env ''DEC-2'') ''2026-06-01'' ''auth flow'' 1 governed [] [] = Inr hs \<and> hs \<noteq> [] \<and> length hs \<le> 1 \<and> distinct (map h_id hs) \<and>
    (\<forall>h \<in> set hs. \<exists>r \<in> set (db_docs (s_db (demo_env ''DEC-2''))). h_id h = r_id r)"
proof -
  have s: "search (demo_env ''DEC-2'') ''2026-06-01'' ''auth flow'' 1 governed [] [] = Inr [(hit_of (db_docs demo_db ! 1) [] 0 Primary)\<lparr>h_score := - 1\<rparr>]"
    by (rule demo_search[OF demo_query]) simp
  have "s_reranker (demo_env ''DEC-2'') = Some (server_reranker (s_db (demo_env ''DEC-2'')) None None)" by (simp add: demo_env_def)
  then show ?thesis using s search_bounded[OF demo_engine _ s, of None None] by blast
qed

subsection \<open>Quoting\<close>

text \<open>The engine's syntax for a query of quoted phrases: a phrase ends at the first double quote that is not doubled.\<close>

fun scan_phrase :: "string \<Rightarrow> (string \<times> string) option" where
  "scan_phrase [] = None"
| "scan_phrase (c # cs) =
     (if c \<noteq> dquote then map_option (\<lambda>(t, r). (c # t, r)) (scan_phrase cs)
      else case cs of [] \<Rightarrow> Some ([], [])
           | d # ds \<Rightarrow> if d = dquote then map_option (\<lambda>(t, r). (dquote # t, r)) (scan_phrase ds) else Some ([], cs))"

fun read_phrases :: "nat \<Rightarrow> string \<Rightarrow> string list option" where
  "read_phrases 0 s = None"
| "read_phrases (Suc n) s =
     (case s of [] \<Rightarrow> None
      | c # cs \<Rightarrow>
         if c \<noteq> dquote then None
         else (case scan_phrase cs of None \<Rightarrow> None
               | Some (t, r) \<Rightarrow> if r = [] then Some [t]
                   else if starts_with '' OR '' r then map_option ((#) t) (read_phrases n (drop 4 r)) else None))"

lemma scan_phrase_quoted: "rest = [] \<or> hd rest \<noteq> dquote \<Longrightarrow> scan_phrase (double_quotes t @ dquote # rest) = Some (t, rest)"
proof (induction t)
  case Nil
  then show ?case by (cases rest) (auto simp: double_quotes_def)
next
  case (Cons c t)
  then show ?case by (cases "c = dquote") (simp_all add: double_quotes_def)
qed

text \<open>No term can break out of its quotes: read back by the engine's rules, the expression of a list of terms is that list,
  whatever quotes, operators or column filters the terms contain.\<close>

theorem match_expr_reads_back:
  assumes "ts \<noteq> []"
  shows "read_phrases (length ts) (or_phrases ts) = Some ts"
  using assms
proof (induction ts)
  case (Cons t ts)
  show ?case
  proof (cases ts)
    case Nil
    have "scan_phrase (double_quotes t @ [dquote]) = Some (t, [])" by (rule scan_phrase_quoted) simp
    then show ?thesis by (simp add: Nil or_phrases_def phrase_def)
  next
    case (Cons u us)
    have "or_phrases (t # ts) = dquote # double_quotes t @ dquote # '' OR '' @ or_phrases ts"
      by (simp add: Cons or_phrases_def phrase_def)
    moreover have "scan_phrase (double_quotes t @ dquote # '' OR '' @ or_phrases ts) = Some (t, '' OR '' @ or_phrases ts)"
      by (rule scan_phrase_quoted) (simp add: dquote_def)
    moreover have "read_phrases (length ts) (or_phrases ts) = Some ts" using Cons.IH Cons by simp
    ultimately show ?thesis by (simp add: starts_with_def)
  qed
qed simp

theorem match_expr_reads_back_witness:
  "read_phrases 2 (or_phrases [[dquote, CHR '' '', CHR ''O'', CHR ''R''], ''x'']) = Some [[dquote, CHR '' '', CHR ''O'', CHR ''R''], ''x'']"
  using match_expr_reads_back[of "[[dquote, CHR '' '', CHR ''O'', CHR ''R''], ''x'']"] by (simp add: numeral_2_eq_2)

subsection \<open>Trigrams\<close>

lemma remdups_snoc: "remdups (xs @ [x]) = filter (\<lambda>y. y \<noteq> x) (remdups xs) @ [x]"
  by (induction xs) auto

lemma uniq_Cons: "uniq (x # xs) = x # filter (\<lambda>y. y \<noteq> x) (uniq xs)"
  by (simp add: uniq_def remdups_snoc rev_filter)

lemma uniq_Nil [simp]: "uniq [] = []"
  by (simp add: uniq_def)

lemma set_uniq [simp]: "set (uniq xs) = set xs" and distinct_uniq [simp]: "distinct (uniq xs)"
  by (simp_all add: uniq_def)

lemma collect_grams_eq:
  "length acc < cap \<Longrightarrow> collect_grams cap acc gs = take cap (acc @ filter (\<lambda>g. g \<notin> set acc) (uniq gs))"
proof (induction cap acc gs rule: collect_grams.induct)
  case (2 cap acc g gs)
  consider (old) "g \<in> set acc" | (full) "g \<notin> set acc" "length acc + 1 \<ge> cap" | (more) "g \<notin> set acc" "length acc + 1 < cap" by linarith
  then show ?case
  proof cases
    case old
    then have "filter (\<lambda>x. x \<notin> set acc) (uniq (g # gs)) = filter (\<lambda>x. x \<notin> set acc) (uniq gs)"
      by (auto simp: uniq_Cons intro: filter_cong)
    then show ?thesis using 2 old by simp
  next
    case full
    then have "cap = Suc (length acc)" using "2.prems" by simp
    then show ?thesis using full by (simp add: uniq_Cons)
  next
    case more
    have "filter (\<lambda>x. x \<notin> set (acc @ [g])) (uniq gs) = filter (\<lambda>x. x \<notin> set acc) (filter (\<lambda>y. y \<noteq> g) (uniq gs))"
      by (auto intro: filter_cong)
    then show ?thesis using 2 more by (simp add: uniq_Cons)
  qed
qed simp

text \<open>The fuzzy expression is bounded: however long the query, its trigrams are the first 256 distinct windows of three
  characters of its lowercased words, each word cut to 64 characters.\<close>

theorem trigrams_first_256:
  "query_trigrams query = take 256 (uniq (concat (map (\<lambda>w. windows (take 64 w)) (words (lower query)))))"
  using collect_grams_eq[of "[]" 256] by (simp add: query_trigrams_def MAX_TRIGRAM_PHRASES_def MAX_TRIGRAM_TOKEN_CHARS_def)

subsection \<open>Exact tags\<close>

lemma split_on_infix: "w \<in> set (split_on c s) \<Longrightarrow> \<exists>a b. s = a @ w @ b"
proof (induction s arbitrary: w)
  case (Cons x s)
  show ?case
  proof (cases "x = c")
    case True
    then have "w = [] \<or> w \<in> set (split_on c s)" using Cons.prems by (auto simp: split_on_Cons)
    then show ?thesis using Cons.IH by (metis append_Cons append_Nil)
  next
    case False
    obtain p ps where p: "split_on c s = p # ps" by (cases "split_on c s") auto
    have "join_with [c] (p # ps) = s" using join_split[of c s] p by simp
    then obtain r where r: "s = p @ r" by (cases ps) auto
    have "w = x # p \<or> w \<in> set ps" using Cons.prems False p by (simp add: split_on_Cons)
    then show ?thesis
    proof
      assume "w = x # p"
      then have "x # s = [] @ w @ r" by (simp add: r)
      then show ?thesis by blast
    next
      assume "w \<in> set ps"
      then obtain a b where "s = a @ w @ b" using Cons.IH p by (metis list.set_intros(2))
      then have "x # s = (x # a) @ w @ b" by simp
      then show ?thesis by blast
    qed
  qed
qed simp

lemma words_infix: "w \<in> set (words s) \<Longrightarrow> w \<noteq> [] \<and> (\<exists>a b. s = a @ w @ b)"
proof -
  let ?f = "\<lambda>c. if is_space c then CHR '' '' else c"
  assume w: "w \<in> set (words s)"
  then have n: "w \<noteq> []" "CHR '' '' \<notin> set w" by (auto simp: words_def dest: split_on_free)
  obtain a b where "map ?f s = a @ w @ b" using w by (auto simp: words_def dest: split_on_infix)
  then obtain a' w' b' where s: "s = a' @ w' @ b'" "map ?f w' = w" unfolding map_eq_append_conv append_eq_map_conv by blast
  have "w' = w" using n(2) unfolding s(2)[symmetric] by (induction w') (auto split: if_splits)
  then show ?thesis using n(1) s(1) by blast
qed

lemma like_items_escaped: "like_items (Some backslash) (like_escape t @ rest) = map Exact t @ like_items (Some backslash) rest"
  by (induction t) (auto simp: like_escape_def backslash_def)

lemma like_match_exact: "like_match (map Exact t @ ps) (t @ s) = like_match ps s"
  by (induction t) auto

lemma like_any: "like_match ps s \<Longrightarrow> like_match (AnyRun # ps) (a @ s)"
  by (auto simp: list_ex_iff intro!: bexI[of _ "length a"])

lemma like_infix: "sql_like (Some backslash) (CHR ''%'' # like_escape t @ ''%'') (a @ t @ b)"
proof -
  have i: "like_items (Some backslash) (CHR ''%'' # like_escape t @ ''%'') = AnyRun # map Exact t @ [AnyRun]"
    by (simp add: like_items_escaped) (simp add: backslash_def)
  have "like_match [AnyRun] b" by (auto simp: list_ex_iff intro!: bexI[of _ "length b"])
  then have "like_match (map Exact t @ [AnyRun]) (t @ b)" by (simp only: like_match_exact)
  then show ?thesis unfolding sql_like_def i by (rule like_any)
qed

text \<open>The coarse filter of the tag lookup loses nothing: the lookup finds exactly the documents that carry the tag as one of
  their whitespace-separated tags, whatever wildcards the tag contains.\<close>

theorem exact_tag_lookup:
  "set (ids_with_exact_tag db raw) = r_id ` {r \<in> set (db_docs db). strip raw \<in> set (words (r_tags r))}"
proof -
  have "sql_like (Some backslash) (CHR ''%'' # like_escape t @ ''%'') s" if "t \<in> set (words s)" for t s
    using words_infix[OF that] like_infix by metis
  moreover have "[] \<notin> set (words s)" for s by (simp add: words_def)
  ultimately show ?thesis by (auto simp: ids_with_exact_tag_def Let_def)
qed

subsection \<open>Where the shortcut leaves the filters\<close>

lemma split_on_covers: "x \<in> set s \<Longrightarrow> x \<noteq> c \<Longrightarrow> \<exists>w \<in> set (split_on c s). x \<in> set w"
proof (induction s)
  case (Cons y s)
  obtain p ps where p: "split_on c s = p # ps" by (cases "split_on c s") auto
  show ?case using Cons by (auto simp: split_on_Cons p)
qed simp

lemma words_nonempty: "strip s \<noteq> [] \<Longrightarrow> words s \<noteq> []"
proof -
  assume "strip s \<noteq> []"
  then have "\<exists>x \<in> set s. \<not> is_space x" by (auto simp: strip_def dropWhile_eq_Nil_conv dest: set_dropWhileD)
  then obtain x where x: "x \<in> set s" "\<not> is_space x" by blast
  have "x \<noteq> CHR '' ''" using x(2) by (auto simp: is_space_def)
  moreover have "x \<in> set (map (\<lambda>c. if is_space c then CHR '' '' else c) s)" using x by (auto simp: image_iff intro!: bexI[of _ x])
  ultimately obtain w where "w \<in> set (split_on CHR '' '' (map (\<lambda>c. if is_space c then CHR '' '' else c) s))" "x \<in> set w"
    using split_on_covers by blast
  then show "words s \<noteq> []" by (auto simp: words_def filter_empty_conv intro!: bexI[of _ w])
qed

text \<open>C26. The filters of a search do not bind the id shortcut: a query shaped like the id of a document that every filter
  rejects gets that document as its first hit, and the hit is reported in force whenever its status is in force and no
  document supersedes it, although it has expired, is not valid yet, or lies in the memory inbox.\<close>

theorem shortcut_bypasses_filters:
  assumes "engine_ok e" and "s_reranker e = Some (server_reranker (s_db e) weights None)" and "looks_like_id query = Some i"
    and "doc_by_id (s_db e) i = Some d" and "facet_filters (s_db e) today fa = Inr keep" and "\<not> keep d"
    and "s_expander e = None" and "s_trigram_on e = False" and "s_embed e = None" and "\<forall>expr. s_fts e expr ws \<noteq> None" and "limit > 0"
  shows "\<exists>h hs. search e today query limit fa [] ws = Inr (h # hs) \<and> h_id h = i \<and>
    (hm_in_force (hit_model_of (s_db e) today days h) \<longleftrightarrow> r_status d \<in> set IN_FORCE_STATUSES \<and> i \<notin> set (excluded_ids (s_db e) today))"
proof -
  define primary where "primary = take MAX_QUERY_TERMS (uniq (words query))"
  have "strip query \<noteq> []" using assms(3) by (auto simp: looks_like_id_def single_token_def Let_def split: option.splits if_splits)
  then have "uniq (words query) \<noteq> []" using words_nonempty by (metis set_empty set_uniq)
  then have pn: "primary \<noteq> []" by (simp add: primary_def MAX_QUERY_TERMS_def)
  obtain rows where rows: "s_fts e (or_phrases primary) ws = Some rows" using assms(10) by blast
  define pool where "pool = map (\<lambda>(d, x, s). hit_of d s x Primary) (joined (s_db e) keep (candidate_limit e limit) rows)"
  have lex: "lexical_hits e primary [] [] ws keep (candidate_limit e limit) = Inr (Some pool)"
    using lexical_simple[OF assms(8) rows] by (simp add: pool_def)
  let ?ranked = "server_reranker (s_db e) weights None query pool"
  have s: "search e today query limit fa [] ws = Inr (attach_superseded_by (s_db e) (take limit ?ranked))"
    using pn lex assms(2,5,7,9) by (simp add: search_def primary_def[symmetric])
  have d: "r_id d = i" "d \<in> set (db_docs (s_db e))" using assms(4) by (auto simp: doc_by_id_def find_Some_iff)
  have "pool_ok (s_db e) keep pool" using lexical_ok[OF assms(1) lex] .
  then have rows_ok: "\<forall>h \<in> set (inner_reranker weights None query pool). from_row (s_db e) keep h"
    using stack.pool_kept by (simp add: pool_ok_def)
  have "h_id h \<noteq> i" if h: "h \<in> set (inner_reranker weights None query pool)" for h
  proof
    assume "h_id h = i"
    then obtain r where r: "r \<in> set (db_docs (s_db e))" "keep r" "r_id r = i" using rows_ok h from_row_id by metis
    have "r = d" using assms(1) r(1,3) d by (auto simp: engine_ok_def distinct_map dest: inj_onD)
    then show False using r(2) assms(6) by simp
  qed
  then have "find (\<lambda>h. h_id h = r_id d) (inner_reranker weights None query pool) = None" by (simp add: find_None_iff d(1))
  then obtain rest where rr: "?ranked = hit_from_doc d # rest"
    using assms(3,4) by (simp add: server_reranker_def id_tag_reranker_def Let_def)
  obtain h hs where hs: "attach_superseded_by (s_db e) (take limit ?ranked) = h # hs"
    "h = (if superseders (s_db e) i \<noteq> [] then (hit_from_doc d)\<lparr>h_superseded_by := superseders (s_db e) i\<rparr> else hit_from_doc d)"
    using assms(11) by (cases limit) (simp_all add: rr attach_superseded_by_def hit_from_doc_def d(1))
  have "h_id h = i" by (simp add: hs(2) hit_from_doc_def d(1))
  moreover have "hm_in_force (hit_model_of (s_db e) today days h) \<longleftrightarrow> r_status d \<in> set IN_FORCE_STATUSES \<and> i \<notin> set (excluded_ids (s_db e) today)"
    unfolding hs(2) by (auto simp: hit_model_of_def hit_from_doc_def d(1) is_in_force_def is_expired_def is_upcoming_def)
  ultimately show ?thesis using s hs(1) by auto
qed

theorem shortcut_bypasses_filters_witness:
  "\<exists>h hs. search (demo_env ''DEC-2'') ''2026-06-01'' ''DEC-1'' 5 governed [] [] = Inr (h # hs) \<and> h_id h = ''DEC-1'' \<and>
     hm_in_force (hit_model_of demo_db ''2026-06-01'' None h)"
proof -
  define d where "d = the (doc_by_id demo_db ''DEC-1'')"
  have d: "doc_by_id demo_db ''DEC-1'' = Some d" "r_status d = ''active''" unfolding d_def by code_simp+
  have x: "excluded_ids demo_db ''2026-06-01'' = []" by code_simp
  have f: "case facet_filters demo_db ''2026-06-01'' governed of Inl err \<Rightarrow> False | Inr keep \<Rightarrow> \<not> keep d" unfolding d_def by code_simp
  then obtain keep where k: "facet_filters demo_db ''2026-06-01'' governed = Inr keep" "\<not> keep d" by (auto split: sum.splits)
  have i: "looks_like_id ''DEC-1'' = Some ''DEC-1''" by code_simp
  show ?thesis
    using shortcut_bypasses_filters[OF demo_engine, of "''DEC-2''" None "''DEC-1''" "''DEC-1''" d "''2026-06-01''" governed keep "[]" 5 None]
      d x k i by (simp add: demo_env_def IN_FORCE_STATUSES_def)
qed

text \<open>The tag shortcut lifts a backfill hit above a primary one: the order by rank class ends where the query is a tag.\<close>

theorem tag_lifts_backfill:
  "map h_rank (server_reranker demo_db None None ''auth''
     [hit_of (db_docs demo_db ! 0) [] 0 Primary, hit_of (db_docs demo_db ! 1) [] 1 Backfill]) = [Backfill, Primary]"
proof -
  have a: "looks_like_tag ''auth'' = Some ''auth''" "looks_like_id ''auth'' = None" "ids_with_exact_tag demo_db ''auth'' = [''DEC-2'']" by code_simp+
  have ids: "r_id (db_docs demo_db ! 0) = ''DEC-1''" "r_id (db_docs demo_db ! 1) = ''DEC-2''" by code_simp+
  let ?hits = "[hit_of (db_docs demo_db ! 0) [] 0 Primary, hit_of (db_docs demo_db ! 1) [] 1 Backfill]"
  have "\<exists>x y. status_reranker None ''auth'' ?hits = [(?hits ! 0)\<lparr>h_score := x\<rparr>, (?hits ! 1)\<lparr>h_score := y\<rparr>]"
    by (auto simp: status_reranker_def Let_def less_eq_prod_def)
  then obtain x y where "inner_reranker None None ''auth'' ?hits = [(?hits ! 0)\<lparr>h_score := x\<rparr>, (?hits ! 1)\<lparr>h_score := y\<rparr>]"
    by (auto simp: inner_reranker_def)
  then show ?thesis using ids by (simp add: server_reranker_def id_tag_reranker_def a Let_def)
qed

subsection \<open>Where the fallback does not follow its description\<close>

text \<open>The fuzzy fallback is meant for a query whose own terms find little, but it counts the hits of the synonyms too: when
  the query itself finds nothing and its expansions find more than the threshold, the fuzzy index is never asked.\<close>

theorem expansion_suppresses_trigram:
  assumes "fts_match e primary columns ws keep cand = Inr (Some [])" and "expansion \<noteq> []"
    and "fts_match e expansion columns ws keep cand = Inr (Some found)" and "distinct (map h_id found)"
    and "s_threshold e < int (length found)"
  shows "lexical_hits e primary expansion columns ws keep cand = Inr (Some (append_backfill [] found))"
proof -
  have "length (backfill seen x hs) = length hs" if "distinct (map h_id hs)" "set seen \<inter> h_id ` set hs = {}" for seen x hs
    using that by (induction seen x hs rule: backfill.induct) auto
  then have "length (append_backfill [] found) = length found" using assms(4) by (simp add: append_backfill_def)
  then show ?thesis using assms by (auto simp: lexical_hits_def expansion_backfill_def append_backfill_def)
qed

theorem expansion_suppresses_trigram_witness:
  "\<exists>found. found \<noteq> [] \<and>
     lexical_hits ((demo_env [])\<lparr>s_fts := (\<lambda>expr ws. Some (if expr = or_phrases [''y''] then [(''DEC-2'', 0, [])] else [])),
       s_trigram_on := True, s_threshold := 0\<rparr>) [''x''] [''y''] [] [] (\<lambda>r. True) 1 = Inr (Some (append_backfill [] found))"
proof -
  let ?e = "(demo_env [])\<lparr>s_fts := (\<lambda>expr ws. Some (if expr = or_phrases [''y''] then [(''DEC-2'', 0, [])] else [])),
       s_trigram_on := True, s_threshold := 0\<rparr>"
  have "fts_match ?e [''x''] [] [] (\<lambda>r. True) 1 = Inr (Some [])"
    by (simp add: fts_match_def build_match_expr_def or_phrases_def phrase_def double_quotes_def dquote_def joined_def)
  moreover have "joined demo_db (\<lambda>r. True) 1 [(''DEC-2'', 0, [])] = [(db_docs demo_db ! 1, 0, [])]"
    by (simp add: joined_def demo_db_def demo_row_def)
  then have f: "fts_match ?e [''y''] [] [] (\<lambda>r. True) 1 = Inr (Some [hit_of (db_docs demo_db ! 1) [] 0 Primary])"
    by (simp add: fts_match_def build_match_expr_def demo_env_def)
  ultimately have "lexical_hits ?e [''x''] [''y''] [] [] (\<lambda>r. True) 1 = Inr (Some (append_backfill [] [hit_of (db_docs demo_db ! 1) [] 0 Primary]))"
    by (intro expansion_suppresses_trigram) simp_all
  then show ?thesis by blast
qed

text \<open>The abstention gate asks whether a title, a tag or an applies-when entry matches; with the fuzzy fallback on it opens
  for a query that matches none of them, because the fallback searches every column.\<close>

theorem gate_opens_on_body_match:
  assumes "s_expander e = None" and "s_embed e = None" and "s_reranker e = None" and "s_trigram_on e" and "s_threshold e \<ge> 0"
    and "strip query \<noteq> []" and "\<forall>expr ws. s_fts e expr ws = Some []"
    and "facet_filters (s_db e) today fa = Inr keep" and "d \<in> set (db_docs (s_db e))" and "keep d" and "limit > 0"
    and "build_trigram_match_expr (join_with '' '' (take MAX_QUERY_TERMS (uniq (words query)))) = Some expr"
    and "s_trigram_fts e expr = Some [(r_id d, x, s)]"
  shows "has_signal e today query limit fa = Inr True"
proof -
  let ?p = "take MAX_QUERY_TERMS (uniq (words query))"
  have "uniq (words query) \<noteq> []" using words_nonempty[OF assms(6)] by (metis set_empty set_uniq)
  then have pn: "?p \<noteq> []" by (simp add: MAX_QUERY_TERMS_def)
  have f: "fts_match e ?p SIGNAL_COLUMNS DEFAULT_BM25_WEIGHTS keep limit = Inr (Some [])"
    using assms(7) by (simp add: fts_match_def build_match_expr_def SIGNAL_COLUMNS_def FTS_MATCH_COLUMNS_def joined_def)
  have "d \<in> set (filter (\<lambda>r. r_id r = r_id d \<and> keep r) (db_docs (s_db e)))" using assms(9,10) by simp
  then have "filter (\<lambda>r. r_id r = r_id d \<and> keep r) (db_docs (s_db e)) \<noteq> []" by force
  then have "length (joined (s_db e) keep limit [(r_id d, x, s)]) \<noteq> 0" using assms(11) unfolding joined_def length_take length_sort by simp
  then have "joined (s_db e) keep limit [(r_id d, x, s)] \<noteq> []" by blast
  then obtain h hs where h: "map (\<lambda>(d, x, s). hit_of d (r_description d) x Backfill) (joined (s_db e) keep limit [(r_id d, x, s)]) = h # hs"
    by (cases "joined (s_db e) keep limit [(r_id d, x, s)]") auto
  have "\<exists>g gs. lexical_hits e ?p [] SIGNAL_COLUMNS DEFAULT_BM25_WEIGHTS keep limit = Inr (Some (g # gs))"
    using f assms(4,5,12,13) h by (simp add: lexical_hits_def trigram_backfill_def append_backfill_def)
  then obtain g gs where "lexical_hits e ?p [] SIGNAL_COLUMNS DEFAULT_BM25_WEIGHTS keep limit = Inr (Some (g # gs))" by blast
  then have "search e today query limit fa SIGNAL_COLUMNS DEFAULT_BM25_WEIGHTS = Inr (attach_superseded_by (s_db e) (take limit (g # gs)))"
    using pn assms(1-3,8) by (simp add: search_def candidate_limit_def)
  then show ?thesis using assms(6,11) by (cases limit) (simp_all add: has_signal_def attach_superseded_by_def)
qed

theorem gate_opens_on_body_match_witness:
  "has_signal ((demo_env ''DEC-2'')\<lparr>s_fts := (\<lambda>expr ws. Some []), s_reranker := None, s_trigram_on := True\<rparr>)
     ''2026-06-01'' ''auth flow'' 5 governed = Inr True"
proof (rule demo_facets)
  fix keep
  assume k: "facet_filters demo_db ''2026-06-01'' governed = Inr keep" "keep (db_docs demo_db ! 1)"
  have "build_trigram_match_expr (join_with '' '' (take MAX_QUERY_TERMS (uniq (words ''auth flow'')))) \<noteq> None" by code_simp
  then obtain expr where x: "build_trigram_match_expr (join_with '' '' (take MAX_QUERY_TERMS (uniq (words ''auth flow'')))) = Some expr" by blast
  show ?thesis
    by (rule gate_opens_on_body_match[where keep = keep and d = "db_docs demo_db ! 1" and expr = expr and x = 0 and s = "[]"])
      (use k x in \<open>simp_all add: demo_env_def strip_def is_space_def\<close>, simp_all add: demo_db_def demo_row_def)
qed

end
