(* ===== verification/IndexReads.thy ===== *)
theory IndexReads
  imports SearchClaims
begin

text \<open>
  Reading the index without a query (\<^verbatim>\<open>index.py\<close>): a document with its neighbours, the listings, the prefix lookup, the
  outline, the cached health, and the tools of \<^verbatim>\<open>tools_read.py\<close> that answer from them. A query sees the rows in the order
  of the table where the statement orders nothing.
\<close>

subsection \<open>One document\<close>

record indexed_doc =
  d_row :: index_row
  d_tags :: "string list"
  d_applies_when :: "string list"
  d_commit :: string
  d_superseded_by :: "string list"
  d_contradicts :: "string list"
  d_contradicted_by :: "string list"
  d_derived_from :: "string list"
  d_derived_by :: "string list"

definition get_doc :: "database \<Rightarrow> string \<Rightarrow> indexed_doc option" where
  "get_doc db i = map_option (\<lambda>r.
     \<lparr>d_row = r, d_tags = words (r_tags r), d_applies_when = words (r_applies_when r), d_commit = db_commit db,
      d_superseded_by = superseders db i, d_contradicts = edges_from db ''contradicts'' i,
      d_contradicted_by = edges_targeting db ''contradicts'' i,
      d_derived_from = sort (remdups (edges_from db ''derived_from'' i)),
      d_derived_by = sort (remdups (edges_targeting db ''derived_from'' i))\<rparr>) (doc_by_id db i)"

record lifecycle_state =
  ls_status :: string
  ls_from :: string
  ls_until :: string
  ls_inbox :: bool

definition lifecycle_states :: "database \<Rightarrow> string list \<Rightarrow> (string, lifecycle_state) dict" where
  "lifecycle_states db ids =
     [(r_id r, \<lparr>ls_status = r_status r, ls_from = coalesce (r_valid_from r), ls_until = coalesce (r_valid_until r), ls_inbox = r_is_inbox r\<rparr>).
        r \<leftarrow> db_docs db, r_id r \<in> set ids]"

definition derivation_review :: "database \<Rightarrow> string \<Rightarrow> indexed_doc \<Rightarrow> string list \<Rightarrow> bool \<Rightarrow> string list \<times> string list" where
  "derivation_review db today doc graph_excluded in_force =
     (let sources = d_derived_from doc; dependents = d_derived_by doc; r = d_row doc;
          retired_self = is_retired (r_status r) (Some (coalesce (r_valid_until r))) today (r_id r \<in> set graph_excluded);
          wanted = (if in_force then sources else []) @ (if retired_self then dependents else [])
      in if wanted = [] then ([], [])
         else let states = lifecycle_states db (sort (remdups wanted))
         in (sort (remdups (filter (\<lambda>s. in_force \<and> (case dget states s of None \<Rightarrow> False
                | Some st \<Rightarrow> is_retired (ls_status st) (Some (ls_until st)) today (s \<in> set graph_excluded))) sources)),
             sort (remdups (filter (\<lambda>d. retired_self \<and> (case dget states d of None \<Rightarrow> False
                | Some st \<Rightarrow> d \<notin> set graph_excluded \<and> is_in_force (ls_status st) (Some (ls_from st)) (Some (ls_until st)) today (ls_inbox st)))
                dependents))))"

record get_response =
  g_doc :: indexed_doc
  g_has_validity :: bool
  g_freshness :: "freshness option"
  g_in_force :: bool
  g_derived_from_retired :: "string list"
  g_dependents_to_review :: "string list"

text \<open>\<^const>\<open>None\<close> is the error for an unknown id.\<close>

definition kb_get :: "database \<Rightarrow> string \<Rightarrow> int option \<Rightarrow> string \<Rightarrow> get_response option" where
  "kb_get db today review_days i =
     (case get_doc db i of None \<Rightarrow> None
      | Some doc \<Rightarrow>
         (let r = d_row doc; vf = coalesce (r_valid_from r); vu = coalesce (r_valid_until r); lv = coalesce (r_last_verified r);
              rc = coalesce (r_recheck_by r); excluded = excluded_ids db today;
              in_force = (r_id r \<notin> set excluded \<and> is_in_force (r_status r) (Some vf) (Some vu) today (r_is_inbox r));
              review = derivation_review db today doc excluded in_force
          in Some \<lparr>g_doc = doc,
               g_has_validity = (vf \<noteq> [] \<or> vu \<noteq> [] \<or> lv \<noteq> [] \<or> rc \<noteq> [] \<or> coalesce (r_source r) \<noteq> []),
               g_freshness = compute_freshness (Some vf) (Some vu) (Some rc) (Some lv) today review_days, g_in_force = in_force,
               g_derived_from_retired = fst review, g_dependents_to_review = snd review\<rparr>))"

subsection \<open>Listings\<close>

definition id_to_path_map :: "database \<Rightarrow> (string, string) dict" where
  "id_to_path_map db = map (\<lambda>r. (r_id r, r_path r)) (db_docs db)"

definition kb_list :: "database \<Rightarrow> string \<Rightarrow> string option \<Rightarrow> (string \<times> string \<times> string) list" where
  "kb_list db tier category =
     map (\<lambda>r. (r_id r, r_title r, r_path r))
       (sort_key r_id (filter (\<lambda>r. r_tier r = tier \<and> (case category of None \<Rightarrow> True | Some c \<Rightarrow> r_category r = c)) (db_docs db)))"

definition curate_candidates :: "database \<Rightarrow> string \<Rightarrow> index_row list" where
  "curate_candidates db today =
     (case facet_filters db today \<lparr>fa_tier = [], fa_category = [], fa_status = [], fa_in_force = True, fa_type = [],
              fa_include_expired = False, fa_validity = []\<rparr> of
        Inl err \<Rightarrow> [] | Inr keep \<Rightarrow> sort_key r_id (filter keep (db_docs db)))"

text \<open>\<open>GROUP BY tier, category ORDER BY tier, category\<close>, then gathered by tier in that order.\<close>

definition outline_groups :: "database \<Rightarrow> ((string \<times> string) \<times> nat) list" where
  "outline_groups db =
     map (\<lambda>g. (g, length (filter (\<lambda>r. (r_tier r, r_category r) = g) (db_docs db))))
       (sort (remdups (map (\<lambda>r. (r_tier r, r_category r)) (db_docs db))))"

definition or_label :: "string \<Rightarrow> string \<Rightarrow> string" where "or_label s label = (if s = [] then label else s)"

definition outline :: "database \<Rightarrow> (string \<times> (string \<times> nat) list) list" where
  "outline db =
     (let named = map (\<lambda>((t, c), n). (or_label t ''(untiered)'', or_label c ''(uncategorized)'', n)) (outline_groups db)
      in map (\<lambda>t. (t, [(c, n). (u, c, n) \<leftarrow> named, u = t])) (uniq (map fst named)))"

definition graph_excluded_count :: "database \<Rightarrow> string \<Rightarrow> nat" where
  "graph_excluded_count db today = length (remdups (excluded_ids db today))"

record listed =
  l_id :: string
  l_path :: string
  l_tier :: string
  l_remote :: "string option"

definition listed_of :: "index_row \<Rightarrow> listed" where
  "listed_of r = \<lparr>l_id = r_id r, l_path = r_path r, l_tier = r_tier r, l_remote = r_remote r\<rparr>"

definition list_by_prefix :: "database \<Rightarrow> string \<Rightarrow> string option \<Rightarrow> listed list" where
  "list_by_prefix db pre exclude_under =
     [listed_of r. r \<leftarrow> db_docs db, sql_like None (pre @ ''%'') (r_path r),
        \<not> (case exclude_under of None \<Rightarrow> False | Some u \<Rightarrow> starts_with u (drop (length pre) (r_path r)))]"

definition list_with_remote_url :: "database \<Rightarrow> listed list" where
  "list_with_remote_url db = [listed_of r. r \<leftarrow> db_docs db, r_remote r \<noteq> None \<and> r_remote r \<noteq> Some []]"

subsection \<open>Health\<close>

text \<open>The cached health, with its commit as the value that a caller looks at. A call that finds no fresh entry reads the
  store outside the lock and stores what it read in a second critical section, so a rebuild can come between.\<close>

record health_state =
  hs_commit :: string
  hs_cache :: "(int \<times> string) option"

definition health_lookup :: "int \<Rightarrow> int \<Rightarrow> health_state \<Rightarrow> string option" where
  "health_lookup ttl now h = (case hs_cache h of None \<Rightarrow> None | Some (t, c) \<Rightarrow> if now - t < ttl then Some c else None)"

definition health_store :: "int \<Rightarrow> string \<Rightarrow> health_state \<Rightarrow> health_state" where
  "health_store now snapshot h = h\<lparr>hs_cache := Some (now, snapshot)\<rparr>"

definition health :: "int \<Rightarrow> int \<Rightarrow> health_state \<Rightarrow> string \<times> health_state" where
  "health ttl now h = (case health_lookup ttl now h of Some c \<Rightarrow> (c, h) | None \<Rightarrow> (hs_commit h, health_store now (hs_commit h) h))"

definition rebuilt :: "string \<Rightarrow> health_state \<Rightarrow> health_state" where
  "rebuilt commit h = h\<lparr>hs_commit := commit, hs_cache := None\<rparr>"

subsection \<open>One answer for every reader\<close>

lemma doc_by_id_row: "doc_by_id db i = Some r \<Longrightarrow> r \<in> set (db_docs db) \<and> r_id r = i"
  by (auto simp: doc_by_id_def find_Some_iff)

text \<open>C33. A document read by id is reported in force exactly when a search restricted to what is in force, with no other filter,
  would admit its row: the two computations, one in Python and one in SQL, are the same predicate on a built index.\<close>

theorem get_agrees_with_search:
  assumes "build_database b True found commit = Inr db" and "kb_get db today days i = Some resp"
    and "facet_filters db today governed = Inr keep"
  shows "g_in_force resp \<longleftrightarrow> keep (d_row (g_doc resp))"
proof -
  obtain r where r: "doc_by_id db i = Some r" "d_row (g_doc resp) = r"
    "g_in_force resp \<longleftrightarrow> r_id r \<notin> set (excluded_ids db today) \<and> is_in_force (r_status r) (r_valid_from r) (r_valid_until r) today (r_is_inbox r)"
    using assms(2) by (auto simp: kb_get_def get_doc_def Let_def is_in_force_coalesced split: option.splits)
  have m: "r \<in> set (db_docs db)" using doc_by_id_row[OF r(1)] by blast
  have "keep r \<longleftrightarrow> sql_admits today (doc_row.truncate r) \<and> r_id r \<notin> set (excluded_ids db today) \<and> not_expired_sql today (row_of_doc r)"
    using assms(3) by (auto simp: facet_filters_def validity_filter_def governed_def sql_admits_def row_of_doc_def doc_row.truncate_def)
  moreover have "sql_admits today (doc_row.truncate r) \<Longrightarrow> not_expired_sql today (row_of_doc r)"
    by (simp add: sql_admits_def in_force_sql_def not_expired_sql_def row_of_doc_def)
  ultimately show ?thesis using r built_rows_agree[OF assms(1) m, of today] by blast
qed

theorem get_agrees_with_search_witness:
  "\<exists>resp. kb_get demo_db ''2026-06-01'' None ''DEC-1'' = Some resp \<and> \<not> g_in_force resp"
proof (rule demo_facets)
  fix keep
  assume k: "facet_filters demo_db ''2026-06-01'' governed = Inr keep" "\<not> keep (db_docs demo_db ! 0)"
  have "doc_by_id demo_db ''DEC-1'' = Some (db_docs demo_db ! 0)" by (simp add: doc_by_id_def demo_db_def demo_row_def)
  then obtain resp where r: "kb_get demo_db ''2026-06-01'' None ''DEC-1'' = Some resp" "d_row (g_doc resp) = db_docs demo_db ! 0"
    by (simp add: kb_get_def get_doc_def Let_def)
  then show ?thesis using get_agrees_with_search[OF demo_built r(1) k(1)] k(2) by auto
qed

lemma lifecycle_states_get:
  assumes "distinct (map r_id (db_docs db))" and "r \<in> set (db_docs db)" and "r_id r \<in> set ids"
  shows "dget (lifecycle_states db ids) (r_id r) =
    Some \<lparr>ls_status = r_status r, ls_from = coalesce (r_valid_from r), ls_until = coalesce (r_valid_until r), ls_inbox = r_is_inbox r\<rparr>"
proof -
  have "dget [(r_id x, f x). x \<leftarrow> docs, r_id x \<in> set ids] (r_id r) = Some (f r)"
    if "distinct (map r_id docs)" "r \<in> set docs" for docs and f :: "index_row \<Rightarrow> lifecycle_state"
    using that assms(3) by (induction docs) (auto simp: image_iff)
  then show ?thesis using assms(1,2) by (simp add: lifecycle_states_def)
qed

lemma derived_from_docs: "s \<in> set (edges_from db ''derived_from'' i) \<Longrightarrow> \<exists>r \<in> set (db_docs db). r_id r = s"
  by (auto simp: edges_from_def)

lemma is_retired_coalesced: "is_retired st (Some (coalesce u)) today x \<longleftrightarrow> is_retired st u today x"
  by (cases u) (simp_all add: is_retired_def is_expired_def coalesce_def)

text \<open>A governing document names exactly its retired sources: the list it is served with holds a source iff the document is
  in force and the source is a document of the index that is superseded by a governing one, of a retired status, or
  expired.\<close>

theorem retired_sources_exact:
  assumes "distinct (map r_id (db_docs db))" and "kb_get db today days i = Some resp"
  shows "s \<in> set (g_derived_from_retired resp) \<longleftrightarrow> g_in_force resp \<and>
    (\<exists>e \<in> set (db_edges db). e_rel e = ''derived_from'' \<and> e_source e = i \<and> e_target e = s) \<and>
    (\<exists>r \<in> set (db_docs db). r_id r = s \<and> is_retired (r_status r) (r_valid_until r) today (s \<in> set (excluded_ids db today)))"
proof -
  obtain doc where g: "get_doc db i = Some doc" "g_derived_from_retired resp = fst (derivation_review db today doc (excluded_ids db today) (g_in_force resp))"
    using assms(2) by (auto simp: kb_get_def Let_def split: option.splits)
  have src: "set (d_derived_from doc) = set (edges_from db ''derived_from'' i)" using g(1) by (auto simp: get_doc_def)
  let ?retired = "\<lambda>r. is_retired (r_status r) (r_valid_until r) today (s \<in> set (excluded_ids db today))"
  have "s \<in> set (g_derived_from_retired resp) \<longleftrightarrow> g_in_force resp \<and> s \<in> set (d_derived_from doc) \<and> (\<exists>r \<in> set (db_docs db). r_id r = s \<and> ?retired r)"
  proof (cases "g_in_force resp \<and> s \<in> set (d_derived_from doc)")
    case True
    then obtain r where r: "r \<in> set (db_docs db)" "r_id r = s" using derived_from_docs[of s db i] src by blast
    have one: "(\<exists>r \<in> set (db_docs db). r_id r = s \<and> ?retired r) \<longleftrightarrow> ?retired r"
      using assms(1) r by (auto simp: distinct_map dest: inj_onD)
    let ?retired_self = "is_retired (r_status (d_row doc)) (Some (coalesce (r_valid_until (d_row doc)))) today (r_id (d_row doc) \<in> set (excluded_ids db today))"
    let ?w = "(if g_in_force resp then d_derived_from doc else []) @ (if ?retired_self then d_derived_by doc else [])"
    have w: "?w \<noteq> []" "s \<in> set (sort (remdups ?w))" using True by auto
    have "dget (lifecycle_states db (sort (remdups ?w))) s = Some \<lparr>ls_status = r_status r, ls_from = coalesce (r_valid_from r),
        ls_until = coalesce (r_valid_until r), ls_inbox = r_is_inbox r\<rparr>"
      using lifecycle_states_get[OF assms(1) r(1)] w(2) r(2) by blast
    then show ?thesis
      unfolding g(2) derivation_review_def Let_def using True w(1)
      by (cases "d_derived_from doc = []") (simp_all add: one is_retired_coalesced)
  qed (auto simp: g(2) derivation_review_def Let_def)
  moreover have "s \<in> set (edges_from db ''derived_from'' i) \<longleftrightarrow> (\<exists>e \<in> set (db_edges db). e_rel e = ''derived_from'' \<and> e_source e = i \<and> e_target e = s)
      \<and> (\<exists>r \<in> set (db_docs db). r_id r = s)"
  proof -
    have e: "set (edges_from db ''derived_from'' i) =
        e_target ` {x \<in> set (db_edges db). e_rel x = ''derived_from'' \<and> e_source x = i \<and> e_target x \<in> r_id ` set (db_docs db)}"
      by (auto simp: edges_from_def)
    show ?thesis unfolding e
    proof
      assume "(\<exists>e \<in> set (db_edges db). e_rel e = ''derived_from'' \<and> e_source e = i \<and> e_target e = s) \<and> (\<exists>r \<in> set (db_docs db). r_id r = s)"
      then obtain x r where x: "x \<in> set (db_edges db)" "e_rel x = ''derived_from''" "e_source x = i" "e_target x = s"
        and r: "r \<in> set (db_docs db)" "r_id r = s" by blast
      have "e_target x \<in> r_id ` set (db_docs db)" unfolding x(4) r(2)[symmetric] by (rule imageI) (rule r(1))
      with x show "s \<in> e_target ` {x \<in> set (db_edges db). e_rel x = ''derived_from'' \<and> e_source x = i \<and> e_target x \<in> r_id ` set (db_docs db)}"
        by (intro image_eqI[of s e_target x]) simp_all
    qed auto
  qed
  ultimately show ?thesis unfolding src by blast
qed

definition derived_db :: database where
  "derived_db = demo_db\<lparr>db_edges := [\<lparr>e_source = ''DEC-2'', e_rel = ''derived_from'', e_target = ''DEC-1''\<rparr>]\<rparr>"

theorem retired_sources_exact_witness:
  "\<exists>resp. kb_get derived_db ''2026-06-01'' None ''DEC-2'' = Some resp \<and> ''DEC-1'' \<in> set (g_derived_from_retired resp)"
proof -
  have d: "distinct (map r_id (db_docs derived_db))" by (simp add: derived_db_def demo_db_def demo_row_def)
  have x: "excluded_ids derived_db ''2026-06-01'' = []"
    by (simp add: excluded_ids_def graph_excluded_ids_sql_def derived_db_def demo_db_def row_of_doc_def demo_row_def doc_row.truncate_def)
  have "doc_by_id derived_db ''DEC-2'' = Some (db_docs demo_db ! 1)" by (simp add: doc_by_id_def derived_db_def demo_db_def demo_row_def)
  then obtain resp where r: "kb_get derived_db ''2026-06-01'' None ''DEC-2'' = Some resp" "g_in_force resp"
    by (simp add: kb_get_def get_doc_def Let_def x is_in_force_coalesced)
      (simp add: is_in_force_def demo_db_def demo_row_def IN_FORCE_STATUSES_def is_expired_def is_upcoming_def)
  have "''DEC-1'' \<in> set (g_derived_from_retired resp)"
    by (rule retired_sources_exact[OF d r(1), THEN iffD2])
      (simp add: r(2) x, simp add: derived_db_def demo_db_def demo_row_def is_retired_def is_expired_def)
  then show ?thesis using r(1) by blast
qed

subsection \<open>Prefixes\<close>

lemma like_items_plain: "CHR ''%'' \<notin> set p \<Longrightarrow> CHR ''_'' \<notin> set p \<Longrightarrow> like_items None (p @ rest) = map Exact p @ like_items None rest"
  by (induction p) auto

lemma like_any_run: "like_match [AnyRun] s"
  by (auto simp: list_ex_iff intro!: bexI[of _ "length s"])

lemma like_match_prefix: "like_match (map Exact p @ [AnyRun]) s \<longleftrightarrow> length p \<le> length s \<and> map ascii_fold (take (length p) s) = map ascii_fold p"
proof (induction p arbitrary: s)
  case Nil
  then show ?case using like_any_run by simp
next
  case (Cons c p)
  then show ?case by (cases s) (auto simp: eq_commute)
qed

text \<open>For a prefix without a wildcard character the lookup is a prefix test that ignores the case of ASCII letters.\<close>

theorem plain_prefix_lookup:
  assumes "CHR ''%'' \<notin> set pre" and "CHR ''_'' \<notin> set pre"
  shows "x \<in> set (list_by_prefix db pre None) \<longleftrightarrow> (\<exists>r \<in> set (db_docs db). x = listed_of r \<and>
    length pre \<le> length (r_path r) \<and> map ascii_fold (take (length pre) (r_path r)) = map ascii_fold pre)"
  using like_items_plain[OF assms, of "''%''"] like_match_prefix[of pre]
  by (auto simp: list_by_prefix_def sql_like_def)

theorem plain_prefix_lookup_witness:
  "listed_of (demo_row ''i'' ''Projects/a.md'' [] None []) \<in> set (list_by_prefix (demo_db\<lparr>db_docs := [demo_row ''i'' ''Projects/a.md'' [] None []]\<rparr>) ''projects/'' None)"
  by (rule plain_prefix_lookup[THEN iffD2]) (simp_all add: demo_row_def, code_simp)

subsection \<open>The health cache\<close>

text \<open>A rebuild does not always show: a health call that read the store before the swap and stores its answer after it puts
  the old commit back into the cache, and later calls serve it until the entry is too old.\<close>

theorem health_serves_old_commit:
  assumes "hs_cache h = None" and "0 \<le> later - now" and "later - now < ttl"
  shows "fst (health ttl later (health_store now (hs_commit h) (rebuilt commit h))) = hs_commit h"
  using assms by (simp add: health_def health_lookup_def health_store_def rebuilt_def)

theorem health_serves_old_commit_witness:
  "fst (health 5 12 (health_store 10 ''old'' (rebuilt ''new'' \<lparr>hs_commit = ''old'', hs_cache = None\<rparr>))) = ''old''"
  using health_serves_old_commit[of "\<lparr>hs_commit = ''old'', hs_cache = None\<rparr>" 12 10 5 "''new''"] by simp

end
