(* ===== verification/BundleWrite.thy ===== *)
theory BundleWrite
  imports Propose
begin

text \<open>
  Committing several files as one change (\<open>commit_multifile_in_worktree\<close> in \<^verbatim>\<open>tools_write.py\<close>), which bootstrap and the
  maintenance ledger use: a path lock for each file, the gates over all of them, then every write, one commit, and the
  push queue. As in the single-file path, the world answers through a record and the actions are listed in order.
\<close>

record bundle_env =
  be_busy :: "string \<Rightarrow> bool" \<comment> \<open>another holder has the path lock\<close>
  be_worktree :: "string option"
  be_lexists :: "string \<Rightarrow> bool" \<comment> \<open>something is at the path, a dangling link included\<close>
  be_file :: "string \<Rightarrow> string option"
  be_tree :: "snapshot option"
  be_index :: "live_index option"
  be_write_ok :: "string \<Rightarrow> bool" \<comment> \<open>creating the directories and writing the file succeed\<close>
  be_add_ok :: "string \<Rightarrow> bool"
  be_commit :: commit_answer
  be_sha :: "string option"
  be_queue :: "bool \<times> bool"

record bundle_req =
  bq_session :: string
  bq_agent :: string
  bq_files :: "(string \<times> string) list"
  bq_subject :: string
  bq_tier :: string
  bq_path :: string
  bq_confidence :: pyfloat
  bq_meta :: "(string \<times> string) list"
  bq_exempt :: bool
  bq_new_only :: bool

datatype bundle_refusal =
    BSecretInPath secret_match | BSecretInText string secret_match | BRule string rule_rejection
  | BSameId string string string \<comment> \<open>the id, the file that has it, and the file refused\<close>
  | BSymlinkEscape string | BExists string | BInvalid string "gate_error list"

datatype bundle_stop = BRejected bundle_refusal | BLockBusy string | BRaised failure | BCommitRaised

type_synonym 'a bw = "(bundle_stop + 'a) \<times> action list"

definition bbind :: "'a bw \<Rightarrow> ('a \<Rightarrow> 'b bw) \<Rightarrow> 'b bw" where
  "bbind m f = (case m of (Inl e, as) \<Rightarrow> (Inl e, as) | (Inr x, as) \<Rightarrow> (case f x of (r, bs) \<Rightarrow> (r, as @ bs)))"

subsection \<open>Gates\<close>

definition bundle_message :: "tools \<Rightarrow> bundle_req \<Rightarrow> string option" where
  "bundle_message t q = build_commit_message \<lparr>ci_subject = bq_subject q, ci_session = bq_session q, ci_agent = bq_agent q,
     ci_confidence = t_two_decimals t (bq_confidence q), ci_confirmed = False, ci_type = ''edit'', ci_tier = bq_tier q,
     ci_path = bq_path q, ci_pending = None\<rparr>"

text \<open>The first refusal of a check over the files, in order.\<close>

fun first_refusal :: "('f \<Rightarrow> 'e option) \<Rightarrow> 'f list \<Rightarrow> 'e option" where
  "first_refusal f [] = None"
| "first_refusal f (x # xs) = (case f x of Some r \<Rightarrow> Some r | None \<Rightarrow> first_refusal f xs)"

definition bundle_secret :: "tools \<Rightarrow> string \<times> string \<Rightarrow> bundle_stop option" where
  "bundle_secret t f = (case t_scan t (fst f) of Some m \<Rightarrow> Some (BRejected (BSecretInPath m))
     | None \<Rightarrow> (case t_scan t (snd f) of Some m \<Rightarrow> Some (BRejected (BSecretInText (fst f) m)) | None \<Rightarrow> None))"

definition bundle_rule :: "tools \<Rightarrow> bundle_env \<Rightarrow> string \<Rightarrow> string \<times> string \<Rightarrow> bundle_stop option" where
  "bundle_rule t env wt f = (case safe_join_under_root (t_realpath t) wt (fst f) of None \<Rightarrow> None
     | Some full \<Rightarrow> (case writing_rule_gate (t_lint t) (t_decode t) (t_policy t) (fst f) (be_file env (fst f)) (snd f) of
         Inl r \<Rightarrow> Some (BRejected (BRule (fst f) r)) | Inr warnings \<Rightarrow> None))"

definition bundle_id_of :: "tools \<Rightarrow> string \<times> string \<Rightarrow> string" where
  "bundle_id_of t f = effective_doc_id (case parse_frontmatter (t_load t) (snd f) of Inl e \<Rightarrow> [] | Inr (fm, body) \<Rightarrow> fm) (fst f)"

fun same_id :: "tools \<Rightarrow> (string, string) dict \<Rightarrow> (string \<times> string) list \<Rightarrow> bundle_stop option" where
  "same_id t seen [] = None"
| "same_id t seen (f # fs) =
     (let eid = bundle_id_of t f
      in if eid = [] then same_id t seen fs
         else case dget seen eid of
           Some other \<Rightarrow> (if other \<noteq> fst f then Some (BRejected (BSameId eid other (fst f))) else same_id t ((eid, fst f) # seen) fs)
         | None \<Rightarrow> same_id t ((eid, fst f) # seen) fs)"

definition bundle_valid :: "tools \<Rightarrow> bundle_env \<Rightarrow> string \<Rightarrow> bundle_req \<Rightarrow> string \<times> string \<Rightarrow> bundle_stop option" where
  "bundle_valid t env wt q f =
     (case safe_join_under_root (t_realpath t) wt (fst f) of None \<Rightarrow> Some (BRejected (BSymlinkEscape (fst f)))
      | Some full \<Rightarrow>
         if bq_new_only q \<and> be_lexists env (fst f) then Some (BRejected (BExists (fst f)))
         else (case validate_postimage (t_scan t) (t_load t) (t_inbox t) (index_view_of (be_index env))
                 (Some \<lparr>isfile = be_file env (fst f) \<noteq> None, tree = be_tree env\<rparr>) (bq_files q) (fst f) (snd f) of
             Inl e \<Rightarrow> Some (BRaised Unhashable)
           | Inr errs \<Rightarrow> if errs \<noteq> [] then Some (BRejected (BInvalid (fst f) errs)) else None))"

definition bundle_gates :: "tools \<Rightarrow> bundle_env \<Rightarrow> string \<Rightarrow> bundle_req \<Rightarrow> bundle_stop + string" where
  "bundle_gates t env wt q =
     (case bundle_message t q of None \<Rightarrow> Inl (BRaised TrailerValue)
      | Some msg \<Rightarrow>
         (case first_refusal (bundle_secret t) (bq_files q) of Some s \<Rightarrow> Inl s
          | None \<Rightarrow>
             (case (if bq_exempt q then None else first_refusal (bundle_rule t env wt) (bq_files q)) of Some s \<Rightarrow> Inl s
              | None \<Rightarrow>
                 (case same_id t [] (bq_files q) of Some s \<Rightarrow> Inl s
                  | None \<Rightarrow> (case first_refusal (bundle_valid t env wt q) (bq_files q) of Some s \<Rightarrow> Inl s | None \<Rightarrow> Inr msg)))))"

subsection \<open>The write\<close>

text \<open>Every failure from the first write on resets the worktree and propagates.\<close>

fun write_files :: "bundle_env \<Rightarrow> (string \<times> string) list \<Rightarrow> unit bw" where
  "write_files env [] = (Inr (), [])"
| "write_files env ((p, s) # fs) =
     (if \<not> be_write_ok env p then (Inl (BRaised FileWriteFailed), [AWriteFile p s, AReset])
      else if \<not> be_add_ok env p then (Inl (BRaised AddFailed), [AWriteFile p s, AAdd p, AReset])
      else bbind (Inr (), [AWriteFile p s, AAdd p]) (\<lambda>_. write_files env fs))"

definition bundle_commit :: "bundle_env \<Rightarrow> string \<Rightarrow> string bw" where
  "bundle_commit env msg =
     (case be_commit env of
        CommitError rc hit \<Rightarrow> (Inl BCommitRaised, [ACommit msg hit, AReset])
      | CommitUnobserved hit \<Rightarrow> (Inl BCommitRaised, [ACommit msg hit, AReset])
      | CommitOk \<Rightarrow> (case be_sha env of None \<Rightarrow> (Inl BCommitRaised, [ACommit msg True, AReset]) | Some sha \<Rightarrow> (Inr sha, [ACommit msg True])))"

definition bundle_enqueue :: "bundle_env \<Rightarrow> bundle_req \<Rightarrow> string \<Rightarrow> push_state bw" where
  "bundle_enqueue env q sha =
     (let meta = bq_meta q; again = meta @ [(''recovered_in_process'', ''True'')]
      in if fst (be_queue env) then (Inr Queued, [AEnqueue sha meta])
         else if snd (be_queue env) then (Inr Queued, [AEnqueue sha meta, AEnqueue sha again])
         else (Inr RecoveryPending, [AEnqueue sha meta, AEnqueue sha again]))"

definition bundle_section :: "tools \<Rightarrow> bundle_env \<Rightarrow> bundle_req \<Rightarrow> (string \<times> push_state) bw" where
  "bundle_section t env q =
     (case be_worktree env of None \<Rightarrow> (Inl (BRaised NoWorktree), [])
      | Some wt \<Rightarrow> bbind (Inr (), [ARefresh]) (\<lambda>_.
          (case bundle_gates t env wt q of Inl s \<Rightarrow> (Inl s, [])
           | Inr msg \<Rightarrow> bbind (write_files env (bq_files q)) (\<lambda>_. bbind (bundle_commit env msg) (\<lambda>sha.
               bbind (bundle_enqueue env q sha) (\<lambda>st. (Inr (sha, st), [])))))))"

text \<open>The locks are taken in the order of the files, none twice, and released in reverse at every exit.\<close>

fun with_locks :: "bundle_env \<Rightarrow> string \<Rightarrow> string list \<Rightarrow> string list \<Rightarrow> 'a bw \<Rightarrow> 'a bw" where
  "with_locks env owner held [] body = body"
| "with_locks env owner held (p # ps) body =
     (if be_busy env p \<or> p \<in> set held then (Inl (BLockBusy p), [])
      else case with_locks env owner (p # held) ps body of (r, as) \<Rightarrow> (r, ALock p owner # as @ [AUnlock p]))"

definition commit_multifile :: "tools \<Rightarrow> bundle_env \<Rightarrow> bundle_req \<Rightarrow> (string \<times> push_state) bw" where
  "commit_multifile t env q =
     with_locks env (''bootstrap:'' @ bq_session q) [] (map fst (bq_files q)) (bundle_section t env q)"

subsection \<open>All or nothing\<close>

lemma bbind_simps [simp]: "bbind (Inl e, as) f = (Inl e, as)" "bbind (Inr x, as) f = (fst (f x), as @ snd (f x))"
  by (simp_all add: bbind_def case_prod_beta)

lemma first_refusal_None: "first_refusal f xs = None \<longleftrightarrow> (\<forall>x \<in> set xs. f x = None)"
  by (induction xs) (auto split: option.split)

fun lock_action :: "action \<Rightarrow> bool" where
  "lock_action (ALock p s) = True"
| "lock_action (AUnlock p) = True"
| "lock_action _ = False"

lemma with_locks_body:
  "(fst (with_locks env owner held ps body) = fst body \<and> (\<forall>a. \<not> lock_action a \<longrightarrow> a \<in> set (snd (with_locks env owner held ps body)) \<longleftrightarrow> a \<in> set (snd body)))
   \<or> ((\<exists>p. fst (with_locks env owner held ps body) = Inl (BLockBusy p)) \<and> (\<forall>a \<in> set (snd (with_locks env owner held ps body)). lock_action a))"
proof (induction env owner held ps body rule: with_locks.induct)
  case (2 env owner held p ps body)
  show ?case
  proof (cases "be_busy env p \<or> p \<in> set held")
    case False
    then show ?thesis using 2[OF False]
      by (cases "with_locks env owner (p # held) ps body") auto
  qed auto
qed simp

lemma with_locks_distinct:
  "fst (with_locks env owner held ps body) = Inr x \<Longrightarrow> distinct ps \<and> set ps \<inter> set held = {}"
proof (induction env owner held ps body rule: with_locks.induct)
  case (2 env owner held p ps body)
  then show ?case by (cases "with_locks env owner (p # held) ps body") (auto split: if_splits)
qed simp

lemma write_files_Inr: "fst (write_files env fs) = Inr u \<Longrightarrow> snd (write_files env fs) = concat (map (\<lambda>(p, s). [AWriteFile p s, AAdd p]) fs)"
  by (induction env fs rule: write_files.induct) (auto split: if_splits)

lemma write_files_actions: "a \<in> set (snd (write_files env fs)) \<Longrightarrow> a = AReset \<or> (\<exists>p s. (p, s) \<in> set fs \<and> (a = AWriteFile p s \<or> a = AAdd p))"
  by (induction env fs rule: write_files.induct) (auto split: if_splits)

lemma same_id_seen:
  "same_id t seen fs = None \<Longrightarrow> f \<in> set fs \<Longrightarrow> bundle_id_of t f \<noteq> [] \<Longrightarrow> dget seen (bundle_id_of t f) = Some p \<Longrightarrow> p = fst f"
proof (induction fs arbitrary: seen)
  case (Cons g fs)
  show ?case
  proof (cases "f = g")
    case True
    then show ?thesis using Cons.prems by (auto simp: Let_def split: if_splits)
  next
    case False
    then have f: "f \<in> set fs" using Cons.prems(2) by simp
    let ?e = "bundle_id_of t g"
    consider "?e = []" "same_id t seen fs = None" | "?e \<noteq> []" "same_id t ((?e, fst g) # seen) fs = None" "\<forall>o'. dget seen ?e = Some o' \<longrightarrow> o' = fst g"
      using Cons.prems(1) by (auto simp: Let_def split: if_splits option.splits)
    then show ?thesis
    proof cases
      case 1
      then show ?thesis using Cons.IH[OF 1(2) f Cons.prems(3,4)] by simp
    next
      case 2
      then have "dget ((?e, fst g) # seen) (bundle_id_of t f) = Some p" using Cons.prems(4) by auto
      then show ?thesis using Cons.IH[OF 2(2) f Cons.prems(3)] by simp
    qed
  qed
qed simp

lemma same_id_None:
  "same_id t seen fs = None \<Longrightarrow> f \<in> set fs \<Longrightarrow> g \<in> set fs \<Longrightarrow> bundle_id_of t f \<noteq> [] \<Longrightarrow> bundle_id_of t f = bundle_id_of t g \<Longrightarrow> fst f = fst g"
proof (induction fs arbitrary: seen)
  case (Cons h fs)
  let ?e = "bundle_id_of t h"
  have s: "(?e = [] \<and> same_id t seen fs = None) \<or> (?e \<noteq> [] \<and> same_id t ((?e, fst h) # seen) fs = None)"
    using Cons.prems(1) by (auto simp: Let_def split: if_splits option.splits)
  have head: "fst x = fst h" if "x \<in> set fs" "bundle_id_of t x = ?e" "?e \<noteq> []" for x
    using s same_id_seen[of t "(?e, fst h) # seen" fs x "fst h"] that by simp
  show ?case
  proof (cases "f = h \<or> g = h")
    case True
    then show ?thesis using head[of f] head[of g] Cons.prems(2-5) by auto
  next
    case False
    then show ?thesis using s Cons.IH Cons.prems(2-5) by auto
  qed
qed simp

lemma section_body:
  "commit_multifile t env q = with_locks env (''bootstrap:'' @ bq_session q) [] (map fst (bq_files q)) (bundle_section t env q)"
  by (simp add: commit_multifile_def)

lemma section_action:
  assumes "a \<in> set (snd (commit_multifile t env q))" and "\<not> lock_action a"
  shows "a \<in> set (snd (bundle_section t env q))"
  using with_locks_body[of env "''bootstrap:'' @ bq_session q" "[]" "map fst (bq_files q)" "bundle_section t env q"] assms
  unfolding section_body by blast

lemma section_gated:
  assumes "a \<in> set (snd (bundle_section t env q))" and "a \<noteq> ARefresh"
  obtains wt msg where "be_worktree env = Some wt" "bundle_gates t env wt q = Inr msg"
    "a \<in> set (snd (bbind (write_files env (bq_files q)) (\<lambda>_. bbind (bundle_commit env msg) (\<lambda>sha. bbind (bundle_enqueue env q sha) (\<lambda>st. (Inr (sha, st), []))))))"
  using assms by (auto simp: bundle_section_def split: option.splits sum.splits)

text \<open>C40. Nothing of a bundle reaches the worktree before all of it has passed: once any file is written, no file carries
  something like a credential, none breaks a writing rule unless the caller is exempt, each one validates against the base
  together with the others, each resolves below the worktree, no two of them claim one id, and with new files only none of
  them was there before.\<close>

theorem bundle_written_only_when_all_pass:
  assumes "AWriteFile p s \<in> set (snd (commit_multifile t env q))" and "f \<in> set (bq_files q)"
  shows "t_scan t (fst f) = None \<and> t_scan t (snd f) = None \<and>
    (\<exists>wt. be_worktree env = Some wt \<and> (\<not> bq_exempt q \<longrightarrow> bundle_rule t env wt f = None) \<and> bundle_valid t env wt q f = None) \<and>
    (bq_new_only q \<longrightarrow> \<not> be_lexists env (fst f)) \<and>
    (\<forall>g \<in> set (bq_files q). bundle_id_of t f \<noteq> [] \<and> bundle_id_of t f = bundle_id_of t g \<longrightarrow> fst f = fst g)"
proof -
  have w: "AWriteFile p s \<in> set (snd (bundle_section t env q))" by (rule section_action[OF assms(1)]) simp
  then obtain wt msg where g: "be_worktree env = Some wt" "bundle_gates t env wt q = Inr msg"
    by (auto simp: bundle_section_def split: option.splits sum.splits)
  then have "first_refusal (bundle_secret t) (bq_files q) = None" "same_id t [] (bq_files q) = None"
      "first_refusal (bundle_valid t env wt q) (bq_files q) = None"
    by (auto simp: bundle_gates_def split: option.splits)
  moreover from this(2) have "\<forall>g \<in> set (bq_files q). bundle_id_of t f \<noteq> [] \<and> bundle_id_of t f = bundle_id_of t g \<longrightarrow> fst f = fst g"
    using assms(2) same_id_None[of t "[]" "bq_files q" f] by blast
  moreover have "\<not> bq_exempt q \<Longrightarrow> first_refusal (bundle_rule t env wt) (bq_files q) = None"
    using g(2) by (auto simp: bundle_gates_def split: option.splits)
  ultimately have "bundle_secret t f = None" "bundle_valid t env wt q f = None" "\<not> bq_exempt q \<Longrightarrow> bundle_rule t env wt f = None"
      "\<forall>g \<in> set (bq_files q). bundle_id_of t f \<noteq> [] \<and> bundle_id_of t f = bundle_id_of t g \<longrightarrow> fst f = fst g"
    using assms(2) by (simp_all add: first_refusal_None)
  then show ?thesis using g(1) by (auto simp: bundle_secret_def bundle_valid_def split: option.splits if_splits)
qed

definition sample_bundle :: bundle_req where
  "sample_bundle = \<lparr>bq_session = ''s'', bq_agent = ''a'', bq_files = [(''projects/x/README.md'', ''one''), (''projects/x/AGENTS.md'', ''two'')],
     bq_subject = ''b'', bq_tier = ''T3'', bq_path = ''projects/x/'', bq_confidence = FNum 1, bq_meta = [], bq_exempt = False, bq_new_only = True\<rparr>"

definition sample_bundle_env :: "commit_answer \<Rightarrow> bundle_env" where
  "sample_bundle_env answer = \<lparr>be_busy = (\<lambda>p. False), be_worktree = Some ''/kb/wt'', be_lexists = (\<lambda>p. False), be_file = (\<lambda>p. None), be_tree = Some [],
     be_index = None, be_write_ok = (\<lambda>p. True), be_add_ok = (\<lambda>p. True), be_commit = answer, be_sha = Some ''c1'', be_queue = (True, True)\<rparr>"

definition bundle_tools :: tools where
  "bundle_tools = sample_tools\<lparr>t_load := (\<lambda>s. Some (PyDict [(PyStr ''status'', PyStr ''draft'')]))\<rparr>"

definition draft_bundle :: bundle_req where
  "draft_bundle = sample_bundle\<lparr>bq_files := [(''projects/x/README.md'', with_block ''k'' ''one''), (''projects/x/AGENTS.md'', with_block ''k'' ''two'')]\<rparr>"

lemma draft_bundle_written:
  "AWriteFile ''projects/x/README.md'' (with_block ''k'' ''one'') \<in> set (snd (commit_multifile bundle_tools (sample_bundle_env CommitOk) draft_bundle))"
  by code_simp

theorem bundle_written_only_when_all_pass_witness:
  "\<not> be_lexists (sample_bundle_env CommitOk) ''projects/x/AGENTS.md'' \<and> t_scan bundle_tools (with_block ''k'' ''two'') = None"
proof -
  have "(''projects/x/AGENTS.md'', with_block ''k'' ''two'') \<in> set (bq_files draft_bundle)" by (simp add: draft_bundle_def)
  from bundle_written_only_when_all_pass[OF draft_bundle_written this] show ?thesis by (simp add: draft_bundle_def sample_bundle_def)
qed

lemma enqueue_actions: "a \<in> set (snd (bundle_enqueue env q sha)) \<Longrightarrow> \<exists>sh m. a = AEnqueue sh m"
  by (auto simp: bundle_enqueue_def Let_def split: if_splits)

text \<open>A bundle is committed whole: a commit in the trace means that every file of the bundle was written and staged, and what
  was written is only the bundle.\<close>

theorem bundle_committed_whole:
  assumes "ACommit msg hit \<in> set (snd (commit_multifile t env q))"
  shows "\<forall>p s. AWriteFile p s \<in> set (snd (commit_multifile t env q)) \<longleftrightarrow> (p, s) \<in> set (bq_files q)"
proof -
  let ?w = "write_files env (bq_files q)"
  obtain wt m where g: "be_worktree env = Some wt" "bundle_gates t env wt q = Inr m"
    "ACommit msg hit \<in> set (snd (bbind ?w (\<lambda>_. bbind (bundle_commit env m) (\<lambda>sha. bbind (bundle_enqueue env q sha) (\<lambda>st. (Inr (sha, st), []))))))"
    using section_action[OF assms] by (auto simp: bundle_section_def split: option.splits sum.splits)
  obtain u where u: "fst ?w = Inr u"
    using g(3) write_files_actions[of "ACommit msg hit" env "bq_files q"] by (cases ?w; cases "fst ?w") auto
  have body: "AWriteFile p s \<in> set (snd (bundle_section t env q)) \<longleftrightarrow> (p, s) \<in> set (bq_files q)" for p s
  proof -
    have "AWriteFile p s \<notin> set (snd (bbind (bundle_commit env m) (\<lambda>sha. bbind (bundle_enqueue env q sha) (\<lambda>st. (Inr (sha, st), [])))))"
      by (auto simp: bundle_commit_def bundle_enqueue_def Let_def split: commit_answer.splits option.splits if_splits)
    moreover have "AWriteFile p s \<in> set (snd ?w) \<longleftrightarrow> (p, s) \<in> set (bq_files q)"
      unfolding write_files_Inr[OF u] by auto
    ultimately show ?thesis using g(1,2) u by (cases ?w) (auto simp: bundle_section_def)
  qed
  have "AWriteFile p s \<in> set (snd (commit_multifile t env q)) \<longleftrightarrow> AWriteFile p s \<in> set (snd (bundle_section t env q))" for p s
    using with_locks_body[of env "''bootstrap:'' @ bq_session q" "[]" "map fst (bq_files q)" "bundle_section t env q"] assms
    unfolding section_body by fastforce
  then show ?thesis using body by simp
qed

theorem bundle_committed_whole_witness:
  "AWriteFile ''projects/x/AGENTS.md'' (with_block ''k'' ''two'') \<in> set (snd (commit_multifile bundle_tools (sample_bundle_env CommitOk) draft_bundle))"
proof -
  have "map (\<lambda>a. case a of ACommit msg l \<Rightarrow> Some (msg, l) | _ \<Rightarrow> None) (snd (commit_multifile bundle_tools (sample_bundle_env CommitOk) draft_bundle)) ! 7 \<noteq> None
      \<and> length (snd (commit_multifile bundle_tools (sample_bundle_env CommitOk) draft_bundle)) > 7"
    by code_simp
  then obtain msg l where m: "snd (commit_multifile bundle_tools (sample_bundle_env CommitOk) draft_bundle) ! 7 = ACommit msg l"
    "length (snd (commit_multifile bundle_tools (sample_bundle_env CommitOk) draft_bundle)) > 7"
    by (cases "snd (commit_multifile bundle_tools (sample_bundle_env CommitOk) draft_bundle) ! 7") auto
  then have "ACommit msg l \<in> set (snd (commit_multifile bundle_tools (sample_bundle_env CommitOk) draft_bundle))" by (metis nth_mem)
  from bundle_committed_whole[OF this] show ?thesis by (simp add: draft_bundle_def)
qed

text \<open>A bundle that reports an error may have been committed: when git commits but its answer is lost, or the new head cannot
  be read, the commit is in the worktree, the caller sees a failure, and nothing is handed to the push queue.\<close>

theorem bundle_commit_can_be_orphaned:
  assumes "be_worktree env = Some wt" and "bundle_gates t env wt q = Inr msg"
    and "fst (write_files env (bq_files q)) = Inr ()" and "be_commit env = CommitUnobserved True \<or> be_commit env = CommitOk \<and> be_sha env = None"
    and "\<forall>f \<in> set (bq_files q). \<not> be_busy env (fst f)" and "distinct (map fst (bq_files q))"
  shows "fst (commit_multifile t env q) = Inl BCommitRaised \<and> ACommit msg True \<in> set (snd (commit_multifile t env q)) \<and>
    (\<forall>sha meta. AEnqueue sha meta \<notin> set (snd (commit_multifile t env q)))"
proof -
  have free: "fst (with_locks env owner held ps body) = fst body \<and> (\<forall>a. \<not> lock_action a \<longrightarrow> a \<in> set (snd (with_locks env owner held ps body)) \<longleftrightarrow> a \<in> set (snd body))"
    if "\<forall>p \<in> set ps. \<not> be_busy env p" "distinct ps" "set ps \<inter> set held = {}" for owner held ps and body :: "(string \<times> push_state) bw"
    using that
  proof (induction ps arbitrary: held)
    case (Cons p ps)
    then show ?case using Cons.IH[of "p # held"] by (cases "with_locks env owner (p # held) ps body") auto
  qed simp
  have s: "bundle_section t env q = (Inl BCommitRaised, ARefresh # snd (write_files env (bq_files q)) @ [ACommit msg True, AReset])"
    using assms(1-4) by (cases "write_files env (bq_files q)") (auto simp: bundle_section_def bundle_commit_def)
  have "AEnqueue sha meta \<notin> set (snd (write_files env (bq_files q)))" for sha meta
    using write_files_actions by blast
  then show ?thesis
    using free[of "map fst (bq_files q)" "[]" "''bootstrap:'' @ bq_session q" "bundle_section t env q"] assms(5,6)
    unfolding section_body s by auto
qed

theorem bundle_commit_can_be_orphaned_witness:
  "fst (commit_multifile bundle_tools (sample_bundle_env (CommitUnobserved True)) draft_bundle) = Inl BCommitRaised"
proof -
  let ?env = "sample_bundle_env (CommitUnobserved True)"
  have "case bundle_gates bundle_tools ?env ''/kb/wt'' draft_bundle of Inl s \<Rightarrow> False | Inr msg \<Rightarrow> True" by code_simp
  then obtain msg where "bundle_gates bundle_tools ?env ''/kb/wt'' draft_bundle = Inr msg" by (auto split: sum.splits)
  moreover have "fst (write_files ?env (bq_files draft_bundle)) = Inr ()" by code_simp
  ultimately show ?thesis
    by (intro bundle_commit_can_be_orphaned[THEN conjunct1]) (auto simp: sample_bundle_env_def draft_bundle_def)
qed

end
