(* ===== verification/Promotion.thy ===== *)
theory Promotion
  imports Propose IndexBuild
begin

text \<open>
  From an agent's edit to the row the index serves (\<^verbatim>\<open>governed_lane.py\<close> and \<^verbatim>\<open>tools_write.py\<close> against \<^verbatim>\<open>index.py\<close>): what a
  build stores of a file, whether that row is in force, and when an edit that an agent lands can bring a document in force.
  The indexer fills in a missing status, so the status clamp alone does not decide it.
\<close>

subsection \<open>The row of a file\<close>











subsection \<open>Agents do not promote, but for a dropped status\<close>















end
