(* ===== verification/Onboarding.thy ===== *)
theory Onboarding
  imports BundleWrite IndexReads PendingProtocol
begin

text \<open>
  Onboarding a project (\<^verbatim>\<open>onboarding.py\<close>, \<^verbatim>\<open>onboarding_inflight.py\<close>, \<open>kb_bootstrap_project_fn\<close> in \<^verbatim>\<open>tools_onboarding.py\<close>): the
  state of a workspace in the index, the markers that keep a second bootstrap out while the first converges, and the
  admission of a bundle up to the decision to park or to commit it.
\<close>

subsection \<open>Remote URLs\<close>

definition normalize_remote_url :: "string \<Rightarrow> string" where
  "normalize_remote_url url =
     (let s = lower (strip url);
          scp = (if starts_with ''git@'' s then
                   (let rest = drop 4 s; host = takeWhile (\<lambda>c. c \<noteq> CHR '':'') rest; tail = dropWhile (\<lambda>c. c \<noteq> CHR '':'') rest
                    in if host \<noteq> [] \<and> tail \<noteq> [] then ''https://'' @ host @ ''/'' @ tl tail else s)
                 else s);
          ssh = (if starts_with ''ssh://git@'' scp then ''https://'' @ drop 10 scp else scp);
          git = (if ends_with ''.git/'' ssh then take (length ssh - 5) ssh
                 else if ends_with ''.git'' ssh then take (length ssh - 4) ssh else ssh)
      in if ends_with ''/'' git then butlast git
         else if ends_with (''/'' @ [newline]) git then take (length git - 2) git @ [newline] else git)"

subsection \<open>The state of a workspace\<close>

definition CANONICAL_T3_FILES :: "string list" where "CANONICAL_T3_FILES = [''README.md'', ''AGENTS.md'']"
definition CANONICAL_T4_FILES :: "string list" where "CANONICAL_T4_FILES = [''AGENTS.md'']"

datatype onboarding_state = Absent | Partial | Onboarded | RenameCandidate

record rename_candidate =
  rc_workspace :: string
  rc_component :: "string option"

record onboarding_status =
  os_state :: onboarding_state
  os_missing :: "string list"
  os_candidates :: "rename_candidate list"

definition has_file :: "listed list \<Rightarrow> string \<Rightarrow> bool" where
  "has_file entries filename \<longleftrightarrow> list_ex (\<lambda>e. ends_with (''/'' @ filename) (l_path e)) entries"

definition detect_rename_candidate :: "database \<Rightarrow> string \<Rightarrow> string \<Rightarrow> rename_candidate list" where
  "detect_rename_candidate db target_tier remote =
     (if remote = [] then []
      else concat (map (\<lambda>e. let parts = split_on CHR ''/'' (l_path e) in
             if coalesce (l_remote e) = [] \<or> normalize_remote_url (coalesce (l_remote e)) \<noteq> normalize_remote_url remote \<or> l_tier e \<noteq> target_tier then []
             else if target_tier = ''T3'' \<and> length parts \<ge> 2 then [\<lparr>rc_workspace = parts ! 1, rc_component = None\<rparr>]
             else if target_tier = ''T4'' \<and> length parts \<ge> 4 then [\<lparr>rc_workspace = parts ! 1, rc_component = Some (parts ! 3)\<rparr>]
             else []) (list_with_remote_url db)))"

definition status_from :: "database \<Rightarrow> listed list \<Rightarrow> string list \<Rightarrow> string \<Rightarrow> string option \<Rightarrow> onboarding_status" where
  "status_from db entries wanted tier remote =
     (if entries \<noteq> [] then
        (let missing = filter (\<lambda>f. \<not> has_file entries f) wanted
         in \<lparr>os_state = (if missing = [] then Onboarded else Partial), os_missing = missing, os_candidates = []\<rparr>)
      else (let cands = (case remote of None \<Rightarrow> [] | Some u \<Rightarrow> detect_rename_candidate db tier u)
            in \<lparr>os_state = (if cands \<noteq> [] then RenameCandidate else Absent), os_missing = wanted, os_candidates = cands\<rparr>))"

definition base_path :: "string \<Rightarrow> string option \<Rightarrow> string" where
  "base_path workspace component = (case component of None \<Rightarrow> ''projects/'' @ workspace @ ''/''
     | Some c \<Rightarrow> ''projects/'' @ workspace @ ''/components/'' @ c @ ''/'')"

definition compute_status :: "database \<Rightarrow> string \<Rightarrow> string option \<Rightarrow> string option \<Rightarrow> string option \<Rightarrow> onboarding_status" where
  "compute_status db workspace component workspace_remote component_remote =
     (case component of
        None \<Rightarrow> status_from db (list_by_prefix db (base_path workspace None) (Some ''components/'')) CANONICAL_T3_FILES ''T3'' workspace_remote
      | Some c \<Rightarrow> status_from db (list_by_prefix db (base_path workspace component) None) CANONICAL_T4_FILES ''T4'' component_remote)"

subsection \<open>Markers for bootstraps in flight\<close>

text \<open>One slot, as its marker file holds it: when the claim expires and whose it is. \<open>claim\<close> and \<open>release\<close> run under the
  slot's lock; \<open>fresh\<close> is a new random token. An unreadable marker counts as none.\<close>

record slot_marker =
  sm_expires :: time
  sm_token :: nat

definition slot_free :: "slot_marker option \<Rightarrow> time \<Rightarrow> bool" where
  "slot_free m now \<longleftrightarrow> (case m of None \<Rightarrow> True | Some k \<Rightarrow> now \<ge> sm_expires k)"

definition claim_slot :: "time \<Rightarrow> time \<Rightarrow> nat \<Rightarrow> slot_marker option \<Rightarrow> nat option \<times> slot_marker option" where
  "claim_slot ttl now fresh m =
     (if slot_free m now then (Some fresh, Some \<lparr>sm_expires = now + ttl, sm_token = fresh\<rparr>) else (None, m))"

definition release_slot :: "nat \<Rightarrow> slot_marker option \<Rightarrow> bool \<times> slot_marker option" where
  "release_slot tok m = (case m of None \<Rightarrow> (False, None) | Some k \<Rightarrow> if sm_token k = tok then (True, None) else (False, m))"

text \<open>The slot with the clock and the claims that were granted and not released, each with its expiry.\<close>

record slot_world =
  sw_marker :: "slot_marker option"
  sw_now :: time
  sw_held :: "(nat \<times> time) list"
  sw_fresh :: nat

definition slot_init :: slot_world where
  "slot_init = \<lparr>sw_marker = None, sw_now = 0, sw_held = [], sw_fresh = 0\<rparr>"

inductive slot_step :: "time \<Rightarrow> slot_world \<Rightarrow> slot_world \<Rightarrow> bool" for ttl where
  tick: "sw_now w \<le> now \<Longrightarrow> slot_step ttl w (w\<lparr>sw_now := now\<rparr>)"
| granted: "claim_slot ttl (sw_now w) (sw_fresh w) (sw_marker w) = (Some tok, m) \<Longrightarrow>
    slot_step ttl w (w\<lparr>sw_marker := m, sw_held := (tok, sw_now w + ttl) # sw_held w, sw_fresh := sw_fresh w + 1\<rparr>)"
| denied: "claim_slot ttl (sw_now w) (sw_fresh w) (sw_marker w) = (None, m) \<Longrightarrow> slot_step ttl w (w\<lparr>sw_marker := m\<rparr>)"
| release: "(tok, expires) \<in> set (sw_held w) \<Longrightarrow> release_slot tok (sw_marker w) = (ok, m) \<Longrightarrow>
    slot_step ttl w (w\<lparr>sw_marker := m, sw_held := filter (\<lambda>h. fst h \<noteq> tok) (sw_held w)\<rparr>)"

inductive_cases slot_stepE: "slot_step ttl w w'"

subsection \<open>Admitting a bundle\<close>

record boot_req =
  bo_workspace :: string
  bo_component :: "string option"
  bo_workspace_remote :: "string option"
  bo_component_remote :: "string option"
  bo_files :: "(string \<times> string) list"
  bo_session :: string
  bo_agent :: string
  bo_confidence :: pyfloat
  bo_threshold :: pyfloat
  bo_can_auto :: bool
  bo_owner :: string
  bo_max_bytes :: nat
  bo_max_files :: nat

datatype boot_status = EmptyBundle | AlreadyOnboarded | AlreadyInProgress | TooManyFiles | SecretDetected | PathRejected
  | RateLimited | PayloadTooLarge | QueueWouldOverflow | PathLocked

datatype boot_plan = Refuse boot_status "string list" | Park "(string \<times> string) list" "demotion option" | Commit "(string \<times> string) list"

definition given :: "string option \<Rightarrow> bool" where "given x \<longleftrightarrow> (case x of None \<Rightarrow> False | Some s \<Rightarrow> s \<noteq> [])"

text \<open>The directory of the bundle: an empty component counts as none here, and as a component in \<^const>\<open>compute_status\<close>.\<close>

definition boot_base :: "string \<Rightarrow> string option \<Rightarrow> string" where
  "boot_base workspace component = base_path workspace (if given component then component else None)"

fun remap :: "('a \<Rightarrow> 'b option) \<Rightarrow> 'a list \<Rightarrow> 'b list" where
  "remap f [] = []"
| "remap f (x # xs) = (case f x of None \<Rightarrow> remap f xs | Some y \<Rightarrow> y # remap f xs)"

text \<open>The paths refused and the canonical files; none when a path looks like a credential.\<close>

fun admit_paths :: "tools \<Rightarrow> (string \<times> string) list \<Rightarrow> (string list \<times> (string \<times> string) list) option" where
  "admit_paths t [] = Some ([], [])"
| "admit_paths t ((p, s) # fs) =
     (case normalize_target_path p of
        None \<Rightarrow> map_option (\<lambda>(r, c). (p # r, c)) (admit_paths t fs)
      | Some c \<Rightarrow>
          if \<not> is_writable_path (t_prefixes t) c then map_option (\<lambda>(r, cs). (p # r, cs)) (admit_paths t fs)
          else if t_scan t c \<noteq> None then None
          else if blocks (t_blocklist t) c (t_tier t c) then map_option (\<lambda>(r, cs). (p # r, cs)) (admit_paths t fs)
          else map_option (\<lambda>(r, cs). (r, (c, s) # cs)) (admit_paths t fs))"

definition find_from :: "string \<Rightarrow> nat \<Rightarrow> string \<Rightarrow> nat option" where
  "find_from pat i s = List.find (\<lambda>j. starts_with pat (drop j s)) [i ..< length s + 1]"

definition fm_put :: "frontmatter \<Rightarrow> string \<Rightarrow> pyval \<Rightarrow> frontmatter" where
  "fm_put fm k v = (if list_ex (\<lambda>(x, y). x = PyStr k) fm then map (\<lambda>(x, y). if x = PyStr k then (x, v) else (x, y)) fm else fm @ [(PyStr k, v)])"

definition inject_url :: "tools \<Rightarrow> string \<Rightarrow> string \<Rightarrow> string" where
  "inject_url t url post =
     (if starts_with (''---'' @ [newline]) post then
        (case find_from ([newline] @ ''---'' @ [newline]) 4 post of None \<Rightarrow> post
         | Some e \<Rightarrow>
            (let rest = drop (e + 5) post
             in case t_load t (drop 4 (take e post)) of None \<Rightarrow> post
                | Some v \<Rightarrow> (case or_empty v of
                    PyDict fm \<Rightarrow> (if fm_get fm ''git_remote_url'' = PyStr url then post
                       else ''---'' @ [newline] @ t_dump t (fm_put fm ''git_remote_url'' (PyStr url)) @ ''---'' @ [newline] @ rest)
                  | _ \<Rightarrow> post)))
      else ''---'' @ [newline] @ t_dump t [(PyStr ''git_remote_url'', PyStr url)] @ ''---'' @ [newline] @ [newline] @ post)"

definition inject_remote_url :: "tools \<Rightarrow> string option \<Rightarrow> string \<Rightarrow> (string \<times> string) list \<Rightarrow> (string \<times> string) list" where
  "inject_remote_url t url target fs =
     (if \<not> given url then fs
      else map (\<lambda>(p, s). if ends_with (''/'' @ target) p then (p, inject_url t (the url) s) else (p, s)) fs)"

text \<open>Whether the commit path would take the bundle, without which the demotion is dropped. The first argument that may
  raise is the id of a document that is not hashable.\<close>

fun gates_clean :: "tools \<Rightarrow> live_index option \<Rightarrow> (string, string) dict \<Rightarrow> (string \<times> string) list \<Rightarrow> bool result" where
  "gates_clean t idx seen [] = Inr True"
| "gates_clean t idx seen ((p, s) # fs) =
     (case validate_postimage (t_scan t) (t_load t) (t_inbox t) (index_view_of idx) None [] p s of Inl e \<Rightarrow> Inl e
      | Inr errs \<Rightarrow>
         if t_scan t p \<noteq> None \<or> t_scan t s \<noteq> None \<or> list_ex (\<lambda>e. error_code e \<notin> set SNAPSHOT_DEPENDENT_CODES) errs then Inr False
         else let eid = bundle_id_of t (p, s)
         in if eid \<noteq> [] \<and> (case dget seen eid of None \<Rightarrow> False | Some other \<Rightarrow> other \<noteq> p) then Inr False
            else gates_clean t idx (if eid = [] then seen else dset eid p seen) fs)"

definition lane_of :: "tools \<Rightarrow> live_index option \<Rightarrow> string \<times> string \<Rightarrow> lane_verdict" where
  "lane_of t idx f = evaluate_governed_lane (t_load t) idx False (snd f) (fst f) (t_today t)"

definition bundle_demotion :: "tools \<Rightarrow> live_index option \<Rightarrow> boot_req \<Rightarrow> (string \<times> string) list \<Rightarrow> demotion option result" where
  "bundle_demotion t idx q fs =
     (if \<not> t_protected t then Inr None
      else case remap (\<lambda>f. demotion_reason (lane_of t idx f)) fs of [] \<Rightarrow> Inr None
         | d # ds \<Rightarrow> if would_auto_commit (bo_confidence q) (bo_threshold q) (bo_can_auto q)
             then (case gates_clean t idx [] fs of Inl e \<Rightarrow> Inl e | Inr clean \<Rightarrow> Inr (if clean then Some d else None))
             else Inr (Some d))"

definition outside :: "string \<Rightarrow> (string \<times> string) list \<Rightarrow> string list" where
  "outside base fs = map fst (filter (\<lambda>f. \<not> starts_with base (fst f)) fs)"

text \<open>\<^const>\<open>None\<close> when a text cannot be encoded, which raises.\<close>

definition oversized :: "tools \<Rightarrow> nat \<Rightarrow> (string \<times> string) list \<Rightarrow> string list option" where
  "oversized t cap fs =
     (if cap = 0 then Some []
      else map_option (\<lambda>ns. map fst (filter (\<lambda>(p, n). n > cap) (zip (map fst fs) ns)))
        (those (map (\<lambda>f. map_option length (t_encode t (snd f))) fs)))"

definition allowed_paths :: "onboarding_status \<Rightarrow> boot_req \<Rightarrow> string list" where
  "allowed_paths st q = map (\<lambda>n. boot_base (bo_workspace q) (bo_component q) @ n) (os_missing st)"

definition candidate_files :: "onboarding_status \<Rightarrow> boot_req \<Rightarrow> (string \<times> string) list" where
  "candidate_files st q =
     (if os_state st = Partial
      then filter (\<lambda>f. case normalize_target_path (fst f) of None \<Rightarrow> False | Some c \<Rightarrow> c \<in> set (allowed_paths st q)) (bo_files q)
      else bo_files q)"

definition boot_files :: "tools \<Rightarrow> boot_req \<Rightarrow> (string \<times> string) list \<Rightarrow> (string \<times> string) list" where
  "boot_files t q fs = inject_remote_url t (bo_component_remote q) ''AGENTS.md'' (inject_remote_url t (bo_workspace_remote q) ''README.md'' fs)"

definition park_or_commit_bundle :: "boot_req \<Rightarrow> demotion option \<Rightarrow> (string \<times> string) list \<Rightarrow> boot_plan" where
  "park_or_commit_bundle q d fs =
     (if float_less (bo_confidence q) (bo_threshold q) \<or> \<not> bo_can_auto q \<or> d \<noteq> None then Park fs d else Commit fs)"

definition boot_sized :: "tools \<Rightarrow> live_index option \<Rightarrow> boot_req \<Rightarrow> (string \<times> string) list \<Rightarrow> boot_plan option" where
  "boot_sized t idx q fs =
     (case oversized t (bo_max_bytes q) fs of None \<Rightarrow> None
      | Some big \<Rightarrow> if big \<noteq> [] then Some (Refuse PayloadTooLarge big)
          else (case bundle_demotion t idx q fs of Inl e \<Rightarrow> None | Inr d \<Rightarrow> Some (park_or_commit_bundle q d fs)))"

text \<open>The decision up to the first change; \<^const>\<open>None\<close> when a check raises.\<close>

definition boot_decide :: "tools \<Rightarrow> live_index option \<Rightarrow> bool \<Rightarrow> onboarding_status \<Rightarrow> boot_req \<Rightarrow> boot_plan option" where
  "boot_decide t idx rate_ok st q =
     (let base = boot_base (bo_workspace q) (bo_component q); files = candidate_files st q
      in if files = [] then Some (Refuse AlreadyOnboarded (map fst (bo_files q)))
         else if bo_max_files q > 0 \<and> length files > bo_max_files q then Some (Refuse TooManyFiles (map fst files))
         else case admit_paths t files of None \<Rightarrow> Some (Refuse SecretDetected [])
         | Some (refused, fs) \<Rightarrow>
            if refused \<noteq> [] then Some (Refuse PathRejected refused)
            else if outside base fs \<noteq> [] then Some (Refuse PathRejected (outside base fs))
            else if \<not> rate_ok then Some (Refuse RateLimited [])
            else boot_sized t idx q (boot_files t q fs))"

subsection \<open>Parking a bundle\<close>

text \<open>What the world gives one \<open>enqueue\<close> and, should it be rolled back, one \<open>reject\<close>.\<close>

record park_answer =
  pa_id :: string
  pa_rand :: string
  pa_fault :: write_fault
  pa_lock_time :: time
  pa_time :: time
  pa_token :: string
  pa_reject_time :: time

definition park_meta :: "tools \<Rightarrow> live_index option \<Rightarrow> boot_req \<Rightarrow> string \<Rightarrow> demotion option \<Rightarrow> (string \<times> string) list \<Rightarrow> string \<times> string \<Rightarrow> frontmatter" where
  "park_meta t idx q bid d fs f =
     (let v = (if t_protected t then map_option (lane_of t idx) (List.find (\<lambda>g. fst g = fst f) (rev fs)) else None);
          found = map_option pattern_name (t_scan t (snd f));
          own = (case v of None \<Rightarrow> None | Some w \<Rightarrow> demotion_reason w)
      in [(PyStr ''agent_identity'', PyStr (bo_agent q)), (PyStr ''source_session'', PyStr (bo_session q)),
          (PyStr ''proposer_principal'', PyStr (bo_owner q)), (PyStr ''confidence'', PyFloat (bo_confidence q)),
          (PyStr ''bootstrap'', PyBool True), (PyStr ''bundle_id'', PyStr bid), (PyStr ''workspace'', PyStr (bo_workspace q)),
          (PyStr ''component'', opt_str (bo_component q)), (PyStr ''secret_scan_flagged'', PyBool (found \<noteq> None)),
          (PyStr ''matching_pattern'', opt_str found),
          (PyStr ''demotion_reason'', opt_str (map_option demotion_text (if own \<noteq> None then own else d))),
          (PyStr ''injection_suspect'', PyBool (case v of None \<Rightarrow> False | Some w \<Rightarrow> injection_matches w \<noteq> [])),
          (PyStr ''injection_patterns'', (case v of None \<Rightarrow> PyNone | Some w \<Rightarrow> list_or_none (injection_pattern_names w)))])"

definition bundle_proposal :: "frontmatter \<Rightarrow> string \<times> string \<Rightarrow> proposal" where
  "bundle_proposal meta f = \<lparr>pr_type = ''edit'', pr_target = fst f, pr_postimage = snd f, pr_base_commit = ''HEAD'',
     pr_base_blob = None, pr_file_hash = None, pr_meta = meta\<rparr>"

text \<open>The rollback: each entry is rejected and a failure is passed over.\<close>

fun roll_back :: "(string \<Rightarrow> string) \<Rightarrow> park_answer list \<Rightarrow> disk \<Rightarrow> effect list" where
  "roll_back sha [] d = []"
| "roll_back sha (a # as) d =
     (let es = snd (reject sha (pa_id a) (pa_token a) (pa_reject_time a) d) in es @ roll_back sha as (applys es d))"

datatype parked = ParkedAll "string list" | ParkRefused boot_status | ParkRaised

text \<open>The entries in turn; \<open>acc\<close> are those that are in. A busy path and a full queue roll them back, any other error does not.\<close>

fun enqueue_all :: "tools \<Rightarrow> nat \<Rightarrow> (string \<times> string \<Rightarrow> frontmatter) \<Rightarrow> park_answer list \<Rightarrow> ((string \<times> string) \<times> park_answer) list \<Rightarrow> disk \<Rightarrow> parked \<times> effect list" where
  "enqueue_all t cap meta acc [] d = (ParkedAll (map pa_id acc), [])"
| "enqueue_all t cap meta acc ((f, a) # fas) d =
     (case enqueue (t_sha256 t) (t_py_str t) cap (pa_id a) (pa_rand a) (bundle_proposal (meta f) f) (pa_fault a) (pa_lock_time a) (pa_time a) d of
        (Inr i, es) \<Rightarrow> (case enqueue_all t cap meta (acc @ [a]) fas (applys es d) of (r, fs) \<Rightarrow> (r, es @ fs))
      | (Inl (PathLockBusy p), es) \<Rightarrow> (ParkRefused PathLocked, es @ roll_back (t_sha256 t) acc (applys es d))
      | (Inl QueueFull, es) \<Rightarrow> (ParkRefused QueueWouldOverflow, es @ roll_back (t_sha256 t) acc (applys es d))
      | (Inl e, es) \<Rightarrow> (ParkRaised, es))"

definition park_bundle :: "tools \<Rightarrow> nat \<Rightarrow> (string \<times> string \<Rightarrow> frontmatter) \<Rightarrow> ((string \<times> string) \<times> park_answer) list \<Rightarrow> disk \<Rightarrow> parked \<times> effect list" where
  "park_bundle t cap meta fas d =
     (if would_exceed cap (length fas) d then (ParkRefused QueueWouldOverflow, []) else enqueue_all t cap meta [] fas d)"

subsection \<open>The operation\<close>

record boot_env =
  bv_db :: database
  bv_index :: "live_index option"
  bv_rate_ok :: bool
  bv_now :: time
  bv_ttl :: time
  bv_fresh :: nat
  bv_cap :: nat
  bv_bundle_id :: string
  bv_parks :: "nat \<Rightarrow> park_answer"
  bv_bundle :: bundle_env

datatype boot_result = BootRefused boot_status "string list" | BootPending "string list" "demotion option"
  | BootCommitted string push_state | BootBundleRefused bundle_refusal | BootPathBusy string | BootRaised

definition boot_bundle :: "boot_req \<Rightarrow> (string \<times> string) list \<Rightarrow> bundle_req" where
  "boot_bundle q fs = \<lparr>bq_session = bo_session q, bq_agent = bo_agent q, bq_files = fs,
     bq_subject = ''bootstrap: workspace='' @ bo_workspace q @ '', component='' @ coalesce (bo_component q) @ '', '' @ decimal (int (length fs))
       @ '' files: '' @ join_with '', '' (map fst fs),
     bq_tier = (if given (bo_component q) then ''T4'' else ''T3''), bq_path = boot_base (bo_workspace q) (bo_component q),
     bq_confidence = bo_confidence q,
     bq_meta = [(''source_session'', bo_session q), (''agent_identity'', bo_agent q), (''bootstrap'', ''True'')],
     bq_exempt = False, bq_new_only = True\<rparr>"

definition boot_apply :: "tools \<Rightarrow> boot_env \<Rightarrow> boot_req \<Rightarrow> boot_plan option \<Rightarrow> disk \<Rightarrow> boot_result \<times> effect list \<times> action list" where
  "boot_apply t v q plan d =
     (case plan of
        None \<Rightarrow> (BootRaised, [], [])
      | Some (Refuse s ps) \<Rightarrow> (BootRefused s ps, [], [])
      | Some (Park fs dm) \<Rightarrow>
          (case park_bundle t (bv_cap v) (park_meta t (bv_index v) q (bv_bundle_id v) dm fs) (zip fs (map (bv_parks v) [0 ..< length fs])) d of
             (ParkedAll is', es) \<Rightarrow> (BootPending is' dm, es, [])
           | (ParkRefused s, es) \<Rightarrow> (BootRefused s (map fst fs), es, [])
           | (ParkRaised, es) \<Rightarrow> (BootRaised, es, []))
      | Some (Commit fs) \<Rightarrow>
          (case commit_multifile t (bv_bundle v) (boot_bundle q fs) of
             (Inr (sha, ps), as) \<Rightarrow> (BootCommitted sha ps, [], as)
           | (Inl (BRejected r), as) \<Rightarrow> (BootBundleRefused r, [], as)
           | (Inl (BLockBusy p), as) \<Rightarrow> (BootPathBusy p, [], as)
           | (Inl e, as) \<Rightarrow> (BootRaised, [], as)))"

definition status_of :: "boot_env \<Rightarrow> boot_req \<Rightarrow> onboarding_status" where
  "status_of v q = compute_status (bv_db v) (bo_workspace q) (bo_component q) (bo_workspace_remote q) (bo_component_remote q)"

text \<open>The result, the slot, the effects on the pending queue and the actions of the commit path. The slot is kept only by a bundle
  that was committed.\<close>

definition bootstrap_project ::
  "tools \<Rightarrow> boot_env \<Rightarrow> boot_req \<Rightarrow> slot_marker option \<Rightarrow> disk \<Rightarrow> boot_result \<times> slot_marker option \<times> effect list \<times> action list" where
  "bootstrap_project t v q slot d =
     (if bo_files q = [] then (BootRefused EmptyBundle [], slot, [], [])
      else let st = status_of v q
      in if os_state st \<notin> {Absent, Partial} then (BootRefused AlreadyOnboarded [], slot, [], [])
      else (case claim_slot (bv_ttl v) (bv_now v) (bv_fresh v) slot of
         (None, s1) \<Rightarrow> (BootRefused AlreadyInProgress (map fst (bo_files q)), s1, [], [])
       | (Some tok, s1) \<Rightarrow>
           (case boot_apply t v q (boot_decide t (bv_index v) (bv_rate_ok v) st q) d of
              (r, es, as) \<Rightarrow> (r, (case r of BootCommitted sha ps \<Rightarrow> s1 | _ \<Rightarrow> snd (release_slot tok s1)), es, as))))"

subsection \<open>One bootstrap at a time\<close>

definition slot_inv :: "slot_world \<Rightarrow> bool" where
  "slot_inv w \<longleftrightarrow> (\<forall>(a, x) \<in> set (sw_held w). a < sw_fresh w \<and> (sw_now w < x \<longrightarrow> sw_marker w = Some \<lparr>sm_expires = x, sm_token = a\<rparr>))"

lemma slot_invD: "slot_inv w \<Longrightarrow> (a, x) \<in> set (sw_held w) \<Longrightarrow> a < sw_fresh w"
  "slot_inv w \<Longrightarrow> (a, x) \<in> set (sw_held w) \<Longrightarrow> sw_now w < x \<Longrightarrow> sw_marker w = Some \<lparr>sm_expires = x, sm_token = a\<rparr>"
  by (auto simp: slot_inv_def)

lemma slot_inv_step: "slot_step ttl w w' \<Longrightarrow> slot_inv w \<Longrightarrow> slot_inv w'"
proof (erule slot_stepE, goal_cases)
  case (1 now)
  then show ?case by (fastforce simp: slot_inv_def)
next
  case (2 tok m)
  then have m: "slot_free (sw_marker w) (sw_now w)" "tok = sw_fresh w" "m = Some \<lparr>sm_expires = sw_now w + ttl, sm_token = tok\<rparr>"
    by (auto simp: claim_slot_def split: if_splits)
  have "\<not> sw_now w < x" if "(a, x) \<in> set (sw_held w)" for a x
    using slot_invD(2)[OF 2(1) that] m(1) by (auto simp: slot_free_def)
  then show ?case using 2(1,2) m by (fastforce simp: slot_inv_def dest: slot_invD(1))
next
  case (3 m)
  then show ?case by (auto simp: claim_slot_def slot_inv_def split: if_splits)
next
  case (4 tok expires ok m)
  then show ?case by (fastforce simp: release_slot_def slot_inv_def split: option.splits if_splits)
qed

lemma slot_inv_reachable: "(slot_step ttl)\<^sup>*\<^sup>* slot_init w \<Longrightarrow> slot_inv w"
proof (induction rule: rtranclp_induct)
  case base
  show ?case by (simp add: slot_init_def slot_inv_def)
next
  case (step y z)
  then show ?case by (blast intro: slot_inv_step)
qed

text \<open>At most one bootstrap of a slot runs before its claim expires, whatever claims, expiries and releases went before, and while it
  does no other claim is granted. A late release of an expired claim in particular does not free the slot of its successor.\<close>

theorem slot_has_one_owner:
  assumes "(slot_step ttl)\<^sup>*\<^sup>* slot_init w" and "(a, x) \<in> set (sw_held w)" and "sw_now w < x"
  shows "fst (claim_slot ttl (sw_now w) fresh (sw_marker w)) = None \<and> (\<forall>(b, y) \<in> set (sw_held w). sw_now w < y \<longrightarrow> b = a \<and> y = x)"
proof -
  note m = slot_invD(2)[OF slot_inv_reachable[OF assms(1)]]
  have "b = a \<and> y = x" if "(b, y) \<in> set (sw_held w)" "sw_now w < y" for b y
    using m[OF that] m[OF assms(2,3)] by simp
  then show ?thesis using m[OF assms(2,3)] assms(3) by (auto simp: claim_slot_def slot_free_def)
qed

text \<open>A bootstrap outlives its claim, the next one claims the slot, and the first one's release comes late.\<close>

definition overtaken :: slot_world where
  "overtaken = \<lparr>sw_marker = Some \<lparr>sm_expires = 20, sm_token = 1\<rparr>, sw_now = 10, sw_held = [(1, 20)], sw_fresh = 2\<rparr>"

lemma overtaken_reachable: "(slot_step 10)\<^sup>*\<^sup>* slot_init overtaken"
proof -
  let ?w1 = "\<lparr>sw_marker = Some \<lparr>sm_expires = 10, sm_token = 0\<rparr>, sw_now = 0, sw_held = [(0, 10)], sw_fresh = 1\<rparr>"
  let ?w3 = "overtaken\<lparr>sw_held := [(1, 20), (0, 10)]\<rparr>"
  have "slot_step 10 slot_init ?w1"
    using slot_step.granted[of 10 slot_init 0 "Some \<lparr>sm_expires = 10, sm_token = 0\<rparr>"] by (simp add: slot_init_def claim_slot_def slot_free_def)
  moreover have "slot_step 10 ?w1 (?w1\<lparr>sw_now := 10\<rparr>)" using slot_step.tick[of ?w1 10] by simp
  moreover have "slot_step 10 (?w1\<lparr>sw_now := 10\<rparr>) ?w3"
    using slot_step.granted[of 10 "?w1\<lparr>sw_now := 10\<rparr>" 1 "Some \<lparr>sm_expires = 20, sm_token = 1\<rparr>"]
    by (simp add: claim_slot_def slot_free_def overtaken_def numeral_2_eq_2)
  moreover have "slot_step 10 ?w3 overtaken"
    using slot_step.release[of 0 10 ?w3 False "sw_marker ?w3"] by (simp add: release_slot_def overtaken_def)
  ultimately show ?thesis by (meson converse_rtranclp_into_rtranclp r_into_rtranclp)
qed

theorem slot_has_one_owner_witness: "fst (claim_slot 10 10 2 (sw_marker overtaken)) = None"
  using slot_has_one_owner[OF overtaken_reachable, of 1 20 2] by (simp add: overtaken_def)

subsection \<open>What a bundle may write\<close>

lemma admit_paths_ok:
  "admit_paths t files = Some ([], fs) \<Longrightarrow> f \<in> set fs \<Longrightarrow>
     (\<exists>raw. (raw, snd f) \<in> set files \<and> normalize_target_path raw = Some (fst f)) \<and> is_writable_path (t_prefixes t) (fst f) \<and>
     t_scan t (fst f) = None \<and> \<not> blocks (t_blocklist t) (fst f) (t_tier t (fst f))"
proof (induction files arbitrary: fs)
  case (Cons g files)
  obtain p s where g: "g = (p, s)" by fastforce
  from Cons.prems(1) obtain c cs where c: "normalize_target_path p = Some c" "is_writable_path (t_prefixes t) c" "t_scan t c = None"
    "\<not> blocks (t_blocklist t) c (t_tier t c)" "admit_paths t files = Some ([], cs)" "fs = (c, s) # cs"
    by (auto simp: g split: option.splits if_splits)
  show ?case
  proof (cases "f = (c, s)")
    case True
    then show ?thesis using c g by auto
  next
    case False
    then show ?thesis using Cons.IH[OF c(5)] Cons.prems(2) c(6) by auto
  qed
qed simp

lemma boot_files_paths: "map fst (boot_files t q fs) = map fst fs"
proof -
  have "map fst (inject_remote_url t u target gs) = map fst gs" for u target gs
    by (induction gs) (auto simp: inject_remote_url_def)
  then show ?thesis by (simp add: boot_files_def)
qed

lemma bundle_demotion_raw: "t_protected t \<Longrightarrow> gates_clean t idx [] fs = Inr True \<Longrightarrow> bundle_demotion t idx q fs = Inr None \<Longrightarrow>
  f \<in> set fs \<Longrightarrow> demotion_reason (lane_of t idx f) = None"
proof -
  assume a: "t_protected t" "gates_clean t idx [] fs = Inr True" "bundle_demotion t idx q fs = Inr None" "f \<in> set fs"
  have r: "remap g xs = [] \<Longrightarrow> x \<in> set xs \<Longrightarrow> g x = None" for g :: "string \<times> string \<Rightarrow> demotion option" and xs x
    by (induction xs) (auto split: option.splits)
  show ?thesis
    by (rule r[OF _ a(4)]) (use a(1-3) in \<open>auto simp: bundle_demotion_def split: list.splits if_splits\<close>)
qed

lemma boot_decide_Commit:
  assumes "boot_decide t idx rate_ok st q = Some (Commit fs)"
  obtains gs where "admit_paths t (candidate_files st q) = Some ([], gs)" "outside (boot_base (bo_workspace q) (bo_component q)) gs = []"
    "fs = boot_files t q gs" "rate_ok" "bundle_demotion t idx q fs = Inr None"
    "\<not> float_less (bo_confidence q) (bo_threshold q)" "bo_can_auto q"
  using assms by (auto simp: boot_decide_def boot_sized_def park_or_commit_bundle_def Let_def split: option.splits if_splits sum.splits)

lemma bundle_writes_gated:
  assumes "AWriteFile p s \<in> set (snd (commit_multifile t env q))"
  obtains wt where "(p, s) \<in> set (bq_files q)" "bundle_secret t (p, s) = None" "bundle_valid t env wt q (p, s) = None"
proof -
  have "AWriteFile p s \<in> set (snd (bundle_section t env q))" by (rule section_action[OF assms]) simp
  then obtain wt msg where g: "bundle_gates t env wt q = Inr msg"
    and w: "AWriteFile p s \<in> set (snd (bbind (write_files env (bq_files q)) (\<lambda>_. bbind (bundle_commit env msg) (\<lambda>sha. bbind (bundle_enqueue env q sha) (\<lambda>st. (Inr (sha, st), []))))))"
    by (rule section_gated) simp
  have "AWriteFile p s \<in> set (snd (write_files env (bq_files q)))"
    using w by (cases "write_files env (bq_files q)"; cases "fst (write_files env (bq_files q))")
      (auto simp: bundle_commit_def bundle_enqueue_def Let_def split: commit_answer.splits option.splits if_splits)
  then have f: "(p, s) \<in> set (bq_files q)" using write_files_actions by fastforce
  have "first_refusal (bundle_secret t) (bq_files q) = None" "first_refusal (bundle_valid t env wt q) (bq_files q) = None"
    using g by (auto simp: bundle_gates_def split: option.splits if_splits)
  then show ?thesis using f by (intro that[of wt]) (simp_all add: first_refusal_None)
qed

lemma boot_writes:
  assumes "AWriteFile p s \<in> set (snd (snd (boot_apply t v q plan d)))"
  obtains fs where "plan = Some (Commit fs)" "AWriteFile p s \<in> set (snd (commit_multifile t (bv_bundle v) (boot_bundle q fs)))"
  using assms
  by (cases plan; cases "the plan")
    (auto simp: boot_apply_def split: prod.splits sum.splits parked.splits bundle_stop.splits)

text \<open>A bootstrap writes a file only into a workspace that is not onboarded, below its directory, at a path that did not exist and,
  where the workspace is partly there, is one of the missing canonical files. The path is writable and not blocked, neither it nor the
  text looks like a credential, and the agent may commit by itself with a confidence that is not below the threshold.\<close>

theorem bootstrap_fills_gaps_only:
  assumes "bootstrap_project t v q slot d = (r, slot', es, as)" and "AWriteFile p s \<in> set as"
  shows "slot_free slot (bv_now v) \<and> os_state (status_of v q) \<in> {Absent, Partial} \<and> starts_with (boot_base (bo_workspace q) (bo_component q)) p \<and>
    (os_state (status_of v q) = Partial \<longrightarrow> p \<in> set (allowed_paths (status_of v q) q)) \<and> \<not> be_lexists (bv_bundle v) p \<and>
    is_writable_path (t_prefixes t) p \<and> \<not> blocks (t_blocklist t) p (t_tier t p) \<and> t_scan t p = None \<and> t_scan t s = None \<and>
    bo_can_auto q \<and> \<not> float_less (bo_confidence q) (bo_threshold q) \<and> bv_rate_ok v"
proof -
  let ?st = "status_of v q"
  have st: "os_state ?st \<in> {Absent, Partial}" and free: "slot_free slot (bv_now v)"
    and w: "AWriteFile p s \<in> set (snd (snd (boot_apply t v q (boot_decide t (bv_index v) (bv_rate_ok v) ?st q) d)))"
    using assms by (auto simp: bootstrap_project_def claim_slot_def Let_def split: if_splits option.splits prod.splits)
  from boot_writes[OF w] obtain fs where fs: "boot_decide t (bv_index v) (bv_rate_ok v) ?st q = Some (Commit fs)"
    "AWriteFile p s \<in> set (snd (commit_multifile t (bv_bundle v) (boot_bundle q fs)))" by metis
  from bundle_writes_gated[OF fs(2)] obtain wt where g: "(p, s) \<in> set fs" "bundle_secret t (p, s) = None"
    "bundle_valid t (bv_bundle v) wt (boot_bundle q fs) (p, s) = None" by (metis boot_bundle_def bundle_req.select_convs(3))
  from boot_decide_Commit[OF fs(1)] obtain gs where gs: "admit_paths t (candidate_files ?st q) = Some ([], gs)"
    "outside (boot_base (bo_workspace q) (bo_component q)) gs = []" "fs = boot_files t q gs" "bv_rate_ok v"
    "\<not> float_less (bo_confidence q) (bo_threshold q)" "bo_can_auto q" by metis
  obtain f where f: "f \<in> set gs" "fst f = p"
    using g(1) boot_files_paths[of t q gs] gs(3) by (metis fst_conv imageE image_eqI list.set_map)
  note ok = admit_paths_ok[OF gs(1) f(1)]
  have "p \<in> set (allowed_paths ?st q)" if "os_state ?st = Partial"
    using ok f(2) that by (auto simp: candidate_files_def split: option.splits)
  moreover have "starts_with (boot_base (bo_workspace q) (bo_component q)) p"
    using gs(2) f by (auto simp: outside_def filter_empty_conv)
  moreover have "\<not> be_lexists (bv_bundle v) p" "t_scan t s = None"
    using g(2,3) by (auto simp: bundle_valid_def bundle_secret_def boot_bundle_def split: option.splits if_splits)
  ultimately show ?thesis using st free ok f(2) gs(4-6) by auto
qed

definition sample_boot :: boot_req where
  "sample_boot = \<lparr>bo_workspace = ''x'', bo_component = None, bo_workspace_remote = None, bo_component_remote = None,
     bo_files = [(''projects/x/README.md'', with_block ''k'' ''one''), (''projects/x/AGENTS.md'', with_block ''k'' ''two'')],
     bo_session = ''s'', bo_agent = ''a'', bo_confidence = FNum 1, bo_threshold = FNum 1, bo_can_auto = True, bo_owner = ''o'',
     bo_max_bytes = 0, bo_max_files = 0\<rparr>"

definition sample_answer :: "nat \<Rightarrow> park_answer" where
  "sample_answer n = \<lparr>pa_id = replicate 32 (if n = 0 then CHR ''0'' else CHR ''1''), pa_rand = ''r'', pa_fault = NoFault, pa_lock_time = 0,
     pa_time = 0, pa_token = ''t'', pa_reject_time = 0\<rparr>"

definition sample_boot_env :: "database \<Rightarrow> boot_env" where
  "sample_boot_env db = \<lparr>bv_db = db, bv_index = None, bv_rate_ok = True, bv_now = 0, bv_ttl = 1, bv_fresh = 0, bv_cap = 0, bv_bundle_id = ''b'',
     bv_parks = sample_answer, bv_bundle = sample_bundle_env CommitOk\<rparr>"

definition no_docs :: database where
  "no_docs = demo_db\<lparr>db_docs := []\<rparr>"

text \<open>A bundle of two documents for a workspace that the index does not know.\<close>

lemma sample_status:
  "os_state (status_of (sample_boot_env no_docs) sample_boot) = Absent"
  by (simp add: status_of_def sample_boot_env_def sample_boot_def compute_status_def status_from_def list_by_prefix_def no_docs_def)

lemma sample_demotion: "bundle_demotion bundle_tools None sample_boot (bo_files sample_boot) = Inr None"
proof -
  have "list_all (\<lambda>f. check_status_clamp (t_load bundle_tools) (snd f) = None) (bo_files sample_boot)" by code_simp
  then have "list_all (\<lambda>f. demotion_reason (lane_of bundle_tools None f) = None) (bo_files sample_boot)"
    by (simp add: lane_of_def not_demoted_iff)
  then have "remap (\<lambda>f. demotion_reason (lane_of bundle_tools None f)) (bo_files sample_boot) = []"
    by (induction "bo_files sample_boot") (simp_all add: sample_boot_def)
  then show ?thesis by (simp add: bundle_demotion_def)
qed

lemma sample_decide:
  "boot_decide bundle_tools None True (status_of (sample_boot_env no_docs) sample_boot) sample_boot = Some (Commit (bo_files sample_boot))"
proof -
  have "candidate_files (status_of (sample_boot_env no_docs) sample_boot) sample_boot = bo_files sample_boot"
    by (simp add: candidate_files_def sample_status)
  moreover have "admit_paths bundle_tools (bo_files sample_boot) = Some ([], bo_files sample_boot)" by code_simp
  moreover have "boot_files bundle_tools sample_boot (bo_files sample_boot) = bo_files sample_boot" by code_simp
  moreover have "outside (boot_base (bo_workspace sample_boot) (bo_component sample_boot)) (bo_files sample_boot) = []" by code_simp
  moreover have "oversized bundle_tools (bo_max_bytes sample_boot) (bo_files sample_boot) = Some []"
    by (simp add: oversized_def sample_boot_def)
  moreover have "bo_max_files sample_boot = 0" "bo_files sample_boot \<noteq> []" "bo_can_auto sample_boot"
    "\<not> float_less (bo_confidence sample_boot) (bo_threshold sample_boot)" by (simp_all add: sample_boot_def)
  ultimately show ?thesis
    by (simp add: boot_decide_def boot_sized_def sample_demotion park_or_commit_bundle_def Let_def)
qed

lemma sample_boot_writes:
  "AWriteFile ''projects/x/AGENTS.md'' (with_block ''k'' ''two'')
     \<in> set (snd (snd (snd (bootstrap_project bundle_tools (sample_boot_env no_docs) sample_boot None d))))"
proof -
  let ?w = "commit_multifile bundle_tools (sample_bundle_env CommitOk) (boot_bundle sample_boot (bo_files sample_boot))"
  have "AWriteFile ''projects/x/AGENTS.md'' (with_block ''k'' ''two'') \<in> set (snd ?w)" by code_simp
  moreover have v: "bv_index (sample_boot_env no_docs) = None" "bv_rate_ok (sample_boot_env no_docs)"
    "bv_bundle (sample_boot_env no_docs) = sample_bundle_env CommitOk" "bo_files sample_boot \<noteq> []"
    by (simp_all add: sample_boot_env_def sample_boot_def)
  ultimately have "AWriteFile ''projects/x/AGENTS.md'' (with_block ''k'' ''two'')
      \<in> set (snd (snd (boot_apply bundle_tools (sample_boot_env no_docs) sample_boot (Some (Commit (bo_files sample_boot))) d)))"
    by (auto simp: boot_apply_def split: prod.splits sum.splits bundle_stop.splits)
  then show ?thesis
    using v sample_decide sample_status
    by (auto simp: bootstrap_project_def claim_slot_def slot_free_def Let_def split: prod.splits)
qed

theorem bootstrap_fills_gaps_only_witness:
  "is_writable_path (t_prefixes bundle_tools) ''projects/x/AGENTS.md'' \<and> \<not> be_lexists (bv_bundle (sample_boot_env no_docs)) ''projects/x/AGENTS.md''"
proof -
  obtain r slot es as where b: "bootstrap_project bundle_tools (sample_boot_env no_docs) sample_boot None empty_disk = (r, slot, es, as)"
    by (metis prod_cases4)
  have "AWriteFile ''projects/x/AGENTS.md'' (with_block ''k'' ''two'') \<in> set as" using sample_boot_writes[of empty_disk] unfolding b by simp
  from bootstrap_fills_gaps_only[OF b this] show ?thesis by blast
qed

subsection \<open>Parking whole or not at all\<close>

text \<open>The disk holds what it held, and the given entries with their locks on top.\<close>

definition on_top :: "(string \<Rightarrow> string) \<Rightarrow> disk \<Rightarrow> (string \<times> entry) list \<Rightarrow> disk \<Rightarrow> bool" where
  "on_top sha d ps d' \<longleftrightarrow> distinct (map fst ps) \<and> distinct (map (\<lambda>p. lock_name sha (p_target (snd p))) ps) \<and>
     (\<forall>(i, e) \<in> set ps. valid_pid i \<and> dget (live d) i = None \<and> dget (live d') i = Some (Doc e) \<and>
        dget (locks d) (lock_name sha (p_target e)) = None \<and> owned sha (p_target e) i d') \<and>
     (\<forall>i. i \<notin> fst ` set ps \<longrightarrow> dget (live d') i = dget (live d) i) \<and>
     (\<forall>n. n \<notin> (\<lambda>p. lock_name sha (p_target (snd p))) ` set ps \<longrightarrow> dget (locks d') n = dget (locks d) n)"

lemma on_topD:
  assumes "on_top sha d ps d'" and "(i, e) \<in> set ps"
  shows "valid_pid i" "dget (live d) i = None" "dget (live d') i = Some (Doc e)"
    "dget (locks d) (lock_name sha (p_target e)) = None" "owned sha (p_target e) i d'"
  using assms unfolding on_top_def by blast+

lemma reject_effects:
  assumes "valid_pid i" and "dget (live d) i = Some (Doc e)" and "owned sha (p_target e) i d"
  shows "dget (live (applys (snd (reject sha i tok now d)) d)) j = (if j = i then None else dget (live d) j)"
    and "dget (locks (applys (snd (reject sha i tok now d)) d)) n = (if n = lock_name sha (p_target e) then None else dget (locks d) n)"
proof -
  let ?d = "applys [RenameClaim i, PutClaimed i (Doc (stamped tok now e))] d"
  have o: "owned sha (p_target e) i ?d" using assms(2,3) by (simp add: owned_def)
  have r: "applys (snd (reject sha i tok now d)) d =
      applys [RenameClaim i, PutClaimed i (Doc (stamped tok now e)), DelClaimed i, DelLock (lock_name sha (p_target e))] d"
    using o by (simp add: reject_def andthen_def claim_present[OF assms(1,2)] finish_effects)
  show "dget (live (applys (snd (reject sha i tok now d)) d)) j = (if j = i then None else dget (live d) j)"
    unfolding r using assms(2) by simp
  show "dget (locks (applys (snd (reject sha i tok now d)) d)) n = (if n = lock_name sha (p_target e) then None else dget (locks d) n)"
    unfolding r using assms(2) by simp
qed

lemma reject_on_top:
  assumes "on_top sha d ((i, e) # ps) d'"
  shows "on_top sha d ps (applys (snd (reject sha i tok now d')) d')"
proof -
  let ?d = "applys (snd (reject sha i tok now d')) d'" and ?l = "\<lambda>p. lock_name sha (p_target (snd p))"
  note i = on_topD[OF assms, of i e, simplified]
  note eff = reject_effects[OF i(1,3,5), of tok now]
  have u: "distinct (map fst ps)" "distinct (map ?l ps)" "i \<notin> fst ` set ps" "lock_name sha (p_target e) \<notin> ?l ` set ps"
    using assms by (simp_all add: on_top_def)
  have entry: "valid_pid j \<and> dget (live d) j = None \<and> dget (live ?d) j = Some (Doc f) \<and>
      dget (locks d) (lock_name sha (p_target f)) = None \<and> owned sha (p_target f) j ?d" if m: "(j, f) \<in> set ps" for j f
  proof -
    have m': "(j, f) \<in> set ((i, e) # ps)" using m by simp
    have ne: "j \<noteq> i" "lock_name sha (p_target f) \<noteq> lock_name sha (p_target e)" using u(3,4) m by force+
    show ?thesis using on_topD[OF assms m'] ne by (simp add: eff owned_def)
  qed
  have rest: "dget (live ?d) j = dget (live d) j" if "j \<notin> fst ` set ps" for j
    using assms that i(2) by (cases "j = i") (simp_all add: eff on_top_def)
  have lock: "dget (locks ?d) n = dget (locks d) n" if "n \<notin> ?l ` set ps" for n
    using assms that i(4) by (cases "n = lock_name sha (p_target e)") (simp_all add: eff on_top_def)
  show ?thesis unfolding on_top_def using u(1,2) entry rest lock by blast
qed

lemma roll_back_on_top:
  assumes "on_top sha d ps d'" and "map fst ps = map pa_id as"
  shows "on_top sha d [] (applys (roll_back sha as d') d')"
  using assms
proof (induction as arbitrary: ps d')
  case (Cons a as)
  then obtain e qs where ps: "ps = (pa_id a, e) # qs" "map fst qs = map pa_id as" by (cases ps) auto
  from Cons.IH[OF reject_on_top[OF Cons.prems(1)[unfolded ps(1)]] ps(2)] show ?case by (simp add: Let_def applys_simps)
qed simp

lemma on_top_same:
  assumes "on_top sha d ps d'" and "\<And>j. dget (live d'') j = dget (live d') j" and "\<And>n. dget (locks d'') n = dget (locks d') n"
  shows "on_top sha d ps d''"
  using assms(1) by (simp add: on_top_def owned_def assms(2,3))

lemma acquire_lookups:
  "dget (live (applys (snd (acquire_lock sha rand target i kind x y t d)) d)) j = dget (live d) j"
  "fst (acquire_lock sha rand target i kind x y t d) = Inl e \<Longrightarrow> dget (locks (applys (snd (acquire_lock sha rand target i kind x y t d)) d)) n = dget (locks d) n"
  by (simp_all add: acquire_lock_def Let_def split: if_splits)

lemma acquire_takes:
  "fst (acquire_lock sha rand target i kind x y t d) = Inr u \<Longrightarrow> dget (locks d) (lock_name sha target) = None \<and>
    dget (locks (applys (snd (acquire_lock sha rand target i kind x y t d)) d)) n =
      (if n = lock_name sha target then Some (pending_lock i target x y t kind) else dget (locks d) n)"
  by (auto simp: acquire_lock_def Let_def pending_lock_def split: if_splits)

lemma enqueue_cases:
  assumes "enqueue sha py cap i rand pr fault t1 t2 d = (r, es)"
  obtains (full) "r = Inl QueueFull" "es = []"
  | (busy) p where "r = Inl (PathLockBusy p)" "\<And>j. dget (live (applys es d)) j = dget (live d) j" "\<And>n. dget (locks (applys es d)) n = dget (locks d) n"
  | (failed) "r = Inl WriteFailed"
  | (parked) k where "r = Inr i" "dget (locks d) (lock_name sha (pr_target pr)) = None" "k_holder k = i"
      "\<And>j. dget (live (applys es d)) j = (if j = i then Some (Doc (new_entry i pr t2)) else dget (live d) j)"
      "\<And>n. dget (locks (applys es d)) n = (if n = lock_name sha (pr_target pr) then Some (Lock k) else dget (locks d) n)"
proof -
  let ?a = "acquire_lock sha rand (pr_target pr) i ''pending'' (lock_intent py (pr_meta pr)) (lock_contradicts py (pr_meta pr)) t1"
  show thesis
  proof (cases "cap > 0 \<and> queue_size d \<ge> cap")
    case True
    with assms show thesis by (intro full) (auto simp: enqueue_def)
  next
    case False
    then have e: "(r, es) = andthen ?a (\<lambda>_. publish_entry sha i pr fault t2) d" using assms by (auto simp: enqueue_def)
    show thesis
    proof (cases "fst (?a d)")
      case (Inl err)
      have "err = PathLockBusy (pr_target pr)" using Inl by (simp add: acquire_lock_def Let_def split: if_splits)
      moreover have "r = Inl err" "es = snd (?a d)" using e Inl by (simp_all add: andthen_def split: prod.splits)
      ultimately show thesis using Inl by (intro busy[of "pr_target pr"]) (simp_all add: acquire_lookups)
    next
      case (Inr u)
      note a = acquire_takes[OF Inr]
      show thesis
      proof (cases fault)
        case NoFault
        with e Inr have "r = Inr i" "es = snd (?a d) @ [PutLive i (Doc (new_entry i pr t2))]"
          by (simp_all add: andthen_def publish_entry_def split: prod.splits)
        then show thesis
          using a by (intro parked[of "\<lparr>k_holder = i, k_target = Some (pr_target pr), k_kind = Some ''pending'', k_acquired = Some t1,
              k_intent = lock_intent py (pr_meta pr), k_contradicts = lock_contradicts py (pr_meta pr)\<rparr>"])
            (simp_all add: acquire_lookups pending_lock_def)
      next
        case BeforePublish
        with e Inr have "r = Inl WriteFailed"
          by (auto simp: andthen_def publish_entry_def release_lock_def Let_def split: prod.splits option.splits lock_doc.splits if_splits)
        then show thesis by (rule failed)
      next
        case AfterPublish
        with e Inr have "r = Inl WriteFailed" by (simp add: andthen_def publish_entry_def split: prod.splits)
        then show thesis by (rule failed)
      qed
    qed
  qed
qed

lemma enqueue_on_top:
  assumes "on_top sha d ps d'" and "valid_pid i" and "dget (live d) i = None" and "i \<notin> fst ` set ps"
    and "dget (locks d') (lock_name sha (p_target e)) = None" and "k_holder k = i"
    and live: "\<And>j. dget (live d'') j = (if j = i then Some (Doc e) else dget (live d') j)"
    and lock: "\<And>n. dget (locks d'') n = (if n = lock_name sha (p_target e) then Some (Lock k) else dget (locks d') n)"
  shows "on_top sha d (ps @ [(i, e)]) d''"
proof -
  let ?l = "\<lambda>p. lock_name sha (p_target (snd p))"
  have new: "lock_name sha (p_target e) \<notin> ?l ` set ps"
  proof
    assume "lock_name sha (p_target e) \<in> ?l ` set ps"
    then obtain j f where m: "(j, f) \<in> set ps" "lock_name sha (p_target f) = lock_name sha (p_target e)" by auto
    from on_topD(5)[OF assms(1) m(1)] assms(5) m(2) show False by (simp add: owned_def)
  qed
  then have free: "dget (locks d) (lock_name sha (p_target e)) = None" using assms(1,5) by (simp add: on_top_def)
  have entry: "valid_pid j \<and> dget (live d) j = None \<and> dget (live d'') j = Some (Doc f) \<and>
      dget (locks d) (lock_name sha (p_target f)) = None \<and> owned sha (p_target f) j d''" if m: "(j, f) \<in> set (ps @ [(i, e)])" for j f
  proof (cases "(j, f) \<in> set ps")
    case True
    have ne: "j \<noteq> i" "lock_name sha (p_target f) \<noteq> lock_name sha (p_target e)" using assms(4) new True by force+
    show ?thesis using on_topD[OF assms(1) True] ne by (simp add: live lock owned_def)
  next
    case False
    then have "j = i" "f = e" using m by simp_all
    then show ?thesis using assms(2,3,6) free by (simp add: live lock owned_def)
  qed
  have "distinct (map fst (ps @ [(i, e)]))" "distinct (map ?l (ps @ [(i, e)]))"
    using assms(1,4) new by (simp_all add: on_top_def)
  moreover have "dget (live d'') j = dget (live d) j" if "j \<notin> fst ` set (ps @ [(i, e)])" for j
    using assms(1) that by (simp add: live on_top_def)
  moreover have "dget (locks d'') n = dget (locks d) n" if "n \<notin> ?l ` set (ps @ [(i, e)])" for n
    using assms(1) that by (simp add: lock on_top_def)
  ultimately show ?thesis unfolding on_top_def using entry by blast
qed

lemma enqueue_all_on_top:
  assumes "enqueue_all t cap meta acc fas d' = (r, es)" and "on_top (t_sha256 t) d ps d'" and "map fst ps = map pa_id acc"
    and "list_all (\<lambda>(f, a). valid_pid (pa_id a) \<and> dget (live d) (pa_id a) = None) fas"
    and "distinct (map pa_id acc @ map (\<lambda>x. pa_id (snd x)) fas)"
  shows "(case r of ParkedAll is' \<Rightarrow> is' = map pa_id acc @ map (\<lambda>x. pa_id (snd x)) fas \<and>
        (\<exists>qs. on_top (t_sha256 t) d (ps @ qs) (applys es d') \<and> map fst qs = map (\<lambda>x. pa_id (snd x)) fas \<and>
           map (\<lambda>q. (p_target (snd q), p_postimage (snd q))) qs = map fst fas)
     | ParkRefused s \<Rightarrow> on_top (t_sha256 t) d [] (applys es d') | ParkRaised \<Rightarrow> True)"
  using assms
proof (induction fas arbitrary: acc ps d' r es)
  case Nil
  then show ?case by auto
next
  case (Cons fa fas)
  obtain f a where fa: "fa = (f, a)" by fastforce
  obtain x es1 where q: "enqueue (t_sha256 t) (t_py_str t) cap (pa_id a) (pa_rand a) (bundle_proposal (meta f) f) (pa_fault a) (pa_lock_time a) (pa_time a) d' = (x, es1)"
    by fastforce
  let ?e = "new_entry (pa_id a) (bundle_proposal (meta f) f) (pa_time a)"
  have p: "p_target ?e = fst f" "p_postimage ?e = snd f" by (simp_all add: new_entry_def bundle_proposal_def)
  note undone = roll_back_on_top[OF on_top_same[OF Cons.prems(2)] Cons.prems(3)]
  from q show ?case
  proof (cases rule: enqueue_cases)
    case full
    then have r: "r = ParkRefused QueueWouldOverflow" "es = roll_back (t_sha256 t) acc d'" using Cons.prems(1) q fa by simp_all
    have "on_top (t_sha256 t) d [] (applys es d')" unfolding r(2) by (rule undone) simp_all
    then show ?thesis by (simp add: r(1))
  next
    case (busy p)
    then have r: "r = ParkRefused PathLocked" "es = es1 @ roll_back (t_sha256 t) acc (applys es1 d')" using Cons.prems(1) q fa by simp_all
    have "on_top (t_sha256 t) d [] (applys (roll_back (t_sha256 t) acc (applys es1 d')) (applys es1 d'))"
      by (rule undone) (rule busy(2), rule busy(3))
    then show ?thesis by (simp add: r)
  next
    case failed
    then have "r = ParkRaised" using Cons.prems(1) q fa by simp
    then show ?thesis by simp
  next
    case (parked k)
    have ids: "valid_pid (pa_id a)" "dget (live d) (pa_id a) = None" using Cons.prems(4) fa by simp_all
    have fresh: "pa_id a \<notin> fst ` set ps"
    proof -
      have "pa_id a \<notin> set (map pa_id acc)" using Cons.prems(5) fa by auto
      then show ?thesis unfolding Cons.prems(3)[symmetric] by simp
    qed
    obtain r2 es2 where rec: "enqueue_all t cap meta (acc @ [a]) fas (applys es1 d') = (r2, es2)" by fastforce
    then have r: "r = r2" "es = es1 @ es2" using Cons.prems(1) q fa parked(1) by simp_all
    have o: "on_top (t_sha256 t) d (ps @ [(pa_id a, ?e)]) (applys es1 d')"
      by (rule enqueue_on_top[OF Cons.prems(2) ids fresh]) (use parked(2-5) in simp_all)
    have "map fst (ps @ [(pa_id a, ?e)]) = map pa_id (acc @ [a])" using Cons.prems(3) by simp
    moreover have "list_all (\<lambda>(f, a). valid_pid (pa_id a) \<and> dget (live d) (pa_id a) = None) fas" using Cons.prems(4) by simp
    moreover have "distinct (map pa_id (acc @ [a]) @ map (\<lambda>x. pa_id (snd x)) fas)" using Cons.prems(5) fa by simp
    ultimately have c: "case r2 of ParkedAll is' \<Rightarrow> is' = map pa_id (acc @ [a]) @ map (\<lambda>x. pa_id (snd x)) fas \<and>
        (\<exists>qs. on_top (t_sha256 t) d ((ps @ [(pa_id a, ?e)]) @ qs) (applys es2 (applys es1 d')) \<and> map fst qs = map (\<lambda>x. pa_id (snd x)) fas \<and>
           map (\<lambda>q. (p_target (snd q), p_postimage (snd q))) qs = map fst fas)
      | ParkRefused s \<Rightarrow> on_top (t_sha256 t) d [] (applys es2 (applys es1 d')) | ParkRaised \<Rightarrow> True"
      by (rule Cons.IH[OF rec o])
    show ?thesis
    proof (cases r2)
      case (ParkedAll is')
      then obtain qs where qs: "on_top (t_sha256 t) d ((ps @ [(pa_id a, ?e)]) @ qs) (applys es2 (applys es1 d'))"
        "map fst qs = map (\<lambda>x. pa_id (snd x)) fas" "map (\<lambda>q. (p_target (snd q), p_postimage (snd q))) qs = map fst fas"
        "is' = map pa_id (acc @ [a]) @ map (\<lambda>x. pa_id (snd x)) fas" using c by auto
      have "on_top (t_sha256 t) d (ps @ ((pa_id a, ?e) # qs)) (applys es d')" using qs(1) by (simp add: r(2))
      moreover have "map (\<lambda>q. (p_target (snd q), p_postimage (snd q))) ((pa_id a, ?e) # qs) = map fst (fa # fas)"
        using qs(3) p fa by simp
      moreover have "map fst ((pa_id a, ?e) # qs) = map (\<lambda>x. pa_id (snd x)) (fa # fas)" using qs(2) fa by simp
      ultimately show ?thesis using qs(4) fa ParkedAll r(1) by auto
    qed (use c r in simp_all)
  qed
qed

text \<open>A bundle is parked whole or not at all: when it is pending, every file of it has an entry that holds the lock of its path, and
  nothing else changed; when it is refused, because a path is busy or the queue is full, the entries and locks are what they
  were. (An error of the file system in between leaves the first entries pending.)\<close>

theorem bundle_parked_whole_or_not:
  assumes "park_bundle t cap meta fas d = (r, es)"
    and "list_all (\<lambda>(f, a). valid_pid (pa_id a) \<and> dget (live d) (pa_id a) = None) fas"
    and "distinct (map (\<lambda>x. pa_id (snd x)) fas)"
  shows "(\<exists>qs. r = ParkedAll (map fst qs) \<and> map (\<lambda>q. (p_target (snd q), p_postimage (snd q))) qs = map fst fas \<and>
        on_top (t_sha256 t) d qs (applys es d)) \<or>
     (\<exists>s. r = ParkRefused s \<and> on_top (t_sha256 t) d [] (applys es d)) \<or> r = ParkRaised"
proof (cases "would_exceed cap (length fas) d")
  case True
  then have "r = ParkRefused QueueWouldOverflow" "es = []" using assms(1) by (simp_all add: park_bundle_def)
  then show ?thesis by (simp add: on_top_def)
next
  case False
  then have e: "enqueue_all t cap meta [] fas d = (r, es)" using assms(1) by (simp add: park_bundle_def)
  have "on_top (t_sha256 t) d [] d" by (simp add: on_top_def)
  from enqueue_all_on_top[OF e this _ assms(2)] assms(3)
  have c: "case r of ParkedAll is' \<Rightarrow> is' = map (\<lambda>x. pa_id (snd x)) fas \<and>
        (\<exists>qs. on_top (t_sha256 t) d qs (applys es d) \<and> map fst qs = map (\<lambda>x. pa_id (snd x)) fas \<and>
           map (\<lambda>q. (p_target (snd q), p_postimage (snd q))) qs = map fst fas)
     | ParkRefused s \<Rightarrow> on_top (t_sha256 t) d [] (applys es d) | ParkRaised \<Rightarrow> True" by (cases r) simp_all
  show ?thesis
  proof (cases r)
    case (ParkedAll is')
    then obtain qs where "on_top (t_sha256 t) d qs (applys es d)" "map fst qs = is'"
      "map (\<lambda>q. (p_target (snd q), p_postimage (snd q))) qs = map fst fas" using c by auto
    then show ?thesis using ParkedAll by blast
  qed (use c in simp_all)
qed

definition two_parks :: "((string \<times> string) \<times> park_answer) list" where
  "two_parks = [((''projects/x/README.md'', ''one''), sample_answer 0), ((''projects/x/AGENTS.md'', ''two''), sample_answer 1)]"

theorem bundle_parked_whole_or_not_witness:
  "\<exists>r es. park_bundle bundle_tools 0 (\<lambda>f. []) two_parks empty_disk = (r, es) \<and>
    ((\<exists>qs. r = ParkedAll (map fst qs) \<and> on_top (t_sha256 bundle_tools) empty_disk qs (applys es empty_disk)) \<or>
     (\<exists>s. r = ParkRefused s \<and> on_top (t_sha256 bundle_tools) empty_disk [] (applys es empty_disk)) \<or> r = ParkRaised)"
proof -
  obtain r es where e: "park_bundle bundle_tools 0 (\<lambda>f. []) two_parks empty_disk = (r, es)" by fastforce
  have "list_all (\<lambda>(f, a). valid_pid (pa_id a) \<and> dget (live empty_disk) (pa_id a) = None) two_parks" by code_simp
  moreover have "distinct (map (\<lambda>x. pa_id (snd x)) two_parks)" by code_simp
  ultimately show ?thesis using e bundle_parked_whole_or_not[OF e] by blast
qed

end
