(* ===== verification/Spec2Isabelle.thy ===== *)
theory Spec2Isabelle
  imports PushQueue RateLimit LintChecks Gate PendingClaims GovernedLane Capture Auth GitOps Resolve AuditChain IndexReads BundleWrite Promotion Onboarding
begin

text \<open>
  A verification development for data-olympus, a server that keeps a knowledge base of governed Markdown documents in a
  git repository. All paths below are under \<^verbatim>\<open>src/src/data_olympus/\<close>.

  \<^bold>\<open>The program.\<close> Agents read documents through an index in SQLite and propose edits and memories. A proposal passes the
  checks of the tool layer and is then either committed at once in a git worktree or parked in the pending queue, where an
  operator approves or rejects it. A commit waits in the push queue for its publication. Governed-lane protection keeps
  agents from changing what is in force; the enforcement tools make an agent consult the base before it acts. A linter
  checks bundles offline, and an audit log records every answer in a hash chain.

  \<^bold>\<open>Which theory models what.\<close>

  \<^item> Shared vocabulary: \<open>Prelude\<close> (strings, dictionaries, directories, clocks, the locales of durable directories and of
    keyed passes over them), \<open>PyValue\<close> and \<open>PyDate\<close> (the values and dates of Python that the code uses), \<open>Regex\<close> (the
    backtracking matcher of \<^verbatim>\<open>re\<close>).
  \<^item> Documents: \<open>Frontmatter\<close> (\<^verbatim>\<open>format/frontmatter.py\<close>), \<open>Validate\<close> (\<^verbatim>\<open>format/validate.py\<close>: schema, validity windows,
    being in force, in SQL and in Python), \<open>Taxonomy\<close>, and the linter of \<^verbatim>\<open>format/lint.py\<close> in \<open>Cycles\<close>, \<open>Lint\<close>, \<open>LintChecks\<close>.
  \<^item> The write path: \<open>Auth\<close> (\<^verbatim>\<open>auth.py\<close>, target paths), \<open>SecretScan\<close>, \<open>WriteGate\<close>, \<open>WriteValidate\<close> (\<^verbatim>\<open>write_gate.py\<close>:
    credentials, compare-and-swap, the committed snapshot, content), \<open>WritingRules\<close> (\<^verbatim>\<open>writing_rules.py\<close>), \<open>GovernedLane\<close>
    (\<^verbatim>\<open>governed_lane.py\<close>), \<open>Capture\<close> (\<^verbatim>\<open>capture.py\<close>), \<open>GitOps\<close> (\<^verbatim>\<open>git_ops.py\<close>, \<^verbatim>\<open>audit_trailers.py\<close>), and \<^verbatim>\<open>tools_write.py\<close> in
    \<open>WriteChecks\<close> (input checks), \<open>WritePath\<close> (the critical section), \<open>Propose\<close> and \<open>Resolve\<close> (the tools) and \<open>BundleWrite\<close>
    (several files at once); \<open>Onboarding\<close> (\<^verbatim>\<open>onboarding.py\<close>, \<^verbatim>\<open>onboarding_inflight.py\<close>, \<^verbatim>\<open>tools_onboarding.py\<close>).
  \<^item> The queues: \<open>Pending\<close> (\<^verbatim>\<open>pending.py\<close>), its disk invariant in \<open>PendingDisk\<close>, its protocol with crashes in
    \<open>PendingProtocol\<close>, its guarantees in \<open>PendingClaims\<close>; \<open>PushQueue\<close> (\<^verbatim>\<open>push_queue.py\<close>); \<open>RateLimit\<close> (\<^verbatim>\<open>rate_limit.py\<close>).
  \<^item> The index: \<open>Maintenance\<close> (\<^verbatim>\<open>maintenance.py\<close>), \<open>IndexBuild\<close> (\<^verbatim>\<open>markdown_parse.py\<close>, the build in \<^verbatim>\<open>index.py\<close>),
    \<open>IndexSearch\<close>, \<open>SearchRank\<close>, \<open>SearchProps\<close>, \<open>SearchClaims\<close> (the search of \<^verbatim>\<open>index.py\<close>, \<^verbatim>\<open>trigram.py\<close>,
    \<^verbatim>\<open>search_shortcut.py\<close>, \<^verbatim>\<open>search_gate.py\<close>, \<^verbatim>\<open>embeddings.py\<close>, \<^verbatim>\<open>tools_read.py\<close>), \<open>IndexReads\<close> (reads without a query).
  \<^item> Enforcement: \<open>EnforcePolicy\<close>, \<open>Ledger\<close> (\<^verbatim>\<open>enforce_policy.py\<close>), \<open>Gate\<close> (\<^verbatim>\<open>tools_enforce.py\<close>).
  \<^item> \<open>AuditChain\<close> (\<^verbatim>\<open>audit_log.py\<close>).
  \<^item> \<open>Promotion\<close> spans components: from an agent's edit through the write path and the index build to what is in force.
\<close>

text \<open>
  \<^bold>\<open>How the code is modelled.\<close> A dataclass is a record and a tagged result a datatype; each function of the code is one
  definition that takes the state it reads and returns what it returns with the state or the actions it leaves. Every
  exception and early return is a value of a sum or option type. Three styles of state occur. The pending queue is a disk of
  three directories, and an operation is its result with the list of atomic effects it makes, so that a crash is a prefix of
  that list (\<open>op\<close>, \<open>applys\<close>). The critical section of a write and the tools return the list of the actions they take, with
  the answers of git and of the file system in an environment record. Ledger, limiter, push queue and audit log pass their
  state explicitly. Operations that the code runs under a lock are steps of an inductive relation, and a history is a
  sequence of steps.

  \<^bold>\<open>What the lemmas show.\<close> For each component: the invariant of its state and that every operation, and every crash inside
  one, keeps it; the result of each operation on each branch; and the contract towards its callers. The properties named
  \<open>C1\<close>, \<open>C2\<close> and so on are the ones a reader should start with: exclusion of writers and no decision presented twice in
  the pending queue; that an edit which lands passed every check, that what is reported about a commit is true, and that
  the operator's decision follows the protocol of the queue; that agents cannot bring a document in force, and the one way
  in which they can; that ids stay unique and targets resolve; that a filtered search returns only what is in force, its
  order and bounds; that gates clear only on a consult; that the audit chain pins the history. Several properties state
  where the code leaves what its documentation says.

  \<^bold>\<open>Interfaces.\<close> \<open>durable_dir\<close> (what a directory promises) and \<open>keyed_pass\<close> (a pass over named files) in \<open>Prelude\<close>,
  interpreted for file maps and for the drain of the push queue; \<open>in_force_surface\<close> in \<open>Validate\<close>, interpreted for the SQL
  filter; \<open>id_keeper\<close> and \<open>reranker\<close> in \<open>SearchProps\<close> (what a reranking may do to the hits), interpreted for every
  reranker of the server and for the stack it builds.

  \<^bold>\<open>Parameters.\<close> Code that is not in the repository is an argument: \<^verbatim>\<open>yaml.safe_load\<close> and \<^verbatim>\<open>safe_dump\<close>, JSON, the digests,
  \<^verbatim>\<open>str()\<close> of values that are no strings, git and the file system (answers in the records \<open>env\<close>, \<open>bundle_env\<close>, \<open>git_view\<close>),
  the full-text engine (which rows match an expression, with which score), the embedding model, the vendored prose linter,
  the clock and random tokens. Hypotheses about them (the digest is injective on the texts at hand, YAML loads what it
  dumped, git prints a message with a NUL behind it) are premises of the theorems that need them, each with a witness.

  \<^bold>\<open>Bounds and termination.\<close> Strings are lists of characters below code point 256. Floats are real numbers, with infinities
  and NaN where a comparison meets them (\<open>pyfloat\<close>). The regular expressions match structurally, an unbounded repetition
  bounded by the rest of the text, so no fuel runs out. \<open>nat_digits\<close> gets one more unit of fuel than the number it prints.
  The depth-first search terminates by the white nodes left, the search for a free name of a log segment is a partial
  function and is proved to return.

  \<^bold>\<open>What is not modelled.\<close> The recursion limit of Python, damage to the files of the pending queue during its protocol
  (each operation has its branch for a damaged file, the protocol starts from readable ones), the wording of prompts and
  messages, the co-occurrence table, thread scheduling below the granularity of the locks, HTTP and MCP plumbing,
  configuration, importers, the command line and the viewer.
\<close>

end
